(* ===== verification/Externals.thy ===== *)
theory Externals
  imports Prelude
begin

text \<open>
  The third-party crates the cache calls, as one record of functions that every
  definition using them takes as its first argument \<open>X\<close>: \<open>http\<close> (\<open>HeaderMap\<close>,
  \<open>HeaderName\<close>, \<open>HeaderValue\<close>), \<open>url\<close>, \<open>httpdate\<close>, \<open>blake3\<close>, \<open>sha2\<close>,
  \<open>base64\<close>, \<open>hex\<close> and \<open>zstd\<close>. Nothing here is defined: what a proof needs of a
  crate is a named predicate that states the crate's documented behaviour, and
  \<open>demo\<close>, at the end, is an instance that satisfies them all, on which witnesses
  are evaluated.

  Type variables: \<open>'h\<close> is \<open>http::HeaderMap\<close>, \<open>'u\<close> is \<open>url::Url\<close>. A header name
  is its canonical lower-case text; a header value is its bytes.
\<close>

record ('h, 'u) externs =
  hm_empty :: 'h
  hm_get :: "'h \<Rightarrow> string \<Rightarrow> bytes option"
  hm_get_all :: "'h \<Rightarrow> string \<Rightarrow> bytes list"
  hm_contains :: "'h \<Rightarrow> string \<Rightarrow> bool"
  hm_iter :: "'h \<Rightarrow> (string \<times> bytes) list"
  hm_keys :: "'h \<Rightarrow> string list"
  hm_remove :: "string \<Rightarrow> 'h \<Rightarrow> 'h"
  hm_insert :: "string \<Rightarrow> bytes \<Rightarrow> 'h \<Rightarrow> 'h"
  hm_append :: "string \<Rightarrow> bytes \<Rightarrow> 'h \<Rightarrow> 'h"
  to_str :: "bytes \<Rightarrow> string option"
  value_from_str :: "string \<Rightarrow> bytes option"
  name_from_bytes :: "bytes \<Rightarrow> string option"
  url_parse :: "string \<Rightarrow> 'u option"
  url_no_fragment :: "'u \<Rightarrow> 'u"
  url_port_or_default :: "'u \<Rightarrow> nat option"
  url_scheme :: "'u \<Rightarrow> string"
  url_set_port :: "nat option \<Rightarrow> 'u \<Rightarrow> 'u"
  url_to_string :: "'u \<Rightarrow> string"
  httpdate_parse :: "string \<Rightarrow> int option"
  blake3 :: "bytes \<Rightarrow> bytes"
  sha256 :: "bytes \<Rightarrow> bytes"
  sha384 :: "bytes \<Rightarrow> bytes"
  sha512 :: "bytes \<Rightarrow> bytes"
  hex_encode :: "bytes \<Rightarrow> string"
  hex_decode :: "string \<Rightarrow> bytes option"
  b64_decode :: "string \<Rightarrow> bytes option"
  b64_url_decode :: "string \<Rightarrow> bytes option"
  b64_encode :: "bytes \<Rightarrow> string"
  b64_url_error :: "string \<Rightarrow> string"
  zstd_encode :: "bytes \<Rightarrow> bytes"
  zstd_decode :: "bytes \<Rightarrow> bytes option"

subsection \<open>Documented behaviour\<close>

definition name_char :: "char \<Rightarrow> bool" where
  "name_char c \<longleftrightarrow> is_alpha c \<or> is_digit c \<or> c = CHR ''-''"

definition is_name :: "('h, 'u) externs \<Rightarrow> string \<Rightarrow> bool" where
  "is_name X n \<longleftrightarrow> name_from_bytes X n = Some n"

text \<open>
  \<open>HeaderName::from_bytes\<close> lower-cases a token and accepts one made of letters,
  digits and hyphens.
\<close>

definition header_name_ok :: "('h, 'u) externs \<Rightarrow> bool" where
  "header_name_ok X \<longleftrightarrow>
     (\<forall>s n. name_from_bytes X s = Some n \<longrightarrow> n = to_lower s \<and> is_name X n)
     \<and> (\<forall>s. s \<noteq> [] \<longrightarrow> length s \<le> 64 \<longrightarrow> list_all name_char s
          \<longrightarrow> name_from_bytes X s = Some (to_lower s))"

text \<open>
  \<open>HeaderMap\<close> is a multimap: a name has its values in the order they were
  appended; \<open>get\<close> gives the first, \<open>insert\<close> replaces them all, \<open>remove\<close> drops
  them all; iterating gives every pair, the values of one name in order.
\<close>

definition header_map_ok :: "('h, 'u) externs \<Rightarrow> bool" where
  "header_map_ok X \<longleftrightarrow>
     (\<forall>h n. hm_get X h n = (case hm_get_all X h n of [] \<Rightarrow> None | v # _ \<Rightarrow> Some v))
     \<and> (\<forall>h n. hm_contains X h n \<longleftrightarrow> hm_get_all X h n \<noteq> [])
     \<and> (\<forall>n. hm_get_all X (hm_empty X) n = [])
     \<and> (\<forall>h n m. is_name X n \<longrightarrow> is_name X m \<longrightarrow>
          hm_get_all X (hm_remove X n h) m = (if m = n then [] else hm_get_all X h m))
     \<and> (\<forall>h n v m. is_name X n \<longrightarrow> is_name X m \<longrightarrow>
          hm_get_all X (hm_insert X n v h) m = (if m = n then [v] else hm_get_all X h m))
     \<and> (\<forall>h n v m. is_name X n \<longrightarrow> is_name X m \<longrightarrow>
          hm_get_all X (hm_append X n v h) m = hm_get_all X h m @ (if m = n then [v] else []))
     \<and> (\<forall>h n. is_name X n \<longrightarrow>
          map snd (filter (\<lambda>p. fst p = n) (hm_iter X h)) = hm_get_all X h n)
     \<and> (\<forall>h. set (hm_keys X h) = fst ` set (hm_iter X h))
     \<and> (\<forall>h p. p \<in> set (hm_iter X h) \<longrightarrow> is_name X (fst p))"

text \<open>\<open>zstd::stream::decode_all\<close> undoes \<open>encode_all\<close>.\<close>

definition zstd_ok :: "('h, 'u) externs \<Rightarrow> bool" where
  "zstd_ok X \<longleftrightarrow> (\<forall>b. zstd_decode X (zstd_encode X b) = Some b)"

text \<open>\<open>hex::encode\<close> is two lower-case hexadecimal digits a byte, and is injective.\<close>

definition hex_ok :: "('h, 'u) externs \<Rightarrow> bool" where
  "hex_ok X \<longleftrightarrow>
     (\<forall>b. length (hex_encode X b) = 2 * length b \<and> list_all is_hexdigit (hex_encode X b))
     \<and> inj (hex_encode X)"

text \<open>
  \<open>base64\<close> decodes what it encodes, and its text is letters, digits, \<open>+\<close>, \<open>/\<close>
  and \<open>=\<close>.
\<close>

definition b64_char :: "char \<Rightarrow> bool" where
  "b64_char c \<longleftrightarrow> is_alpha c \<or> is_digit c \<or> c \<in> set ''+/=''"

definition b64_ok :: "('h, 'u) externs \<Rightarrow> bool" where
  "b64_ok X \<longleftrightarrow>
     (\<forall>b. b64_decode X (b64_encode X b) = Some b \<and> list_all b64_char (b64_encode X b))"

text \<open>The SHA-2 digests have their standard's length.\<close>

definition sha2_ok :: "('h, 'u) externs \<Rightarrow> bool" where
  "sha2_ok X \<longleftrightarrow>
     (\<forall>b. length (sha256 X b) = 32 \<and> length (sha384 X b) = 48 \<and> length (sha512 X b) = 64)"

text \<open>
  No other body has this body's BLAKE3 address. The whole of content addressing
  rests on it; it is assumed of a named body, never of all of them.
\<close>

definition collision_free :: "('h, 'u) externs \<Rightarrow> bytes \<Rightarrow> bool" where
  "collision_free X b \<longleftrightarrow> (\<forall>b'. blake3 X b' = blake3 X b \<longrightarrow> b' = b)"

subsection \<open>An instance\<close>

definition demo_hex_digit :: "nat \<Rightarrow> char" where
  "demo_hex_digit n = char_of (if n < 10 then 48 + n else 87 + n)"

fun demo_hex :: "bytes \<Rightarrow> string" where
  "demo_hex [] = []"
| "demo_hex (c # cs) = demo_hex_digit ((of_char c :: nat) div 16)
     # demo_hex_digit ((of_char c :: nat) mod 16) # demo_hex cs"

definition demo_nibble :: "char \<Rightarrow> nat option" where
  "demo_nibble c = (let n = (of_char c :: nat) in
     if 48 \<le> n \<and> n \<le> 57 then Some (n - 48)
     else if 97 \<le> n \<and> n \<le> 102 then Some (n - 87) else None)"

fun demo_unhex :: "string \<Rightarrow> bytes option" where
  "demo_unhex [] = Some []"
| "demo_unhex [_] = None"
| "demo_unhex (a # b # r) =
     (case (demo_nibble a, demo_nibble b) of
        (Some x, Some y) \<Rightarrow> map_option (\<lambda>cs. char_of (16 * x + y) # cs) (demo_unhex r)
      | _ \<Rightarrow> None)"

definition demo_name :: "bytes \<Rightarrow> string option" where
  "demo_name s = (if s \<noteq> [] \<and> list_all name_char s then Some (to_lower s) else None)"

text \<open>
  The instance's headers are an association list of named pairs, its URLs are
  strings, its dates are decimal seconds, its BLAKE3 is the identity, its SHA-2 pads
  or cuts to the digest's length, its base64 is hexadecimal, and its compressor puts
  one byte in front.
\<close>

definition demo :: "((string \<times> bytes) list, string) externs" where
  "demo = \<lparr>
     hm_empty = [],
     hm_get = (\<lambda>h n. map_of h n),
     hm_get_all = (\<lambda>h n. map snd (filter (\<lambda>p. fst p = n) h)),
     hm_contains = (\<lambda>h n. filter (\<lambda>p. fst p = n) h \<noteq> []),
     hm_iter = (\<lambda>h. filter (\<lambda>p. demo_name (fst p) = Some (fst p)) h),
     hm_keys = (\<lambda>h. remdups (map fst (filter (\<lambda>p. demo_name (fst p) = Some (fst p)) h))),
     hm_remove = (\<lambda>n h. filter (\<lambda>p. fst p \<noteq> n) h),
     hm_insert = (\<lambda>n v h. filter (\<lambda>p. fst p \<noteq> n) h @ [(n, v)]),
     hm_append = (\<lambda>n v h. h @ [(n, v)]),
     to_str = Some,
     value_from_str = Some,
     name_from_bytes = demo_name,
     url_parse = Some,
     url_no_fragment = (\<lambda>u. takeWhile (\<lambda>c. c \<noteq> CHR ''#'') u),
     url_port_or_default = (\<lambda>u. None),
     url_scheme = (\<lambda>u. ''https''),
     url_set_port = (\<lambda>p u. u),
     url_to_string = (\<lambda>u. u),
     httpdate_parse = (\<lambda>s. map_option int (parse_u64 s)),
     blake3 = (\<lambda>b. b),
     sha256 = (\<lambda>b. take 32 (b @ replicate 32 (CHR 0x00))),
     sha384 = (\<lambda>b. take 48 (b @ replicate 48 (CHR 0x00))),
     sha512 = (\<lambda>b. take 64 (b @ replicate 64 (CHR 0x00))),
     hex_encode = demo_hex,
     hex_decode = demo_unhex,
     b64_decode = demo_unhex,
     b64_url_decode = demo_unhex,
     b64_encode = demo_hex,
     b64_url_error = (\<lambda>s. ''invalid''),
     zstd_encode = (\<lambda>b. CHR ''z'' # b),
     zstd_decode = (\<lambda>b. Some (tl b)) \<rparr>"

lemma lower_char_idem [simp]: "lower_char (lower_char c) = lower_char c"
  by (auto simp: lower_char_def is_upper_def of_char_of)

lemma to_lower_idem [simp]: "to_lower (to_lower s) = to_lower s"
  by (simp add: to_lower_def)

lemma name_char_lower: "name_char c \<Longrightarrow> name_char (lower_char c)"
  by (auto simp: name_char_def is_alpha_def lower_char_def is_lower_def is_upper_def of_char_of)

lemma demo_header_name_ok: "header_name_ok demo"
  by (auto simp: header_name_ok_def is_name_def demo_def demo_name_def to_lower_def
      list_all_iff name_char_lower)

lemma map_of_filter_first:
  "map_of h n = (case map snd (filter (\<lambda>p. fst p = n) h) of [] \<Rightarrow> None | v # _ \<Rightarrow> Some v)"
  by (induction h) auto

lemma demo_header_map_ok: "header_map_ok demo"
  by (auto simp: header_map_ok_def is_name_def demo_def map_of_filter_first
      intro!: arg_cong [where f = "map snd"] filter_cong split: list.splits)

lemma demo_zstd_ok: "zstd_ok demo"
  by (simp add: zstd_ok_def demo_def)

lemma demo_collision_free: "collision_free demo b"
  by (simp add: collision_free_def demo_def)

lemma demo_nibble_digit: "n < 16 \<Longrightarrow> demo_nibble (demo_hex_digit n) = Some n"
  by (auto simp: demo_nibble_def demo_hex_digit_def Let_def of_char_of)

lemma char_div_16: "(of_char c :: nat) div 16 < 16"
  by (rule less_mult_imp_div_less) (use nat_of_char_less_256 [of c] in simp)

lemma demo_unhex_hex: "demo_unhex (demo_hex b) = Some b"
proof (induction b)
  case (Cons c b)
  have "(of_char c :: nat) div 16 < 16" by (rule char_div_16)
  then show ?case using Cons by (simp add: demo_nibble_digit)
qed simp

lemma demo_hex_digits: "list_all is_hexdigit (demo_hex b)"
proof -
  have "n < 16 \<Longrightarrow> is_hexdigit (demo_hex_digit n)" for n
    by (auto simp: is_hexdigit_def is_digit_def demo_hex_digit_def of_char_of)
  then show ?thesis using char_div_16 by (induction b) auto
qed

lemma demo_hex_length: "length (demo_hex b) = 2 * length b"
  by (induction b) auto

lemma demo_hex_ok: "hex_ok demo"
proof -
  have "inj demo_hex" by (rule injI) (metis demo_unhex_hex option.inject)
  then show ?thesis by (simp add: hex_ok_def demo_def demo_hex_length demo_hex_digits)
qed

lemma hexdigit_b64: "is_hexdigit c \<Longrightarrow> b64_char c"
  by (auto simp: is_hexdigit_def b64_char_def is_alpha_def is_upper_def is_lower_def)

lemma demo_b64_ok: "b64_ok demo"
  using demo_hex_digits
  by (auto simp: b64_ok_def demo_def demo_unhex_hex list_all_iff intro: hexdigit_b64)

lemma demo_sha2_ok: "sha2_ok demo"
  by (simp add: sha2_ok_def demo_def min_def)

end
