(* ===== verification/Headers.thy ===== *)
theory Headers
  imports Externals
begin

text \<open>
  \<open>crates/syndeo-cache/src/headers.rs\<close>: parsing \<open>Cache-Control\<close>, the hop-by-hop
  and never-stored fields, what of a response's headers may be written to the
  index, and content-coding negotiation.
\<close>

subsection \<open>Cache-Control\<close>

record cache_control =
  no_store :: bool
  no_cache :: bool
  no_cache_fields :: "string list"
  no_transform :: bool
  only_if_cached :: bool
  must_revalidate :: bool
  proxy_revalidate :: bool
  must_understand :: bool
  immutable :: bool
  cc_public :: bool
  cc_private :: bool
  private_fields :: "string list"
  max_age :: "nat option"
  s_maxage :: "nat option"
  max_stale :: "nat option option"
  min_fresh :: "nat option"
  stale_while_revalidate :: "nat option"
  stale_if_error :: "nat option"

definition cc_default :: cache_control where
  "cc_default = \<lparr> no_store = False, no_cache = False, no_cache_fields = [],
     no_transform = False, only_if_cached = False, must_revalidate = False,
     proxy_revalidate = False, must_understand = False, immutable = False,
     cc_public = False, cc_private = False, private_fields = [], max_age = None,
     s_maxage = None, max_stale = None, min_fresh = None,
     stale_while_revalidate = None, stale_if_error = None \<rparr>"

text \<open>
  \<open>split_directives\<close> walks the value once with the current piece, whether it is
  inside quotes, and whether the last character was a backslash inside quotes.
\<close>

definition flush_piece :: "string \<Rightarrow> string list" where
  "flush_piece cur = (if trim cur \<noteq> [] then [trim cur] else [])"

fun split_directives_from :: "string \<Rightarrow> bool \<Rightarrow> bool \<Rightarrow> string \<Rightarrow> string list" where
  "split_directives_from cur in_quotes escaped [] = flush_piece cur"
| "split_directives_from cur in_quotes escaped (ch # rest) =
     (if escaped then split_directives_from (cur @ [ch]) in_quotes False rest
      else if ch = CHR 0x5C \<and> in_quotes
        then split_directives_from (cur @ [ch]) in_quotes True rest
      else if ch = CHR 0x22
        then split_directives_from (cur @ [ch]) (\<not> in_quotes) False rest
      else if ch = CHR '','' \<and> \<not> in_quotes
        then flush_piece cur @ split_directives_from [] in_quotes False rest
      else split_directives_from (cur @ [ch]) in_quotes False rest)"

definition split_directives :: "string \<Rightarrow> string list" where
  "split_directives value = split_directives_from [] False False value"

text \<open>\<open>str::replace\<close> of a backslash and a quote by the quote.\<close>

fun unescape_quotes :: "string \<Rightarrow> string" where
  "unescape_quotes (a # b # r) =
     (if a = CHR 0x5C \<and> b = CHR 0x22 then CHR 0x22 # unescape_quotes r
      else a # unescape_quotes (b # r))"
| "unescape_quotes s = s"

definition unquote :: "string \<Rightarrow> string" where
  "unquote v =
     (if 2 \<le> length v \<and> hd v = CHR 0x22 \<and> last v = CHR 0x22
      then unescape_quotes (take (length v - 2) (drop 1 v)) else v)"

definition directive_arg :: "string \<Rightarrow> string \<times> string option" where
  "directive_arg d = (case split_once (CHR ''='') d of
       Some (n, v) \<Rightarrow> (trim n, Some (unquote (trim v)))
     | None \<Rightarrow> (trim d, None))"

definition arg_secs :: "string option \<Rightarrow> nat option" where
  "arg_secs arg = (case arg of None \<Rightarrow> None | Some v \<Rightarrow> parse_u64 (trim v))"

definition comma_fields :: "string \<Rightarrow> string list" where
  "comma_fields v = filter (\<lambda>f. f \<noteq> []) (map (\<lambda>f. to_lower (trim f)) (split_on (CHR '','') v))"

definition arg_fields :: "string option \<Rightarrow> string list" where
  "arg_fields arg = (case arg of None \<Rightarrow> [] | Some v \<Rightarrow> comma_fields v)"

definition absorb_directive :: "string \<Rightarrow> cache_control \<Rightarrow> cache_control" where
  "absorb_directive d cc =
     (let (name, arg) = directive_arg d; lname = to_lower name in
      if lname = ''no-store'' then cc\<lparr>no_store := True\<rparr>
      else if lname = ''no-cache''
        then cc\<lparr>no_cache := True, no_cache_fields := no_cache_fields cc @ arg_fields arg\<rparr>
      else if lname = ''no-transform'' then cc\<lparr>no_transform := True\<rparr>
      else if lname = ''only-if-cached'' then cc\<lparr>only_if_cached := True\<rparr>
      else if lname = ''must-revalidate'' then cc\<lparr>must_revalidate := True\<rparr>
      else if lname = ''proxy-revalidate'' then cc\<lparr>proxy_revalidate := True\<rparr>
      else if lname = ''must-understand'' then cc\<lparr>must_understand := True\<rparr>
      else if lname = ''immutable'' then cc\<lparr>immutable := True\<rparr>
      else if lname = ''public'' then cc\<lparr>cc_public := True\<rparr>
      else if lname = ''private''
        then cc\<lparr>cc_private := True, private_fields := private_fields cc @ arg_fields arg\<rparr>
      else if lname = ''max-age'' then cc\<lparr>max_age := arg_secs arg\<rparr>
      else if lname = ''s-maxage'' then cc\<lparr>s_maxage := arg_secs arg\<rparr>
      else if lname = ''max-stale'' then cc\<lparr>max_stale := Some (arg_secs arg)\<rparr>
      else if lname = ''min-fresh'' then cc\<lparr>min_fresh := arg_secs arg\<rparr>
      else if lname = ''stale-while-revalidate''
        then cc\<lparr>stale_while_revalidate := arg_secs arg\<rparr>
      else if lname = ''stale-if-error'' then cc\<lparr>stale_if_error := arg_secs arg\<rparr>
      else cc)"

definition absorb :: "string \<Rightarrow> cache_control \<Rightarrow> cache_control" where
  "absorb value cc = fold absorb_directive (split_directives value) cc"

definition cc_parse :: "string \<Rightarrow> cache_control" where
  "cc_parse value = absorb value cc_default"

text \<open>Values of a field that are text; \<open>to_str\<close> refuses the others.\<close>

definition text_values :: "('h, 'u) externs \<Rightarrow> 'h \<Rightarrow> string \<Rightarrow> string list" where
  "text_values X h n = List.map_filter (to_str X) (hm_get_all X h n)"

definition pragma_no_cache :: "string \<Rightarrow> bool" where
  "pragma_no_cache s = list_ex (\<lambda>d. eq_ic (trim d) ''no-cache'') (split_on (CHR '','') s)"

definition cc_from_headers :: "('h, 'u) externs \<Rightarrow> 'h \<Rightarrow> cache_control" where
  "cc_from_headers X h =
     (let vs = text_values X h ''cache-control''; cc = fold absorb vs cc_default in
      if vs = [] \<and> list_ex pragma_no_cache (text_values X h ''pragma'')
      then cc\<lparr>no_cache := True\<rparr> else cc)"

definition has_explicit_expiry :: "cache_control \<Rightarrow> bool" where
  "has_explicit_expiry cc \<longleftrightarrow> max_age cc \<noteq> None \<or> s_maxage cc \<noteq> None \<or> cc_public cc"

subsection \<open>Dates\<close>

definition parse_http_date :: "('h, 'u) externs \<Rightarrow> string \<Rightarrow> nat option" where
  "parse_http_date X raw = (case httpdate_parse X (trim raw) of
       None \<Rightarrow> None
     | Some t \<Rightarrow> if t < 0 then None else Some (nat t))"

definition header_text :: "('h, 'u) externs \<Rightarrow> 'h \<Rightarrow> string \<Rightarrow> string option" where
  "header_text X h n = Option.bind (hm_get X h n) (to_str X)"

definition header_date :: "('h, 'u) externs \<Rightarrow> 'h \<Rightarrow> string \<Rightarrow> nat option" where
  "header_date X h n = Option.bind (header_text X h n) (parse_http_date X)"

subsection \<open>Fields that are never stored\<close>

definition HOP_BY_HOP :: "string list" where
  "HOP_BY_HOP = [''connection'', ''proxy-connection'', ''keep-alive'',
     ''proxy-authenticate'', ''proxy-authorization'', ''te'', ''trailer'',
     ''transfer-encoding'', ''upgrade'']"

definition is_hop_by_hop :: "string \<Rightarrow> string list \<Rightarrow> bool" where
  "is_hop_by_hop name tokens \<longleftrightarrow>
     to_lower name \<in> set HOP_BY_HOP \<or> to_lower name \<in> set tokens"

definition connection_tokens :: "('h, 'u) externs \<Rightarrow> 'h \<Rightarrow> string list" where
  "connection_tokens X h = concat (map comma_fields (text_values X h ''connection''))"

definition sanitize :: "('h, 'u) externs \<Rightarrow> 'h \<Rightarrow> (string \<times> string) list" where
  "sanitize X h =
     (let tokens = connection_tokens X h in
      List.map_filter (\<lambda>(name, value). map_option (\<lambda>v. (name, v)) (to_str X value))
        (filter (\<lambda>(name, _). \<not> is_hop_by_hop name tokens) (hm_iter X h)))"

definition NEVER_STORED :: "string list" where
  "NEVER_STORED = [''set-cookie'', ''set-cookie2'']"

definition is_never_stored :: "string \<Rightarrow> bool" where
  "is_never_stored name = list_ex (\<lambda>never. eq_ic name never) NEVER_STORED"

definition strip_never_stored :: "('h, 'u) externs \<Rightarrow> 'h \<Rightarrow> 'h" where
  "strip_never_stored X h = fold (hm_remove X) NEVER_STORED h"

text \<open>\<open>StoredHeaders\<close> wraps the pairs; \<open>for_storage\<close> is its only constructor.\<close>

definition for_storage :: "('h, 'u) externs \<Rightarrow> 'h \<Rightarrow> (string \<times> string) list" where
  "for_storage X h = filter (\<lambda>(name, _). \<not> is_never_stored name) (sanitize X h)"

subsection \<open>Content codings\<close>

definition coding_name :: "string \<Rightarrow> string option" where
  "coding_name raw =
     (let name = to_lower (trim raw) in
      if name = [] then None
      else if name = ''x-gzip'' then Some ''gzip''
      else if name = ''x-compress'' then Some ''compress''
      else Some name)"

text \<open>
  Whether \<open>q.parse::<f32>()\<close> succeeds with a value above zero: the standard
  library's grammar (a sign, digits around a point, an exponent, \<open>inf\<close>,
  \<open>infinity\<close>, \<open>nan\<close>), and a value that rounds to zero only at or below half
  of the least subnormal, \<open>2^-150\<close>.
\<close>

definition parse_exp :: "string \<Rightarrow> int option" where
  "parse_exp s =
     (let neg = (s \<noteq> [] \<and> hd s = CHR ''-'');
          ds = (if s \<noteq> [] \<and> (hd s = CHR ''-'' \<or> hd s = CHR ''+'') then tl s else s) in
      if ds = [] \<or> \<not> list_all is_digit ds then None
      else Some (if neg then - int (num_of_digits ds) else int (num_of_digits ds)))"

definition number_above_zero :: "string \<Rightarrow> bool" where
  "number_above_zero s =
     (let ip = takeWhile is_digit s; r = dropWhile is_digit s;
          point = (r \<noteq> [] \<and> hd r = CHR ''.'');
          fp = (if point then takeWhile is_digit (tl r) else []);
          r2 = (if point then dropWhile is_digit (tl r) else r);
          e = (if r2 = [] then Some 0
               else if hd r2 = CHR ''e'' then parse_exp (tl r2) else None);
          m = num_of_digits (ip @ fp) in
      if ip = [] \<and> fp = [] then False
      else (case e of None \<Rightarrow> False
        | Some k \<Rightarrow>
            let k' = k - int (length fp) in
            if 0 \<le> k' then 0 < m else 10 ^ nat (- k') < m * 2 ^ 150))"

definition f32_above_zero :: "string \<Rightarrow> bool" where
  "f32_above_zero q =
     (let s = to_lower q in
      if s \<noteq> [] \<and> hd s = CHR ''-'' then False
      else let t = (if s \<noteq> [] \<and> hd s = CHR ''+'' then tl s else s) in
        t = ''inf'' \<or> t = ''infinity'' \<or> number_above_zero t)"

text \<open>One item of \<open>Accept-Encoding\<close>: its coding and whether its weight is above zero.\<close>

definition coding_weight :: "string \<Rightarrow> (string \<times> bool) option" where
  "coding_weight item =
     (case split_on (CHR '';'') item of
        [] \<Rightarrow> None
      | first # params \<Rightarrow>
          (case coding_name first of
             None \<Rightarrow> None
           | Some name \<Rightarrow>
               Some (name,
                 (case find (\<lambda>(key, _). eq_ic (trim key) ''q'')
                         (List.map_filter (split_once (CHR ''='')) params) of
                    Some (_, q) \<Rightarrow> f32_above_zero (trim q)
                  | None \<Rightarrow> True))))"

definition coding_acceptable :: "string option \<Rightarrow> string option \<Rightarrow> bool" where
  "coding_acceptable content accept =
     (case accept of
        None \<Rightarrow> True
      | Some acc \<Rightarrow>
          (let weights = List.map_filter coding_weight (split_on (CHR '','') acc);
               named = (\<lambda>coding. map_option snd (find (\<lambda>(name, _). name = coding) weights)) in
           list_all (\<lambda>coding. (case named coding of
                 Some w \<Rightarrow> w
               | None \<Rightarrow> (case named ''*'' of Some w \<Rightarrow> w | None \<Rightarrow> False)))
             (filter (\<lambda>coding. coding \<noteq> ''identity'')
               (List.map_filter coding_name
                 (split_on (CHR '','') (case content of None \<Rightarrow> [] | Some c \<Rightarrow> c))))))"

subsection \<open>What may be written to the index\<close>

lemma map_filter_set: "set (List.map_filter f xs) = {y. \<exists>x \<in> set xs. f x = Some y}"
  by (force simp: List.map_filter_def)

lemma sanitize_iff:
  "(n, v) \<in> set (sanitize X h) \<longleftrightarrow>
     (\<exists>raw. (n, raw) \<in> set (hm_iter X h) \<and> to_str X raw = Some v)
     \<and> \<not> is_hop_by_hop n (connection_tokens X h)"
  by (auto simp: sanitize_def Let_def map_filter_set)

lemma is_never_stored_iff:
  "is_never_stored n \<longleftrightarrow> to_lower n \<in> {''set-cookie'', ''set-cookie2''}"
  by (simp add: is_never_stored_def NEVER_STORED_def eq_ic_def to_lower_def lower_char_def
      is_upper_def)

text \<open>
  What \<open>StoredHeaders::for_storage\<close> writes to the index is exactly the response's
  textual fields without the hop-by-hop ones, without those its \<open>Connection\<close> header names,
  and without \<open>Set-Cookie\<close> and \<open>Set-Cookie2\<close>, whatever their case.
\<close>

theorem for_storage_exact:
  "(n, v) \<in> set (for_storage X h) \<longleftrightarrow>
     (\<exists>raw. (n, raw) \<in> set (hm_iter X h) \<and> to_str X raw = Some v)
     \<and> to_lower n \<notin> set HOP_BY_HOP
     \<and> to_lower n \<notin> set (connection_tokens X h)
     \<and> to_lower n \<notin> {''set-cookie'', ''set-cookie2''}"
  by (auto simp: for_storage_def sanitize_iff is_hop_by_hop_def is_never_stored_iff)

lemma for_storage_not_never_stored:
  "(n, v) \<in> set (for_storage X h) \<Longrightarrow> \<not> is_never_stored n"
  by (auto simp: for_storage_def)

subsection \<open>Splitting a field value into directives\<close>

text \<open>
  The state of the scan after a piece that holds no top-level comma: whether it
  ends inside quotes and after a backslash there; none if a comma would end it.
\<close>

fun directive_scan :: "bool \<Rightarrow> bool \<Rightarrow> string \<Rightarrow> (bool \<times> bool) option" where
  "directive_scan q e [] = Some (q, e)"
| "directive_scan q e (ch # r) =
     (if e then directive_scan q False r
      else if ch = CHR 0x5C \<and> q then directive_scan q True r
      else if ch = CHR 0x22 then directive_scan (\<not> q) False r
      else if ch = CHR '','' \<and> \<not> q then None
      else directive_scan q False r)"

definition plain_directive :: "string \<Rightarrow> bool" where
  "plain_directive d \<longleftrightarrow> d \<noteq> [] \<and> trim d = d \<and> directive_scan False False d = Some (False, False)"

lemma split_directives_scan:
  "directive_scan q e d = Some (q', e') \<Longrightarrow>
     split_directives_from cur q e (d @ rest) = split_directives_from (cur @ d) q' e' rest"
  by (induction q e d arbitrary: cur rule: directive_scan.induct) (auto split: if_splits)

lemma trim_space: "trim (CHR '' '' # d) = trim d"
  by (simp add: trim_def trim_start_def is_ws_def)

lemma flush_plain [simp]: "plain_directive d \<Longrightarrow> flush_piece d = [d]"
  by (simp add: flush_piece_def plain_directive_def)

lemma flush_space_plain [simp]: "plain_directive d \<Longrightarrow> flush_piece (CHR '' '' # d) = [d]"
  by (simp add: flush_piece_def plain_directive_def trim_space)

lemma split_comma:
  "split_directives_from cur False False (CHR '','' # rest)
     = flush_piece cur @ split_directives_from [] False False rest"
  by simp

lemma split_directives_join_from:
  assumes "list_all plain_directive (d # ds)" and "flush_piece (cur @ d) = [d]"
  shows "split_directives_from cur False False (join '', '' (d # ds)) = d # ds"
  using assms
proof (induction ds arbitrary: d cur)
  case Nil
  then show ?case
    using split_directives_scan [of False False d False False cur "[]"]
    by (simp add: plain_directive_def)
next
  case (Cons d' ds)
  let ?tail = "join '', '' (d' # ds)"
  have "split_directives_from cur False False (d @ '', '' @ ?tail)
      = split_directives_from (cur @ d) False False ('', '' @ ?tail)"
    using Cons.prems by (intro split_directives_scan) (simp add: plain_directive_def)
  also have "\<dots> = d # split_directives_from [] False False (CHR '' '' # ?tail)"
    using Cons.prems by simp
  also have "split_directives_from [] False False (CHR '' '' # ?tail)
      = split_directives_from [CHR '' ''] False False ?tail"
    by simp
  also have "\<dots> = d' # ds"
    using Cons.prems by (intro Cons.IH) auto
  finally show ?case by simp
qed

lemma split_directives_join:
  "list_all plain_directive ds \<Longrightarrow> split_directives (join '', '' ds) = ds"
proof (cases ds)
  case Nil
  then show ?thesis
    by (simp add: split_directives_def flush_piece_def trim_def trim_start_def trim_end_def)
next
  case (Cons d ds')
  moreover assume "list_all plain_directive ds"
  ultimately show ?thesis
    using split_directives_join_from [of d ds' "[]"] by (simp add: split_directives_def)
qed

text \<open>
  Reading a \<open>Cache-Control\<close> value written as a list of directives absorbs exactly those
  directives, in order: a comma, or a directive's name, inside a quoted argument never
  starts a directive of its own.
\<close>

theorem cc_parse_rendered:
  "list_all plain_directive ds \<Longrightarrow>
     cc_parse (join '', '' ds) = fold absorb_directive ds cc_default"
  by (simp add: cc_parse_def absorb_def split_directives_join)

theorem cc_parse_rendered_witness:
  \<open>cc_parse (join '', '' [''private="a, no-store"'', ''max-age=60''])
     = fold absorb_directive [''private="a, no-store"'', ''max-age=60''] cc_default
   \<and> \<not> no_store (cc_parse (join '', '' [''private="a, no-store"'', ''max-age=60'']))\<close>
proof -
  have plain: \<open>list_all plain_directive [''private="a, no-store"'', ''max-age=60'']\<close>
    by (simp add: plain_directive_def trim_def trim_start_def trim_end_def is_ws_def)
  show ?thesis
    unfolding cc_parse_rendered [OF plain]
    by (simp add: absorb_directive_def directive_arg_def to_lower_def lower_char_def is_upper_def
        trim_def trim_start_def trim_end_def is_ws_def cc_default_def)
qed

text \<open>A delta-seconds that is no number, as each directive treats it.\<close>

lemma absorb_max_stale_malformed:
  assumes "directive_arg d = (name, Some v)" and "to_lower name = ''max-stale''"
    and "parse_u64 (trim v) = None"
  shows "max_stale (absorb_directive d cc) = Some None"
  using assms by (simp add: absorb_directive_def arg_secs_def)

lemma absorb_max_age_malformed:
  assumes "directive_arg d = (name, Some v)" and "to_lower name = ''max-age''"
    and "parse_u64 (trim v) = None"
  shows "max_age (absorb_directive d cc) = None"
  using assms by (simp add: absorb_directive_def arg_secs_def)

end
