(* ===== verification/Errors.thy ===== *)
theory Errors
  imports Prelude
begin

text \<open>
  \<open>crates/syndeo-cache/src/error.rs\<close>: everything the cache can fail at, as a value. A fallible
  operation returns \<open>cache_error + 'a\<close>, with the error on the left.
\<close>

datatype cache_error =
    Io
  | Index string
  | Codec string
  | MissingBlob string
  | Integrity string string
  | BadIntegrity string
  | SchemaMismatch "nat option" nat
  | AlreadyOpen

type_synonym 'a cres = "cache_error + 'a"

fun is_lost_body :: "cache_error \<Rightarrow> bool" where
  "is_lost_body (MissingBlob _) \<longleftrightarrow> True"
| "is_lost_body (Integrity _ _) \<longleftrightarrow> True"
| "is_lost_body _ \<longleftrightarrow> False"

text \<open>The question mark operator.\<close>

definition bind_res :: "'e + 'a \<Rightarrow> ('a \<Rightarrow> 'e + 'b) \<Rightarrow> 'e + 'b" where
  "bind_res r f = (case r of Inl e \<Rightarrow> Inl e | Inr a \<Rightarrow> f a)"

lemma bind_res_simps [simp]:
  "bind_res (Inl e) f = Inl e"
  "bind_res (Inr a) f = f a"
  by (simp_all add: bind_res_def)

lemma bind_res_Inr: "bind_res r f = Inr b \<longleftrightarrow> (\<exists>a. r = Inr a \<and> f a = Inr b)"
  by (cases r) auto

lemma is_lost_body_iff: "is_lost_body e \<longleftrightarrow> (\<exists>n. e = MissingBlob n) \<or> (\<exists>x y. e = Integrity x y)"
  by (cases e) auto

end
