(* ===== verification/Vary.thy ===== *)
theory Vary
  imports Headers "HOL-Library.Char_ord" "HOL-Library.List_Lexorder"
begin

text \<open>
  \<open>crates/syndeo-cache/src/vary.rs\<close>: the fields a response varies on, and the
  secondary key made of the values a request has for them. Strings are compared
  byte by byte, as Rust's are.
\<close>

text \<open>The loop over the listed fields; none when it returns early on a star.\<close>

fun add_vary_fields :: "string list \<Rightarrow> string list \<Rightarrow> string list option" where
  "add_vary_fields fs [] = Some fs"
| "add_vary_fields fs (raw # rest) =
     (let field = to_lower (trim raw) in
      if field = [] then add_vary_fields fs rest
      else if field = ''*'' then None
      else add_vary_fields (if field \<in> set fs then fs else fs @ [field]) rest)"

definition listed_fields :: "('h, 'u) externs \<Rightarrow> 'h \<Rightarrow> string list" where
  "listed_fields X h = concat (map (split_on (CHR '','')) (text_values X h ''vary''))"

definition vary_fields :: "('h, 'u) externs \<Rightarrow> 'h \<Rightarrow> string list" where
  "vary_fields X h =
     (case add_vary_fields [] (listed_fields X h) of
        None \<Rightarrow> [''*'']
      | Some fs \<Rightarrow> sort fs)"

definition varies_on_everything :: "string list \<Rightarrow> bool" where
  "varies_on_everything fs \<longleftrightarrow> list_ex (\<lambda>f. f = ''*'') fs"

definition vary_part :: "('h, 'u) externs \<Rightarrow> 'h \<Rightarrow> string \<Rightarrow> string" where
  "vary_part X h field = field @ ''='' @ join '', '' (text_values X h field)"

definition vary_key :: "('h, 'u) externs \<Rightarrow> string list \<Rightarrow> 'h \<Rightarrow> string" where
  "vary_key X fs h =
     (if fs = [] then []
      else hex_encode X (take 16 (blake3 X (join [CHR 0x01] (map (vary_part X h) fs)))))"

subsection \<open>The field list\<close>

definition named_fields :: "string list \<Rightarrow> string set" where
  "named_fields raws = {f. \<exists>raw \<in> set raws. f = to_lower (trim raw) \<and> f \<noteq> []}"

lemma named_fields_Cons [simp]:
  "named_fields (raw # raws) =
     (if to_lower (trim raw) = [] then {} else {to_lower (trim raw)}) \<union> named_fields raws"
  by (auto simp: named_fields_def)

lemma named_fields_Nil [simp]: "named_fields [] = {}"
  by (simp add: named_fields_def)

lemma add_vary_fields_None:
  "add_vary_fields fs raws = None \<longleftrightarrow> ''*'' \<in> named_fields raws"
  by (induction fs raws rule: add_vary_fields.induct) (auto simp: Let_def)

lemma add_vary_fields_Some:
  "add_vary_fields fs raws = Some out \<Longrightarrow> distinct fs \<Longrightarrow>
     distinct out \<and> set out = set fs \<union> named_fields raws"
proof (induction fs raws arbitrary: out rule: add_vary_fields.induct)
  case (1 fs)
  then show ?case by simp
next
  case (2 fs raw rest)
  define f where "f = to_lower (trim raw)"
  from "2.prems"(1) have ne: "f \<noteq> ''*''"
    by (auto simp: f_def)
  show ?case
  proof (cases "f = []")
    case True
    with "2.prems" "2.IH"(1) [OF refl] show ?thesis
      by (simp add: f_def [symmetric])
  next
    case False
    with "2.prems"(1) ne have "add_vary_fields (if f \<in> set fs then fs else fs @ [f]) rest = Some out"
      by (simp add: f_def [symmetric])
    with "2.IH"(2) [OF f_def False ne] "2.prems"(2) False
    have "distinct out \<and> set out = set (if f \<in> set fs then fs else fs @ [f]) \<union> named_fields rest"
      by (simp split: if_splits)
    with False show ?thesis
      by (auto simp: f_def [symmetric] split: if_splits)
  qed
qed

lemma sort_distinct_set_eq: "distinct xs \<Longrightarrow> sort xs = sorted_list_of_set (set xs)"
  by (simp add: sorted_list_of_set_sort_remdups distinct_remdups_id)

text \<open>
  The field list of a response is a function of the set of fields its \<open>Vary\<close> headers
  name: the sorted list of their lower-case names without duplicates, or the star alone
  as soon as one of them is a star. Neither the order they are listed in nor how they are spread over
  several headers changes it.
\<close>

theorem vary_fields_canonical:
  "vary_fields X h =
     (let named = named_fields (listed_fields X h) in
      if ''*'' \<in> named then [''*''] else sorted_list_of_set named)"
proof (cases "add_vary_fields [] (listed_fields X h)")
  case None
  then have "''*'' \<in> named_fields (listed_fields X h)"
    by (simp add: add_vary_fields_None)
  with None show ?thesis by (simp add: vary_fields_def)
next
  case (Some out)
  then have "''*'' \<notin> named_fields (listed_fields X h)"
    by (metis add_vary_fields_None option.distinct(1))
  with add_vary_fields_Some [OF Some] Some show ?thesis
    by (simp add: vary_fields_def sort_distinct_set_eq)
qed

lemma varies_on_everything_iff:
  "varies_on_everything (vary_fields X h) \<longleftrightarrow> ''*'' \<in> named_fields (listed_fields X h)"
proof (cases "add_vary_fields [] (listed_fields X h)")
  case None
  then have "''*'' \<in> named_fields (listed_fields X h)"
    by (simp add: add_vary_fields_None)
  with None show ?thesis by (simp add: vary_fields_def varies_on_everything_def)
next
  case (Some out)
  then have "''*'' \<notin> named_fields (listed_fields X h)"
    by (metis add_vary_fields_None option.distinct(1))
  with add_vary_fields_Some [OF Some] Some show ?thesis
    by (auto simp: vary_fields_def varies_on_everything_def list_ex_iff)
qed

subsection \<open>The key\<close>

lemma vary_key_cong:
  "(\<And>f. f \<in> set fs \<Longrightarrow> text_values X h f = text_values X h' f) \<Longrightarrow>
     vary_key X fs h = vary_key X fs h'"
  by (simp add: vary_key_def vary_part_def cong: map_cong)

lemma join_sep_inject:
  assumes "length xs = length ys" and "c \<notin> \<Union> (set ` set xs)" and "c \<notin> \<Union> (set ` set ys)"
    and "join [c] xs = join [c] ys"
  shows "xs = ys"
  using assms
proof (induction xs ys rule: list_induct2)
  case Nil
  then show ?case by simp
next
  case (Cons x xs y ys)
  show ?case
  proof (cases xs)
    case Nil
    with Cons show ?thesis by simp
  next
    case (Cons x' xs')
    then obtain y' ys' where ys: "ys = y' # ys'"
      using \<open>length xs = length ys\<close> by (cases ys) auto
    have "x @ [c] @ join [c] xs = y @ [c] @ join [c] ys"
      using Cons.prems(3) \<open>xs = x' # xs'\<close> ys by simp
    then have "x = y \<and> join [c] xs = join [c] ys"
      using Cons.prems(1,2) by (auto simp: append_eq_append_conv2 append_eq_Cons_conv Cons_eq_append_conv)
    with Cons.IH Cons.prems(1,2) show ?thesis by simp
  qed
qed

text \<open>
  Two requests have the same key for a field list exactly when they have, for each
  field of it, the same values, joined: as long as the hash does not collide on the
  two texts hashed, and the values hold no byte 1, which separates the fields.
\<close>

theorem vary_key_selects:
  assumes no_sep: "\<And>f. f \<in> set fs \<Longrightarrow>
      CHR 0x01 \<notin> set (vary_part X h f) \<and> CHR 0x01 \<notin> set (vary_part X h' f)"
    and hash: "vary_key X fs h = vary_key X fs h' \<Longrightarrow> fs \<noteq> [] \<Longrightarrow>
      join [CHR 0x01] (map (vary_part X h) fs) = join [CHR 0x01] (map (vary_part X h') fs)"
  shows "vary_key X fs h = vary_key X fs h' \<longleftrightarrow>
    (\<forall>f \<in> set fs. join '', '' (text_values X h f) = join '', '' (text_values X h' f))"
proof
  assume eq: "vary_key X fs h = vary_key X fs h'"
  show "\<forall>f \<in> set fs. join '', '' (text_values X h f) = join '', '' (text_values X h' f)"
  proof (cases "fs = []")
    case False
    have "map (vary_part X h) fs = map (vary_part X h') fs"
      using no_sep hash [OF eq False] by (intro join_sep_inject [of _ _ "CHR 0x01"]) auto
    then show ?thesis by (auto simp: vary_part_def)
  qed simp
next
  assume "\<forall>f \<in> set fs. join '', '' (text_values X h f) = join '', '' (text_values X h' f)"
  then have "map (vary_part X h) fs = map (vary_part X h') fs"
    by (simp add: vary_part_def)
  then show "vary_key X fs h = vary_key X fs h'"
    by (simp only: vary_key_def)
qed

theorem vary_key_selects_witness:
  "vary_key demo [''accept''] [(''accept'', ''br'')] = vary_key demo [''accept''] [(''accept'', ''gz'')]
     \<longleftrightarrow> (\<forall>f \<in> {''accept''}. join '', '' (text_values demo [(''accept'', ''br'')] f)
                           = join '', '' (text_values demo [(''accept'', ''gz'')] f))"
  using vary_key_selects [of "[''accept'']" demo "[(''accept'', ''br'')]" "[(''accept'', ''gz'')]"]
  by (simp add: vary_part_def vary_key_def demo_def text_values_def List.map_filter_def
      demo_hex_digit_def)

end
