(* ===== verification/Range.thy ===== *)
theory Range
  imports Headers "HOL-Library.Product_Lexorder"
begin

text \<open>
  \<open>crates/syndeo-cache/src/range.rs\<close>: \<open>Range\<close> and \<open>Content-Range\<close>, \<open>If-Range\<close>, and
  the coverage of a partly stored body.
\<close>

subsection \<open>Requested ranges\<close>

datatype range_spec = FromTo nat nat | From nat | Suffix nat

record resolved =
  r_first :: nat
  r_last :: nat
  r_complete :: nat

definition resolved_len :: "resolved \<Rightarrow> nat" where
  "resolved_len r = wrap64 (r_last r - r_first r + 1)"

definition resolved_half_open :: "resolved \<Rightarrow> nat \<times> nat" where
  "resolved_half_open r = (r_first r, wrap64 (r_last r + 1))"

definition content_range :: "resolved \<Rightarrow> string" where
  "content_range r = ''bytes '' @ show_nat (r_first r) @ ''-'' @ show_nat (r_last r)
     @ ''/'' @ show_nat (r_complete r)"

definition parse_spec :: "string \<Rightarrow> range_spec option" where
  "parse_spec part =
     (case split_once (CHR ''-'') part of
        None \<Rightarrow> None
      | Some (a, b) \<Rightarrow>
          (let start = trim a; end' = trim b in
           if start = [] \<and> end' \<noteq> [] then
             (case parse_u64 end' of
                None \<Rightarrow> None
              | Some n \<Rightarrow> if n = 0 then None else Some (Suffix n))
           else if start \<noteq> [] \<and> end' = [] then map_option From (parse_u64 start)
           else if start \<noteq> [] \<and> end' \<noteq> [] then
             (case parse_u64 start of
                None \<Rightarrow> None
              | Some fb \<Rightarrow>
                  (case parse_u64 end' of
                     None \<Rightarrow> None
                   | Some lb \<Rightarrow> if lb < fb then None else Some (FromTo fb lb)))
           else None))"

fun parse_specs :: "string list \<Rightarrow> range_spec list option" where
  "parse_specs [] = Some []"
| "parse_specs (p # ps) =
     (let part = trim p in
      if part = [] then parse_specs ps
      else (case parse_spec part of
              None \<Rightarrow> None
            | Some s \<Rightarrow> map_option (\<lambda>ss. s # ss) (parse_specs ps)))"

definition parse_range :: "string \<Rightarrow> range_spec list option" where
  "parse_range value =
     (case strip_prefix ''bytes'' (trim value) of
        None \<Rightarrow> None
      | Some r \<Rightarrow>
          (case strip_prefix ''='' (trim_start r) of
             None \<Rightarrow> None
           | Some rest \<Rightarrow>
               (case parse_specs (split_on (CHR '','') rest) of
                  None \<Rightarrow> None
                | Some out \<Rightarrow> if out = [] then None else Some out)))"

fun resolve :: "range_spec \<Rightarrow> nat \<Rightarrow> resolved option" where
  "resolve (FromTo fb lb) complete_len =
     (if complete_len = 0 then None
      else if complete_len \<le> fb then None
      else Some \<lparr>r_first = fb, r_last = min lb (complete_len - 1), r_complete = complete_len\<rparr>)"
| "resolve (From fb) complete_len =
     (if complete_len = 0 then None
      else if complete_len \<le> fb then None
      else Some \<lparr>r_first = fb, r_last = complete_len - 1, r_complete = complete_len\<rparr>)"
| "resolve (Suffix len) complete_len =
     (if complete_len = 0 then None
      else Some \<lparr>r_first = complete_len - min len complete_len, r_last = complete_len - 1,
                 r_complete = complete_len\<rparr>)"

subsection \<open>Content-Range\<close>

record content_range_t =
  c_first :: nat
  c_last :: nat
  c_complete :: "nat option"

text \<open>
  The two sums are \<open>u64\<close> additions without a check, which wrap in a release
  build: a last byte of \<open>u64::MAX\<close> gives a length and an end of zero.
\<close>

definition content_range_len :: "content_range_t \<Rightarrow> nat" where
  "content_range_len c = wrap64 (c_last c - c_first c + 1)"

definition content_range_half_open :: "content_range_t \<Rightarrow> nat \<times> nat" where
  "content_range_half_open c = (c_first c, wrap64 (c_last c + 1))"

definition parse_content_range :: "string \<Rightarrow> content_range_t option" where
  "parse_content_range value =
     (case strip_prefix ''bytes'' (trim value) of
        None \<Rightarrow> None
      | Some r \<Rightarrow>
          (case split_once (CHR ''/'') (trim_start r) of
             None \<Rightarrow> None
           | Some (rng, complete) \<Rightarrow>
               (let range = trim rng in
                if range = ''*'' then None
                else (case split_once (CHR ''-'') range of
                  None \<Rightarrow> None
                | Some (f, l) \<Rightarrow>
                    (case parse_u64 (trim f) of
                       None \<Rightarrow> None
                     | Some fb \<Rightarrow>
                         (case parse_u64 (trim l) of
                            None \<Rightarrow> None
                          | Some lb \<Rightarrow>
                              if lb < fb then None
                              else let whole = trim complete in
                                if whole = ''*''
                                then Some \<lparr>c_first = fb, c_last = lb, c_complete = None\<rparr>
                                else (case parse_u64 whole of
                                    None \<Rightarrow> None
                                  | Some tot \<Rightarrow>
                                      if tot \<le> lb then None
                                      else Some \<lparr>c_first = fb, c_last = lb,
                                                 c_complete = Some tot\<rparr>)))))))"

definition is_multipart :: "('h, 'u) externs \<Rightarrow> 'h \<Rightarrow> bool" where
  "is_multipart X h =
     (case header_text X h ''content-type'' of
        None \<Rightarrow> False
      | Some v \<Rightarrow> starts_with ''multipart/byteranges'' (to_lower (trim v)))"

definition if_range_matches :: "('h, 'u) externs \<Rightarrow> string \<Rightarrow> 'h \<Rightarrow> bool" where
  "if_range_matches X val stored =
     (let value = trim val in
      if starts_with [CHR 0x22] value \<or> starts_with ''W/'' value then
        if starts_with ''W/'' value then False
        else (case header_text X stored ''etag'' of
            None \<Rightarrow> False
          | Some etag \<Rightarrow> trim etag = value \<and> \<not> starts_with ''W/'' (trim etag))
      else (case (parse_http_date X value, header_date X stored ''last-modified'') of
          (Some a, Some b) \<Rightarrow> a = b
        | _ \<Rightarrow> False))"

subsection \<open>Coverage\<close>

type_synonym runs = "(nat \<times> nat) list"

text \<open>
  \<open>normalize\<close>: after sorting, the head of the list is the run being grown
  (\<open>merged.last_mut()\<close>).
\<close>

fun merge_runs :: "runs \<Rightarrow> runs" where
  "merge_runs ((s, e) # (s', e') # rest) =
     (if s' \<le> e then merge_runs ((s, max e e') # rest)
      else (s, e) # merge_runs ((s', e') # rest))"
| "merge_runs rs = rs"

definition normalize :: "runs \<Rightarrow> runs" where
  "normalize rs = merge_runs (sort rs)"

definition from_sorted :: "runs \<Rightarrow> runs" where
  "from_sorted rs = normalize rs"

definition add_run :: "nat \<Rightarrow> nat \<Rightarrow> runs \<Rightarrow> runs" where
  "add_run start end' c = (if start < end' then normalize (c @ [(start, end')]) else c)"

definition covers :: "runs \<Rightarrow> nat \<Rightarrow> nat \<Rightarrow> bool" where
  "covers c start end' \<longleftrightarrow>
     end' \<le> start \<or> list_ex (\<lambda>(s, e). s \<le> start \<and> end' \<le> e) c"

fun missing_from :: "nat \<Rightarrow> nat \<Rightarrow> runs \<Rightarrow> runs" where
  "missing_from cursor end' [] = (if cursor < end' then [(cursor, end')] else [])"
| "missing_from cursor end' ((s, e) # rest) =
     (if e \<le> cursor then missing_from cursor end' rest
      else if end' \<le> s then (if cursor < end' then [(cursor, end')] else [])
      else (if cursor < s then [(cursor, min s end')] else [])
        @ (let cursor' = max cursor e in
           if end' \<le> cursor' then [] else missing_from cursor' end' rest))"

definition missing :: "runs \<Rightarrow> nat \<Rightarrow> nat \<Rightarrow> runs" where
  "missing c start end' = missing_from start end' c"

subsection \<open>Resolving a range\<close>

text \<open>The bytes a range asks for, of a representation of a given length.\<close>

fun spec_bytes :: "range_spec \<Rightarrow> nat \<Rightarrow> nat set" where
  "spec_bytes (FromTo a b) n = {a..b} \<inter> {..<n}"
| "spec_bytes (From a) n = {a..<n}"
| "spec_bytes (Suffix k) n = {n - k..<n}"

fun spec_ok :: "range_spec \<Rightarrow> bool" where
  "spec_ok (FromTo a b) \<longleftrightarrow> a \<le> b"
| "spec_ok (From a) \<longleftrightarrow> True"
| "spec_ok (Suffix k) \<longleftrightarrow> 0 < k"

lemma resolve_bytes:
  "spec_ok s \<Longrightarrow> (case resolve s n of
       None \<Rightarrow> spec_bytes s n = {}
     | Some r \<Rightarrow> r_first r \<le> r_last r \<and> r_last r < n \<and> r_complete r = n
         \<and> {r_first r..r_last r} = spec_bytes s n)"
  by (cases "(s, n)" rule: resolve.cases) auto

lemma resolve_Some:
  "resolve s n = Some r \<Longrightarrow> spec_ok s \<Longrightarrow> r_first r \<le> r_last r \<and> r_last r < n \<and> r_complete r = n"
  using resolve_bytes [of s n] by simp

lemma parse_spec_ok: "parse_spec p = Some s \<Longrightarrow> spec_ok s"
  by (auto simp: parse_spec_def Let_def split: option.splits prod.splits if_splits)

lemma parse_specs_ok: "parse_specs ps = Some ss \<Longrightarrow> list_all spec_ok ss"
  by (induction ps arbitrary: ss rule: parse_specs.induct)
    (auto simp: Let_def split: if_splits option.splits dest: parse_spec_ok)

lemma parse_range_ok: "parse_range v = Some ss \<Longrightarrow> list_all spec_ok ss \<and> ss \<noteq> []"
  by (auto simp: parse_range_def split: option.splits if_splits dest: parse_specs_ok)

text \<open>
  Every range a \<open>Range\<close> header parses to resolves against a representation of
  \<open>n\<close> bytes to exactly the bytes it asks for that exist, as a first and a last byte
  with \<open>first <= last < n\<close>, and to nothing exactly when there are none.
\<close>

theorem parsed_range_resolves_exactly:
  assumes "parse_range v = Some specs" and "s \<in> set specs"
  shows "case resolve s n of
       None \<Rightarrow> spec_bytes s n = {}
     | Some r \<Rightarrow> r_first r \<le> r_last r \<and> r_last r < n \<and> r_complete r = n
         \<and> {r_first r..r_last r} = spec_bytes s n"
  using assms parse_range_ok [of v specs] by (intro resolve_bytes) (auto simp: list_all_iff)

lemmas parse_eval = parse_range_def parse_spec_def parse_content_range_def strip_prefix_def
  starts_with_def trim_def trim_start_def trim_end_def is_ws_def parse_u64_def num_of_digits_def
  digit_val_def is_digit_def u64_max_def

theorem parsed_range_resolves_exactly_witness:
  "parse_range ''bytes=0-9, -5'' = Some [FromTo 0 9, Suffix 5]
   \<and> (case resolve (Suffix 5) 3 of
       None \<Rightarrow> spec_bytes (Suffix 5) 3 = {}
     | Some r \<Rightarrow> r_first r \<le> r_last r \<and> r_last r < 3 \<and> r_complete r = 3
         \<and> {r_first r..r_last r} = spec_bytes (Suffix 5) 3)"
proof -
  have parsed: "parse_range ''bytes=0-9, -5'' = Some [FromTo 0 9, Suffix 5]"
    by (simp add: parse_eval Let_def)
  then show ?thesis
    using parsed_range_resolves_exactly [OF parsed, of "Suffix 5" 3] by auto
qed

subsection \<open>Content-Range, written and read back\<close>

lemma split_once_append: "c \<notin> set a \<Longrightarrow> split_once c (a @ c # b) = Some (a, b)"
  by (induction a) auto

lemma digit_simps: "is_digit c \<Longrightarrow> \<not> is_ws c \<and> c \<noteq> CHR ''-'' \<and> c \<noteq> CHR ''/'' \<and> c \<noteq> CHR ''*''"
  by (auto simp: is_digit_def is_ws_def)

lemma dropWhile_hd: "xs \<noteq> [] \<Longrightarrow> \<not> P (hd xs) \<Longrightarrow> dropWhile P xs = xs"
  by (cases xs) auto

lemma trim_no_ws: "xs \<noteq> [] \<Longrightarrow> \<not> is_ws (hd xs) \<Longrightarrow> \<not> is_ws (last xs) \<Longrightarrow> trim xs = xs"
  by (simp add: trim_def trim_start_def trim_end_def dropWhile_hd hd_rev)

lemma is_ws_letter [simp]: "\<not> is_ws (CHR ''b'')"
  by (simp add: is_ws_def)

lemma show_nat_props [simp]:
  "\<not> is_ws (hd (show_nat n))" "\<not> is_ws (last (show_nat n))"
  "CHR ''-'' \<notin> set (show_nat n)" "CHR ''/'' \<notin> set (show_nat n)"
  "show_nat n \<noteq> ''*''"
proof -
  have "c \<in> set (show_nat n) \<Longrightarrow> is_digit c" for c
    using show_nat_digits [of n] by (auto simp: list_all_iff)
  then have all: "c \<in> set (show_nat n) \<Longrightarrow> \<not> is_ws c \<and> c \<noteq> CHR ''-'' \<and> c \<noteq> CHR ''/'' \<and> c \<noteq> CHR ''*''" for c
    using digit_simps by blast
  show "\<not> is_ws (hd (show_nat n))" "\<not> is_ws (last (show_nat n))"
    "CHR ''-'' \<notin> set (show_nat n)" "CHR ''/'' \<notin> set (show_nat n)"
    using all by (auto dest: all)
  show "show_nat n \<noteq> ''*''" using all [of "CHR ''*''"] by auto
qed

lemma trim_show_nat [simp]: "trim (show_nat n) = show_nat n"
  by (rule trim_no_ws) simp_all

text \<open>
  The \<open>Content-Range\<close> this cache writes on a range it serves is read back, by its own
  parser, as exactly that range of that representation.
\<close>

theorem content_range_round_trip:
  assumes "r_first r \<le> r_last r" and "r_last r < r_complete r" and "r_complete r \<le> u64_max"
  shows "parse_content_range (content_range r)
    = Some \<lparr>c_first = r_first r, c_last = r_last r, c_complete = Some (r_complete r)\<rparr>"
proof -
  let ?range = "show_nat (r_first r) @ CHR ''-'' # show_nat (r_last r)"
  let ?text = "?range @ CHR ''/'' # show_nat (r_complete r)"
  have trimmed: "trim (content_range r) = content_range r"
    by (rule trim_no_ws) (simp_all add: content_range_def)
  have "trim_start (CHR '' '' # ?text) = ?text"
    using show_nat_props(1) [of "r_first r"]
    by (cases "show_nat (r_first r)") (auto simp: trim_start_def is_ws_def)
  moreover have "trim ?range = ?range"
    by (rule trim_no_ws) (simp_all add: hd_append)
  moreover have "?range \<noteq> ''*''"
    by (cases "show_nat (r_first r)") auto
  moreover have "split_once (CHR ''/'') ?text = Some (?range, show_nat (r_complete r))"
    by (rule split_once_append) simp
  moreover have "split_once (CHR ''-'') ?range = Some (show_nat (r_first r), show_nat (r_last r))"
    by (rule split_once_append) simp
  ultimately show ?thesis
    unfolding parse_content_range_def trimmed using assms
    by (simp add: content_range_def strip_prefix_def starts_with_def parse_u64_show_nat)
qed

theorem content_range_round_trip_witness:
  "parse_content_range (content_range \<lparr>r_first = 90, r_last = 99, r_complete = 100\<rparr>)
    = Some \<lparr>c_first = 90, c_last = 99, c_complete = Some 100\<rparr>"
  using content_range_round_trip [of "\<lparr>r_first = 90, r_last = 99, r_complete = 100\<rparr>"]
  by (simp add: u64_max_def)

lemma parse_content_range_ok:
  assumes "parse_content_range v = Some c"
  shows "c_first c \<le> c_last c" and "c_last c \<le> u64_max"
    and "c_complete c = Some n \<Longrightarrow> c_last c < n"
  using assms
  by (auto simp: parse_content_range_def Let_def split: option.splits prod.splits if_splits
      dest: parse_u64_le)

text \<open>
  The length of a parsed \<open>Content-Range\<close> is the number of bytes it names, and its half-open
  form holds exactly them, unless its last byte is \<open>u64::MAX\<close>, where the sums wrap: a range
  naming every byte up to it is parsed, and its half-open form is empty.
\<close>

theorem content_range_len_exact:
  assumes "parse_content_range v = Some c"
  shows "if c_last c < u64_max
    then content_range_len c = card {c_first c..c_last c}
      \<and> {fst (content_range_half_open c)..<snd (content_range_half_open c)} = {c_first c..c_last c}
    else snd (content_range_half_open c) = 0
      \<and> (c_first c = 0 \<longrightarrow> content_range_len c = 0)"
  using parse_content_range_ok [OF assms]
  by (auto simp: content_range_len_def content_range_half_open_def wrap64_def u64_max_def)

theorem content_range_len_exact_witness:
  "parse_content_range ''bytes 0-18446744073709551615/*''
     = Some \<lparr>c_first = 0, c_last = u64_max, c_complete = None\<rparr>
   \<and> content_range_len \<lparr>c_first = 0, c_last = u64_max, c_complete = None\<rparr> = 0"
proof -
  have parsed: "parse_content_range ''bytes 0-18446744073709551615/*''
      = Some \<lparr>c_first = 0, c_last = u64_max, c_complete = None\<rparr>"
    by (simp add: parse_eval Let_def)
  then show ?thesis
    using content_range_len_exact [OF parsed] by simp
qed

subsection \<open>Coverage is exact\<close>

text \<open>The bytes a list of half-open runs holds.\<close>

definition bytes_in :: "runs \<Rightarrow> nat set" where
  "bytes_in rs = (\<Union>(s, e) \<in> set rs. {s..<e})"

definition runs_ok :: "runs \<Rightarrow> bool" where
  "runs_ok rs \<longleftrightarrow> list_all (\<lambda>(s, e). s \<le> e) rs"

text \<open>Ascending runs with a gap between every two.\<close>

fun apart :: "runs \<Rightarrow> bool" where
  "apart ((s, e) # (s', e') # rest) \<longleftrightarrow> s \<le> e \<and> e < s' \<and> apart ((s', e') # rest)"
| "apart [(s, e)] \<longleftrightarrow> s \<le> e"
| "apart [] \<longleftrightarrow> True"

lemma bytes_in_simps [simp]:
  "bytes_in [] = {}"
  "bytes_in ((s, e) # rs) = {s..<e} \<union> bytes_in rs"
  "bytes_in (xs @ ys) = bytes_in xs \<union> bytes_in ys"
  by (auto simp: bytes_in_def)

lemma runs_ok_simps [simp]:
  "runs_ok []"
  "runs_ok ((s, e) # rs) \<longleftrightarrow> s \<le> e \<and> runs_ok rs"
  "runs_ok (xs @ ys) \<longleftrightarrow> runs_ok xs \<and> runs_ok ys"
  by (simp_all add: runs_ok_def)

lemma bytes_in_sort [simp]: "bytes_in (sort rs) = bytes_in rs"
  by (simp add: bytes_in_def)

lemma runs_ok_sort [simp]: "runs_ok (sort rs) \<longleftrightarrow> runs_ok rs"
  by (simp add: runs_ok_def list_all_iff)

lemma sorted_fst: "sorted rs \<Longrightarrow> sorted (map fst (rs :: runs))"
  by (induction rs) (auto simp: less_eq_prod_def)

lemma merge_runs_bytes:
  "runs_ok rs \<Longrightarrow> sorted (map fst rs) \<Longrightarrow> bytes_in (merge_runs rs) = bytes_in rs"
proof (induction rs rule: merge_runs.induct)
  case (1 s e s' e' rest)
  then show ?case by (auto simp: max_def not_le)
qed auto

lemma merge_runs_head: "runs_ok ((s, e) # rs) \<Longrightarrow>
  \<exists>e' rest. merge_runs ((s, e) # rs) = (s, e') # rest \<and> e \<le> e'"
proof (induction rs arbitrary: e)
  case (Cons r rs)
  obtain s' e' where r: "r = (s', e')" by fastforce
  show ?case
    using Cons.IH [of "max e e'"] Cons.prems
    by (auto simp: r max_def split: if_splits)
qed simp

lemma merge_runs_apart: "runs_ok rs \<Longrightarrow> sorted (map fst rs) \<Longrightarrow> apart (merge_runs rs)"
proof (induction rs rule: merge_runs.induct)
  case (1 s e s' e' rest)
  show ?case
  proof (cases "s' \<le> e")
    case True
    then show ?thesis using 1 by (auto simp: max_def not_le)
  next
    case False
    obtain e'' rest' where "merge_runs ((s', e') # rest) = (s', e'') # rest'"
      using merge_runs_head [of s' e' rest] 1 by auto
    then show ?thesis using 1 False by auto
  qed
qed auto

lemma from_sorted_bytes: "runs_ok rs \<Longrightarrow> bytes_in (from_sorted rs) = bytes_in rs"
  by (simp add: from_sorted_def normalize_def merge_runs_bytes sorted_fst)

lemma from_sorted_apart: "runs_ok rs \<Longrightarrow> apart (from_sorted rs)"
  by (simp add: from_sorted_def normalize_def merge_runs_apart sorted_fst)

lemma apart_tl: "apart ((s, e) # rs) \<Longrightarrow> s \<le> e \<and> apart rs"
  by (cases rs) auto

lemma apart_later: "apart ((s, e) # rs) \<Longrightarrow> n \<in> bytes_in rs \<Longrightarrow> e < n"
proof (induction rs arbitrary: s e)
  case (Cons r rs)
  obtain s' e' where r: "r = (s', e')" by fastforce
  then have "e < s'" "s' \<le> e'" "apart ((s', e') # rs)"
    using Cons.prems(1) apart_tl [of s' e' rs] by auto
  then show ?case using Cons.IH [of s' e'] Cons.prems(2) by (auto simp: r)
qed simp

lemma covers_apart:
  "apart c \<Longrightarrow> a < b \<Longrightarrow> covers c a b \<longleftrightarrow> {a..<b} \<subseteq> bytes_in c"
proof (induction c)
  case Nil
  then show ?case by (auto simp: covers_def)
next
  case (Cons r c)
  obtain s e where r: "r = (s, e)" by fastforce
  have later: "\<And>n. n \<in> bytes_in c \<Longrightarrow> e < n" using apart_later Cons.prems(1) r by blast
  have IH: "covers c a b \<longleftrightarrow> {a..<b} \<subseteq> bytes_in c"
    using Cons apart_tl [of s e c] by (simp add: r)
  have step: "covers (r # c) a b \<longleftrightarrow> s \<le> a \<and> b \<le> e \<or> covers c a b"
    using Cons.prems(2) by (auto simp: covers_def r)
  have "s \<le> a \<and> b \<le> e \<or> {a..<b} \<subseteq> bytes_in c" if sub: "{a..<b} \<subseteq> {s..<e} \<union> bytes_in c"
  proof (cases "a < e")
    case True
    have "a \<in> {s..<e} \<union> bytes_in c" using sub Cons.prems(2) by auto
    then have "s \<le> a" using True later [of a] by auto
    moreover have "b \<le> e"
    proof (rule ccontr)
      assume "\<not> b \<le> e"
      then have "e \<in> {a..<b}" using True by auto
      then have "e \<in> {s..<e} \<union> bytes_in c" using sub by blast
      then show False using later [of e] by auto
    qed
    ultimately show ?thesis by simp
  next
    case False
    then show ?thesis using sub by fastforce
  qed
  then show ?case using step IH by (auto simp: r)
qed

lemma missing_from_bytes:
  "apart c \<Longrightarrow> bytes_in (missing_from a b c) = {a..<b} - bytes_in c"
proof (induction a b c rule: missing_from.induct)
  case (2 a b s e rest)
  have later: "\<And>n. n \<in> bytes_in rest \<Longrightarrow> e < n" using apart_later "2.prems" by blast
  have tl: "apart rest" "s \<le> e" using apart_tl "2.prems" by blast+
  consider "e \<le> a" | "a < e" "b \<le> s" | "a < e" "s < b" "b \<le> max a e"
    | "a < e" "s < b" "max a e < b" by linarith
  then show ?case
  proof cases
    case 1
    then show ?thesis using 2 tl by auto
  next
    case 2
    then show ?thesis using tl later by (auto simp: not_le dest!: later)
  next
    case 3
    then show ?thesis using tl by (auto simp: Let_def not_le dest!: later)
  next
    case 4
    then have "bytes_in (missing_from (max a e) b rest) = {e..<b} - bytes_in rest"
      using "2.IH"(2) tl by (simp add: Let_def max_def)
    then show ?thesis using 4 tl by (auto simp: Let_def not_le dest!: later)
  qed
qed auto

lemma missing_from_bounds: "(s, e) \<in> set (missing_from a b c) \<Longrightarrow> a \<le> s \<and> s < e \<and> e \<le> b"
proof (induction a b c rule: missing_from.induct)
  case (2 a b s' e' rest)
  then show ?case
    by (auto simp: Let_def split: if_splits)
qed (auto split: if_splits)

definition in_order :: "runs \<Rightarrow> bool" where
  "in_order rs \<longleftrightarrow> sorted_wrt (\<lambda>p q. snd p \<le> fst q) rs \<and> list_all (\<lambda>(s, e). s < e) rs"

lemma in_order_Cons: "in_order (r # rs) \<longleftrightarrow>
    fst r < snd r \<and> (\<forall>q\<in>set rs. snd r \<le> fst q) \<and> in_order rs"
  by (cases r) (auto simp: in_order_def)

lemma missing_from_in_order: "apart c \<Longrightarrow> in_order (missing_from a b c)"
proof (induction a b c rule: missing_from.induct)
  case (1 a b)
  then show ?case by (simp add: in_order_def)
next
  case (2 a b s e rest)
  have tl: "apart rest" "s \<le> e" using apart_tl "2.prems" by blast+
  have late: "\<And>q. q \<in> set (missing_from e b rest) \<Longrightarrow> s \<le> fst q"
    using missing_from_bounds [of _ _ e b rest] tl(2) by fastforce
  show ?case
    using 2 tl late by (auto simp: Let_def max_def in_order_Cons in_order_def [of "[]"])
qed

subsection \<open>The contract of a coverage\<close>

text \<open>
  What the cache relies on when it assembles a body out of ranges: a coverage is built from
  runs, answers for a range, and says what of it is missing.
\<close>

locale coverage =
  fixes build :: "runs \<Rightarrow> 'c"
    and holds :: "'c \<Rightarrow> nat \<Rightarrow> nat \<Rightarrow> bool"
    and gaps :: "'c \<Rightarrow> nat \<Rightarrow> nat \<Rightarrow> runs"
  assumes holds_iff: "runs_ok rs \<Longrightarrow> holds (build rs) a b \<longleftrightarrow> {a..<b} \<subseteq> bytes_in rs"
    and gaps_bytes: "runs_ok rs \<Longrightarrow> bytes_in (gaps (build rs) a b) = {a..<b} - bytes_in rs"
    and gaps_order: "runs_ok rs \<Longrightarrow> in_order (gaps (build rs) a b)"
begin

lemma gaps_ok: "runs_ok rs \<Longrightarrow> runs_ok (gaps (build rs) a b)"
  using gaps_order [of rs a b] by (auto simp: in_order_def runs_ok_def list_all_iff)

lemma gaps_bounds: "runs_ok rs \<Longrightarrow> (s, e) \<in> set (gaps (build rs) a b) \<Longrightarrow> a \<le> s \<and> s < e \<and> e \<le> b"
proof -
  assume ok: "runs_ok rs" and mem: "(s, e) \<in> set (gaps (build rs) a b)"
  have less: "s < e" using gaps_order [OF ok, of a b] mem by (auto simp: in_order_def list_all_iff)
  have sub: "{s..<e} \<subseteq> {a..<b}" using gaps_bytes [OF ok, of a b] mem by (fastforce simp: bytes_in_def)
  from less have "s \<in> {s..<e}" "e - 1 \<in> {s..<e}" by auto
  with sub have "s \<in> {a..<b}" "e - 1 \<in> {a..<b}" by blast+
  with less show ?thesis by auto
qed

lemma no_gaps_iff: "runs_ok rs \<Longrightarrow> holds (build rs) a b \<longleftrightarrow> gaps (build rs) a b = []"
proof -
  assume ok: "runs_ok rs"
  have "gaps (build rs) a b = []" if "bytes_in (gaps (build rs) a b) = {}"
  proof (cases "gaps (build rs) a b")
    case (Cons r _)
    then show ?thesis
      using that gaps_bounds [OF ok, of "fst r" "snd r" a b] by (cases r) auto
  qed simp
  then show ?thesis using gaps_bytes [OF ok, of a b] holds_iff [OF ok] by auto
qed

lemma filling:
  "runs_ok rs \<Longrightarrow> holds (build (rs @ gaps (build rs) a b)) a b"
  by (simp add: holds_iff gaps_ok gaps_bytes)

lemma fill_keeps:
  "runs_ok rs \<Longrightarrow> holds (build rs) c d \<Longrightarrow> holds (build (rs @ gaps (build rs) a b)) c d"
  by (auto simp: holds_iff gaps_ok)

lemma fill_exact: "runs_ok rs \<Longrightarrow> bytes_in (rs @ gaps (build rs) a b) = bytes_in rs \<union> {a..<b}"
  by (auto simp: gaps_bytes)

lemma gaps_fresh: "runs_ok rs \<Longrightarrow> n \<in> bytes_in rs \<Longrightarrow> n \<notin> bytes_in (gaps (build rs) a b)"
  by (simp add: gaps_bytes)

end

lemma coverage_laws:
  assumes "runs_ok rs"
  shows "covers (from_sorted rs) a b \<longleftrightarrow> {a..<b} \<subseteq> bytes_in rs"
    and "bytes_in (missing (from_sorted rs) a b) = {a..<b} - bytes_in rs"
    and "in_order (missing (from_sorted rs) a b)"
proof -
  note apart = from_sorted_apart [OF assms] and eq = from_sorted_bytes [OF assms]
  show "covers (from_sorted rs) a b \<longleftrightarrow> {a..<b} \<subseteq> bytes_in rs"
    using covers_apart [OF apart, of a b] eq by (cases "a < b") (auto simp: covers_def)
  show "bytes_in (missing (from_sorted rs) a b) = {a..<b} - bytes_in rs"
    and "in_order (missing (from_sorted rs) a b)"
    by (simp_all add: missing_def missing_from_bytes missing_from_in_order apart eq)
qed

interpretation cov: coverage from_sorted covers missing
  by unfold_locales (simp_all add: coverage_laws)

text \<open>
  A coverage built from stored runs, in any order and overlapping as they may, answers
  that it holds a range exactly when every byte of the range is in one of the runs.
\<close>

theorem coverage_exact:
  assumes "runs_ok rs"
  shows "covers (from_sorted rs) a b \<longleftrightarrow> {a..<b} \<subseteq> bytes_in rs"
using assms by (rule cov.holds_iff)

theorem coverage_exact_witness:
  "runs_ok [(10, 20), (0, 10)] \<and> (covers (from_sorted [(10, 20), (0, 10)]) 5 15
     \<longleftrightarrow> {5..<15} \<subseteq> bytes_in [(10, 20), (0, 10)])"
  using coverage_exact [of "[(10, 20), (0, 10)]" 5 15] by simp

text \<open>
  What a coverage reports missing of a range is exactly the bytes of the range that no
  stored run holds, as runs that are not empty, ascend, and do not overlap.
\<close>

theorem missing_exact:
  assumes "runs_ok rs"
  shows "bytes_in (missing (from_sorted rs) a b) = {a..<b} - bytes_in rs
    \<and> in_order (missing (from_sorted rs) a b)"
  using cov.gaps_bytes [OF assms] cov.gaps_order [OF assms] by blast

theorem missing_exact_witness:
  "missing (from_sorted [(20, 30), (0, 10)]) 5 40 = [(10, 20), (30, 40)]
   \<and> in_order (missing (from_sorted [(20, 30), (0, 10)]) 5 40)"
  using missing_exact [of "[(20, 30), (0, 10)]" 5 40]
  by (simp add: missing_def from_sorted_def normalize_def Let_def)

end
