(* ===== verification/Sri.thy ===== *)
theory Sri
  imports Externals Errors "HOL-Library.Word"
begin

unbundle bit_operations_syntax

text \<open>
  \<open>crates/syndeo-cache/src/sri.rs\<close>: Subresource Integrity metadata, its parsing, and the
  check of a body against it. The incremental hashers keep the bytes they have been given;
  what they return is the digest of those bytes.
\<close>

subsection \<open>Algorithms\<close>

datatype algorithm = Sha256 | Sha384 | Sha512

fun algorithm_rank :: "algorithm \<Rightarrow> nat" where
  "algorithm_rank Sha256 = 0"
| "algorithm_rank Sha384 = 1"
| "algorithm_rank Sha512 = 2"

instantiation algorithm :: linorder
begin

definition less_eq_algorithm :: "algorithm \<Rightarrow> algorithm \<Rightarrow> bool" where
  "less_eq_algorithm a b \<longleftrightarrow> algorithm_rank a \<le> algorithm_rank b"

definition less_algorithm :: "algorithm \<Rightarrow> algorithm \<Rightarrow> bool" where
  "less_algorithm a b \<longleftrightarrow> algorithm_rank a < algorithm_rank b"

instance
proof
  fix a b :: algorithm
  show "a \<le> b \<Longrightarrow> b \<le> a \<Longrightarrow> a = b"
    by (cases a; cases b) (simp_all add: less_eq_algorithm_def)
qed (auto simp: less_eq_algorithm_def less_algorithm_def)

end

fun algorithm_name :: "algorithm \<Rightarrow> string" where
  "algorithm_name Sha256 = ''sha256''"
| "algorithm_name Sha384 = ''sha384''"
| "algorithm_name Sha512 = ''sha512''"

definition parse_algorithm :: "string \<Rightarrow> algorithm option" where
  "parse_algorithm s =
     (let n = to_lower s in
      if n = ''sha256'' then Some Sha256
      else if n = ''sha384'' then Some Sha384
      else if n = ''sha512'' then Some Sha512
      else None)"

fun digest_of :: "('h, 'u) externs \<Rightarrow> algorithm \<Rightarrow> bytes \<Rightarrow> bytes" where
  "digest_of X Sha256 b = sha256 X b"
| "digest_of X Sha384 b = sha384 X b"
| "digest_of X Sha512 b = sha512 X b"

fun digest_len :: "algorithm \<Rightarrow> nat" where
  "digest_len Sha256 = 32"
| "digest_len Sha384 = 48"
| "digest_len Sha512 = 64"

subsection \<open>One token\<close>

record hash =
  algorithm :: algorithm
  digest :: bytes

definition to_token :: "('h, 'u) externs \<Rightarrow> hash \<Rightarrow> string" where
  "to_token X h = algorithm_name (algorithm h) @ ''-'' @ b64_encode X (digest h)"

definition compute_hash :: "('h, 'u) externs \<Rightarrow> algorithm \<Rightarrow> bytes \<Rightarrow> hash" where
  "compute_hash X a b = \<lparr>algorithm = a, digest = digest_of X a b\<rparr>"

definition byte :: "char \<Rightarrow> 8 word" where
  "byte c = word_of_nat (of_char c)"

fun diff_bits :: "8 word \<Rightarrow> bytes \<Rightarrow> bytes \<Rightarrow> 8 word" where
  "diff_bits diff (x # xs) (y # ys) = diff_bits (diff OR (byte x XOR byte y)) xs ys"
| "diff_bits diff _ _ = diff"

definition constant_time_eq :: "bytes \<Rightarrow> bytes \<Rightarrow> bool" where
  "constant_time_eq a b = (if length a \<noteq> length b then False else diff_bits 0 a b = 0)"

definition hash_matches :: "('h, 'u) externs \<Rightarrow> hash \<Rightarrow> bytes \<Rightarrow> bool" where
  "hash_matches X h b = constant_time_eq (digest_of X (algorithm h) b) (digest h)"

subsection \<open>An integrity attribute\<close>

type_synonym integrity = "hash list"

fun split_ws_from :: "string \<Rightarrow> string \<Rightarrow> string list" where
  "split_ws_from cur [] = (if cur = [] then [] else [cur])"
| "split_ws_from cur (c # cs) =
     (if is_ws c then (if cur = [] then [] else [cur]) @ split_ws_from [] cs
      else split_ws_from (cur @ [c]) cs)"

definition split_whitespace :: "string \<Rightarrow> string list" where
  "split_whitespace s = split_ws_from [] s"

definition bad_length :: "algorithm \<Rightarrow> bytes \<Rightarrow> cache_error" where
  "bad_length a d = BadIntegrity (algorithm_name a @ '' digest is '' @ show_nat (length d)
     @ '' bytes, expected '' @ show_nat (digest_len a))"

text \<open>One pass of the loop: no hash and the loop goes on, a hash, or an error.\<close>

definition parse_token :: "('h, 'u) externs \<Rightarrow> string \<Rightarrow> hash option cres" where
  "parse_token X tok =
     (let token = hd (split_on (CHR ''?'') tok) in
      case split_once (CHR ''-'') token of
        None \<Rightarrow> Inr None
      | Some (alg, b64) \<Rightarrow>
          (case parse_algorithm alg of
             None \<Rightarrow> Inr None
           | Some a \<Rightarrow>
               (case (case b64_decode X b64 of Some d \<Rightarrow> Some d | None \<Rightarrow> b64_url_decode X b64) of
                  None \<Rightarrow> Inl (BadIntegrity (token @ '': '' @ b64_url_error X b64))
                | Some d \<Rightarrow>
                    if length d \<noteq> digest_len a then Inl (bad_length a d)
                    else Inr (Some \<lparr>algorithm = a, digest = d\<rparr>))))"

fun parse_tokens :: "('h, 'u) externs \<Rightarrow> string list \<Rightarrow> integrity cres" where
  "parse_tokens X [] = Inr []"
| "parse_tokens X (t # ts) =
     bind_res (parse_token X t) (\<lambda>h.
     bind_res (parse_tokens X ts) (\<lambda>hs.
     Inr (case h of None \<Rightarrow> hs | Some h' \<Rightarrow> h' # hs)))"

definition parse_integrity :: "('h, 'u) externs \<Rightarrow> string \<Rightarrow> integrity cres" where
  "parse_integrity X value = parse_tokens X (split_whitespace value)"

definition strongest :: "integrity \<Rightarrow> algorithm option" where
  "strongest i = (case map algorithm i of [] \<Rightarrow> None | a # as \<Rightarrow> Some (fold max as a))"

definition strongest_hash :: "integrity \<Rightarrow> hash option" where
  "strongest_hash i =
     (case strongest i of None \<Rightarrow> None | Some s \<Rightarrow> List.find (\<lambda>h. algorithm h = s) i)"

definition verify :: "('h, 'u) externs \<Rightarrow> integrity \<Rightarrow> bytes \<Rightarrow> bool" where
  "verify X i b =
     (case strongest i of
        None \<Rightarrow> True
      | Some s \<Rightarrow> list_ex (\<lambda>h. hash_matches X h b) (filter (\<lambda>h. algorithm h = s) i))"

definition check_integrity :: "('h, 'u) externs \<Rightarrow> integrity \<Rightarrow> bytes \<Rightarrow> unit cres" where
  "check_integrity X i b =
     (if verify X i b then Inr ()
      else let s = (case strongest i of Some s \<Rightarrow> s | None \<Rightarrow> Sha256) in
        Inl (Integrity (join '' '' (map (to_token X) (filter (\<lambda>h. algorithm h = s) i)))
               (to_token X (compute_hash X s b))))"

subsection \<open>The three digests of a body\<close>

record digests =
  d_sha256 :: bytes
  d_sha384 :: bytes
  d_sha512 :: bytes

definition digests_each :: "digests \<Rightarrow> (algorithm \<times> bytes) list" where
  "digests_each d = [(Sha256, d_sha256 d), (Sha384, d_sha384 d), (Sha512, d_sha512 d)]"

record streaming_digests =
  s_sha256 :: bytes
  s_sha384 :: bytes
  s_sha512 :: bytes

definition streaming_new :: streaming_digests where
  "streaming_new = \<lparr>s_sha256 = [], s_sha384 = [], s_sha512 = []\<rparr>"

definition streaming_update :: "bytes \<Rightarrow> streaming_digests \<Rightarrow> streaming_digests" where
  "streaming_update chunk d = \<lparr>s_sha256 = s_sha256 d @ chunk, s_sha384 = s_sha384 d @ chunk,
     s_sha512 = s_sha512 d @ chunk\<rparr>"

definition streaming_finish :: "('h, 'u) externs \<Rightarrow> streaming_digests \<Rightarrow> digests" where
  "streaming_finish X d = \<lparr>d_sha256 = sha256 X (s_sha256 d), d_sha384 = sha384 X (s_sha384 d),
     d_sha512 = sha512 X (s_sha512 d)\<rparr>"

subsection \<open>The comparison\<close>

lemma byte_inject: "byte x = byte y \<longleftrightarrow> x = y"
proof
  assume "byte x = byte y"
  then have "unat (byte x) = unat (byte y)" by simp
  then have "(of_char x :: nat) = of_char y"
    by (simp add: byte_def unat_of_nat)
  then show "x = y" by simp
qed simp

lemma or_eq_zero: "(a OR b = (0 :: 8 word)) \<longleftrightarrow> a = 0 \<and> b = 0"
  by (auto simp: bit_eq_iff bit_or_iff)

lemma xor_eq_zero: "(a XOR b = (0 :: 8 word)) \<longleftrightarrow> a = b"
  by (auto simp: bit_eq_iff bit_xor_iff)

lemma diff_bits_zero:
  "length a = length b \<Longrightarrow> diff_bits d a b = 0 \<longleftrightarrow> d = 0 \<and> a = b"
  by (induction d a b rule: diff_bits.induct)
    (auto simp: or_eq_zero xor_eq_zero byte_inject)

lemma constant_time_eq_iff [simp]: "constant_time_eq a b \<longleftrightarrow> a = b"
  by (auto simp: constant_time_eq_def diff_bits_zero)

subsection \<open>Only the strongest algorithm decides\<close>

lemma fold_max_ge: "a \<le> fold max as (a :: 'a :: linorder)"
  by (induction as arbitrary: a) (auto, metis max.boundedE)

lemma fold_max_props:
  "fold max as (a :: 'a :: linorder) \<in> set (a # as) \<and> (\<forall>x\<in>set (a # as). x \<le> fold max as a)"
proof (induction as arbitrary: a)
  case (Cons b as)
  from Cons [of "max b a"] show ?case
    by (auto simp: max_def split: if_splits)
qed simp

lemma strongest_None [simp]: "strongest i = None \<longleftrightarrow> i = []"
  by (auto simp: strongest_def split: list.splits)

lemma strongest_Nil [simp]: "strongest [] = None"
  by simp

lemma strongest_Some:
  "strongest i = Some s \<Longrightarrow> s \<in> algorithm ` set i \<and> (\<forall>h\<in>set i. algorithm h \<le> s)"
proof -
  assume "strongest i = Some s"
  then obtain a as where "map algorithm i = a # as" "s = fold max as a"
    by (auto simp: strongest_def split: list.splits)
  then show ?thesis
    using fold_max_props [of as a] by (metis (no_types, lifting) image_set image_eqI)
qed

lemma strongest_is: "h \<in> set i \<Longrightarrow>
  (algorithm h = the (strongest i)) \<longleftrightarrow> (\<forall>h'\<in>set i. algorithm h' \<le> algorithm h)"
proof -
  assume mem: "h \<in> set i"
  then obtain s where s: "strongest i = Some s" by (cases "strongest i") auto
  show ?thesis
    using strongest_Some [OF s] mem by (auto simp: s intro: order.antisym)
qed

lemma verify_iff: "verify X i b \<longleftrightarrow>
  i = [] \<or> (\<exists>h\<in>set i. (\<forall>h'\<in>set i. algorithm h' \<le> algorithm h)
    \<and> digest_of X (algorithm h) b = digest h)"
proof (cases "strongest i")
  case (Some s)
  then have "i \<noteq> []" by (auto simp: strongest_def)
  moreover have "\<And>h. h \<in> set i \<Longrightarrow> algorithm h = s \<longleftrightarrow> (\<forall>h'\<in>set i. algorithm h' \<le> algorithm h)"
    using strongest_is [of _ i] Some by simp
  ultimately show ?thesis
    by (auto simp: Some verify_def hash_matches_def list_ex_iff)
qed (simp add: verify_def)

lemma strongest_hash_Some:
  "strongest_hash i = Some h \<Longrightarrow> h \<in> set i \<and> (\<forall>h'\<in>set i. algorithm h' \<le> algorithm h)"
  using strongest_Some
  by (fastforce simp: strongest_hash_def find_Some_iff split: option.splits)

text \<open>
  A body passes an integrity check exactly when no known algorithm is named or one of the
  digests under the strongest algorithm named is the body's, so a right digest under a weaker
  algorithm never outvotes a wrong one; a refusal reports the strongest digests and the body's.
\<close>

theorem only_the_strongest_decides:
  assumes "check_integrity X i b = r"
  shows "(r = Inr () \<longleftrightarrow> i = [] \<or> (\<exists>h\<in>set i. (\<forall>h'\<in>set i. algorithm h' \<le> algorithm h)
      \<and> digest h = digest_of X (algorithm h) b))
    \<and> (r \<noteq> Inr () \<longrightarrow> (\<exists>s \<in> algorithm ` set i. (\<forall>h\<in>set i. algorithm h \<le> s)
      \<and> r = Inl (Integrity (join '' '' (map (to_token X) (filter (\<lambda>h. algorithm h = s) i)))
                 (to_token X (compute_hash X s b)))))"
proof (cases "verify X i b")
  case True
  then have "r = Inr ()" using assms by (simp add: check_integrity_def)
  then show ?thesis using True by (auto simp: verify_iff eq_commute)
next
  case False
  then obtain s where s: "strongest i = Some s" by (cases "strongest i") (simp_all add: verify_def)
  then have "r = Inl (Integrity (join '' '' (map (to_token X) (filter (\<lambda>h. algorithm h = s) i)))
      (to_token X (compute_hash X s b)))"
    using assms False by (simp add: check_integrity_def)
  then show ?thesis
    using False strongest_Some [OF s] by (auto simp: verify_iff)
qed

theorem only_the_strongest_decides_witness:
  "let i = [compute_hash demo Sha256 ''x'', \<lparr>algorithm = Sha512, digest = ''no''\<rparr>] in
   (\<exists>e. check_integrity demo i ''x'' = Inl e)
   \<and> \<not> (\<exists>h\<in>set i. (\<forall>h'\<in>set i. algorithm h' \<le> algorithm h)
         \<and> digest h = digest_of demo (algorithm h) ''x'')"
proof -
  let ?i = "[compute_hash demo Sha256 ''x'', \<lparr>algorithm = Sha512, digest = ''no''\<rparr>]"
  have none: "\<not> (\<exists>h\<in>set ?i. (\<forall>h'\<in>set ?i. algorithm h' \<le> algorithm h)
      \<and> digest h = digest_of demo (algorithm h) ''x'')"
    by (simp add: compute_hash_def less_eq_algorithm_def demo_def)
  then have "check_integrity demo ?i ''x'' \<noteq> Inr ()"
    using only_the_strongest_decides [of demo ?i "''x''"] by simp
  then show ?thesis using none by (cases "check_integrity demo ?i ''x''") (simp_all add: Let_def)
qed

subsection \<open>Metadata, written and read back\<close>

lemma split_ws_word:
  "list_all (\<lambda>c. \<not> is_ws c) t \<Longrightarrow> split_ws_from cur (t @ rest) = split_ws_from (cur @ t) rest"
  by (induction t arbitrary: cur) auto

lemma split_ws_join:
  "list_all (\<lambda>t. t \<noteq> [] \<and> list_all (\<lambda>c. \<not> is_ws c) t) ts \<Longrightarrow>
   split_whitespace (join '' '' ts) = ts"
  unfolding split_whitespace_def
proof (induction ts rule: induct_list012)
  case (2 t)
  then show ?case using split_ws_word [of t "[]" "[]"] by simp
next
  case (3 t u ts)
  have "is_ws (CHR '' '')" by (simp add: is_ws_def)
  then show ?case using 3 split_ws_word [of t "[]" "'' '' @ join '' '' (u # ts)"] by simp
qed simp

lemma b64_char_plain: "b64_char c \<Longrightarrow> \<not> is_ws c \<and> c \<noteq> CHR ''?''"
  by (auto simp: b64_char_def is_alpha_def is_upper_def is_lower_def is_digit_def is_ws_def)

lemma algorithm_name_plain:
  "c \<in> set (algorithm_name a) \<Longrightarrow> \<not> is_ws c \<and> c \<noteq> CHR ''?'' \<and> c \<noteq> CHR ''-''"
  by (cases a) (auto simp: is_ws_def)

lemma split_on_absent: "c \<notin> set s \<Longrightarrow> split_on c s = [s]"
  by (induction s) auto

lemma split_once_at: "c \<notin> set a \<Longrightarrow> split_once c (a @ c # b) = Some (a, b)"
  by (induction a) auto

lemma parse_algorithm_name [simp]: "parse_algorithm (algorithm_name a) = Some a"
  by (cases a) (simp_all add: parse_algorithm_def to_lower_def lower_char_def is_upper_def)

lemma parse_token_to_token:
  assumes "b64_ok X" and "length (digest h) = digest_len (algorithm h)"
  shows "parse_token X (to_token X h) = Inr (Some h)"
proof -
  have "CHR ''?'' \<notin> set (to_token X h)"
    using assms(1) algorithm_name_plain [of _ "algorithm h"] b64_char_plain
    by (fastforce simp: to_token_def b64_ok_def list_all_iff)
  moreover have "split_once (CHR ''-'') (to_token X h)
      = Some (algorithm_name (algorithm h), b64_encode X (digest h))"
    using algorithm_name_plain [of _ "algorithm h"]
    by (simp add: to_token_def) (rule split_once_at, blast)
  ultimately show ?thesis
    using assms by (simp add: parse_token_def split_on_absent b64_ok_def)
qed

lemma to_token_plain: "b64_ok X \<Longrightarrow> to_token X h \<noteq> [] \<and> list_all (\<lambda>c. \<not> is_ws c) (to_token X h)"
  using algorithm_name_plain [of _ "algorithm h"] b64_char_plain
  by (fastforce simp: to_token_def b64_ok_def list_all_iff is_ws_def)

lemma parse_tokens_map:
  "b64_ok X \<Longrightarrow> \<forall>h\<in>set hs. length (digest h) = digest_len (algorithm h) \<Longrightarrow>
   parse_tokens X (map (to_token X) hs) = Inr hs"
  by (induction hs) (simp_all add: parse_token_to_token)

text \<open>
  Integrity metadata written out token by token is parsed back as the same digests in the
  same order, and a body whose digest is among the strongest of them passes the check.
\<close>

theorem integrity_round_trip:
  assumes "b64_ok X" and "\<forall>h\<in>set hs. length (digest h) = digest_len (algorithm h)"
  shows "parse_integrity X (join '' '' (map (to_token X) hs)) = Inr hs
    \<and> (\<forall>h b. strongest_hash hs = Some h \<longrightarrow> digest h = digest_of X (algorithm h) b
        \<longrightarrow> check_integrity X hs b = Inr ())"
proof -
  have "split_whitespace (join '' '' (map (to_token X) hs)) = map (to_token X) hs"
    by (rule split_ws_join) (use to_token_plain [OF assms(1)] in \<open>simp add: list_all_iff\<close>)
  then have "parse_integrity X (join '' '' (map (to_token X) hs)) = Inr hs"
    using assms by (simp add: parse_integrity_def parse_tokens_map)
  moreover have "check_integrity X hs b = Inr ()"
    if "strongest_hash hs = Some h" "digest h = digest_of X (algorithm h) b" for h b
    using strongest_hash_Some [OF that(1)] that(2) by (auto simp: check_integrity_def verify_iff)
  ultimately show ?thesis by blast
qed

theorem integrity_round_trip_witness:
  "let hs = [compute_hash demo Sha256 ''x'', compute_hash demo Sha384 ''x''] in
   parse_integrity demo (join '' '' (map (to_token demo) hs)) = Inr hs
   \<and> check_integrity demo hs ''x'' = Inr ()"
proof -
  let ?hs = "[compute_hash demo Sha256 ''x'', compute_hash demo Sha384 ''x'']"
  have len: "\<forall>h\<in>set ?hs. length (digest h) = digest_len (algorithm h)"
    using demo_sha2_ok by (simp add: compute_hash_def sha2_ok_def)
  have "strongest_hash ?hs = Some (compute_hash demo Sha384 ''x'')"
    by (simp add: strongest_hash_def strongest_def compute_hash_def max_def less_eq_algorithm_def)
  then show ?thesis
    using integrity_round_trip [OF demo_b64_ok len]
    by (simp add: Let_def) (simp add: compute_hash_def)
qed

subsection \<open>Digests as the body passes\<close>

lemma streaming_fold:
  "streaming_finish X (fold streaming_update chunks d) =
    \<lparr>d_sha256 = sha256 X (s_sha256 d @ concat chunks), d_sha384 = sha384 X (s_sha384 d @ concat chunks),
     d_sha512 = sha512 X (s_sha512 d @ concat chunks)\<rparr>"
  by (induction chunks arbitrary: d) (simp_all add: streaming_finish_def streaming_update_def)

lemma streaming_digests_each:
  "(a, dig) \<in> set (digests_each (streaming_finish X (fold streaming_update chunks streaming_new)))
    \<Longrightarrow> dig = digest_of X a (concat chunks)"
  by (auto simp: streaming_fold streaming_new_def digests_each_def)

end
