(* ===== verification/Binary64.thy ===== *)
theory Binary64
  imports Complex_Main Prelude "HOL-Library.Log_Nat"
begin

text \<open>
  IEEE 754 binary64, as far as the cache's settings need it: a finite double is the rational it
  denotes, an operation is the exact result rounded to the nearest double, ties to even. The
  exponent is bounded below, at the least subnormal, and not above: the sources only turn such
  a result into a \<open>u64\<close>, which saturates far below the greatest double. Infinities and NaN are
  no settings of a cache and are left out.
\<close>

definition round_even :: "rat \<Rightarrow> int" where
  "round_even y =
     (let f = \<lfloor>y\<rfloor>; r = y - of_int f in
      if r < 1 / 2 then f else if 1 / 2 < r then f + 1 else if even f then f else f + 1)"

text \<open>The exponent of the leading bit of a positive number.\<close>

definition f64_exponent :: "rat \<Rightarrow> int" where
  "f64_exponent x =
     (if 1 \<le> x then int (floorlog 2 (nat \<lfloor>x\<rfloor>)) - 1
      else int (floorlog 2 (nat \<lfloor>x * 2 ^ 1074\<rfloor>)) - 1 - 1074)"

definition f64_unit :: "rat \<Rightarrow> rat" where
  "f64_unit x =
     (let k = max (f64_exponent x - 52) (- 1074) in
      if 0 \<le> k then 2 ^ nat k else 1 / 2 ^ nat (- k))"

definition f64_round_pos :: "rat \<Rightarrow> rat" where
  "f64_round_pos x = of_int (round_even (x / f64_unit x)) * f64_unit x"

definition f64_round :: "rat \<Rightarrow> rat" where
  "f64_round x = (if x < 0 then - f64_round_pos (- x) else f64_round_pos x)"

text \<open>\<open>as f64\<close>, \<open>*\<close> and \<open>/\<close>, and the saturating \<open>as u64\<close>.\<close>

definition f64_of_u64 :: "nat \<Rightarrow> rat" where
  "f64_of_u64 n = f64_round (of_nat n)"

definition f64_mul :: "rat \<Rightarrow> rat \<Rightarrow> rat" where
  "f64_mul x y = f64_round (x * y)"

definition f64_div :: "rat \<Rightarrow> rat \<Rightarrow> rat" where
  "f64_div x y = f64_round (x / y)"

definition f64_to_u64 :: "rat \<Rightarrow> nat" where
  "f64_to_u64 x = (if x < 0 then 0 else min (nat \<lfloor>x\<rfloor>) u64_max)"

lemma f64_to_u64_le [simp]: "f64_to_u64 x \<le> u64_max"
  by (simp add: f64_to_u64_def)

lemma round_even_near: "\<bar>of_int (round_even y) - y\<bar> \<le> 1 / 2"
proof -
  define r where "r = y - of_int \<lfloor>y\<rfloor>"
  have "0 \<le> r" "r < 1" by (simp_all add: r_def) linarith+
  moreover have "y = of_int \<lfloor>y\<rfloor> + r" by (simp add: r_def)
  ultimately show ?thesis
    by (auto simp: round_even_def Let_def r_def [symmetric] abs_if)
qed

lemma round_even_int [simp]: "round_even (of_int n) = n"
  by (simp add: round_even_def)

lemma f64_unit_pos: "0 < f64_unit x"
  by (simp add: f64_unit_def Let_def)

text \<open>A rounded value is within half a unit of the exact one.\<close>

lemma f64_round_pos_near: "\<bar>f64_round_pos x - x\<bar> \<le> f64_unit x / 2"
proof -
  have u: "0 < f64_unit x" by (rule f64_unit_pos)
  have "f64_round_pos x - x = (of_int (round_even (x / f64_unit x)) - x / f64_unit x) * f64_unit x"
    using u by (simp add: f64_round_pos_def field_simps)
  also have "\<bar>\<dots>\<bar> = \<bar>of_int (round_even (x / f64_unit x)) - x / f64_unit x\<bar> * f64_unit x"
    using u by (simp add: abs_mult)
  also have "\<dots> \<le> 1 / 2 * f64_unit x"
    using u by (intro mult_right_mono round_even_near) simp
  finally show ?thesis by simp
qed

text \<open>The unit of a number from one up is at most \<open>2^-52\<close> of it.\<close>

lemma f64_unit_le:
  assumes "1 \<le> x"
  shows "f64_unit x \<le> x / 2 ^ 52"
proof -
  define n where "n = nat \<lfloor>x\<rfloor>"
  have n: "0 < n" "of_nat n \<le> x" using assms by (auto simp: n_def)
  define e where "e = floorlog 2 n - 1"
  have pos: "0 < floorlog 2 n" using n by (simp add: floorlog_def)
  then have exp: "f64_exponent x = int e" using assms by (simp add: f64_exponent_def e_def n_def)
  have "(2::nat) ^ e \<le> n" using floorlog_bounds [of n 2] n by (simp add: e_def)
  then have "of_nat (2 ^ e) \<le> (of_nat n :: rat)" by (rule of_nat_mono)
  then have "2 ^ e \<le> (of_nat n :: rat)" unfolding of_nat_power of_nat_numeral .
  then have le: "2 ^ e \<le> x" using n(2) by (rule order_trans)
  have "f64_unit x * 2 ^ 52 = 2 ^ e"
  proof (cases "52 \<le> e")
    case True
    then have "f64_unit x = 2 ^ (e - 52)" by (simp add: f64_unit_def exp nat_diff_distrib')
    moreover have "(2::rat) ^ e = 2 ^ (e - 52) * 2 ^ 52"
      using True by (subst power_add [symmetric]) simp
    ultimately show ?thesis by simp
  next
    case False
    then have u: "f64_unit x = 1 / 2 ^ (52 - e)"
      by (simp add: f64_unit_def exp max_def nat_diff_distrib')
    have "(2::rat) ^ 52 = 2 ^ (52 - e + e)" using False by simp
    then have "(2::rat) ^ 52 = 2 ^ (52 - e) * 2 ^ e" unfolding power_add .
    then have "f64_unit x * 2 ^ 52 = 1 / 2 ^ (52 - e) * (2 ^ (52 - e) * 2 ^ e)"
      by (simp only: u)
    then show ?thesis by simp
  qed
  then show ?thesis using le by (simp add: field_simps)
qed

lemma f64_round_upper:
  assumes "1 \<le> x"
  shows "f64_round x \<le> x * (1 + 1 / 2 ^ 53)"
proof -
  have "f64_round_pos x \<le> x + f64_unit x / 2" using f64_round_pos_near [of x] by linarith
  also have "\<dots> \<le> x + x / 2 ^ 53" using f64_unit_le [OF assms] by simp
  finally show ?thesis using assms by (simp add: f64_round_def field_simps)
qed

text \<open>Rounding never passes a whole number below \<open>2^53\<close>.\<close>

lemma round_even_le: "y \<le> of_int m \<Longrightarrow> round_even y \<le> m"
proof -
  assume le: "y \<le> of_int m"
  then have f: "\<lfloor>y\<rfloor> \<le> m" by linarith
  have "\<lfloor>y\<rfloor> + 1 \<le> m" if "1 / 2 \<le> y - of_int \<lfloor>y\<rfloor>"
    using that le by linarith
  then show ?thesis using f by (auto simp: round_even_def Let_def)
qed

lemma floorlog_floor:
  fixes y :: rat
  assumes "0 \<le> y" and "y < 2 ^ k"
  shows "floorlog 2 (nat \<lfloor>y\<rfloor>) \<le> k"
proof (rule floorlog_leI)
  have "\<lfloor>y\<rfloor> < 2 ^ k" using assms(2) by (simp add: floor_less_iff)
  then show "nat \<lfloor>y\<rfloor> < 2 ^ k" using assms(1) by (simp add: nat_less_iff)
qed simp_all

lemma f64_unit_small:
  assumes "0 \<le> x" and "x < 2 ^ 53"
  shows "\<exists>j. f64_unit x = 1 / 2 ^ j"
proof -
  have "f64_exponent x \<le> 52"
  proof (cases "1 \<le> x")
    case True
    then show ?thesis using floorlog_floor [OF assms] by (simp add: f64_exponent_def)
  next
    case False
    then have "x * 2 ^ k < 2 ^ k" for k :: nat using mult_strict_right_mono [of x 1 "2 ^ k"] by simp
    then have "floorlog 2 (nat \<lfloor>x * 2 ^ 1074\<rfloor>) \<le> 1074"
      using assms(1) by (intro floorlog_floor) (auto intro: mult_nonneg_nonneg)
    then have "int (floorlog 2 (nat \<lfloor>x * 2 ^ 1074\<rfloor>)) - 1 - 1074 \<le> 52" by linarith
    then show ?thesis using False unfolding f64_exponent_def by presburger
  qed
  then have "max (f64_exponent x - 52) (- 1074) \<le> 0" by simp
  then show ?thesis
    by (cases "max (f64_exponent x - 52) (- 1074) = 0") (auto simp: f64_unit_def Let_def intro: exI [of _ 0])
qed

lemma f64_round_le_nat:
  assumes "0 \<le> x" and "x \<le> of_nat n" and "n < 2 ^ 53"
  shows "f64_round x \<le> of_nat n"
proof -
  have "(of_nat n :: rat) < of_nat (2 ^ 53)" using assms(3) by (rule of_nat_less_iff [THEN iffD2])
  then have "x < 2 ^ 53" using assms(2) by simp
  then obtain j where u: "f64_unit x = 1 / 2 ^ j" using f64_unit_small assms(1) by blast
  have "x / f64_unit x \<le> of_int (int n * 2 ^ j)"
    using assms(2) by (simp add: u mult_right_mono)
  then have "round_even (x / f64_unit x) \<le> int n * 2 ^ j" by (rule round_even_le)
  then have "(of_int (round_even (x / f64_unit x)) :: rat) \<le> of_int (int n * 2 ^ j)"
    by (rule of_int_le_iff [THEN iffD2])
  then have "f64_round_pos x \<le> of_nat n"
    by (simp add: f64_round_pos_def u field_simps)
  then show ?thesis using assms(1) by (simp add: f64_round_def)
qed

end
