(* ===== verification/Policy.thy ===== *)
theory Policy
  imports Vary Range Binary64
begin

text \<open>
  \<open>crates/syndeo-cache/src/policy.rs\<close>: freshness, storability and revalidation. Times are Unix
  seconds, all of them \<open>u64\<close>; a reason is the source's literal.
\<close>

subsection \<open>Options and stored metadata\<close>

definition HEURISTICALLY_CACHEABLE :: "nat list" where
  "HEURISTICALLY_CACHEABLE = [200, 203, 204, 206, 300, 301, 308, 404, 405, 410, 414, 501]"

datatype eviction = LeastRecentlyUsed | LeastFrequentlyUsed | Cost

record cache_options =
  shared :: bool
  heuristic_fraction :: rat
  max_heuristic_lifetime :: nat
  max_body_bytes :: nat
  capacity_bytes :: "nat option"
  eviction :: eviction
  evict_to_fraction :: rat

text \<open>The two fractions are the doubles nearest to 0.1 and 0.9.\<close>

definition default_options :: cache_options where
  "default_options = \<lparr>
     shared = False,
     heuristic_fraction = f64_round (1 / 10),
     max_heuristic_lifetime = 24 * 60 * 60,
     max_body_bytes = 256 * 1024 * 1024,
     capacity_bytes = Some (2 * 1024 * 1024 * 1024),
     eviction = LeastRecentlyUsed,
     evict_to_fraction = f64_round (9 / 10) \<rparr>"

record 'h stored_meta =
  m_status :: nat
  m_headers :: 'h
  request_time :: nat
  response_time :: nat

datatype freshness =
    Fresh nat nat
  | ServeStale nat nat bool string
  | Revalidate nat nat "nat option" string
  | Unusable string

datatype storability = Store | Reject string

definition is_cacheable_method :: "string \<Rightarrow> bool" where
  "is_cacheable_method meth \<longleftrightarrow> to_upper meth \<in> {''GET'', ''HEAD''}"

definition invalidates :: "string \<Rightarrow> bool" where
  "invalidates meth \<longleftrightarrow> to_upper meth \<notin> {''GET'', ''HEAD'', ''OPTIONS'', ''TRACE''}"

definition is_heuristically_cacheable :: "nat \<Rightarrow> bool" where
  "is_heuristically_cacheable status \<longleftrightarrow> status \<in> set HEURISTICALLY_CACHEABLE"

subsection \<open>Freshness lifetime and age\<close>

definition date_or_response :: "('h, 'u) externs \<Rightarrow> 'h stored_meta \<Rightarrow> nat" where
  "date_or_response X meta =
     (case header_date X (m_headers meta) ''date'' of Some d \<Rightarrow> d | None \<Rightarrow> response_time meta)"

definition heuristic_lifetime :: "nat \<Rightarrow> cache_options \<Rightarrow> nat" where
  "heuristic_lifetime delta opts =
     min (f64_to_u64 (f64_mul (f64_of_u64 delta) (heuristic_fraction opts)))
         (max_heuristic_lifetime opts)"

definition freshness_lifetime ::
  "('h, 'u) externs \<Rightarrow> 'h stored_meta \<Rightarrow> cache_options \<Rightarrow> nat \<times> bool" where
  "freshness_lifetime X meta opts =
     (let cc = cc_from_headers X (m_headers meta) in
      if shared opts \<and> s_maxage cc \<noteq> None then (the (s_maxage cc), False)
      else (case max_age cc of
        Some m \<Rightarrow> (m, False)
      | None \<Rightarrow>
          (case header_date X (m_headers meta) ''expires'' of
             Some expires \<Rightarrow> (expires - date_or_response X meta, False)
           | None \<Rightarrow>
               if hm_contains X (m_headers meta) ''expires'' then (0, False)
               else if m_status meta \<in> {301, 308} then (max_heuristic_lifetime opts, True)
               else (case header_date X (m_headers meta) ''last-modified'' of
                 Some lm \<Rightarrow> (heuristic_lifetime (date_or_response X meta - lm) opts, True)
               | None \<Rightarrow> (0, True)))))"

definition age_value :: "('h, 'u) externs \<Rightarrow> 'h \<Rightarrow> nat" where
  "age_value X h =
     (case Option.bind (header_text X h ''age'') (\<lambda>v. parse_u64 (trim v)) of
        Some n \<Rightarrow> n | None \<Rightarrow> 0)"

definition current_age :: "('h, 'u) externs \<Rightarrow> 'h stored_meta \<Rightarrow> nat \<Rightarrow> nat" where
  "current_age X meta now =
     (let apparent_age = response_time meta - date_or_response X meta;
          response_delay = response_time meta - request_time meta;
          corrected_age_value = sat_add (age_value X (m_headers meta)) response_delay;
          corrected_initial_age = max apparent_age corrected_age_value;
          resident_time = now - response_time meta
      in sat_add corrected_initial_age resident_time)"

subsection \<open>Storability\<close>

definition usable_content_range :: "('h, 'u) externs \<Rightarrow> 'h \<Rightarrow> bool" where
  "usable_content_range X h \<longleftrightarrow>
     Option.bind (header_text X h ''content-range'') parse_content_range \<noteq> None"

definition storability :: "('h, 'u) externs \<Rightarrow> string \<Rightarrow> 'h \<Rightarrow> 'h stored_meta \<Rightarrow> nat
    \<Rightarrow> cache_options \<Rightarrow> storability" where
  "storability X meth req meta body_len opts =
     (let req_cc = cc_from_headers X req;
          h = m_headers meta;
          cc = cc_from_headers X h;
          understood = is_heuristically_cacheable (m_status meta);
          lifetime = fst (freshness_lifetime X meta opts);
          explicit = (\<not> snd (freshness_lifetime X meta opts)) in
      if \<not> is_cacheable_method meth then Reject ''method is not cacheable''
      else if max_body_bytes opts < body_len then Reject ''body exceeds max_body_bytes''
      else if no_store req_cc then Reject ''request no-store''
      else if no_store cc \<and> \<not> (must_understand cc \<and> understood) then Reject ''response no-store''
      else if shared opts \<and> cc_private cc then Reject ''private response in a shared cache''
      else if shared opts \<and> hm_contains X req ''authorization''
          \<and> \<not> (cc_public cc \<or> s_maxage cc \<noteq> None \<or> must_revalidate cc)
        then Reject ''authorized request without shared-cache permission''
      else if shared opts \<and> hm_contains X h ''set-cookie'' \<and> \<not> cc_public cc
        then Reject ''set-cookie in a shared cache''
      else if varies_on_everything (vary_fields X h) then Reject ''Vary: *''
      else if m_status meta = 304
        then Reject ''a conditional response is folded in, not stored''
      else if m_status meta = 206 \<and> \<not> usable_content_range X h
        then Reject ''206 without a usable Content-Range''
      else if \<not> is_heuristically_cacheable (m_status meta) \<and> \<not> explicit
        then Reject ''status needs explicit freshness information''
      else if lifetime = 0 \<and> \<not> hm_contains X h ''etag'' \<and> \<not> hm_contains X h ''last-modified''
        then Reject ''no freshness lifetime and no validator''
      else Store)"

subsection \<open>Evaluation of a stored response\<close>

definition stale_if_error_allowance :: "cache_control \<Rightarrow> nat \<Rightarrow> bool \<Rightarrow> nat option" where
  "stale_if_error_allowance cc staleness pinned =
     (if pinned \<or> (no_cache cc \<and> no_cache_fields cc = []) then None
      else (case stale_if_error cc of
        None \<Rightarrow> None
      | Some window \<Rightarrow> if staleness \<le> window then Some (window - staleness) else None))"

definition client_conditional :: "('h, 'u) externs \<Rightarrow> 'h \<Rightarrow> bool" where
  "client_conditional X req \<longleftrightarrow>
     hm_contains X req ''if-none-match'' \<or> hm_contains X req ''if-modified-since''
     \<or> hm_contains X req ''if-match'' \<or> hm_contains X req ''if-unmodified-since''"

definition stale_acceptable :: "cache_control \<Rightarrow> nat \<Rightarrow> bool" where
  "stale_acceptable req_cc staleness \<longleftrightarrow>
     (case max_stale req_cc of
        None \<Rightarrow> False
      | Some bound \<Rightarrow> (case bound of Some s \<Rightarrow> staleness \<le> s | None \<Rightarrow> True))"

definition evaluate :: "('h, 'u) externs \<Rightarrow> 'h \<Rightarrow> 'h stored_meta \<Rightarrow> nat \<Rightarrow> cache_options
    \<Rightarrow> freshness" where
  "evaluate X req meta now opts =
     (if client_conditional X req then Unusable ''client-supplied conditional''
      else let req_cc = cc_from_headers X req in
      if no_store req_cc then Unusable ''request no-store''
      else let cc = cc_from_headers X (m_headers meta);
          age = current_age X meta now;
          lifetime = fst (freshness_lifetime X meta opts);
          staleness = age - lifetime;
          pinned = (must_revalidate cc \<or> (shared opts \<and> proxy_revalidate cc));
          sie = stale_if_error_allowance cc staleness pinned in
      if no_cache req_cc then Revalidate age lifetime sie ''request no-cache''
      else if no_cache cc \<and> no_cache_fields cc = []
        then Revalidate age lifetime sie ''response no-cache''
      else if (case max_age req_cc of Some m \<Rightarrow> m < age | None \<Rightarrow> False)
        then Revalidate age lifetime sie ''request max-age exceeded''
      else let minf = (case min_fresh req_cc of Some m \<Rightarrow> m | None \<Rightarrow> 0) in
      if sat_add age minf < lifetime then Fresh age lifetime
      else if 0 < minf \<and> age < lifetime
        then Revalidate age lifetime sie ''request min-fresh not satisfied''
      else if \<not> pinned \<and> stale_acceptable req_cc staleness
        then ServeStale age lifetime False ''request max-stale''
      else if \<not> pinned
          \<and> (case stale_while_revalidate cc of Some w \<Rightarrow> staleness \<le> w | None \<Rightarrow> False)
        then ServeStale age lifetime True ''stale-while-revalidate''
      else Revalidate age lifetime sie (if pinned then ''must-revalidate'' else ''stale''))"

subsection \<open>Revalidation\<close>

definition conditional_headers :: "('h, 'u) externs \<Rightarrow> 'h stored_meta \<Rightarrow> (string \<times> string) list" where
  "conditional_headers X meta =
     (case header_text X (m_headers meta) ''etag'' of
        Some etag \<Rightarrow> [(''if-none-match'', etag)] | None \<Rightarrow> [])
     @ (case header_text X (m_headers meta) ''last-modified'' of
        Some lm \<Rightarrow> [(''if-modified-since'', lm)] | None \<Rightarrow> [])"

definition has_validator :: "('h, 'u) externs \<Rightarrow> 'h stored_meta \<Rightarrow> bool" where
  "has_validator X meta \<longleftrightarrow>
     hm_contains X (m_headers meta) ''etag'' \<or> hm_contains X (m_headers meta) ''last-modified''"

definition NOT_UPDATED_BY_304 :: "string list" where
  "NOT_UPDATED_BY_304 = [''content-length'', ''content-encoding'', ''content-range'']"

definition updates_304 :: "('h, 'u) externs \<Rightarrow> 'h \<Rightarrow> string \<Rightarrow> bool" where
  "updates_304 X fresh name \<longleftrightarrow>
     \<not> is_hop_by_hop name (connection_tokens X fresh) \<and> name \<notin> set NOT_UPDATED_BY_304"

definition apply_304 :: "('h, 'u) externs \<Rightarrow> 'h \<Rightarrow> 'h \<Rightarrow> 'h" where
  "apply_304 X stored fresh =
     (let cleared = fold (\<lambda>name h. if updates_304 X fresh name then hm_remove X name h else h)
                      (hm_keys X fresh) stored in
      fold (\<lambda>(name, value) h. if updates_304 X fresh name then hm_append X name value h else h)
        (hm_iter X fresh) cleared)"

definition suppressed_fields :: "('h, 'u) externs \<Rightarrow> 'h stored_meta \<Rightarrow> string list" where
  "suppressed_fields X meta =
     (let cc = cc_from_headers X (m_headers meta) in no_cache_fields cc @ private_fields cc)"

subsection \<open>What an evaluation promises\<close>

definition pinned :: "cache_options \<Rightarrow> cache_control \<Rightarrow> bool" where
  "pinned opts cc \<longleftrightarrow> must_revalidate cc \<or> (shared opts \<and> proxy_revalidate cc)"

definition must_validate :: "cache_control \<Rightarrow> bool" where
  "must_validate cc \<longleftrightarrow> no_cache cc \<and> no_cache_fields cc = []"

lemma current_age_le [simp]: "current_age X meta now \<le> u64_max"
  by (simp add: current_age_def Let_def)

lemma current_age_mono: "now \<le> now' \<Longrightarrow> current_age X meta now \<le> current_age X meta now'"
  by (auto simp: current_age_def Let_def intro: sat_add_mono)

lemma evaluate_cases:
  assumes "evaluate X req meta now opts = f" and "\<And>r. f \<noteq> Unusable r"
  shows "\<not> client_conditional X req" and "\<not> no_store (cc_from_headers X req)"
  using assms by (auto simp: evaluate_def Let_def split: if_splits)

lemma evaluate_Fresh:
  "evaluate X req meta now opts = Fresh age lifetime \<longleftrightarrow>
     \<not> client_conditional X req
     \<and> \<not> no_store (cc_from_headers X req) \<and> \<not> no_cache (cc_from_headers X req)
     \<and> \<not> must_validate (cc_from_headers X (m_headers meta))
     \<and> age = current_age X meta now \<and> lifetime = fst (freshness_lifetime X meta opts)
     \<and> (\<forall>m. max_age (cc_from_headers X req) = Some m \<longrightarrow> age \<le> m)
     \<and> sat_add age (case min_fresh (cc_from_headers X req) of Some m \<Rightarrow> m | None \<Rightarrow> 0) < lifetime"
  by (auto simp: evaluate_def Let_def must_validate_def split: option.splits)

text \<open>
  A stored response is served as fresh only while its current age, with the time the
  client wants to be left, is below its freshness lifetime, within the client's \<open>max-age\<close>, and
  never for a client that validates for itself or when either side forbids reuse without
  validation.
\<close>

theorem fresh_is_fresh:
  assumes "evaluate X req meta now opts = Fresh age lifetime" and "lifetime \<le> u64_max"
  shows "age = current_age X meta now \<and> lifetime = fst (freshness_lifetime X meta opts)
    \<and> age < lifetime
    \<and> (\<forall>m. min_fresh (cc_from_headers X req) = Some m \<longrightarrow> age + m < lifetime)
    \<and> (\<forall>m. max_age (cc_from_headers X req) = Some m \<longrightarrow> age \<le> m)
    \<and> \<not> no_store (cc_from_headers X req) \<and> \<not> no_cache (cc_from_headers X req)
    \<and> \<not> must_validate (cc_from_headers X (m_headers meta)) \<and> \<not> client_conditional X req"
proof -
  let ?mf = "case min_fresh (cc_from_headers X req) of Some m \<Rightarrow> m | None \<Rightarrow> 0"
  from assms(1) have less: "sat_add age ?mf < lifetime" by (auto simp: evaluate_Fresh)
  then have "age + ?mf < lifetime" using assms(2) by (rule sat_add_less)
  then show ?thesis using assms(1) by (auto simp: evaluate_Fresh)
qed

definition demo_meta :: "(string \<times> bytes) list \<Rightarrow> (string \<times> bytes) list stored_meta" where
  "demo_meta h = \<lparr>m_status = 200, m_headers = h, request_time = 1000, response_time = 1000\<rparr>"

lemmas header_eval = cc_from_headers_def text_values_def header_text_def header_date_def demo_def
  absorb_def split_directives_def flush_piece_def absorb_directive_def directive_arg_def
  to_lower_def lower_char_def is_upper_def trim_def trim_start_def trim_end_def is_ws_def
  cc_default_def arg_secs_def parse_u64_def num_of_digits_def digit_val_def is_digit_def
  u64_max_def pragma_no_cache_def List.map_filter_def eq_ic_def parse_http_date_def unquote_def
  arg_fields_def comma_fields_def

lemmas policy_eval = demo_meta_def evaluate_def freshness_lifetime_def current_age_def
  date_or_response_def age_value_def client_conditional_def sat_add_def default_options_def

theorem fresh_is_fresh_witness:
  "evaluate demo [] (demo_meta [(''cache-control'', ''max-age=60'')]) 1030 default_options = Fresh 30 60
   \<and> (30::nat) < 60"
proof -
  have "evaluate demo [] (demo_meta [(''cache-control'', ''max-age=60'')]) 1030 default_options = Fresh 30 60"
    by (simp add: policy_eval header_eval Let_def)
  then show ?thesis using fresh_is_fresh [of demo "[]"] by (auto simp: u64_max_def)
qed

text \<open>
  C27: A stale response is served without contacting the origin only under a permission that
  covers its staleness, the client's \<open>max-stale\<close> or the origin's \<open>stale-while-revalidate\<close>, and
  never against \<open>must-revalidate\<close>, \<open>proxy-revalidate\<close> in a shared cache, or an unqualified
  \<open>no-cache\<close> of either side.
\<close>

theorem stale_serving_is_permitted:
  assumes "evaluate X req meta now opts = ServeStale age lifetime background reason"
    and "lifetime \<le> u64_max"
  shows "age = current_age X meta now \<and> lifetime = fst (freshness_lifetime X meta opts)
    \<and> lifetime \<le> age
    \<and> \<not> pinned opts (cc_from_headers X (m_headers meta))
    \<and> \<not> must_validate (cc_from_headers X (m_headers meta))
    \<and> \<not> no_cache (cc_from_headers X req) \<and> \<not> no_store (cc_from_headers X req)
    \<and> (if background
       then (\<exists>w. stale_while_revalidate (cc_from_headers X (m_headers meta)) = Some w
         \<and> age - lifetime \<le> w)
       else (\<exists>b. max_stale (cc_from_headers X req) = Some b
         \<and> (\<forall>s. b = Some s \<longrightarrow> age - lifetime \<le> s)))"
proof -
  have "sat_add age 0 = age" if "age \<le> u64_max" for age using that by (simp add: sat_add_def)
  moreover have "sat_add age m < lifetime \<or> 0 < m \<or> lifetime \<le> age" if "age \<le> u64_max" for m
    using that by (cases m) (auto simp: sat_add_def)
  ultimately show ?thesis
    using assms current_age_le [of X meta now]
    by (auto simp: evaluate_def Let_def pinned_def must_validate_def stale_acceptable_def
        not_less split: if_splits option.splits)
qed

theorem stale_serving_is_permitted_witness:
  "evaluate demo [(''cache-control'', ''max-stale'')] (demo_meta [(''cache-control'', ''max-age=60'')])
     2000 default_options = ServeStale 1000 60 False ''request max-stale'' \<and> (60::nat) \<le> 1000"
proof -
  have "evaluate demo [(''cache-control'', ''max-stale'')]
      (demo_meta [(''cache-control'', ''max-age=60'')]) 2000 default_options
      = ServeStale 1000 60 False ''request max-stale''"
    by (simp add: policy_eval header_eval Let_def stale_acceptable_def)
  then show ?thesis
    using stale_serving_is_permitted [of demo "[(''cache-control'', ''max-stale'')]"]
    by (auto simp: u64_max_def)
qed

text \<open>
  When the origin has to be contacted, the seconds for which the stored body may stand in
  for a failure are what is left of the origin's \<open>stale-if-error\<close> window, and there are none
  against \<open>must-revalidate\<close>, \<open>proxy-revalidate\<close> in a shared cache, or an unqualified \<open>no-cache\<close>.
\<close>

theorem stale_if_error_is_bounded:
  assumes "evaluate X req meta now opts = Revalidate age lifetime sie reason"
  shows "\<forall>left. sie = Some left \<longleftrightarrow>
      \<not> pinned opts (cc_from_headers X (m_headers meta))
      \<and> \<not> must_validate (cc_from_headers X (m_headers meta))
      \<and> stale_if_error (cc_from_headers X (m_headers meta)) = Some (age - lifetime + left)"
proof -
  have "sie = stale_if_error_allowance (cc_from_headers X (m_headers meta)) (age - lifetime)
      (pinned opts (cc_from_headers X (m_headers meta)))"
    using assms by (auto simp: evaluate_def Let_def pinned_def split: if_splits)
  then show ?thesis
    by (auto simp: stale_if_error_allowance_def must_validate_def split: option.splits)
qed

theorem stale_if_error_is_bounded_witness:
  "\<exists>reason. evaluate demo [] (demo_meta [(''cache-control'', ''max-age=60, stale-if-error=100'')])
     1070 default_options = Revalidate 70 60 (Some 90) reason
   \<and> stale_if_error (cc_from_headers demo [(''cache-control'', ''max-age=60, stale-if-error=100'')])
       = Some (70 - 60 + 90)"
proof -
  have ev: "evaluate demo [] (demo_meta [(''cache-control'', ''max-age=60, stale-if-error=100'')])
      1070 default_options = Revalidate 70 60 (Some 90) ''stale''"
    by (simp add: policy_eval header_eval Let_def stale_acceptable_def stale_if_error_allowance_def)
  have "m_headers (demo_meta h) = h" for h by (simp add: demo_meta_def)
  then show ?thesis using spec [OF stale_if_error_is_bounded [OF ev], of 90] ev by simp
qed

text \<open>
  Time only makes a stored response older: what is fresh for a request at some moment was
  fresh for it at every earlier one, with no greater age and the same lifetime.
\<close>

theorem freshness_only_runs_out:
  assumes "evaluate X req meta later opts = Fresh age lifetime" and "earlier \<le> later"
  shows "\<exists>age' \<le> age. evaluate X req meta earlier opts = Fresh age' lifetime"
proof -
  let ?mf = "case min_fresh (cc_from_headers X req) of Some m \<Rightarrow> m | None \<Rightarrow> 0"
  have le: "current_age X meta earlier \<le> current_age X meta later"
    using assms(2) by (rule current_age_mono)
  then have "sat_add (current_age X meta earlier) ?mf \<le> sat_add (current_age X meta later) ?mf"
    by (rule sat_add_mono) simp
  then have "evaluate X req meta earlier opts = Fresh (current_age X meta earlier) lifetime"
    using assms(1) le by (auto simp: evaluate_Fresh intro: order_trans)
  then show ?thesis using assms(1) le by (auto simp: evaluate_Fresh)
qed

theorem freshness_only_runs_out_witness:
  "\<exists>age' \<le> 30. evaluate demo [] (demo_meta [(''cache-control'', ''max-age=60'')]) 1010 default_options
     = Fresh age' 60"
proof (rule freshness_only_runs_out)
  show "evaluate demo [] (demo_meta [(''cache-control'', ''max-age=60'')]) 1030 default_options = Fresh 30 60"
    by (simp add: policy_eval header_eval Let_def)
qed simp

subsection \<open>Heuristic freshness\<close>

lemma f64_of_u64_exact: "n < 2 ^ 53 \<Longrightarrow> f64_of_u64 n \<le> of_nat n"
  by (simp add: f64_of_u64_def f64_round_le_nat)

lemma round_even_nonneg: "0 \<le> y \<Longrightarrow> 0 \<le> round_even y"
  by (auto simp: round_even_def Let_def)

lemma f64_round_nonneg: "0 \<le> x \<Longrightarrow> 0 \<le> f64_round x"
  using f64_unit_pos [of x]
  by (auto simp: f64_round_def f64_round_pos_def intro!: mult_nonneg_nonneg round_even_nonneg)

lemma heuristic_lifetime_le:
  assumes "0 \<le> heuristic_fraction opts" and "heuristic_fraction opts \<le> 1" and "delta < 2 ^ 53"
  shows "heuristic_lifetime delta opts \<le> delta"
proof -
  let ?d = "f64_of_u64 delta" and ?f = "heuristic_fraction opts"
  have d: "0 \<le> ?d" "?d \<le> of_nat delta"
    using assms(3) by (auto simp: f64_of_u64_def intro: f64_round_nonneg f64_round_le_nat)
  have "?d * ?f \<le> ?d * 1" using d assms(2) by (intro mult_left_mono) auto
  then have "?d * ?f \<le> of_nat delta" using d by simp
  then have "f64_mul ?d ?f \<le> of_nat delta"
    using assms d by (auto simp: f64_mul_def intro: f64_round_le_nat)
  then have "f64_to_u64 (f64_mul ?d ?f) \<le> delta"
    by (auto simp: f64_to_u64_def min_def) linarith+
  then show ?thesis by (simp add: heuristic_lifetime_def)
qed

text \<open>
  A response without an explicit lifetime is never held fresh past the configured ceiling,
  nor, when what it has is a \<open>Last-Modified\<close>, for longer than it had gone unmodified; and one
  with an \<open>Expires\<close> that is no date is stale at once rather than guessed at.
\<close>

theorem heuristic_freshness_is_bounded:
  assumes "freshness_lifetime X meta opts = (lifetime, heuristic)"
    and "0 \<le> heuristic_fraction opts" and "heuristic_fraction opts \<le> 1"
    and "date_or_response X meta < 2 ^ 53"
  shows "if heuristic
    then lifetime \<le> max_heuristic_lifetime opts
      \<and> max_age (cc_from_headers X (m_headers meta)) = None
      \<and> header_date X (m_headers meta) ''expires'' = None
      \<and> (m_status meta \<notin> {301, 308} \<longrightarrow>
          (case header_date X (m_headers meta) ''last-modified'' of
             Some lm \<Rightarrow> lifetime \<le> date_or_response X meta - lm | None \<Rightarrow> lifetime = 0))
    else max_age (cc_from_headers X (m_headers meta)) = None
      \<longrightarrow> header_date X (m_headers meta) ''expires'' = None \<longrightarrow> lifetime = 0
        \<or> (shared opts \<and> s_maxage (cc_from_headers X (m_headers meta)) = Some lifetime)"
proof -
  have "heuristic_lifetime (date_or_response X meta - lm) opts \<le> date_or_response X meta - lm" for lm
    using assms by (intro heuristic_lifetime_le) auto
  moreover have "heuristic_lifetime d opts \<le> max_heuristic_lifetime opts" for d
    by (simp add: heuristic_lifetime_def)
  ultimately show ?thesis
    using assms(1) by (auto simp: freshness_lifetime_def Let_def split: if_splits option.splits)
qed

theorem heuristic_freshness_is_bounded_witness:
  "freshness_lifetime demo (demo_meta [(''last-modified'', ''400'')])
     (default_options\<lparr>heuristic_fraction := 1 / 4\<rparr>) = (150, True)
   \<and> (150::nat) \<le> 1000 - 400"
proof -
  have f: "f64_of_u64 600 = 600" "f64_mul 600 (1 / 4) = 150" "f64_to_u64 150 = 150"
    by (simp_all add: f64_of_u64_def f64_mul_def f64_to_u64_def f64_round_def f64_round_pos_def
        f64_unit_def f64_exponent_def round_even_def compute_floorlog Let_def u64_max_def)
  have d: "date_or_response demo (demo_meta [(''last-modified'', ''400'')]) = 1000"
    by (simp add: date_or_response_def demo_meta_def header_eval)
  have ev: "freshness_lifetime demo (demo_meta [(''last-modified'', ''400'')])
      (default_options\<lparr>heuristic_fraction := 1 / 4\<rparr>) = (150, True)"
    unfolding freshness_lifetime_def d
    by (simp add: demo_meta_def default_options_def header_eval Let_def heuristic_lifetime_def f)
  show ?thesis
    using heuristic_freshness_is_bounded [OF ev] ev d
    by (simp add: demo_meta_def header_eval)
qed

subsection \<open>What may be stored\<close>

lemma reject_if: "(if c then Reject r else x) = Store \<longleftrightarrow> \<not> c \<and> x = Store"
  by simp

lemma usable_content_range_iff:
  "usable_content_range X h \<longleftrightarrow>
    (\<exists>v c. header_text X h ''content-range'' = Some v \<and> parse_content_range v = Some c)"
  by (cases "header_text X h ''content-range''") (auto simp: usable_content_range_def)

text \<open>
  Only a \<open>GET\<close> or \<open>HEAD\<close> response within the body limit is stored, never one either side
  marked \<open>no-store\<close> (but for a status whose rules are implemented and that the origin marked
  \<open>must-understand\<close>), that varies on everything, that is a 304, or that is a part that does
  not say which part; what is stored has a lifetime or a validator; and a shared cache stores
  no private response, and none to an authorized request or with cookies unless permitted.
  Everything else is stored.
\<close>

theorem storability_exact:
  "storability X meth req meta body_len opts = Store \<longleftrightarrow>
    (let h = m_headers meta; cc = cc_from_headers X h in
      to_upper meth \<in> {''GET'', ''HEAD''} \<and> body_len \<le> max_body_bytes opts
      \<and> \<not> no_store (cc_from_headers X req)
      \<and> (no_store cc \<longrightarrow> must_understand cc \<and> m_status meta \<in> set HEURISTICALLY_CACHEABLE)
      \<and> (shared opts \<longrightarrow> \<not> cc_private cc)
      \<and> (hm_contains X req ''authorization'' \<longrightarrow> shared opts \<longrightarrow>
          cc_public cc \<or> s_maxage cc \<noteq> None \<or> must_revalidate cc)
      \<and> (hm_contains X h ''set-cookie'' \<longrightarrow> shared opts \<longrightarrow> cc_public cc)
      \<and> ''*'' \<notin> named_fields (listed_fields X h)
      \<and> m_status meta \<noteq> 304
      \<and> (m_status meta = 206 \<longrightarrow>
          (\<exists>v c. header_text X h ''content-range'' = Some v \<and> parse_content_range v = Some c))
      \<and> (m_status meta \<in> set HEURISTICALLY_CACHEABLE \<or> \<not> snd (freshness_lifetime X meta opts))
      \<and> (0 < fst (freshness_lifetime X meta opts) \<or> has_validator X meta))"
  unfolding usable_content_range_iff [symmetric]
  by (simp add: storability_def Let_def reject_if is_cacheable_method_def has_validator_def
      is_heuristically_cacheable_def varies_on_everything_iff not_less split del: if_split)

theorem storability_exact_witness:
  "storability demo ''GET'' [] (demo_meta [(''cache-control'', ''max-age=60'')]) 10 default_options = Store
   \<and> \<not> no_store (cc_from_headers demo [(''cache-control'', ''max-age=60'')])"
proof -
  have st: "storability demo ''GET'' [] (demo_meta [(''cache-control'', ''max-age=60'')]) 10 default_options = Store"
    by (simp add: storability_def is_cacheable_method_def to_upper_def upper_char_def is_lower_def
        is_heuristically_cacheable_def HEURISTICALLY_CACHEABLE_def vary_fields_def listed_fields_def
        varies_on_everything_def freshness_lifetime_def default_options_def demo_meta_def
        header_eval Let_def)
  moreover have "\<not> no_store (cc_from_headers demo [(''cache-control'', ''max-age=60'')])"
    using st unfolding storability_exact Let_def by (simp add: demo_meta_def header_eval)
  ultimately show ?thesis by simp
qed

subsection \<open>Folding a 304 in\<close>

lemma names_of_map:
  assumes "header_map_ok X"
  shows "n \<in> set (hm_keys X h) \<Longrightarrow> is_name X n"
    and "p \<in> set (hm_iter X h) \<Longrightarrow> is_name X (fst p)"
    and "is_name X n \<Longrightarrow> n \<in> set (hm_keys X h) \<longleftrightarrow> hm_get_all X h n \<noteq> []"
proof -
  have iter: "\<And>p. p \<in> set (hm_iter X h) \<Longrightarrow> is_name X (fst p)"
    and keys: "set (hm_keys X h) = fst ` set (hm_iter X h)"
    and all: "\<And>n. is_name X n \<Longrightarrow> map snd (filter (\<lambda>p. fst p = n) (hm_iter X h)) = hm_get_all X h n"
    using assms unfolding header_map_ok_def by blast+
  show "p \<in> set (hm_iter X h) \<Longrightarrow> is_name X (fst p)" by (rule iter)
  show "n \<in> set (hm_keys X h) \<Longrightarrow> is_name X n" using iter keys by auto
  show "n \<in> set (hm_keys X h) \<longleftrightarrow> hm_get_all X h n \<noteq> []" if "is_name X n"
    using all [OF that, symmetric] keys by (auto simp: filter_empty_conv image_iff)
qed

lemma fold_remove_get_all:
  assumes "header_map_ok X" and "is_name X m" and "\<forall>n\<in>set ns. is_name X n"
  shows "hm_get_all X (fold (\<lambda>n h. if P n then hm_remove X n h else h) ns h) m
    = (if m \<in> set ns \<and> P m then [] else hm_get_all X h m)"
  using assms(3)
proof (induction ns arbitrary: h)
  case (Cons n ns)
  have "hm_get_all X (hm_remove X n h) m = (if m = n then [] else hm_get_all X h m)"
    using assms(1,2) Cons.prems unfolding header_map_ok_def by simp
  then show ?case using Cons by auto
qed simp

lemma fold_append_get_all:
  assumes "header_map_ok X" and "is_name X m" and "\<forall>p\<in>set ps. is_name X (fst p)"
  shows "hm_get_all X (fold (\<lambda>(n, v) h. if P n then hm_append X n v h else h) ps h) m
    = hm_get_all X h m @ (if P m then map snd (filter (\<lambda>p. fst p = m) ps) else [])"
  using assms(3)
proof (induction ps arbitrary: h)
  case (Cons p ps)
  obtain n v where p: "p = (n, v)" by fastforce
  have "hm_get_all X (hm_append X n v h) m = hm_get_all X h m @ (if m = n then [v] else [])"
    using assms(1,2) Cons.prems unfolding header_map_ok_def p by simp
  then show ?case using Cons by (auto simp: p)
qed simp

text \<open>
  After a 304 is folded in, a field the 304 sent has all of the 304's values in its order
  and none of the stored ones, a field it did not send keeps its stored values, and the
  hop-by-hop fields, those its \<open>Connection\<close> names, and the body's length, coding and range
  are never touched.
\<close>

theorem apply_304_exact:
  assumes "header_map_ok X" and "is_name X n"
  shows "hm_get_all X (apply_304 X stored fresh) n
    = (if hm_get_all X fresh n \<noteq> [] \<and> to_lower n \<notin> set HOP_BY_HOP
          \<and> to_lower n \<notin> set (connection_tokens X fresh)
          \<and> n \<notin> {''content-length'', ''content-encoding'', ''content-range''}
       then hm_get_all X fresh n else hm_get_all X stored n)"
proof -
  have all: "map snd (filter (\<lambda>p. fst p = n) (hm_iter X fresh)) = hm_get_all X fresh n"
    using assms unfolding header_map_ok_def by blast
  have keys: "\<forall>n\<in>set (hm_keys X fresh). is_name X n"
    and iter: "\<forall>p\<in>set (hm_iter X fresh). is_name X (fst p)"
    using names_of_map(1,2) [OF assms(1)] by blast+
  have upd: "updates_304 X fresh n \<longleftrightarrow> to_lower n \<notin> set HOP_BY_HOP
      \<and> to_lower n \<notin> set (connection_tokens X fresh)
      \<and> n \<notin> {''content-length'', ''content-encoding'', ''content-range''}"
    by (simp add: updates_304_def is_hop_by_hop_def NOT_UPDATED_BY_304_def)
  have "hm_get_all X (apply_304 X stored fresh) n
      = (if n \<in> set (hm_keys X fresh) \<and> updates_304 X fresh n then [] else hm_get_all X stored n)
        @ (if updates_304 X fresh n then hm_get_all X fresh n else [])"
    by (simp only: apply_304_def Let_def fold_append_get_all [OF assms iter]
        fold_remove_get_all [OF assms keys] all)
  then show ?thesis
    unfolding upd [symmetric] using names_of_map(3) [OF assms, of fresh] by auto
qed

theorem apply_304_exact_witness:
  "hm_get_all demo (apply_304 demo [(''link'', ''old''), (''etag'', ''e'')]
      [(''link'', ''a''), (''link'', ''b'')]) ''link'' = [''a'', ''b'']"
proof -
  have n: "is_name demo ''link''"
    by (simp add: is_name_def demo_def demo_name_def name_char_def is_alpha_def is_lower_def
        to_lower_def lower_char_def is_upper_def)
  show ?thesis
    unfolding apply_304_exact [OF demo_header_map_ok n]
    by (simp add: header_eval HOP_BY_HOP_def connection_tokens_def)
qed

end
