(* ===== verification/Blob.thy ===== *)
theory Blob
  imports Sri "HOL-Library.Char_ord" "HOL-Library.List_Lexorder"
begin

text \<open>
  \<open>crates/syndeo-cache/src/blob.rs\<close>: bodies in files named by the BLAKE3 of their bytes. The
  file system below the store's root is an association list from a path, relative to the
  root, to the file's bytes; directories are the proper prefixes of paths. What the
  operating system refuses for reasons outside the model (a full disk, permissions) is left
  out; what it refuses because of the files there are is an \<open>Io\<close> error. The unique part of
  a temporary name, made of the process and a counter, is an argument.
\<close>

subsection \<open>Addresses and paths\<close>

type_synonym content_id = bytes
type_synonym path = "string list"
type_synonym fs = "(path \<times> bytes) list"

definition content_of :: "('h, 'u) externs \<Rightarrow> bytes \<Rightarrow> content_id" where
  "content_of X b = blake3 X b"

definition to_hex :: "('h, 'u) externs \<Rightarrow> content_id \<Rightarrow> string" where
  "to_hex X cid = hex_encode X cid"

definition from_hex :: "('h, 'u) externs \<Rightarrow> string \<Rightarrow> content_id option" where
  "from_hex X s =
     (case hex_decode X s of
        None \<Rightarrow> None
      | Some b \<Rightarrow> if length b = 32 then Some b else None)"

definition path_for :: "('h, 'u) externs \<Rightarrow> content_id \<Rightarrow> path" where
  "path_for X cid = (let h = to_hex X cid in [take 2 h, take 2 (drop 2 h), h])"

datatype compression = Uncompressed | Zstd

record write_receipt =
  w_id :: content_id
  w_len :: nat
  w_stored_len :: nat
  w_compression :: compression
  w_newly_written :: bool

fun compression_tag :: "compression \<Rightarrow> char" where
  "compression_tag Uncompressed = CHR 0x00"
| "compression_tag Zstd = CHR 0x01"

definition compression_from_tag :: "char \<Rightarrow> compression" where
  "compression_from_tag t = (if t = CHR 0x01 then Zstd else Uncompressed)"

subsection \<open>The file system\<close>

definition exists_file :: "path \<Rightarrow> fs \<Rightarrow> bool" where
  "exists_file p fs \<longleftrightarrow> map_of fs p \<noteq> None"

definition read_compression :: "path \<Rightarrow> fs \<Rightarrow> compression cres" where
  "read_compression p fs =
     (case map_of fs p of
        Some (t # _) \<Rightarrow> Inr (compression_from_tag t)
      | _ \<Rightarrow> Inl Io)"

datatype fs_op =
    CreateNew path
  | WriteAll path bytes
  | Rename path path

fun fs_step :: "fs_op \<Rightarrow> fs \<Rightarrow> fs option" where
  "fs_step (CreateNew p) fs = (if exists_file p fs then None else Some (AList.update p [] fs))"
| "fs_step (WriteAll p b) fs = map_option (\<lambda>old. AList.update p (old @ b) fs) (map_of fs p)"
| "fs_step (Rename p q) fs =
     map_option (\<lambda>b. AList.update q b (AList.delete p fs)) (map_of fs p)"

text \<open>The question mark after each operation: the first that fails ends the run.\<close>

fun run_ops :: "fs_op list \<Rightarrow> fs \<Rightarrow> fs \<times> bool" where
  "run_ops [] fs = (fs, True)"
| "run_ops (o1 # os) fs =
     (case fs_step o1 fs of None \<Rightarrow> (fs, False) | Some fs' \<Rightarrow> run_ops os fs')"

definition temporary_beside :: "string \<Rightarrow> path \<Rightarrow> path" where
  "temporary_beside uniq p = butlast p @ [''.'' @ last p @ ''.tmp-'' @ uniq]"

definition write_ops :: "path \<Rightarrow> path \<Rightarrow> compression \<Rightarrow> bytes \<Rightarrow> fs_op list" where
  "write_ops tmp p c payload =
     [CreateNew tmp, WriteAll tmp [compression_tag c], WriteAll tmp payload, Rename tmp p]"

definition write_in_place ::
  "string \<Rightarrow> path \<Rightarrow> compression \<Rightarrow> bytes \<Rightarrow> fs \<Rightarrow> fs \<times> unit cres" where
  "write_in_place uniq p c payload fs =
     (let tmp = temporary_beside uniq p in
      case run_ops (write_ops tmp p c payload) fs of
        (fs', True) \<Rightarrow> (fs', Inr ())
      | (fs', False) \<Rightarrow> (AList.delete tmp fs', Inl Io))"

subsection \<open>Storing a body\<close>

definition COMPRESS_THRESHOLD :: nat where
  "COMPRESS_THRESHOLD = 1024"

definition choose_payload :: "('h, 'u) externs \<Rightarrow> bytes \<Rightarrow> bytes \<times> compression" where
  "choose_payload X b =
     (if COMPRESS_THRESHOLD \<le> length b then
        (let compressed = zstd_encode X b in
         if length compressed < length b then (compressed, Zstd) else (b, Uncompressed))
      else (b, Uncompressed))"

definition dedupe_receipt :: "('h, 'u) externs \<Rightarrow> content_id \<Rightarrow> nat \<Rightarrow> fs \<Rightarrow> write_receipt cres" where
  "dedupe_receipt X cid len fs =
     bind_res (read_compression (path_for X cid) fs) (\<lambda>c.
     Inr \<lparr>w_id = cid, w_len = len, w_stored_len = length (the (map_of fs (path_for X cid))),
          w_compression = c, w_newly_written = False\<rparr>)"

definition put :: "('h, 'u) externs \<Rightarrow> string \<Rightarrow> bytes \<Rightarrow> fs \<Rightarrow> fs \<times> write_receipt cres" where
  "put X uniq b fs =
     (let cid = content_of X b; p = path_for X cid; len = length b in
      if exists_file p fs then (fs, dedupe_receipt X cid len fs)
      else let (payload, c) = choose_payload X b in
        (case write_in_place uniq p c payload fs of
           (fs', Inl e) \<Rightarrow> (fs', Inl e)
         | (fs', Inr _) \<Rightarrow>
             (fs', Inr \<lparr>w_id = cid, w_len = len, w_stored_len = length payload + 1,
                        w_compression = c, w_newly_written = True\<rparr>)))"

subsection \<open>A body that arrives in pieces\<close>

record blob_writer =
  bw_open :: bool
  bw_path :: path
  bw_hasher :: bytes
  bw_digests :: "streaming_digests option"
  bw_len :: nat

record finished_write =
  fw_id :: content_id
  fw_path :: path
  fw_len :: nat
  fw_digests :: digests

definition writer :: "string \<Rightarrow> fs \<Rightarrow> fs \<times> blob_writer" where
  "writer uniq fs =
     (let p = [''staging'', uniq] in
      (AList.update p [] fs,
       \<lparr>bw_open = True, bw_path = p, bw_hasher = [], bw_digests = Some streaming_new, bw_len = 0\<rparr>))"

definition writer_write :: "bytes \<Rightarrow> blob_writer \<Rightarrow> fs \<Rightarrow> fs \<times> blob_writer cres" where
  "writer_write chunk w fs =
     (if \<not> bw_open w then (fs, Inl Io)
      else (case fs_step (WriteAll (bw_path w) chunk) fs of
        None \<Rightarrow> (fs, Inl Io)
      | Some fs' \<Rightarrow> (fs', Inr (w\<lparr>bw_hasher := bw_hasher w @ chunk,
           bw_digests := map_option (streaming_update chunk) (bw_digests w),
           bw_len := bw_len w + length chunk\<rparr>))))"

definition writer_finish :: "('h, 'u) externs \<Rightarrow> blob_writer \<Rightarrow> finished_write" where
  "writer_finish X w =
     \<lparr>fw_id = blake3 X (bw_hasher w), fw_path = bw_path w, fw_len = bw_len w,
      fw_digests = (case bw_digests w of
          Some d \<Rightarrow> streaming_finish X d
        | None \<Rightarrow> \<lparr>d_sha256 = [], d_sha384 = [], d_sha512 = []\<rparr>)\<rparr>"

definition writer_abandon :: "blob_writer \<Rightarrow> fs \<Rightarrow> fs" where
  "writer_abandon w fs = AList.delete (bw_path w) fs"

definition adopt :: "('h, 'u) externs \<Rightarrow> string \<Rightarrow> finished_write \<Rightarrow> fs \<Rightarrow> fs \<times> write_receipt cres" where
  "adopt X uniq f fs =
     (let cid = fw_id f; p = path_for X cid in
      if exists_file p fs then
        (let fs' = AList.delete (fw_path f) fs in (fs', dedupe_receipt X cid (fw_len f) fs'))
      else (case map_of fs (fw_path f) of
        None \<Rightarrow> (fs, Inl Io)
      | Some raw \<Rightarrow>
          (let (payload, c) = choose_payload X raw in
           case write_in_place uniq p c payload fs of
             (fs', Inl e) \<Rightarrow> (fs', Inl e)
           | (fs', Inr _) \<Rightarrow>
               (AList.delete (fw_path f) fs',
                Inr \<lparr>w_id = cid, w_len = fw_len f, w_stored_len = length payload + 1,
                     w_compression = c, w_newly_written = True\<rparr>))))"

definition commit_writer :: "('h, 'u) externs \<Rightarrow> string \<Rightarrow> blob_writer \<Rightarrow> fs
    \<Rightarrow> fs \<times> (write_receipt \<times> digests) cres" where
  "commit_writer X uniq w fs =
     (let f = writer_finish X w in
      case adopt X uniq f fs of
        (fs', Inl e) \<Rightarrow> (fs', Inl e)
      | (fs', Inr receipt) \<Rightarrow> (fs', Inr (receipt, fw_digests f)))"

subsection \<open>Reading and removing\<close>

definition decode_file :: "('h, 'u) externs \<Rightarrow> char \<Rightarrow> bytes \<Rightarrow> bytes option" where
  "decode_file X tag payload =
     (case compression_from_tag tag of
        Uncompressed \<Rightarrow> Some payload
      | Zstd \<Rightarrow> zstd_decode X payload)"

definition get :: "('h, 'u) externs \<Rightarrow> content_id \<Rightarrow> fs \<Rightarrow> fs \<times> bytes cres" where
  "get X cid fs =
     (let p = path_for X cid in
      case map_of fs p of
        None \<Rightarrow> (fs, Inl (MissingBlob (to_hex X cid)))
      | Some [] \<Rightarrow> (fs, Inl (MissingBlob (to_hex X cid)))
      | Some (tag # payload) \<Rightarrow>
          (case decode_file X tag payload of
             None \<Rightarrow> (fs, Inl Io)
           | Some b \<Rightarrow>
               (let actual = content_of X b in
                if actual \<noteq> cid
                then (AList.delete p fs, Inl (Integrity (to_hex X cid) (to_hex X actual)))
                else (fs, Inr b))))"

definition remove :: "('h, 'u) externs \<Rightarrow> content_id \<Rightarrow> fs \<Rightarrow> fs" where
  "remove X cid fs = AList.delete (path_for X cid) fs"

definition contains :: "('h, 'u) externs \<Rightarrow> content_id \<Rightarrow> fs \<Rightarrow> bool" where
  "contains X cid fs = exists_file (path_for X cid) fs"

definition disk_usage :: "fs \<Rightarrow> nat" where
  "disk_usage fs = sum_list (map (\<lambda>(_, b). length b) fs)"

subsection \<open>Housekeeping\<close>

definition is_fan_out :: "string \<Rightarrow> bool" where
  "is_fan_out name \<longleftrightarrow> length name = 2 \<and> list_all is_hexdigit name"

definition is_temporary :: "string \<Rightarrow> bool" where
  "is_temporary name \<longleftrightarrow>
     starts_with ''.'' name \<and> split_once_str ''.tmp-'' name \<noteq> None
     \<or> (case split_once_str ''.tmp'' name of
          Some (stem, pid) \<Rightarrow> length stem = 64 \<and> list_all is_hexdigit stem
            \<and> pid \<noteq> [] \<and> list_all is_digit pid
        | None \<Rightarrow> False)"

definition is_staged :: "path \<Rightarrow> bool" where
  "is_staged p \<longleftrightarrow> length p = 2 \<and> hd p = ''staging''"

definition in_fan_out :: "path \<Rightarrow> bool" where
  "in_fan_out p \<longleftrightarrow> length p = 3 \<and> is_fan_out (p ! 0) \<and> is_fan_out (p ! 1)"

definition sweep_abandoned :: "fs \<Rightarrow> fs \<times> nat" where
  "sweep_abandoned fs =
     (let abandoned = (\<lambda>(p, _). is_staged p \<or> in_fan_out p \<and> is_temporary (last p)) in
      (filter (\<lambda>f. \<not> abandoned f) fs, length (filter abandoned fs)))"

definition remove_every_body :: "fs \<Rightarrow> fs \<times> nat" where
  "remove_every_body fs =
     (let body = (\<lambda>(p, _). in_fan_out p \<and> \<not> is_temporary (last p)) in
      (filter (\<lambda>f. \<not> body f) fs, length (filter body fs)))"

subsection \<open>Paths\<close>

lemma hexdigit_not_dot: "is_hexdigit c \<Longrightarrow> c \<noteq> CHR ''.''"
  by (auto simp: is_hexdigit_def is_digit_def)

lemma to_hex_digits: "hex_ok X \<Longrightarrow> list_all is_hexdigit (to_hex X cid)"
  by (simp add: hex_ok_def to_hex_def)

lemma to_hex_no_dot: "hex_ok X \<Longrightarrow> CHR ''.'' \<notin> set (to_hex X cid)"
  using to_hex_digits [of X cid] hexdigit_not_dot by (auto simp: list_all_iff)

lemma path_for_inject [simp]: "hex_ok X \<Longrightarrow> path_for X a = path_for X b \<longleftrightarrow> a = b"
  by (auto simp: path_for_def Let_def to_hex_def hex_ok_def dest: injD)

lemma starts_with_dot: "starts_with ''.'' s \<longleftrightarrow> s \<noteq> [] \<and> hd s = CHR ''.''"
  by (cases s) (auto simp: starts_with_def)

definition hidden :: "path \<Rightarrow> bool" where
  "hidden p \<longleftrightarrow> p \<noteq> [] \<and> starts_with ''.'' (last p)"

lemma hidden_temporary [simp]: "hidden (temporary_beside u p)"
  by (simp add: hidden_def temporary_beside_def starts_with_def)

lemma not_hidden_path_for [simp]: "hex_ok X \<Longrightarrow> \<not> hidden (path_for X cid)"
  using to_hex_no_dot [of X cid]
  by (cases "to_hex X cid") (auto simp: hidden_def path_for_def Let_def starts_with_dot)

lemma path_for_not_staged [simp]: "path_for X cid \<noteq> [a, b]"
  by (simp add: path_for_def Let_def)

lemma temporary_not_path [simp]:
  "hex_ok X \<Longrightarrow> temporary_beside u p \<noteq> path_for X cid"
  "hex_ok X \<Longrightarrow> path_for X cid \<noteq> temporary_beside u p"
  using hidden_temporary [of u p] not_hidden_path_for [of X cid] by metis+

lemmas fs_simps = AList.update_conv' AList.delete_conv' exists_file_def

subsection \<open>A write, whole or interrupted\<close>

lemma run_write_ops:
  assumes "map_of fs tmp = None" and "tmp \<noteq> p"
  shows "\<exists>fs'. run_ops (write_ops tmp p c payload) fs = (fs', True)
    \<and> map_of fs' = (map_of fs)(p \<mapsto> compression_tag c # payload)"
  using assms by (auto simp: write_ops_def fs_simps fun_upd_twist)

lemma write_in_place_ok:
  assumes "map_of fs (temporary_beside u p) = None" and "temporary_beside u p \<noteq> p"
  shows "\<exists>fs'. write_in_place u p c payload fs = (fs', Inr ())
    \<and> map_of fs' = (map_of fs)(p \<mapsto> compression_tag c # payload)"
  using run_write_ops [OF assms, of c payload] by (auto simp: write_in_place_def Let_def)

text \<open>A name already taken makes the write fail, and the failure removes the file that had it.\<close>

lemma write_in_place_clash:
  assumes "map_of fs (temporary_beside u p) = Some other"
  shows "write_in_place u p c payload fs = (AList.delete (temporary_beside u p) fs, Inl Io)"
  using assms by (simp add: write_in_place_def write_ops_def fs_simps Let_def)

lemma interrupted_write_map:
  assumes "map_of fs tmp = None" and "tmp \<noteq> p" and "q \<noteq> tmp"
  shows "map_of (fst (run_ops (take k (write_ops tmp p c payload)) fs)) q
    = (if 4 \<le> k \<and> q = p then Some (compression_tag c # payload) else map_of fs q)"
proof (cases "4 \<le> k")
  case True
  then have "take k (write_ops tmp p c payload) = write_ops tmp p c payload"
    by (simp add: write_ops_def)
  then show ?thesis
    using True run_write_ops [OF assms(1,2), of c payload] by auto
next
  case False
  then have "k = 0 \<or> k = 1 \<or> k = 2 \<or> k = 3" by linarith
  then show ?thesis
    using assms False by (auto simp: write_ops_def fs_simps numeral_2_eq_2 numeral_3_eq_3)
qed

subsection \<open>What is at an address\<close>

lemma get_cong:
  assumes "map_of fs (path_for X cid) = map_of fs' (path_for X cid)"
  shows "snd (get X cid fs) = snd (get X cid fs')"
  using assms by (auto simp: get_def Let_def split: option.splits list.splits)

lemma get_addr: "snd (get X cid fs) = Inr b \<Longrightarrow> blake3 X b = cid"
  by (auto simp: get_def Let_def content_of_def split: option.splits list.splits if_splits)

lemma get_fs: "snd (get X cid fs) = Inr b \<Longrightarrow> fst (get X cid fs) = fs"
  by (auto simp: get_def Let_def split: option.splits list.splits if_splits)



text \<open>
  C29: A write that is interrupted after any number of its steps never leaves part of a body
  at an address: every address reads as it did before, or, once the last step is done, the
  written one as a whole.
\<close>

theorem interrupted_write_is_never_seen:
  assumes "hex_ok X" and "map_of fs (temporary_beside u (path_for X cid)) = None"
  shows "let ops = write_ops (temporary_beside u (path_for X cid)) (path_for X cid) c payload;
             fs' = fst (run_ops (take k ops) fs) in
    snd (get X other fs') =
      (if k < length ops \<or> other \<noteq> cid then snd (get X other fs)
       else snd (get X cid [(path_for X cid, compression_tag c # payload)]))"
proof -
  let ?tmp = "temporary_beside u (path_for X cid)" and ?p = "path_for X cid"
  let ?ops = "write_ops ?tmp ?p c payload"
  let ?fs = "fst (run_ops (take k ?ops) fs)"
  have len: "length ?ops = 4" by (simp add: write_ops_def)
  have at: "map_of ?fs (path_for X other)
      = (if 4 \<le> k \<and> other = cid then Some (compression_tag c # payload)
         else map_of fs (path_for X other))"
    using interrupted_write_map [of fs ?tmp ?p "path_for X other" k c payload] assms by simp
  show ?thesis
  proof (cases "k < 4 \<or> other \<noteq> cid")
    case True
    then have "map_of ?fs (path_for X other) = map_of fs (path_for X other)" using at by auto
    from get_cong [OF this] show ?thesis using True by (simp add: Let_def len del: fst_conv)
  next
    case False
    then have "map_of ?fs ?p = map_of [(?p, compression_tag c # payload)] ?p" using at by simp
    from get_cong [OF this] show ?thesis using False by (simp add: Let_def len)
  qed
qed

theorem interrupted_write_is_never_seen_witness:
  "let ops = write_ops (temporary_beside ''u'' (path_for demo ''a'')) (path_for demo ''a'') Uncompressed ''a'';
       fs' = fst (run_ops (take 2 ops) []) in
   snd (get demo ''a'' fs') = snd (get demo ''a'' [])"
proof -
  have len: "2 < length (write_ops tmp p c payload)" for tmp p c payload by (simp add: write_ops_def)
  have free: "map_of [] (temporary_beside ''u'' (path_for demo ''a'')) = (None :: bytes option)" by simp
  show ?thesis
    using interrupted_write_is_never_seen [OF demo_hex_ok free, of Uncompressed "''a''" 2 "''a''"]
    by (simp only: Let_def len simp_thms if_True)
qed

subsection \<open>A sound store\<close>

text \<open>
  Every file at an address decodes to bytes with that address, and no temporary file is
  lying about: how a store is between two operations.
\<close>

definition sound_file :: "('h, 'u) externs \<Rightarrow> content_id \<Rightarrow> bytes \<Rightarrow> bool" where
  "sound_file X cid raw \<longleftrightarrow> (case raw of
     [] \<Rightarrow> False
   | t # payload \<Rightarrow> (case decode_file X t payload of None \<Rightarrow> False | Some b \<Rightarrow> blake3 X b = cid))"

definition crates_ok :: "('h, 'u) externs \<Rightarrow> bool" where
  "crates_ok X \<longleftrightarrow> hex_ok X \<and> zstd_ok X"

definition store_ok :: "('h, 'u) externs \<Rightarrow> fs \<Rightarrow> bool" where
  "store_ok X fs \<longleftrightarrow> crates_ok X
     \<and> (\<forall>cid raw. map_of fs (path_for X cid) = Some raw \<longrightarrow> sound_file X cid raw)
     \<and> (\<forall>p. map_of fs p \<noteq> None \<longrightarrow> \<not> hidden p)"

lemma store_okD:
  assumes "store_ok X fs"
  shows "hex_ok X" and "zstd_ok X" and "crates_ok X"
    and "map_of fs (path_for X cid) = Some raw \<Longrightarrow> sound_file X cid raw"
    and "map_of fs (temporary_beside u p) = None"
proof -
  show "map_of fs (temporary_beside u p) = None"
    using assms hidden_temporary [of u p] unfolding store_ok_def by blast
qed (use assms in \<open>auto simp: store_ok_def crates_ok_def\<close>)

lemma store_ok_empty: "crates_ok X \<Longrightarrow> store_ok X []"
  by (simp add: store_ok_def)

lemma choose_payload_sound:
  assumes "zstd_ok X" and "choose_payload X b = (payload, c)"
  shows "decode_file X (compression_tag c) payload = Some b"
  using assms
  by (auto simp: choose_payload_def Let_def decode_file_def compression_from_tag_def zstd_ok_def
      split: if_splits)

lemma get_present:
  assumes "map_of fs (path_for X cid) = Some (t # payload)"
    and "decode_file X t payload = Some b" and "blake3 X b = cid"
  shows "get X cid fs = (fs, Inr b)"
  using assms by (simp add: get_def content_of_def Let_def)

lemma get_sound:
  assumes "store_ok X fs" and "contains X cid fs"
  shows "\<exists>b. get X cid fs = (fs, Inr b) \<and> blake3 X b = cid"
proof -
  obtain raw where raw: "map_of fs (path_for X cid) = Some raw"
    using assms(2) by (auto simp: contains_def exists_file_def)
  then have "sound_file X cid raw" using store_okD(4) assms(1) by blast
  then obtain t payload b where "raw = t # payload" "decode_file X t payload = Some b" "blake3 X b = cid"
    by (auto simp: sound_file_def split: list.splits option.splits)
  then show ?thesis using get_present raw by blast
qed

lemma get_absent: "\<not> contains X cid fs \<Longrightarrow> get X cid fs = (fs, Inl (MissingBlob (to_hex X cid)))"
  by (simp add: get_def contains_def exists_file_def Let_def)

lemma store_ok_present:
  assumes "store_ok X fs" and "choose_payload X b = (payload, c)"
    and "map_of fs' = (map_of fs)(path_for X (blake3 X b) \<mapsto> compression_tag c # payload)"
  shows "store_ok X fs'"
proof -
  have "sound_file X (blake3 X b) (compression_tag c # payload)"
    using choose_payload_sound [OF store_okD(2) [OF assms(1)] assms(2)] by (simp add: sound_file_def)
  then show ?thesis
    using assms(1,3) store_okD(1) [OF assms(1)]
    by (auto simp: store_ok_def split: if_splits)
qed

text \<open>A body as it was put, read back: what every store of one amounts to.\<close>

lemma put_new:
  assumes "store_ok X fs" and "\<not> contains X (blake3 X b) fs"
    and "choose_payload X b = (payload, c)"
  shows "\<exists>fs'. put X u b fs = (fs', Inr \<lparr>w_id = blake3 X b, w_len = length b,
        w_stored_len = length payload + 1, w_compression = c, w_newly_written = True\<rparr>)
    \<and> map_of fs' = (map_of fs)(path_for X (blake3 X b) \<mapsto> compression_tag c # payload)
    \<and> store_ok X fs'"
proof -
  let ?p = "path_for X (blake3 X b)"
  obtain fs' where w: "write_in_place u ?p c payload fs = (fs', Inr ())"
    and m: "map_of fs' = (map_of fs)(?p \<mapsto> compression_tag c # payload)"
    using write_in_place_ok [of fs u ?p c payload] store_okD [OF assms(1)] by auto
  have "store_ok X fs'" using store_ok_present [OF assms(1,3) m] .
  then show ?thesis
    using assms(2,3) w m by (simp add: put_def content_of_def contains_def Let_def)
qed

lemma put_dup:
  assumes "store_ok X fs" and "contains X (blake3 X b) fs"
  shows "\<exists>n c. put X u b fs = (fs, Inr \<lparr>w_id = blake3 X b, w_len = length b,
    w_stored_len = n, w_compression = c, w_newly_written = False\<rparr>)"
proof -
  obtain raw where raw: "map_of fs (path_for X (blake3 X b)) = Some raw"
    using assms(2) by (auto simp: contains_def exists_file_def)
  then have "sound_file X (blake3 X b) raw" using store_okD(4) assms(1) by blast
  then obtain t payload where "raw = t # payload" by (auto simp: sound_file_def split: list.splits)
  then show ?thesis
    using raw assms(2)
    by (simp add: put_def content_of_def contains_def Let_def dedupe_receipt_def read_compression_def)
qed

lemma put_total:
  assumes "store_ok X fs"
  shows "\<exists>fs' r. put X u b fs = (fs', Inr r) \<and> store_ok X fs'
    \<and> w_id r = blake3 X b \<and> w_len r = length b \<and> w_newly_written r = (\<not> contains X (blake3 X b) fs)
    \<and> contains X (blake3 X b) fs'
    \<and> (\<forall>other. other \<noteq> blake3 X b \<longrightarrow> get X other fs' = (fs', snd (get X other fs)))"
proof (cases "contains X (blake3 X b) fs")
  case True
  have "get X other fs = (fs, snd (get X other fs))" for other
    using get_sound [OF assms, of other] get_absent [of X other fs] by (cases "contains X other fs") auto
  then show ?thesis using put_dup [OF assms True, of u] True assms by fastforce
next
  case False
  obtain payload c where cp: "choose_payload X b = (payload, c)" by fastforce
  obtain fs' where p: "put X u b fs = (fs', Inr \<lparr>w_id = blake3 X b, w_len = length b,
        w_stored_len = length payload + 1, w_compression = c, w_newly_written = True\<rparr>)"
    and m: "map_of fs' = (map_of fs)(path_for X (blake3 X b) \<mapsto> compression_tag c # payload)"
    and ok: "store_ok X fs'"
    using put_new [OF assms False cp, of u] by blast
  have "get X other fs' = (fs', snd (get X other fs))" if "other \<noteq> blake3 X b" for other
  proof -
    have "map_of fs' (path_for X other) = map_of fs (path_for X other)"
      using m that store_okD(1) [OF assms] by simp
    then have "snd (get X other fs') = snd (get X other fs)" by (rule get_cong)
    moreover have "fst (get X other fs') = fs'"
      using get_sound [OF ok, of other] get_absent [of X other fs'] by (cases "contains X other fs'") auto
    ultimately show ?thesis by (metis prod.collapse)
  qed
  then show ?thesis using p m ok False by (auto simp: contains_def exists_file_def)
qed

text \<open>
  In a sound store, putting a body always succeeds and makes it readable under its
  address, byte for byte, whether it was compressed, stored as it is, or already there;
  it is reported as newly written exactly when it was not there, every other address reads
  as before, and the store stays sound.
\<close>

theorem put_then_get:
  assumes "store_ok X fs" and "collision_free X b" and "put X u b fs = (fs', r)"
  shows "get X (blake3 X b) fs' = (fs', Inr b)
    \<and> (\<exists>receipt. r = Inr receipt \<and> w_id receipt = blake3 X b \<and> w_len receipt = length b
        \<and> (w_newly_written receipt \<longleftrightarrow> \<not> contains X (blake3 X b) fs))
    \<and> (\<forall>other. other \<noteq> blake3 X b \<longrightarrow> snd (get X other fs') = snd (get X other fs))
    \<and> store_ok X fs'"
proof -
  obtain receipt where r: "r = Inr receipt" "store_ok X fs'" "contains X (blake3 X b) fs'"
    "w_id receipt = blake3 X b" "w_len receipt = length b"
    "w_newly_written receipt = (\<not> contains X (blake3 X b) fs)"
    and other: "\<forall>other. other \<noteq> blake3 X b \<longrightarrow> get X other fs' = (fs', snd (get X other fs))"
    using put_total [OF assms(1), of u b] assms(3) by auto
  obtain b' where "get X (blake3 X b) fs' = (fs', Inr b')" "blake3 X b' = blake3 X b"
    using get_sound [OF r(2,3)] by blast
  then have "get X (blake3 X b) fs' = (fs', Inr b)"
    using assms(2) by (auto simp: collision_free_def)
  then show ?thesis using r other by auto
qed

lemma demo_crates_ok: "crates_ok demo"
  by (simp add: crates_ok_def demo_hex_ok demo_zstd_ok)

theorem put_then_get_witness:
  "\<exists>fs'. put demo ''u'' ''body'' [] = (fs', snd (put demo ''u'' ''body'' []))
     \<and> get demo (blake3 demo ''body'') fs' = (fs', Inr ''body'')"
proof -
  obtain fs' r where p: "put demo ''u'' ''body'' [] = (fs', r)" by fastforce
  then show ?thesis
    using put_then_get [OF store_ok_empty [OF demo_crates_ok] demo_collision_free p] by simp
qed

subsection \<open>The contract of a body store\<close>

text \<open>
  What the cache relies on: a store in a sound state keeps what it is given, under an address
  that is the body's own, and returns nothing else.
\<close>

locale body_store =
  fixes ok :: "'s \<Rightarrow> bool"
    and addr :: "bytes \<Rightarrow> content_id"
    and put_in :: "bytes \<Rightarrow> 's \<Rightarrow> 's"
    and get_from :: "content_id \<Rightarrow> 's \<Rightarrow> bytes option"
    and remove_from :: "content_id \<Rightarrow> 's \<Rightarrow> 's"
  assumes put_ok: "ok s \<Longrightarrow> ok (put_in b s)"
    and remove_ok: "ok s \<Longrightarrow> ok (remove_from c s)"
    and get_addr: "ok s \<Longrightarrow> get_from c s = Some b \<Longrightarrow> addr b = c"
    and put_same: "ok s \<Longrightarrow> get_from (addr b) (put_in b s) \<noteq> None"
    and put_other: "ok s \<Longrightarrow> c \<noteq> addr b \<Longrightarrow> get_from c (put_in b s) = get_from c s"
    and put_keeps: "ok s \<Longrightarrow> get_from (addr b) s = Some b' \<Longrightarrow> get_from (addr b) (put_in b s) = Some b'"
    and remove_same: "ok s \<Longrightarrow> get_from c (remove_from c s) = None"
    and remove_other: "ok s \<Longrightarrow> c \<noteq> d \<Longrightarrow> get_from c (remove_from d s) = get_from c s"
begin

lemma put_all_ok: "ok s \<Longrightarrow> ok (fold put_in bs s)"
  by (induction bs arbitrary: s) (auto simp: put_ok)

lemma put_all_keeps: "ok s \<Longrightarrow> get_from c s = Some b \<Longrightarrow> get_from c (fold put_in bs s) = Some b"
proof (induction bs arbitrary: s)
  case (Cons x bs)
  then have "get_from c (put_in x s) = Some b" by (cases "c = addr x") (auto simp: put_keeps put_other)
  then show ?case using Cons by (simp add: put_ok)
qed simp

lemma put_all_holds: "ok s \<Longrightarrow> b \<in> set bs \<Longrightarrow> get_from (addr b) (fold put_in bs s) \<noteq> None"
proof (induction bs arbitrary: s)
  case (Cons x bs)
  show ?case
  proof (cases "b = x")
    case True
    then obtain y where "get_from (addr b) (put_in x s) = Some y"
      using put_same Cons.prems by blast
    then show ?thesis using put_all_keeps [OF put_ok] Cons.prems by simp
  next
    case False
    then show ?thesis using Cons put_ok by simp
  qed
qed simp

lemma put_back:
  assumes "ok s" and "\<And>b'. addr b' = addr b \<Longrightarrow> b' = b"
  shows "get_from (addr b) (put_in b s) = Some b"
proof -
  obtain b' where b': "get_from (addr b) (put_in b s) = Some b'" using put_same [OF assms(1)] by blast
  then have "addr b' = addr b" using get_addr [OF put_ok [OF assms(1)]] by blast
  then show ?thesis using assms(2) b' by blast
qed

lemma remove_all_ok: "ok s \<Longrightarrow> ok (fold remove_from cs s)"
  by (induction cs arbitrary: s) (auto simp: remove_ok)

lemma remove_all_exact:
  "ok s \<Longrightarrow> get_from c (fold remove_from cs s) = (if c \<in> set cs then None else get_from c s)"
proof (induction cs arbitrary: s)
  case (Cons d cs)
  then show ?case by (cases "c = d") (auto simp: remove_ok remove_same remove_other)
qed simp

end

definition get_opt :: "('h, 'u) externs \<Rightarrow> content_id \<Rightarrow> fs \<Rightarrow> bytes option" where
  "get_opt X cid fs = (case snd (get X cid fs) of Inl _ \<Rightarrow> None | Inr b \<Rightarrow> Some b)"

lemma get_opt_Some: "get_opt X cid fs = Some b \<longleftrightarrow> snd (get X cid fs) = Inr b"
  by (auto simp: get_opt_def split: sum.splits)

lemma get_opt_absent: "\<not> contains X cid fs \<Longrightarrow> get_opt X cid fs = None"
  by (simp add: get_opt_def get_absent)

lemma get_opt_contains: "store_ok X fs \<Longrightarrow> get_opt X cid fs \<noteq> None \<longleftrightarrow> contains X cid fs"
  using get_sound [of X fs cid] get_opt_absent [of X cid fs]
  by (cases "contains X cid fs") (auto simp: get_opt_def)

lemma map_of_remove: "map_of (remove X d fs) = (map_of fs)(path_for X d := None)"
  by (simp add: remove_def fs_simps)

lemma remove_store_ok: "store_ok X fs \<Longrightarrow> store_ok X (remove X cid fs)"
  by (auto simp: store_ok_def map_of_remove split: if_splits)

lemma get_opt_cong:
  "map_of fs (path_for X cid) = map_of fs' (path_for X cid) \<Longrightarrow> get_opt X cid fs = get_opt X cid fs'"
  unfolding get_opt_def by (drule get_cong) simp

interpretation bs: body_store "store_ok X" "blake3 X" "\<lambda>b fs. fst (put X u b fs)" "get_opt X" "remove X"
  for X :: "('h, 'u) externs" and u :: string
proof
  fix s :: fs and b c :: bytes
  assume ok: "store_ok X s"
  obtain s' r where p: "put X u b s = (s', Inr r)" "store_ok X s'" "contains X (blake3 X b) s'"
    and other: "\<forall>other. other \<noteq> blake3 X b \<longrightarrow> get X other s' = (s', snd (get X other s))"
    using put_total [OF ok, of u b] by blast
  show "store_ok X (fst (put X u b s))" using p by simp
  show "get_opt X (blake3 X b) (fst (put X u b s)) \<noteq> None"
    using p get_opt_contains by fastforce
  show "c \<noteq> blake3 X b \<Longrightarrow> get_opt X c (fst (put X u b s)) = get_opt X c s"
    using p other by (simp add: get_opt_def)
  show "store_ok X (remove X c s)" using ok by (rule remove_store_ok)
  show "get_opt X c (remove X c s) = None"
    by (rule get_opt_absent) (simp add: contains_def exists_file_def map_of_remove)
next
  fix s :: fs and b b' :: bytes
  assume ok: "store_ok X s" and b': "get_opt X (blake3 X b) s = Some b'"
  then have "contains X (blake3 X b) s" using get_opt_contains by fastforce
  then show "get_opt X (blake3 X b) (fst (put X u b s)) = Some b'"
    using put_dup [OF ok, of b u] b' by auto
next
  fix s :: fs and c d :: bytes
  assume ok: "store_ok X s" and "c \<noteq> d"
  then show "get_opt X c (remove X d s) = get_opt X c s"
    using store_okD(1) [OF ok] by (intro get_opt_cong) (simp add: map_of_remove)
next
  fix s :: fs and c b :: bytes
  assume ok: "store_ok X s" and "get_opt X c s = Some b"
  then show "blake3 X b = c"
    using get_sound [of X s c] get_absent [of X c s]
    by (cases "contains X c s") (auto simp: get_opt_Some)
qed

subsection \<open>Streaming\<close>

text \<open>The chunks a caller writes, one after another; none once a write fails.\<close>

fun write_chunks :: "bytes list \<Rightarrow> blob_writer \<Rightarrow> fs \<Rightarrow> fs \<times> blob_writer cres" where
  "write_chunks [] w fs = (fs, Inr w)"
| "write_chunks (c # cs) w fs =
     (case writer_write c w fs of
        (fs', Inl e) \<Rightarrow> (fs', Inl e)
      | (fs', Inr w') \<Rightarrow> write_chunks cs w' fs')"

lemma write_chunks_map:
  assumes "bw_open w" and "map_of fs (bw_path w) = Some old" and "bw_digests w = Some d"
  shows "\<exists>fs'. write_chunks cs w fs = (fs', Inr (w\<lparr>bw_hasher := bw_hasher w @ concat cs,
      bw_digests := Some (fold streaming_update cs d), bw_len := bw_len w + length (concat cs)\<rparr>))
    \<and> map_of fs' = (map_of fs)(bw_path w \<mapsto> old @ concat cs)"
  using assms
proof (induction cs arbitrary: w fs old d)
  case (Cons c cs)
  let ?w = "w\<lparr>bw_hasher := bw_hasher w @ c, bw_digests := Some (streaming_update c d),
      bw_len := bw_len w + length c\<rparr>"
  let ?fs = "AList.update (bw_path w) (old @ c) fs"
  have step: "writer_write c w fs = (?fs, Inr ?w)"
    using Cons.prems by (simp add: writer_write_def)
  have "bw_open ?w" "map_of ?fs (bw_path ?w) = Some (old @ c)" "bw_digests ?w = Some (streaming_update c d)"
    using Cons.prems(1) by (simp_all add: fs_simps)
  from Cons.IH [OF this] obtain fs' where
    "write_chunks cs ?w ?fs = (fs', Inr (?w\<lparr>bw_hasher := bw_hasher ?w @ concat cs,
      bw_digests := Some (fold streaming_update cs (streaming_update c d)),
      bw_len := bw_len ?w + length (concat cs)\<rparr>))"
    and "map_of fs' = (map_of ?fs)(bw_path ?w \<mapsto> (old @ c) @ concat cs)"
    by blast
  then show ?case using step by (simp add: fs_simps add.assoc fun_eq_iff)
qed (auto simp: fun_upd_idem)

lemma commit_chunks:
  assumes "store_ok X fs" and "map_of fs [''staging'', v] = None"
    and "writer v fs = (fs1, w)" and "write_chunks cs w fs1 = (fs2, Inr w')"
    and "commit_writer X u w' fs2 = (fs3, r)"
  shows "\<exists>receipt dig. r = Inr (receipt, dig) \<and> store_ok X fs3
    \<and> snd (put X u (concat cs) fs) = Inr receipt
    \<and> map_of fs3 = map_of (fst (put X u (concat cs) fs))
    \<and> (\<forall>a d. (a, d) \<in> set (digests_each dig) \<longrightarrow> d = digest_of X a (concat cs))"
proof -
  let ?s = "[''staging'', v]" and ?b = "concat cs"
  let ?cid = "blake3 X (concat cs)"
  have hid: "map_of fs (temporary_beside u' p) = None" for u' p using store_okD(5) [OF assms(1)] .
  have hex: "hex_ok X" using store_okD(1) [OF assms(1)] .
  have w: "fs1 = AList.update ?s [] fs" "bw_open w" "bw_path w = ?s" "bw_hasher w = []"
      "bw_digests w = Some streaming_new" "bw_len w = 0"
    using assms(3) by (auto simp: writer_def Let_def)
  obtain m2: "map_of fs2 = (map_of fs)(?s \<mapsto> ?b)"
    and w': "bw_hasher w' = ?b" "bw_path w' = ?s" "bw_len w' = length ?b"
      "bw_digests w' = Some (fold streaming_update cs streaming_new)"
    using write_chunks_map [of w fs1 "[]" streaming_new cs] w assms(4) by (auto simp: fs_simps)
  define f where "f = writer_finish X w'"
  have f: "fw_id f = ?cid" "fw_path f = ?s" "fw_len f = length ?b"
    "fw_digests f = streaming_finish X (fold streaming_update cs streaming_new)"
    using w' by (simp_all add: f_def writer_finish_def)
  have ps: "path_for X ?cid \<noteq> ?s" by simp
  have dig: "(a, d) \<in> set (digests_each (fw_digests f)) \<Longrightarrow> d = digest_of X a ?b" for a d
    using streaming_digests_each [of a d X cs] by (simp add: f)
  show ?thesis
  proof (cases "contains X ?cid fs")
    case True
    then have ex: "exists_file (path_for X ?cid) fs2" using m2 ps by (simp add: contains_def exists_file_def)
    have m3: "map_of (AList.delete ?s fs2) = map_of fs"
      using m2 assms(2) by (auto simp: fs_simps)
    have ad: "adopt X u f fs2 = (AList.delete ?s fs2, dedupe_receipt X ?cid (length ?b) (AList.delete ?s fs2))"
      using ex by (simp add: adopt_def f Let_def)
    have "dedupe_receipt X ?cid (length ?b) (AList.delete ?s fs2) = dedupe_receipt X ?cid (length ?b) fs"
      by (simp add: dedupe_receipt_def read_compression_def m3)
    moreover obtain receipt where pd: "put X u ?b fs = (fs, Inr receipt)"
      using put_dup [OF assms(1) True, of u] by blast
    moreover have "dedupe_receipt X ?cid (length ?b) fs = snd (put X u ?b fs)"
      using True by (simp add: put_def content_of_def contains_def Let_def)
    ultimately have "commit_writer X u w' fs2 = (AList.delete ?s fs2, Inr (receipt, fw_digests f))"
      using ad by (simp add: commit_writer_def f_def [symmetric] Let_def)
    moreover have "store_ok X (AList.delete ?s fs2)" using assms(1) m3 by (simp add: store_ok_def)
    ultimately show ?thesis using assms(5) pd m3 dig by auto
  next
    case False
    obtain payload c where cp: "choose_payload X ?b = (payload, c)" by fastforce
    let ?receipt = "\<lparr>w_id = ?cid, w_len = length ?b, w_stored_len = length payload + 1,
        w_compression = c, w_newly_written = True\<rparr>"
    obtain fsp where p: "put X u ?b fs = (fsp, Inr ?receipt)"
      and mp: "map_of fsp = (map_of fs)(path_for X ?cid \<mapsto> compression_tag c # payload)"
      and okp: "store_ok X fsp"
      using put_new [OF assms(1) False cp, of u] by blast
    have "temporary_beside u (path_for X ?cid) \<noteq> ?s" by (simp add: temporary_beside_def path_for_def Let_def)
    then have t2: "map_of fs2 (temporary_beside u (path_for X ?cid)) = None" using m2 hid by simp
    obtain fs' where wi: "write_in_place u (path_for X ?cid) c payload fs2 = (fs', Inr ())"
      and m': "map_of fs' = (map_of fs2)(path_for X ?cid \<mapsto> compression_tag c # payload)"
      using write_in_place_ok [OF t2] hex by auto
    have "\<not> exists_file (path_for X ?cid) fs2" using False m2 ps by (simp add: contains_def exists_file_def)
    then have "adopt X u f fs2 = (AList.delete ?s fs', Inr ?receipt)"
      using wi cp m2 by (simp add: adopt_def f Let_def)
    then have "commit_writer X u w' fs2 = (AList.delete ?s fs', Inr (?receipt, fw_digests f))"
      by (simp add: commit_writer_def f_def [symmetric] Let_def)
    moreover have m3: "map_of (AList.delete ?s fs') = map_of fsp"
      using m' m2 mp ps assms(2) by (auto simp: fs_simps fun_eq_iff)
    moreover have "store_ok X (AList.delete ?s fs')" using okp m3 by (simp add: store_ok_def)
    ultimately show ?thesis using assms(5) p dig by auto
  qed
qed

text \<open>
  A body written in pieces and committed ends as the same store, the same receipt and the
  same readable bytes as putting it whole, its staging file is gone, and the three digests
  computed on the way past are the body's.
\<close>

theorem streamed_body_is_put:
  assumes "store_ok X fs" and "map_of fs [''staging'', v] = None" and "collision_free X (concat cs)"
    and "writer v fs = (fs1, w)" and "write_chunks cs w fs1 = (fs2, Inr w')"
    and "commit_writer X u w' fs2 = (fs3, r)"
  shows "(\<exists>receipt dig. r = Inr (receipt, dig)
        \<and> snd (put X u (concat cs) fs) = Inr receipt
        \<and> map_of fs3 = map_of (fst (put X u (concat cs) fs))
        \<and> (\<forall>a d. (a, d) \<in> set (digests_each dig) \<longrightarrow> d = digest_of X a (concat cs)))
    \<and> snd (get X (blake3 X (concat cs)) fs3) = Inr (concat cs)
    \<and> map_of fs3 [''staging'', v] = None \<and> store_ok X fs3"
proof -
  obtain receipt dig where c: "r = Inr (receipt, dig)" "store_ok X fs3"
    "snd (put X u (concat cs) fs) = Inr receipt"
    and m: "map_of fs3 = map_of (fst (put X u (concat cs) fs))"
    and d: "\<forall>a d. (a, d) \<in> set (digests_each dig) \<longrightarrow> d = digest_of X a (concat cs)"
    using commit_chunks [OF assms(1,2,4-6)] by blast
  have "get_opt X (blake3 X (concat cs)) (fst (put X u (concat cs) fs)) = Some (concat cs)"
    using assms(1,3) by (intro bs.put_back) (auto simp: collision_free_def)
  then have "get_opt X (blake3 X (concat cs)) fs3 = Some (concat cs)"
    using m by (metis get_opt_cong)
  moreover have "map_of fs3 [''staging'', v] = None"
  proof (cases "contains X (blake3 X (concat cs)) fs")
    case True
    then show ?thesis using m put_dup [OF assms(1) True, of u] assms(2) by auto
  next
    case False
    obtain payload co where "choose_payload X (concat cs) = (payload, co)" by fastforce
    then show ?thesis
      using put_new [OF assms(1) False, of payload co u] m assms(2)
        path_for_not_staged [of X "blake3 X (concat cs)" "''staging''" v] by (auto simp del: path_for_not_staged)
  qed
  ultimately show ?thesis using c m d by (auto simp: get_opt_Some)
qed

theorem streamed_body_is_put_witness:
  "\<exists>fs1 w fs2 w' fs3 r. writer ''v'' [] = (fs1, w) \<and> write_chunks [''he'', ''llo''] w fs1 = (fs2, Inr w')
     \<and> commit_writer demo ''u'' w' fs2 = (fs3, r)
     \<and> snd (get demo (blake3 demo ''hello'') fs3) = Inr ''hello''"
proof -
  obtain fs1 w where w: "writer ''v'' [] = (fs1, w)" by fastforce
  obtain fs2 w' where c: "write_chunks [''he'', ''llo''] w fs1 = (fs2, Inr w')"
    using write_chunks_map [of w fs1 "[]" streaming_new "[''he'', ''llo'']"] w
    by (auto simp: writer_def Let_def)
  obtain fs3 r where f: "commit_writer demo ''u'' w' fs2 = (fs3, r)" by fastforce
  have "concat [''he'', ''llo''] = ''hello''" by simp
  then show ?thesis
    using streamed_body_is_put [OF store_ok_empty [OF demo_crates_ok] _ demo_collision_free w c f] w c f
    by auto
qed

subsection \<open>Sweeping and clearing\<close>

lemma hex_not_temporary: "hex_ok X \<Longrightarrow> \<not> is_temporary (to_hex X cid)"
proof -
  assume "hex_ok X"
  then have no: "CHR ''.'' \<notin> set (to_hex X cid)" by (rule to_hex_no_dot)
  have "split_once_str p (to_hex X cid) = None" if "CHR ''.'' \<in> set p" for p
  proof (cases "split_once_str p (to_hex X cid)")
    case (Some ab)
    then have "to_hex X cid = fst ab @ p @ snd ab" using split_once_str_Some by (cases ab) auto
    then show ?thesis using no that by (metis UnCI set_append)
  qed
  then show ?thesis by (simp add: is_temporary_def)
qed

lemma path_for_parts:
  "length (path_for X cid) = 3" "last (path_for X cid) = to_hex X cid"
  by (simp_all add: path_for_def Let_def)

lemma path_for_fan_out:
  assumes "hex_ok X" and "2 \<le> length cid"
  shows "in_fan_out (path_for X cid)"
proof -
  have "4 \<le> length (to_hex X cid)" using assms by (simp add: hex_ok_def to_hex_def)
  moreover have "list_all is_hexdigit (take n (to_hex X cid))"
    "list_all is_hexdigit (take n (drop m (to_hex X cid)))" for n m
    using to_hex_digits [OF assms(1), of cid]
    by (auto simp: list_all_iff dest: in_set_takeD in_set_dropD)
  ultimately show ?thesis
    by (simp add: in_fan_out_def path_for_def Let_def is_fan_out_def)
qed

lemma map_of_filter_keys: "map_of (filter (\<lambda>(k, _). P k) t) k = (if P k then map_of t k else None)"
  by (induction t) auto

text \<open>
  Sweeping removes every staged file and every temporary file in the fan-out
  directories and leaves every address reading as it did; removing every body leaves nothing
  at any address, and every temporary file where it was.
\<close>

theorem sweep_and_clear_exact:
  assumes "hex_ok X"
  shows "snd (get X cid (fst (sweep_abandoned fs))) = snd (get X cid fs)
    \<and> (\<forall>p. is_staged p \<or> in_fan_out p \<and> is_temporary (last p)
        \<longrightarrow> map_of (fst (sweep_abandoned fs)) p = None)
    \<and> length (fst (sweep_abandoned fs)) + snd (sweep_abandoned fs) = length fs
    \<and> (2 \<le> length cid \<longrightarrow> \<not> contains X cid (fst (remove_every_body fs)))
    \<and> (\<forall>p. is_staged p \<or> is_temporary (last p)
        \<longrightarrow> map_of (fst (remove_every_body fs)) p = map_of fs p)"
proof -
  let ?ab = "\<lambda>p. is_staged p \<or> in_fan_out p \<and> is_temporary (last p)"
  let ?body = "\<lambda>p. in_fan_out p \<and> \<not> is_temporary (last p)"
  have sw: "fst (sweep_abandoned fs) = filter (\<lambda>(p, _). \<not> ?ab p) fs"
    by (auto simp: sweep_abandoned_def Let_def intro!: filter_cong)
  have rm: "fst (remove_every_body fs) = filter (\<lambda>(p, _). \<not> ?body p) fs"
    by (auto simp: remove_every_body_def Let_def intro!: filter_cong)
  have "\<not> ?ab (path_for X cid)"
    using hex_not_temporary [OF assms] path_for_parts [of X cid] by (simp add: is_staged_def)
  then have "map_of (fst (sweep_abandoned fs)) (path_for X cid) = map_of fs (path_for X cid)"
    unfolding sw map_of_filter_keys by simp
  moreover have "\<forall>p. ?ab p \<longrightarrow> map_of (fst (sweep_abandoned fs)) p = None"
    unfolding sw map_of_filter_keys by simp
  moreover have "length (fst (sweep_abandoned fs)) + snd (sweep_abandoned fs) = length fs"
    using sum_length_filter_compl [of "\<lambda>(p, _). ?ab p" fs]
    by (simp add: sweep_abandoned_def Let_def case_prod_beta)
  moreover have "2 \<le> length cid \<longrightarrow> \<not> contains X cid (fst (remove_every_body fs))"
    using path_for_fan_out [OF assms, of cid] hex_not_temporary [OF assms] path_for_parts [of X cid]
    unfolding contains_def exists_file_def rm map_of_filter_keys by simp
  moreover have "\<forall>p. is_staged p \<or> is_temporary (last p)
      \<longrightarrow> map_of (fst (remove_every_body fs)) p = map_of fs p"
    unfolding rm map_of_filter_keys by (auto simp: is_staged_def in_fan_out_def)
  ultimately show ?thesis using get_cong by blast
qed

theorem sweep_and_clear_exact_witness:
  "let fs = [([''staging'', ''1-00''], ''half''), (path_for demo ''abc'', CHR 0x00 # ''abc'')] in
   snd (get demo ''abc'' (fst (sweep_abandoned fs))) = snd (get demo ''abc'' fs)
   \<and> map_of (fst (sweep_abandoned fs)) [''staging'', ''1-00''] = None
   \<and> \<not> contains demo ''abc'' (fst (remove_every_body fs))"
  using sweep_and_clear_exact [OF demo_hex_ok, of "''abc''"
      "[([''staging'', ''1-00''], ''half''), (path_for demo ''abc'', CHR 0x00 # ''abc'')]"]
  unfolding Let_def by (simp add: is_staged_def)

end
