(* ===== verification/Index.thy ===== *)
theory Index
  imports Headers Range Errors Blob
begin

text \<open>
  \<open>crates/syndeo-cache/src/index.rs\<close>: the tables of the index and every transaction on them.
  A table is an association list with distinct keys; what iterates it does so in the order of
  its keys, as redb does. A transaction is a function from the tables to the tables: one that
  returns early with an error has not committed and leaves them as they were. Encoding a
  record and decoding it again is taken to be the identity, the durability of a commit is not
  modelled, and a failing disk is not.
\<close>

subsection \<open>Records\<close>

definition SCHEMA_VERSION :: nat where
  "SCHEMA_VERSION = 2"

datatype provenance = Origin | Peer | Import

record segment =
  seg_start :: nat
  seg_end :: nat
  seg_content :: content_id

definition segment_len :: "segment \<Rightarrow> nat" where
  "segment_len s = seg_end s - seg_start s"

datatype stored_body =
    Complete content_id nat
  | Partial "nat option" "segment list"

fun is_complete :: "stored_body \<Rightarrow> bool" where
  "is_complete (Complete _ _) \<longleftrightarrow> True"
| "is_complete (Partial _ _) \<longleftrightarrow> False"

fun complete_content :: "stored_body \<Rightarrow> content_id option" where
  "complete_content (Complete c _) = Some c"
| "complete_content (Partial _ _) = None"

fun complete_len :: "stored_body \<Rightarrow> nat option" where
  "complete_len (Complete _ n) = Some n"
| "complete_len (Partial n _) = n"

fun held_len :: "stored_body \<Rightarrow> nat" where
  "held_len (Complete _ n) = n"
| "held_len (Partial _ segs) = sum_list (map segment_len segs)"

definition segment_runs :: "segment list \<Rightarrow> runs" where
  "segment_runs segs = map (\<lambda>s. (seg_start s, seg_end s)) segs"

fun coverage_of :: "stored_body \<Rightarrow> runs" where
  "coverage_of (Complete _ n) = from_sorted [(0, n)]"
| "coverage_of (Partial _ segs) = from_sorted (segment_runs segs)"

fun body_contents :: "stored_body \<Rightarrow> content_id list" where
  "body_contents (Complete c _) = [c]"
| "body_contents (Partial _ segs) = remdups_adj (sort (map seg_content segs))"

record entry_record =
  e_partition :: "string option"
  e_url :: string
  e_method :: string
  e_status :: nat
  e_headers :: "(string \<times> string) list"
  e_vary_fields :: "string list"
  e_vary_key :: string
  e_body :: stored_body
  e_request_time :: nat
  e_response_time :: nat
  e_stored_at :: nat
  e_last_used :: nat
  e_hits :: nat
  e_provenance :: provenance

definition contents :: "entry_record \<Rightarrow> content_id list" where
  "contents r = body_contents (e_body r)"

record blob_record =
  b_len :: nat
  b_stored_len :: nat
  b_compression :: compression
  b_refcount :: nat
  b_created :: nat

definition primary_key :: "string option \<Rightarrow> string \<Rightarrow> string \<Rightarrow> string" where
  "primary_key part meth url =
     (case part of Some p \<Rightarrow> p | None \<Rightarrow> []) @ CHR 0x01 # to_upper meth @ CHR 0x01 # url"

definition entry_key :: "string option \<Rightarrow> string \<Rightarrow> string \<Rightarrow> string \<Rightarrow> string" where
  "entry_key part meth url vkey = primary_key part meth url @ CHR 0x01 # vkey"

definition key_of :: "entry_record \<Rightarrow> string" where
  "key_of r = entry_key (e_partition r) (e_method r) (e_url r) (e_vary_key r)"

definition pkey_of :: "entry_record \<Rightarrow> string" where
  "pkey_of r = primary_key (e_partition r) (e_method r) (e_url r)"

subsection \<open>Tables\<close>

type_synonym ('k, 'v) table = "('k \<times> 'v) list"

record index =
  schema :: "nat option"
  entries :: "(string, entry_record) table"
  blobs :: "(content_id, blob_record) table"
  variants :: "(string, string list) table"
  counters :: "(string, nat) table"
  sri_rows :: "(bytes, content_id) table"
  peer_eligible :: "(content_id, bytes list) table"
  since_flush :: nat

definition empty_index :: index where
  "empty_index = \<lparr>schema = Some SCHEMA_VERSION, entries = [], blobs = [], variants = [],
     counters = [], sri_rows = [], peer_eligible = [], since_flush = 0\<rparr>"

definition in_key_order :: "('k :: linorder, 'v) table \<Rightarrow> ('k, 'v) table" where
  "in_key_order t = sort_key fst t"

text \<open>\<open>Index::open\<close>, of a path with no file or the tables of the file there.\<close>

definition open_index :: "index option \<Rightarrow> index cres" where
  "open_index file =
     (case file of
        None \<Rightarrow> Inr empty_index
      | Some ix \<Rightarrow>
          if schema ix \<noteq> Some SCHEMA_VERSION then Inl (SchemaMismatch (schema ix) SCHEMA_VERSION)
          else Inr (ix\<lparr>since_flush := 0\<rparr>))"

definition get_entry :: "string \<Rightarrow> index \<Rightarrow> entry_record option" where
  "get_entry key ix = map_of (entries ix) key"

definition variant_keys :: "string option \<Rightarrow> string \<Rightarrow> string \<Rightarrow> index \<Rightarrow> string list" where
  "variant_keys part meth url ix =
     (case map_of (variants ix) (primary_key part meth url) of Some ks \<Rightarrow> ks | None \<Rightarrow> [])"

definition all_entries :: "index \<Rightarrow> (string \<times> entry_record) list" where
  "all_entries ix = in_key_order (entries ix)"

definition get_blob :: "content_id \<Rightarrow> index \<Rightarrow> blob_record option" where
  "get_blob cid ix = map_of (blobs ix) cid"

subsection \<open>References\<close>

definition release :: "content_id \<Rightarrow> (content_id, blob_record) table
    \<Rightarrow> (content_id, blob_record) table \<times> bool" where
  "release c bs =
     (case map_of bs c of
        None \<Rightarrow> (bs, False)
      | Some b \<Rightarrow>
          (let b' = b\<lparr>b_refcount := b_refcount b - 1\<rparr> in
           (AList.update c b' bs, b_refcount b' = 0)))"

text \<open>Releasing a list of contents in turn, with those that reached zero.\<close>

fun release_all :: "content_id list \<Rightarrow> (content_id, blob_record) table
    \<Rightarrow> (content_id, blob_record) table \<times> content_id list" where
  "release_all [] bs = (bs, [])"
| "release_all (c # cs) bs =
     (let (bs1, zero) = release c bs; (bs2, orphans) = release_all cs bs1 in
      (bs2, (if zero then [c] else []) @ orphans))"

text \<open>Taking a reference to each content wanted; an unknown one ends the transaction.\<close>

fun take_all :: "(content_id \<times> blob_record) list \<Rightarrow> content_id list
    \<Rightarrow> (content_id, blob_record) table \<Rightarrow> (content_id + (content_id, blob_record) table)" where
  "take_all news [] bs = Inr bs"
| "take_all news (c # cs) bs =
     (case map_of bs c of
        Some b \<Rightarrow>
          take_all news cs (AList.update c (b\<lparr>b_refcount := min (b_refcount b + 1) u32_max\<rparr>) bs)
      | None \<Rightarrow>
          (case map_of news c of
             None \<Rightarrow> Inl c
           | Some b \<Rightarrow> take_all news cs (AList.update c (b\<lparr>b_refcount := 1\<rparr>) bs)))"

definition put_entry :: "('h, 'u) externs \<Rightarrow> entry_record \<Rightarrow> (content_id \<times> blob_record) list
    \<Rightarrow> index \<Rightarrow> index \<times> content_id list cres" where
  "put_entry X r news ix =
     (let key = key_of r;
          wanted = contents r;
          held = (case map_of (entries ix) key of Some previous \<Rightarrow> contents previous | None \<Rightarrow> []);
          (bs1, orphans) = release_all (filter (\<lambda>c. c \<notin> set wanted) held) (blobs ix) in
      case take_all news (filter (\<lambda>c. c \<notin> set held) wanted) bs1 of
        Inl unknown \<Rightarrow> (ix, Inl (MissingBlob (to_hex X unknown)))
      | Inr bs2 \<Rightarrow>
          (let keys = (case map_of (variants ix) (pkey_of r) of Some ks \<Rightarrow> ks | None \<Rightarrow> []);
               vs = (if e_vary_key r \<in> set keys then variants ix
                     else AList.update (pkey_of r) (keys @ [e_vary_key r]) (variants ix)) in
           (ix\<lparr>entries := AList.update key r (entries ix), blobs := bs2, variants := vs\<rparr>,
            Inr orphans)))"

definition refresh_entry :: "entry_record \<Rightarrow> index \<Rightarrow> index" where
  "refresh_entry r ix = ix\<lparr>entries := AList.update (key_of r) r (entries ix)\<rparr>"

text \<open>The loop of \<open>invalidate\<close> over the variants of a URL.\<close>

fun invalidate_keys :: "string \<Rightarrow> string list \<Rightarrow> (string, entry_record) table
    \<Rightarrow> (content_id, blob_record) table
    \<Rightarrow> (string, entry_record) table \<times> (content_id, blob_record) table \<times> content_id list" where
  "invalidate_keys pkey [] es bs = (es, bs, [])"
| "invalidate_keys pkey (v # vs) es bs =
     (let key = pkey @ CHR 0x01 # v;
          (bs1, orphans1) = (case map_of es key of
              Some r \<Rightarrow> release_all (contents r) bs
            | None \<Rightarrow> (bs, []));
          (es2, bs2, orphans2) = invalidate_keys pkey vs (AList.delete key es) bs1 in
      (es2, bs2, orphans1 @ orphans2))"

definition invalidate :: "string option \<Rightarrow> string \<Rightarrow> string \<Rightarrow> index \<Rightarrow> index \<times> content_id list" where
  "invalidate part meth url ix =
     (let pkey = primary_key part meth url;
          keys = (case map_of (variants ix) pkey of Some ks \<Rightarrow> ks | None \<Rightarrow> []);
          (es, bs, orphans) = invalidate_keys pkey keys (entries ix) (blobs ix) in
      (ix\<lparr>entries := es, blobs := bs, variants := AList.delete pkey (variants ix)\<rparr>, orphans))"

definition remove_entry :: "string \<Rightarrow> index \<Rightarrow> index \<times> content_id list" where
  "remove_entry key ix =
     (case map_of (entries ix) key of
        None \<Rightarrow> (ix, [])
      | Some r \<Rightarrow>
          (let (bs, orphans) = release_all (contents r) (blobs ix);
               keys = (case map_of (variants ix) (pkey_of r) of Some ks \<Rightarrow> ks | None \<Rightarrow> []);
               keys' = filter (\<lambda>k. k \<noteq> e_vary_key r) keys;
               vs = (if keys' = [] then AList.delete (pkey_of r) (variants ix)
                     else AList.update (pkey_of r) keys' (variants ix)) in
           (ix\<lparr>entries := AList.delete key (entries ix), blobs := bs, variants := vs\<rparr>, orphans)))"

definition drop_entry_if_unchanged :: "string \<Rightarrow> entry_record \<Rightarrow> bool \<Rightarrow> index
    \<Rightarrow> index \<times> content_id list option" where
  "drop_entry_if_unchanged key expected revoke_sharing ix =
     (case map_of (entries ix) key of
        Some r \<Rightarrow>
          if r = expected then
            (let (ix1, orphans) = remove_entry key ix;
                 ix2 = (if revoke_sharing
                        then ix1\<lparr>peer_eligible := fold AList.delete (contents r) (peer_eligible ix1)\<rparr>
                        else ix1) in
             (ix2, Some orphans))
          else (ix, None)
      | None \<Rightarrow> (ix, None))"

definition drop_broken_entry where
  "drop_broken_entry key expected ix = drop_entry_if_unchanged key expected True ix"

definition drop_entry_holding where
  "drop_entry_holding key expected ix = drop_entry_if_unchanged key expected False ix"

subsection \<open>Accesses and counters\<close>

definition add_counter :: "string \<times> nat \<Rightarrow> (string, nat) table \<Rightarrow> (string, nat) table" where
  "add_counter nb t =
     (let current = (case map_of t (fst nb) of Some v \<Rightarrow> v | None \<Rightarrow> 0) in
      AList.update (fst nb) (sat_add current (snd nb)) t)"

definition stamp_entry :: "string \<Rightarrow> nat \<Rightarrow> (string, entry_record) table \<Rightarrow> (string, entry_record) table" where
  "stamp_entry key now es =
     (case map_of es key of
        None \<Rightarrow> es
      | Some r \<Rightarrow> AList.update key (r\<lparr>e_last_used := now, e_hits := wrap64 (e_hits r + 1)\<rparr>) es)"

definition record_access :: "string option \<Rightarrow> nat \<Rightarrow> (string \<times> nat) list \<Rightarrow> index \<Rightarrow> index" where
  "record_access key now tally ix =
     ix\<lparr>since_flush := wrap64 (since_flush ix + 1),
        entries := (case key of Some k \<Rightarrow> stamp_entry k now (entries ix) | None \<Rightarrow> entries ix),
        counters := fold add_counter tally (counters ix)\<rparr>"

definition touch :: "string \<Rightarrow> nat \<Rightarrow> index \<Rightarrow> index" where
  "touch key now ix = ix\<lparr>entries := stamp_entry key now (entries ix)\<rparr>"

definition bump :: "string \<Rightarrow> nat \<Rightarrow> index \<Rightarrow> index" where
  "bump name n ix = ix\<lparr>counters := add_counter (name, n) (counters ix)\<rparr>"

definition counter :: "string \<Rightarrow> index \<Rightarrow> nat" where
  "counter name ix = (case map_of (counters ix) name of Some v \<Rightarrow> v | None \<Rightarrow> 0)"

text \<open>
  The totals over the blob table; the sums and the product are \<open>u64\<close> without a check.
\<close>

definition live_blobs :: "index \<Rightarrow> blob_record list" where
  "live_blobs ix = filter (\<lambda>b. b_refcount b \<noteq> 0) (map snd (in_key_order (blobs ix)))"

definition blob_totals :: "index \<Rightarrow> nat \<times> nat \<times> nat \<times> nat" where
  "blob_totals ix =
     fold (\<lambda>b (count, unique, on_disk, logical).
         (wrap64 (count + 1), wrap64 (unique + b_len b), wrap64 (on_disk + b_stored_len b),
          wrap64 (logical + wrap64 (b_len b * b_refcount b))))
       (live_blobs ix) (0, 0, 0, 0)"

definition entry_count :: "index \<Rightarrow> nat" where
  "entry_count ix = length (entries ix)"

definition clear_index :: "index \<Rightarrow> index \<times> nat" where
  "clear_index ix =
     (ix\<lparr>entries := [], variants := [], blobs := [], sri_rows := [], peer_eligible := []\<rparr>,
      length (entries ix))"

definition orphaned_blobs :: "index \<Rightarrow> content_id list" where
  "orphaned_blobs ix =
     map fst (filter (\<lambda>(c, b). b_refcount b = 0 \<and> length c = 32) (in_key_order (blobs ix)))"

definition forget_blob_if_unreferenced :: "content_id \<Rightarrow> index \<Rightarrow> index \<times> bool" where
  "forget_blob_if_unreferenced cid ix =
     (let (bs, forget) = (case map_of (blobs ix) cid of
          Some b \<Rightarrow> if b_refcount b = 0 then (AList.delete cid (blobs ix), True) else (blobs ix, False)
        | None \<Rightarrow> (blobs ix, True)) in
      (ix\<lparr>blobs := bs,
          peer_eligible := (if forget then AList.delete cid (peer_eligible ix) else peer_eligible ix)\<rparr>,
       forget))"

subsection \<open>Peer eligibility and integrity rows\<close>

definition grant_eligibility :: "content_id \<Rightarrow> bytes list \<Rightarrow> index \<Rightarrow> index \<times> bytes list" where
  "grant_eligibility cid verified ix =
     (if verified = [] then (ix, [])
      else if \<not> (case map_of (blobs ix) cid of Some b \<Rightarrow> 0 < b_refcount b | None \<Rightarrow> False)
        then (ix, [])
      else let keys = (case map_of (peer_eligible ix) cid of Some ks \<Rightarrow> ks | None \<Rightarrow> []);
               new = remdups_adj (sort (filter (\<lambda>k. k \<notin> set keys) verified)) in
           (if new = [] then (ix, [])
            else (ix\<lparr>peer_eligible := AList.update cid (sort (keys @ new)) (peer_eligible ix)\<rparr>, new)))"

definition eligible_hashes :: "content_id \<Rightarrow> index \<Rightarrow> bytes list" where
  "eligible_hashes cid ix = (case map_of (peer_eligible ix) cid of Some ks \<Rightarrow> ks | None \<Rightarrow> [])"

definition index_sri :: "(bytes \<times> content_id) list \<Rightarrow> index \<Rightarrow> index" where
  "index_sri rows ix = ix\<lparr>sri_rows := fold (\<lambda>(k, c). AList.update k c) rows (sri_rows ix)\<rparr>"

definition prune_sri :: "index \<Rightarrow> index \<times> nat" where
  "prune_sri ix =
     (let stale = map fst (filter (\<lambda>(k, c). map_of (blobs ix) c = None) (in_key_order (sri_rows ix))) in
      (ix\<lparr>sri_rows := fold AList.delete stale (sri_rows ix)\<rparr>, length stale))"

definition content_for_sri :: "bytes \<Rightarrow> index \<Rightarrow> content_id option" where
  "content_for_sri key ix =
     (case map_of (sri_rows ix) key of
        Some c \<Rightarrow> if length c = 32 then Some c else None
      | None \<Rightarrow> None)"

subsection \<open>References, counted\<close>

text \<open>How many entries name a blob.\<close>

definition refs :: "content_id \<Rightarrow> (string, entry_record) table \<Rightarrow> nat" where
  "refs c es = length (filter (\<lambda>(_, r). c \<in> set (contents r)) es)"

definition counted :: "(content_id, blob_record) table \<Rightarrow> content_id \<Rightarrow> nat" where
  "counted bs c = (case map_of bs c of Some b \<Rightarrow> b_refcount b | None \<Rightarrow> 0)"

lemma distinct_contents [simp]: "distinct (contents r)"
  by (cases "e_body r") (simp_all add: contents_def)

lemma refs_update:
  "distinct (map fst es) \<Longrightarrow>
   refs c (AList.update k r es) = refs c (AList.delete k es) + (if c \<in> set (contents r) then 1 else 0)"
  by (simp add: refs_def filter_length_update)

lemma refs_delete:
  "distinct (map fst es) \<Longrightarrow>
   refs c es = refs c (AList.delete k es)
     + (case map_of es k of Some r \<Rightarrow> if c \<in> set (contents r) then 1 else 0 | None \<Rightarrow> 0)"
  by (simp add: refs_def filter_length_delete [of es "\<lambda>(_, r). c \<in> set (contents r)" k]
      split: option.splits)

lemma refs_zero: "refs c es = 0 \<longleftrightarrow> (\<forall>(k, r) \<in> set es. c \<notin> set (contents r))"
  by (auto simp: refs_def filter_empty_conv)

lemma refs_zero_map:
  "distinct (map fst es) \<Longrightarrow>
   refs c es = 0 \<longleftrightarrow> (\<forall>k r. map_of es k = Some r \<longrightarrow> c \<notin> set (contents r))"
  by (force simp: refs_zero)

lemma refs_le: "refs c es \<le> length es"
  by (simp add: refs_def)

lemma refs_stamp:
  "distinct (map fst es) \<Longrightarrow> map_of es k = Some old \<Longrightarrow> contents r = contents old \<Longrightarrow>
   refs c (AList.update k r es) = refs c es"
  using refs_delete [of es c k] by (simp add: refs_update)

lemma release_map:
  "map_of (fst (release c bs)) = (map_of bs)(c := map_option (\<lambda>b. b\<lparr>b_refcount := b_refcount b - 1\<rparr>) (map_of bs c))"
  "snd (release c bs) \<longleftrightarrow> map_of bs c \<noteq> None \<and> counted bs c \<le> 1"
  by (auto simp: release_def counted_def Let_def AList.update_conv' fun_eq_iff split: option.splits)

lemma release_all_map:
  "distinct cs \<Longrightarrow>
   map_of (fst (release_all cs bs)) = (\<lambda>c. if c \<in> set cs
     then map_option (\<lambda>b. b\<lparr>b_refcount := b_refcount b - 1\<rparr>) (map_of bs c) else map_of bs c)
   \<and> snd (release_all cs bs) = filter (\<lambda>c. map_of bs c \<noteq> None \<and> counted bs c \<le> 1) cs"
proof (induction cs arbitrary: bs)
  case (Cons c cs)
  let ?bs = "fst (release c bs)"
  have split: "release_all (c # cs) bs = (fst (release_all cs ?bs),
      (if snd (release c bs) then [c] else []) @ snd (release_all cs ?bs))"
    by (simp add: case_prod_beta Let_def)
  have "\<And>d. d \<in> set cs \<Longrightarrow> map_of ?bs d = map_of bs d"
    using Cons.prems by (auto simp: release_map)
  then have "filter (\<lambda>d. map_of ?bs d \<noteq> None \<and> counted ?bs d \<le> 1) cs
      = filter (\<lambda>d. map_of bs d \<noteq> None \<and> counted bs d \<le> 1) cs"
    by (intro filter_cong) (auto simp: counted_def)
  then show ?case
    unfolding split using Cons by (auto simp: release_map fun_eq_iff)
qed simp

lemma release_distinct: "distinct (map fst bs) \<Longrightarrow> distinct (map fst (fst (release c bs)))"
  by (auto simp: release_def AList.distinct_update Let_def split: option.splits)

lemma release_all_distinct: "distinct (map fst bs) \<Longrightarrow> distinct (map fst (fst (release_all cs bs)))"
  by (induction cs arbitrary: bs) (simp_all add: release_distinct case_prod_beta Let_def)

lemma take_all_map:
  assumes "distinct cs" and "take_all news cs bs = Inr bs'"
  shows "map_of bs' = (\<lambda>c. if c \<in> set cs then
      (case map_of bs c of Some b \<Rightarrow> Some (b\<lparr>b_refcount := min (b_refcount b + 1) u32_max\<rparr>)
        | None \<Rightarrow> Some ((the (map_of news c))\<lparr>b_refcount := 1\<rparr>))
      else map_of bs c)"
  using assms
proof (induction news cs bs rule: take_all.induct)
  case (2 news c cs bs)
  show ?case
  proof (cases "map_of bs c")
    case (Some b)
    then show ?thesis using 2 by (auto simp: AList.update_conv' fun_eq_iff)
  next
    case None
    then obtain b where "map_of news c = Some b" using "2.prems" by (cases "map_of news c") auto
    then show ?thesis using 2 None by (auto simp: AList.update_conv' fun_eq_iff)
  qed
qed auto

lemma take_all_Inl:
  assumes "distinct cs" and "take_all news cs bs = Inl c"
  shows "c \<in> set cs \<and> map_of bs c = None \<and> map_of news c = None"
  using assms
proof (induction news cs bs rule: take_all.induct)
  case (2 news d cs bs)
  then show ?case
    by (auto simp: AList.update_conv' split: option.splits if_splits)
qed auto

lemma take_all_distinct:
  "take_all news cs bs = Inr bs' \<Longrightarrow> distinct (map fst bs) \<Longrightarrow> distinct (map fst bs')"
  by (induction news cs bs rule: take_all.induct)
    (auto simp: AList.distinct_update split: option.splits)

subsection \<open>The invariant of the index\<close>

text \<open>
  Keys are distinct, an entry is under its own key, a blob's count is the number of entries
  that name it, with no record only where no entry does, and every entry is listed among the
  variants of its URL.
\<close>

definition index_inv :: "index \<Rightarrow> bool" where
  "index_inv ix \<longleftrightarrow>
     distinct (map fst (entries ix)) \<and> distinct (map fst (blobs ix)) \<and> distinct (map fst (variants ix))
     \<and> (\<forall>k r. map_of (entries ix) k = Some r \<longrightarrow> k = key_of r)
     \<and> (\<forall>c. counted (blobs ix) c = refs c (entries ix))
     \<and> (\<forall>k r. map_of (entries ix) k = Some r \<longrightarrow>
          (\<exists>ks. map_of (variants ix) (pkey_of r) = Some ks \<and> e_vary_key r \<in> set ks))"

lemma index_invD:
  assumes "index_inv ix"
  shows "distinct (map fst (entries ix))" "distinct (map fst (blobs ix))" "distinct (map fst (variants ix))"
    and "map_of (entries ix) k = Some r \<Longrightarrow> k = key_of r"
    and "counted (blobs ix) c = refs c (entries ix)"
    and "map_of (entries ix) k = Some r \<Longrightarrow>
      \<exists>ks. map_of (variants ix) (pkey_of r) = Some ks \<and> e_vary_key r \<in> set ks"
  using assms by (auto simp: index_inv_def)

lemma index_inv_empty: "index_inv empty_index"
  by (simp add: index_inv_def empty_index_def counted_def refs_def)

lemma key_of_split: "key_of r = pkey_of r @ CHR 0x01 # e_vary_key r"
  by (simp add: key_of_def pkey_of_def entry_key_def)

lemma referenced_blob:
  "index_inv ix \<Longrightarrow> map_of (entries ix) k = Some r \<Longrightarrow> c \<in> set (contents r) \<Longrightarrow>
   \<exists>b. map_of (blobs ix) c = Some b \<and> 0 < b_refcount b"
proof -
  assume inv: "index_inv ix" and r: "map_of (entries ix) k = Some r" "c \<in> set (contents r)"
  then have "refs c (entries ix) \<noteq> 0" using map_of_SomeD [OF r(1)] by (auto simp: refs_zero)
  then have "counted (blobs ix) c \<noteq> 0" using index_invD(5) [OF inv] by simp
  then show ?thesis by (auto simp: counted_def split: option.splits)
qed

text \<open>What a transaction released: the blobs that lost their last reference by it.\<close>

definition lost :: "(string, entry_record) table \<Rightarrow> (string, entry_record) table \<Rightarrow> content_id set" where
  "lost es es' = {c. 0 < refs c es \<and> refs c es' = 0}"

lemma counted_release_all:
  "distinct cs \<Longrightarrow> counted (fst (release_all cs bs)) c = (if c \<in> set cs then counted bs c - 1 else counted bs c)"
  using release_all_map [of cs bs] by (auto simp: counted_def split: option.splits)

lemma counted_take_all:
  assumes "distinct cs" and "take_all news cs bs = Inr bs'"
  shows "counted bs' c = (if c \<in> set cs then min (counted bs c + 1) u32_max else counted bs c)"
  using take_all_map [OF assms] by (auto simp: counted_def u32_max_def split: option.splits)

definition held_before :: "string \<Rightarrow> index \<Rightarrow> content_id list" where
  "held_before key ix = (case map_of (entries ix) key of Some r \<Rightarrow> contents r | None \<Rightarrow> [])"

lemma distinct_held [simp]: "distinct (held_before key ix)"
  by (simp add: held_before_def split: option.splits)

definition core_inv :: "index \<Rightarrow> bool" where
  "core_inv ix \<longleftrightarrow> distinct (map fst (entries ix)) \<and> distinct (map fst (blobs ix))
     \<and> (\<forall>c. counted (blobs ix) c = refs c (entries ix))"

lemma index_inv_core: "index_inv ix \<Longrightarrow> core_inv ix"
  by (simp add: index_inv_def core_inv_def)

lemma core_invD:
  "core_inv ix \<Longrightarrow> distinct (map fst (entries ix))"
  "core_inv ix \<Longrightarrow> distinct (map fst (blobs ix))"
  "core_inv ix \<Longrightarrow> counted (blobs ix) c = refs c (entries ix)"
  by (simp_all add: core_inv_def)

lemma refs_held:
  "core_inv ix \<Longrightarrow> refs c (entries ix) = refs c (AList.delete key (entries ix))
     + (if c \<in> set (held_before key ix) then 1 else 0)"
  using refs_delete [of "entries ix" c key] core_invD(1) [of ix]
  by (cases "map_of (entries ix) key") (simp_all add: held_before_def)

lemma released_lost:
  assumes "core_inv ix" and "set cs \<subseteq> set (held_before key ix)" and "distinct cs"
    and "\<And>c. refs c es' = refs c (AList.delete key (entries ix)) + (if c \<in> set (held_before key ix) - set cs \<or> c \<in> N then 1 else 0)"
    and "N \<inter> set cs = {}"
  shows "set (snd (release_all cs (blobs ix))) = lost (entries ix) es'"
proof -
  have "set (snd (release_all cs (blobs ix))) = {c \<in> set cs. map_of (blobs ix) c \<noteq> None \<and> counted (blobs ix) c \<le> 1}"
    using release_all_map [OF assms(3), of "blobs ix"] by auto
  also have "\<dots> = {c \<in> set cs. counted (blobs ix) c = 1}"
  proof -
    have "counted (blobs ix) c \<ge> 1" if "c \<in> set cs" for c
      using that assms(2) refs_held [OF assms(1), of c key] core_invD(3) [OF assms(1), of c] by auto
    moreover have "map_of (blobs ix) c \<noteq> None" if "counted (blobs ix) c \<ge> 1" for c
      using that by (cases "map_of (blobs ix) c") (auto simp: counted_def)
    ultimately show ?thesis by (auto intro: le_antisym)
  qed
  also have "\<dots> = lost (entries ix) es'"
  proof (intro set_eqI)
    fix c
    have r: "counted (blobs ix) c = refs c (AList.delete key (entries ix))
        + (if c \<in> set (held_before key ix) then 1 else 0)"
      using refs_held [OF assms(1), of c key] core_invD(3) [OF assms(1), of c] by simp
    show "c \<in> {c \<in> set cs. counted (blobs ix) c = 1} \<longleftrightarrow> c \<in> lost (entries ix) es'"
    proof (cases "c \<in> set cs")
      case True
      then have "c \<in> set (held_before key ix)" "c \<notin> N" using assms(2,5) by auto
      then show ?thesis
        using True r assms(4) [of c] core_invD(3) [OF assms(1), of c] by (simp add: lost_def)
    next
      case False
      then show ?thesis
        using r assms(4) [of c] core_invD(3) [OF assms(1), of c]
        by (cases "c \<in> set (held_before key ix)") (auto simp: lost_def)
    qed
  qed
  finally show ?thesis .
qed

lemma put_entry_step:
  assumes inv: "index_inv ix" and room: "length (entries ix) < u32_max"
    and put: "put_entry X r news ix = (ix', Inr orphans)"
  shows "index_inv ix' \<and> set orphans = lost (entries ix) (entries ix')"
proof -
  let ?key = "key_of r" and ?E = "entries ix" and ?w = "contents r"
  let ?h = "held_before ?key ix"
  let ?H = "filter (\<lambda>c. c \<notin> set ?w) ?h" and ?W = "filter (\<lambda>c. c \<notin> set ?h) ?w"
  let ?keys = "case map_of (variants ix) (pkey_of r) of Some ks \<Rightarrow> ks | None \<Rightarrow> []"
  let ?vs = "if e_vary_key r \<in> set ?keys then variants ix
      else AList.update (pkey_of r) (?keys @ [e_vary_key r]) (variants ix)"
  obtain bs1 where rel: "release_all ?H (blobs ix) = (bs1, orphans)"
    using put by (auto simp: put_entry_def held_before_def [symmetric] Let_def split: prod.splits sum.splits)
  obtain bs2 where tk: "take_all news ?W bs1 = Inr bs2"
    and ix': "ix' = ix\<lparr>entries := AList.update ?key r ?E, blobs := bs2, variants := ?vs\<rparr>"
    using put rel
    by (auto simp: put_entry_def held_before_def [symmetric] Let_def split: sum.splits)
  note d = index_invD(1-3) [OF inv]
  have dH: "distinct ?H" and dW: "distinct ?W" by simp_all
  have refs': "refs c (entries ix') = refs c (AList.delete ?key ?E) + (if c \<in> set ?w then 1 else 0)" for c
    using refs_update [OF d(1)] by (simp add: ix')
  have small: "refs c ?E < u32_max" for c using refs_le [of c ?E] room by linarith
  have cnt: "counted (blobs ix') c = refs c (entries ix')" for c
    using counted_take_all [OF dW tk, of c] counted_release_all [OF dH, of "blobs ix" c]
      index_invD(5) [OF inv, of c] refs_held [OF index_inv_core [OF inv], of c ?key] small [of c]
    by (auto simp: refs' rel) (simp add: ix')+
  have "set (snd (release_all ?H (blobs ix))) = lost ?E (entries ix')"
    by (rule released_lost [OF index_inv_core [OF inv], where key = ?key and N = "set ?w"]) (auto simp: refs')
  moreover have "map_of (variants ix') (pkey_of r) = Some ks \<Longrightarrow> e_vary_key r \<in> set ks" for ks
    by (auto simp: ix' AList.update_conv' split: if_splits option.splits)
  moreover have "\<exists>ks. map_of (variants ix') (pkey_of r) = Some ks"
    by (cases "map_of (variants ix) (pkey_of r)") (auto simp: ix' AList.update_conv')
  moreover have "\<exists>ks'. map_of (variants ix') p = Some ks' \<and> v \<in> set ks'"
    if "map_of (variants ix) p = Some ks" "v \<in> set ks" for p ks v
    using that by (auto simp: ix' AList.update_conv' split: if_splits option.splits)
  moreover have "map_of (entries ix') k = (if k = ?key then Some r else map_of ?E k)" for k
    by (simp add: ix' AList.update_conv')
  moreover have "distinct (map fst (entries ix'))" "distinct (map fst (blobs ix'))" "distinct (map fst (variants ix'))"
    using d take_all_distinct [OF tk] release_all_distinct [OF d(2), of ?H]
    by (simp_all add: ix' AList.distinct_update rel)
  ultimately show ?thesis
    using index_invD(4,6) [OF inv] cnt unfolding index_inv_def rel by (simp split: if_splits) metis
qed

lemma remove_entry_step:
  assumes inv: "index_inv ix" and rm: "remove_entry key ix = (ix', orphans)"
  shows "index_inv ix' \<and> set orphans = lost (entries ix) (entries ix')
    \<and> entries ix' = AList.delete key (entries ix)"
proof (cases "map_of (entries ix) key")
  case None
  then have "AList.delete key (entries ix) = entries ix"
    by (simp add: AList.delete_notin_dom map_of_eq_None_iff)
  then show ?thesis using None rm inv by (auto simp: remove_entry_def lost_def)
next
  case (Some r)
  let ?E = "entries ix"
  let ?keys = "case map_of (variants ix) (pkey_of r) of Some ks \<Rightarrow> ks | None \<Rightarrow> []"
  let ?keys' = "filter (\<lambda>k. k \<noteq> e_vary_key r) ?keys"
  let ?vs = "if ?keys' = [] then AList.delete (pkey_of r) (variants ix)
      else AList.update (pkey_of r) ?keys' (variants ix)"
  obtain bs where rel: "release_all (contents r) (blobs ix) = (bs, orphans)"
    and ix': "ix' = ix\<lparr>entries := AList.delete key ?E, blobs := bs, variants := ?vs\<rparr>"
    using rm Some by (auto simp: remove_entry_def Let_def split: prod.splits)
  note d = index_invD(1-3) [OF inv]
  have h: "held_before key ix = contents r" using Some by (simp add: held_before_def)
  have cnt: "counted (blobs ix') c = refs c (entries ix')" for c
    using counted_release_all [of "contents r" "blobs ix" c] index_invD(5) [OF inv, of c]
      refs_held [OF index_inv_core [OF inv], of c key] by (auto simp: rel ix' h)
  have lost: "set (snd (release_all (contents r) (blobs ix))) = lost ?E (entries ix')"
    by (rule released_lost [OF index_inv_core [OF inv], where key = key and N = "{}"]) (auto simp: ix' h)
  have kr: "key = key_of r" using index_invD(4) [OF inv Some] .
  have var: "\<exists>ks. map_of (variants ix') (pkey_of r2) = Some ks \<and> e_vary_key r2 \<in> set ks"
    if "map_of (entries ix') k2 = Some r2" for k2 r2
  proof -
    from that have r2: "map_of ?E k2 = Some r2" "k2 \<noteq> key" by (auto simp: ix' AList.delete_conv' split: if_splits)
    then have "key_of r2 \<noteq> key_of r" using index_invD(4) [OF inv r2(1)] kr by simp
    then have ne: "pkey_of r2 = pkey_of r \<Longrightarrow> e_vary_key r2 \<noteq> e_vary_key r" by (auto simp: key_of_split)
    obtain ks where "map_of (variants ix) (pkey_of r2) = Some ks" "e_vary_key r2 \<in> set ks"
      using index_invD(6) [OF inv r2(1)] by blast
    then show ?thesis
      using ne by (auto simp: ix' AList.update_conv' AList.delete_conv' filter_empty_conv split: if_splits)
  qed
  have "distinct (map fst (variants ix'))"
    using d(3) by (simp add: ix' AList.distinct_update AList.distinct_delete)
  then show ?thesis
    using d index_invD(4) [OF inv] cnt lost rel var release_all_distinct [OF d(2), of "contents r"]
    unfolding index_inv_def
    by (auto simp: ix' AList.delete_conv' AList.distinct_delete split: if_splits)
qed

lemma core_delete:
  assumes core: "core_inv ix" and r: "map_of (entries ix) key = Some r"
    and rel: "release_all (contents r) (blobs ix) = (bs, orphans)"
  shows "core_inv (ix\<lparr>entries := AList.delete key (entries ix), blobs := bs\<rparr>)
    \<and> set orphans = lost (entries ix) (AList.delete key (entries ix))"
proof -
  have h: "held_before key ix = contents r" using r by (simp add: held_before_def)
  have cnt: "counted bs c = refs c (AList.delete key (entries ix))" for c
    using counted_release_all [of "contents r" "blobs ix" c] core_invD(3) [OF core, of c]
      refs_held [OF core, of c key] by (auto simp: rel h)
  have "set (snd (release_all (contents r) (blobs ix))) = lost (entries ix) (AList.delete key (entries ix))"
    by (rule released_lost [OF core, where key = key and N = "{}"]) (auto simp: h)
  then show ?thesis
    using cnt core_invD(1,2) [OF core] release_all_distinct [of "blobs ix" "contents r"]
    by (simp add: core_inv_def rel AList.distinct_delete)
qed

lemma refs_delete_le: "distinct (map fst es) \<Longrightarrow> refs c (AList.delete k es) \<le> refs c es"
  using refs_delete [of es c k] by simp

lemma invalidate_keys_step:
  "core_inv ix \<Longrightarrow> invalidate_keys pkey vs (entries ix) (blobs ix) = (es, bs, orphans) \<Longrightarrow>
     core_inv (ix\<lparr>entries := es, blobs := bs\<rparr>)
     \<and> set orphans = lost (entries ix) es \<and> (\<forall>c. refs c es \<le> refs c (entries ix))
     \<and> map_of es = (\<lambda>k. if k \<in> (\<lambda>v. pkey @ CHR 0x01 # v) ` set vs then None else map_of (entries ix) k)"
proof (induction vs arbitrary: ix es bs orphans)
  case Nil
  then show ?case by (auto simp: lost_def core_inv_def)
next
  case (Cons v vs)
  let ?key = "pkey @ CHR 0x01 # v" and ?E = "entries ix"
  obtain bs1 o1 where 1: "(case map_of ?E ?key of Some r \<Rightarrow> release_all (contents r) (blobs ix)
      | None \<Rightarrow> (blobs ix, [])) = (bs1, o1)" by fastforce
  let ?ix = "ix\<lparr>entries := AList.delete ?key ?E, blobs := bs1\<rparr>"
  have core1: "core_inv ?ix \<and> set o1 = lost ?E (AList.delete ?key ?E)"
  proof (cases "map_of ?E ?key")
    case None
    then have "AList.delete ?key ?E = ?E" by (simp add: AList.delete_notin_dom map_of_eq_None_iff)
    then show ?thesis using None 1 Cons.prems(1) by (auto simp: lost_def core_inv_def)
  next
    case (Some r)
    then show ?thesis using core_delete [OF Cons.prems(1) Some, of bs1 o1] 1 by simp
  qed
  obtain o2 where 2: "invalidate_keys pkey vs (entries ?ix) (blobs ?ix) = (es, bs, o2)"
    and orph: "orphans = o1 @ o2"
    using Cons.prems(2) 1 by (auto simp: Let_def split: prod.splits)
  have IH: "core_inv (?ix\<lparr>entries := es, blobs := bs\<rparr>)" "set o2 = lost (entries ?ix) es"
    "\<And>c. refs c es \<le> refs c (entries ?ix)"
    "map_of es = (\<lambda>k. if k \<in> (\<lambda>v. pkey @ CHR 0x01 # v) ` set vs then None else map_of (entries ?ix) k)"
    using Cons.IH [OF conjunct1 [OF core1] 2] by blast+
  have le: "refs c (AList.delete ?key ?E) \<le> refs c ?E" for c
    using refs_delete_le core_invD(1) [OF Cons.prems(1)] .
  have "set orphans = lost ?E es"
  proof (intro set_eqI)
    fix c
    show "c \<in> set orphans \<longleftrightarrow> c \<in> lost ?E es"
      using core1 IH(2) IH(3) [of c] le [of c] orph by (auto simp: lost_def)
  qed
  moreover have "refs c es \<le> refs c ?E" for c using IH(3) [of c] le [of c] by simp
  ultimately show ?case
    using IH(1,4) by (auto simp: AList.delete_conv' core_inv_def fun_eq_iff)
qed

lemma invalidate_step:
  assumes inv: "index_inv ix" and run: "invalidate part meth url ix = (ix', orphans)"
  shows "index_inv ix' \<and> set orphans = lost (entries ix) (entries ix')
    \<and> (\<forall>k r. map_of (entries ix') k = Some r \<longrightarrow>
        map_of (entries ix) k = Some r \<and> pkey_of r \<noteq> primary_key part meth url)
    \<and> (\<forall>k. (\<nexists>v. k = primary_key part meth url @ CHR 0x01 # v) \<longrightarrow>
        map_of (entries ix') k = map_of (entries ix) k)"
proof -
  let ?p = "primary_key part meth url"
  let ?keys = "case map_of (variants ix) ?p of Some ks \<Rightarrow> ks | None \<Rightarrow> []"
  obtain es bs where ik: "invalidate_keys ?p ?keys (entries ix) (blobs ix) = (es, bs, orphans)"
    and ix': "ix' = ix\<lparr>entries := es, blobs := bs, variants := AList.delete ?p (variants ix)\<rparr>"
    using run by (auto simp: invalidate_def Let_def split: prod.splits)
  note st = invalidate_keys_step [OF index_inv_core [OF inv] ik]
  have m: "map_of es k = (if k \<in> (\<lambda>v. ?p @ CHR 0x01 # v) ` set ?keys then None else map_of (entries ix) k)" for k
    using st by simp
  have gone: "k \<in> (\<lambda>v. ?p @ CHR 0x01 # v) ` set ?keys"
    if "map_of (entries ix) k = Some r" "pkey_of r = ?p" for k r
    using that index_invD(4,6) [OF inv that(1)] by (auto simp: key_of_split)
  have m': "map_of (entries ix') k = Some r \<longleftrightarrow>
      map_of (entries ix) k = Some r \<and> k \<notin> (\<lambda>v. ?p @ CHR 0x01 # v) ` set ?keys" for k r
    using m [of k] by (simp add: ix')
  have var: "\<exists>ks. map_of (variants ix') (pkey_of r) = Some ks \<and> e_vary_key r \<in> set ks"
    if "map_of (entries ix') k = Some r" for k r
  proof -
    have "pkey_of r \<noteq> ?p" and e: "map_of (entries ix) k = Some r" using gone that m' by blast+
    then show ?thesis
      using index_invD(6) [OF inv e] by (simp add: ix' AList.delete_conv')
  qed
  have "distinct (map fst (entries ix'))" "distinct (map fst (blobs ix'))"
    "\<forall>c. counted (blobs ix') c = refs c (entries ix')"
    using conjunct1 [OF st] by (simp_all add: core_inv_def ix')
  moreover have "distinct (map fst (variants ix'))"
    using index_invD(3) [OF inv] by (simp add: ix' AList.distinct_delete)
  moreover have "\<forall>k r. map_of (entries ix') k = Some r \<longrightarrow> k = key_of r"
    using m' index_invD(4) [OF inv] by blast
  ultimately have "index_inv ix'" using var by (auto simp: index_inv_def)
  moreover have "set orphans = lost (entries ix) (entries ix')" using st by (simp add: ix')
  moreover have "map_of (entries ix') k = Some r \<Longrightarrow> map_of (entries ix) k = Some r \<and> pkey_of r \<noteq> ?p" for k r
    using m' gone by blast
  moreover have "(\<nexists>v. k = ?p @ CHR 0x01 # v) \<Longrightarrow> map_of (entries ix') k = map_of (entries ix) k" for k
    using m [of k] by (auto simp: ix')
  ultimately show ?thesis by blast
qed

subsection \<open>Every operation, as one machine\<close>

datatype index_op =
    PutEntry entry_record "(content_id \<times> blob_record) list"
  | RefreshEntry entry_record
  | Invalidate "string option" string string
  | RemoveEntry string
  | DropIfUnchanged string entry_record bool
  | RecordAccess "string option" nat "(string \<times> nat) list"
  | Touch string nat
  | Bump string nat
  | ClearIndex
  | Forget content_id
  | Grant content_id "bytes list"
  | IndexSri "(bytes \<times> content_id) list"
  | PruneSri

definition or_none :: "'e + content_id list \<Rightarrow> content_id list" where
  "or_none r = (case r of Inl _ \<Rightarrow> [] | Inr cs \<Rightarrow> cs)"

text \<open>An operation's effect on the tables, and the blobs it reports as released.\<close>

fun run_op :: "('h, 'u) externs \<Rightarrow> index_op \<Rightarrow> index \<Rightarrow> index \<times> content_id list" where
  "run_op X (PutEntry r news) ix = (let (ix', out) = put_entry X r news ix in (ix', or_none out))"
| "run_op X (RefreshEntry r) ix = (refresh_entry r ix, [])"
| "run_op X (Invalidate part meth url) ix = invalidate part meth url ix"
| "run_op X (RemoveEntry key) ix = remove_entry key ix"
| "run_op X (DropIfUnchanged key r revoke) ix =
     (let (ix', out) = drop_entry_if_unchanged key r revoke ix in
      (ix', case out of Some cs \<Rightarrow> cs | None \<Rightarrow> []))"
| "run_op X (RecordAccess key now tally) ix = (record_access key now tally ix, [])"
| "run_op X (Touch key now) ix = (touch key now ix, [])"
| "run_op X (Bump name n) ix = (bump name n ix, [])"
| "run_op X ClearIndex ix = (fst (clear_index ix), [])"
| "run_op X (Forget cid) ix = (fst (forget_blob_if_unreferenced cid ix), [])"
| "run_op X (Grant cid ks) ix = (fst (grant_eligibility cid ks ix), [])"
| "run_op X (IndexSri rows) ix = (index_sri rows ix, [])"
| "run_op X PruneSri ix = (fst (prune_sri ix), [])"

text \<open>
  When an operation is used as it is meant to be: there is room in a reference count, and a
  refreshed entry is one that is there, with the contents it has.
\<close>

fun op_allowed :: "index_op \<Rightarrow> index \<Rightarrow> bool" where
  "op_allowed (PutEntry _ _) ix \<longleftrightarrow> length (entries ix) < u32_max"
| "op_allowed (RefreshEntry r) ix \<longleftrightarrow>
     (case map_of (entries ix) (key_of r) of
        Some old \<Rightarrow> contents old = contents r \<and> pkey_of old = pkey_of r \<and> e_vary_key old = e_vary_key r
      | None \<Rightarrow> False)"
| "op_allowed _ ix \<longleftrightarrow> True"

lemma index_inv_other [simp]:
  "index_inv (ix\<lparr>counters := x\<rparr>) = index_inv ix"
  "index_inv (ix\<lparr>since_flush := y\<rparr>) = index_inv ix"
  "index_inv (ix\<lparr>since_flush := y, entries := es\<rparr>) = index_inv (ix\<lparr>entries := es\<rparr>)"
  "index_inv (ix\<lparr>sri_rows := z\<rparr>) = index_inv ix"
  "index_inv (ix\<lparr>peer_eligible := w\<rparr>) = index_inv ix"
  by (simp_all add: index_inv_def)

lemma replace_entry_step:
  assumes inv: "index_inv ix" and old: "map_of (entries ix) k = Some old"
    and r: "contents r = contents old" "key_of r = k" "pkey_of r = pkey_of old" "e_vary_key r = e_vary_key old"
  shows "index_inv (ix\<lparr>entries := AList.update k r (entries ix)\<rparr>)
    \<and> (\<forall>c. refs c (AList.update k r (entries ix)) = refs c (entries ix))"
proof -
  have same: "refs c (AList.update k r (entries ix)) = refs c (entries ix)" for c
    using refs_stamp [OF index_invD(1) [OF inv] old r(1)] .
  then show ?thesis
    using index_invD [OF inv] old r unfolding index_inv_def
    by (auto simp: AList.update_conv' AList.distinct_update split: if_splits)
qed

lemma stamp_entry_step:
  assumes inv: "index_inv ix"
  shows "index_inv (ix\<lparr>entries := stamp_entry k now (entries ix)\<rparr>)
    \<and> (\<forall>c. refs c (stamp_entry k now (entries ix)) = refs c (entries ix))"
proof (cases "map_of (entries ix) k")
  case None
  then show ?thesis using inv by (simp add: stamp_entry_def)
next
  case (Some r)
  have "k = key_of r" using index_invD(4) [OF inv Some] .
  then show ?thesis
    using replace_entry_step [OF inv Some, of "r\<lparr>e_last_used := now, e_hits := wrap64 (e_hits r + 1)\<rparr>"] Some
    by (simp add: stamp_entry_def contents_def key_of_def pkey_of_def)
qed

lemma lost_refl: "(\<And>c. refs c es' = refs c es) \<Longrightarrow> lost es es' = {}"
  by (auto simp: lost_def)

lemma drop_if_unchanged_entries:
  "drop_entry_if_unchanged key r revoke ix = (ix', out) \<Longrightarrow>
   (if map_of (entries ix) key = Some r
    then \<exists>orphans. out = Some orphans \<and> remove_entry key ix = (ix'\<lparr>peer_eligible := peer_eligible ix\<rparr>, orphans)
      \<and> peer_eligible ix' = (if revoke then fold AList.delete (contents r) (peer_eligible ix) else peer_eligible ix)
    else out = None \<and> ix' = ix)"
proof -
  assume drop: "drop_entry_if_unchanged key r revoke ix = (ix', out)"
  have same: "peer_eligible (fst (remove_entry key ix)) = peer_eligible ix"
    by (auto simp: remove_entry_def Let_def split: option.splits prod.splits)
  obtain ix1 orphans where rm: "remove_entry key ix = (ix1, orphans)" by fastforce
  have "ix1\<lparr>peer_eligible := peer_eligible ix\<rparr> = ix1" using same rm by simp
  then show ?thesis
    using drop rm same by (auto simp: drop_entry_if_unchanged_def Let_def split: option.splits if_splits)
qed

lemma forget_step:
  assumes inv: "index_inv ix"
  shows "index_inv (fst (forget_blob_if_unreferenced cid ix))
    \<and> entries (fst (forget_blob_if_unreferenced cid ix)) = entries ix"
proof (cases "map_of (blobs ix) cid")
  case None
  then show ?thesis using inv by (simp add: forget_blob_if_unreferenced_def)
next
  case (Some b)
  show ?thesis
  proof (cases "b_refcount b = 0")
    case True
    have "counted (AList.delete cid (blobs ix)) c = counted (blobs ix) c" for c
      using Some True by (simp add: counted_def AList.delete_conv')
    then show ?thesis
      using inv Some True
      by (simp add: forget_blob_if_unreferenced_def index_inv_def AList.distinct_delete
          del: map_of_eq_Some_iff)
  next
    case False
    then show ?thesis using inv Some by (simp add: forget_blob_if_unreferenced_def)
  qed
qed

lemma run_op_step:
  assumes inv: "index_inv ix" and ok: "op_allowed op ix" and run: "run_op X op ix = (ix', released)"
  shows "index_inv ix' \<and> (op \<noteq> ClearIndex \<longrightarrow> set released = lost (entries ix) (entries ix'))"
proof (cases op)
  case (PutEntry r news)
  obtain out where put: "put_entry X r news ix = (ix', out)" "released = or_none out"
    using run PutEntry by (auto split: prod.splits)
  show ?thesis
  proof (cases out)
    case (Inl e)
    then have "ix' = ix" using put(1) by (auto simp: put_entry_def Let_def split: prod.splits sum.splits)
    then show ?thesis using inv put Inl by (auto simp: or_none_def lost_def)
  next
    case (Inr orphans)
    then show ?thesis using put_entry_step [OF inv _ put(1) [unfolded Inr]] ok PutEntry put by (simp add: or_none_def)
  qed
next
  case (RefreshEntry r)
  then obtain old where old: "map_of (entries ix) (key_of r) = Some old" "contents r = contents old"
    "pkey_of r = pkey_of old" "e_vary_key r = e_vary_key old"
    using ok by (auto split: option.splits)
  then show ?thesis
    using replace_entry_step [OF inv old(1,2) refl old(3,4)] run RefreshEntry
    by (auto simp: refresh_entry_def lost_def)
next
  case (Invalidate part meth url)
  then show ?thesis using invalidate_step [OF inv, of part meth url ix' released] run by simp
next
  case (RemoveEntry key)
  then show ?thesis using remove_entry_step [OF inv, of key ix' released] run by simp
next
  case (DropIfUnchanged key r revoke)
  obtain out where d: "drop_entry_if_unchanged key r revoke ix = (ix', out)"
    "released = (case out of Some cs \<Rightarrow> cs | None \<Rightarrow> [])"
    using run DropIfUnchanged by (auto split: prod.splits)
  show ?thesis
  proof (cases "map_of (entries ix) key = Some r")
    case True
    then obtain orphans where o: "out = Some orphans"
      "remove_entry key ix = (ix'\<lparr>peer_eligible := peer_eligible ix\<rparr>, orphans)"
      using drop_if_unchanged_entries [OF d(1)] by auto
    then show ?thesis using remove_entry_step [OF inv o(2)] d(2) by simp
  next
    case False
    then show ?thesis using drop_if_unchanged_entries [OF d(1)] inv d(2) by (auto simp: lost_def)
  qed
next
  case (RecordAccess key now tally)
  then show ?thesis
    using stamp_entry_step [OF inv, of _ now] inv run
    by (cases key) (auto simp: record_access_def lost_def)
next
  case (Touch key now)
  then show ?thesis using stamp_entry_step [OF inv, of key now] run by (auto simp: touch_def lost_def)
next
  case (Forget cid)
  then show ?thesis using forget_step [OF inv, of cid] run by (auto simp: lost_def)
qed (use inv run in \<open>auto simp: bump_def clear_index_def index_sri_def prune_sri_def Let_def
    grant_eligibility_def lost_def index_inv_def counted_def refs_def split: if_splits\<close>)

interpretation index_machine: machine "\<lambda>op ix. fst (run_op X op ix)" op_allowed index_inv
  for X :: "('h, 'u) externs"
  by unfold_locales (metis prod.collapse run_op_step)

text \<open>
  Through any sequence of index operations, from an empty index, a blob's reference count
  stays the number of entries that name it, so a blob some entry names always has a record
  and is never counted as unreferenced, every entry stays listed among its URL's variants,
  and keys stay unique.
\<close>

theorem reference_counts_are_exact:
  assumes "all_ok op_allowed (\<lambda>op ix. fst (run_op X op ix)) ops empty_index"
    and "ix = fold (\<lambda>op ix. fst (run_op X op ix)) ops empty_index"
  shows "(\<forall>c. (case map_of (blobs ix) c of Some b \<Rightarrow> b_refcount b | None \<Rightarrow> 0) = refs c (entries ix))
    \<and> (\<forall>k r c. map_of (entries ix) k = Some r \<longrightarrow> c \<in> set (contents r) \<longrightarrow>
        (\<exists>b. map_of (blobs ix) c = Some b \<and> 0 < b_refcount b))
    \<and> (\<forall>k r. map_of (entries ix) k = Some r \<longrightarrow> k = key_of r
        \<and> e_vary_key r \<in> set (variant_keys (e_partition r) (e_method r) (e_url r) ix))
    \<and> distinct (map fst (entries ix))"
proof -
  have inv: "index_inv ix"
    unfolding assms(2) by (rule index_machine.run_inv [OF index_inv_empty assms(1)])
  have "e_vary_key r \<in> set (variant_keys (e_partition r) (e_method r) (e_url r) ix)"
    if "map_of (entries ix) k = Some r" for k r
    using index_invD(6) [OF inv that] by (auto simp: variant_keys_def pkey_of_def)
  then show ?thesis
    using index_invD(1,4) [OF inv] index_invD(5) [OF inv, unfolded counted_def] referenced_blob [OF inv]
    by blast
qed

text \<open>
  The blobs an operation reports for deletion are exactly those that lost their last
  reference by it, however many entries share a body and whatever the entry is replaced by.
\<close>

theorem released_blobs_are_exact:
  assumes "index_inv ix" and "op_allowed op ix" and "op \<noteq> ClearIndex"
    and "run_op X op ix = (ix', released)"
  shows "index_inv ix' \<and>
    (\<forall>c. c \<in> set released \<longleftrightarrow>
      (\<exists>k r. map_of (entries ix) k = Some r \<and> c \<in> set (contents r))
      \<and> \<not> (\<exists>k r. map_of (entries ix') k = Some r \<and> c \<in> set (contents r)))"
proof -
  have step: "index_inv ix'" "set released = lost (entries ix) (entries ix')"
    using run_op_step [OF assms(1,2,4)] assms(3) by auto
  have "0 < refs c (entries ix) \<longleftrightarrow> (\<exists>k r. map_of (entries ix) k = Some r \<and> c \<in> set (contents r))"
    and "refs c (entries ix') = 0 \<longleftrightarrow> \<not> (\<exists>k r. map_of (entries ix') k = Some r \<and> c \<in> set (contents r))" for c
    using refs_zero_map [OF index_invD(1) [OF assms(1)], of c]
      refs_zero_map [OF index_invD(1) [OF step(1)], of c] by auto
  then show ?thesis using step by (simp add: lost_def)
qed

definition demo_entry :: "string \<Rightarrow> content_id \<Rightarrow> entry_record" where
  "demo_entry url c = \<lparr>e_partition = Some ''site'', e_url = url, e_method = ''GET'', e_status = 200,
     e_headers = [], e_vary_fields = [], e_vary_key = [], e_body = Complete c 1, e_request_time = 0,
     e_response_time = 0, e_stored_at = 0, e_last_used = 0, e_hits = 0, e_provenance = Origin\<rparr>"

definition demo_blob :: blob_record where
  "demo_blob = \<lparr>b_len = 1, b_stored_len = 2, b_compression = Uncompressed, b_refcount = 0, b_created = 0\<rparr>"

abbreviation demo_two :: "index_op list" where
  "demo_two \<equiv> [PutEntry (demo_entry ''a'' ''c'') [(''c'', demo_blob)],
     PutEntry (demo_entry ''b'' ''c'') [(''c'', demo_blob)]]"

lemmas index_eval = empty_index_def put_entry_def contents_def demo_entry_def demo_blob_def key_of_def
  entry_key_def primary_key_def pkey_of_def to_upper_def upper_char_def is_lower_def remove_entry_def
  release_def or_none_def u32_max_def refresh_entry_def

lemma demo_two_ok: "all_ok op_allowed (\<lambda>op ix. fst (run_op X op ix)) demo_two empty_index"
  by (simp add: index_eval Let_def)

theorem reference_counts_are_exact_witness:
  "let ix = fold (\<lambda>op ix. fst (run_op demo op ix)) demo_two empty_index in
   refs ''c'' (entries ix) = 2 \<and> (\<exists>b. map_of (blobs ix) ''c'' = Some b \<and> b_refcount b = 2)"
proof -
  let ?ix = "fold (\<lambda>op ix. fst (run_op demo op ix)) demo_two empty_index"
  have "refs ''c'' (entries ?ix) = 2"
    by (simp add: index_eval refs_def Let_def)
  then show ?thesis
    using reference_counts_are_exact [OF demo_two_ok refl, of demo] unfolding Let_def
    by (auto split: option.splits dest!: spec [of _ "''c''"])
qed

theorem released_blobs_are_exact_witness:
  "\<exists>ix' released. run_op demo (RemoveEntry (key_of (demo_entry ''a'' ''c'')))
       (fst (run_op demo (PutEntry (demo_entry ''a'' ''c'') [(''c'', demo_blob)]) empty_index)) = (ix', released)
     \<and> ''c'' \<in> set released"
proof -
  let ?k = "key_of (demo_entry ''a'' ''c'')"
  let ?ix = "fst (run_op demo (PutEntry (demo_entry ''a'' ''c'') [(''c'', demo_blob)]) empty_index)"
  have inv: "index_inv ?ix"
    by (rule index_machine.step_inv [OF index_inv_empty]) (simp add: empty_index_def u32_max_def)
  obtain ix' released where run: "run_op demo (RemoveEntry ?k) ?ix = (ix', released)" by fastforce
  have "map_of (entries ?ix) ?k = Some (demo_entry ''a'' ''c'')" "''c'' \<in> set (contents (demo_entry ''a'' ''c''))"
    by (simp_all add: index_eval Let_def)
  moreover have "entries ix' = []" using run by (auto simp: index_eval Let_def)
  ultimately have "''c'' \<in> set released"
    using released_blobs_are_exact [OF inv _ _ run] by fastforce
  then show ?thesis using run by blast
qed

text \<open>
  A refresh that lands after its entry was removed writes the entry back with no
  reference of its own, and removing it once more reports a body for deletion that another
  entry still names: reference counts are exact only as long as nothing is removed between
  reading an entry and refreshing it, which no lock ensures.
\<close>

theorem late_refresh_releases_a_shared_body:
  "let ix = fold (\<lambda>op ix. fst (run_op X op ix)) demo_two empty_index;
       a = demo_entry ''a'' ''c'';
       ix1 = fst (run_op X (RemoveEntry (key_of a)) ix);
       ix2 = fst (run_op X (RefreshEntry a) ix1);
       (ix3, released) = run_op X (RemoveEntry (key_of a)) ix2 in
   index_inv ix1 \<and> \<not> index_inv ix2 \<and> released = [''c'']
   \<and> map_of (entries ix3) (key_of (demo_entry ''b'' ''c'')) = Some (demo_entry ''b'' ''c'')
   \<and> ''c'' \<in> set (contents (demo_entry ''b'' ''c''))"
proof -
  let ?ix = "fold (\<lambda>op ix. fst (run_op X op ix)) demo_two empty_index"
  let ?a = "demo_entry ''a'' ''c''" and ?b = "demo_entry ''b'' ''c''"
  let ?ix1 = "fst (run_op X (RemoveEntry (key_of ?a)) ?ix)"
  let ?ix2 = "fst (run_op X (RefreshEntry ?a) ?ix1)"
  have "index_inv ?ix" by (rule index_machine.run_inv [OF index_inv_empty demo_two_ok])
  then have "index_inv ?ix1" by (rule index_machine.step_inv) simp
  moreover have "counted (blobs ?ix2) ''c'' = 1" "refs ''c'' (entries ?ix2) = 2"
    by (simp_all add: index_eval counted_def refs_def Let_def)
  then have "\<not> index_inv ?ix2" using index_invD(5) [of ?ix2 "''c''"] by auto
  moreover have "snd (run_op X (RemoveEntry (key_of ?a)) ?ix2) = [''c'']"
    and "map_of (entries (fst (run_op X (RemoveEntry (key_of ?a)) ?ix2))) (key_of ?b) = Some ?b"
    and "''c'' \<in> set (contents ?b)"
    by (simp_all add: index_eval Let_def)
  ultimately show ?thesis by (simp add: Let_def case_prod_beta)
qed

subsection \<open>Keys\<close>

lemma split_first: "c \<notin> set a \<Longrightarrow> c \<notin> set a' \<Longrightarrow> a @ c # b = a' @ c # b' \<longleftrightarrow> a = a' \<and> b = b'"
  by (induction a arbitrary: a') (case_tac a'; auto)+

lemma split_last: "c \<notin> set b \<Longrightarrow> c \<notin> set b' \<Longrightarrow> a @ c # b = a' @ c # b' \<longleftrightarrow> a = a' \<and> b = b'"
  using split_first [of c "rev b" "rev b'" "rev a" "rev a'"]
  by (metis rev_append rev_rev_ident rev.simps(2) append.assoc append_Cons append_Nil set_rev)

lemma upper_char_one: "upper_char c = CHR 0x01 \<longleftrightarrow> c = CHR 0x01"
proof
  assume one: "upper_char c = CHR 0x01"
  show "c = CHR 0x01"
  proof (cases "is_lower c")
    case True
    have "(of_char c :: nat) - 32 < 256" using nat_of_char_less_256 [of c] by linarith
    then have "(of_char (upper_char c) :: nat) = of_char c - 32"
      using True by (simp add: upper_char_def is_lower_def of_char_of)
    then have "(of_char c :: nat) - 32 = 1" using one by simp
    then show ?thesis using True unfolding is_lower_def by linarith
  next
    case False
    then show ?thesis using one by (simp add: upper_char_def)
  qed
qed (simp add: upper_char_def is_lower_def)

lemma to_upper_one: "CHR 0x01 \<in> set (to_upper s) \<longleftrightarrow> CHR 0x01 \<in> set s"
proof (induction s)
  case (Cons c s)
  have "CHR 0x01 = upper_char c \<longleftrightarrow> CHR 0x01 = c" using upper_char_one [of c] by metis
  then show ?case using Cons by (simp only: to_upper_def list.map list.set insert_iff)
qed (simp add: to_upper_def)

definition site_of :: "string option \<Rightarrow> string" where
  "site_of part = (case part of Some p \<Rightarrow> p | None \<Rightarrow> [])"

lemma entry_key_inject:
  assumes "CHR 0x01 \<notin> set (site_of p @ m @ v)" and "CHR 0x01 \<notin> set (site_of p' @ m' @ v')"
  shows "entry_key p m url v = entry_key p' m' url' v'
    \<longleftrightarrow> site_of p = site_of p' \<and> to_upper m = to_upper m' \<and> url = url' \<and> v = v'"
proof -
  have up: "CHR 0x01 \<notin> set (to_upper m)" "CHR 0x01 \<notin> set (to_upper m')"
    using assms by (simp_all add: to_upper_one)
  have key: "entry_key q n u w = (site_of q @ CHR 0x01 # to_upper n @ CHR 0x01 # u) @ CHR 0x01 # w" for q n u w
    by (simp add: entry_key_def primary_key_def site_of_def)
  have s: "CHR 0x01 \<notin> set (site_of p)" "CHR 0x01 \<notin> set (site_of p')"
    and v: "CHR 0x01 \<notin> set v" "CHR 0x01 \<notin> set v'" using assms by simp_all
  let ?a = "site_of p @ CHR 0x01 # to_upper m @ CHR 0x01 # url"
  let ?a' = "site_of p' @ CHR 0x01 # to_upper m' @ CHR 0x01 # url'"
  have "entry_key p m url v = entry_key p' m' url' v' \<longleftrightarrow> ?a = ?a' \<and> v = v'"
    unfolding key by (rule split_last [OF v])
  moreover have "?a = ?a' \<longleftrightarrow> site_of p = site_of p'
      \<and> to_upper m @ CHR 0x01 # url = to_upper m' @ CHR 0x01 # url'"
    by (rule split_first [OF s])
  moreover have "to_upper m @ CHR 0x01 # url = to_upper m' @ CHR 0x01 # url'
      \<longleftrightarrow> to_upper m = to_upper m' \<and> url = url'"
    by (rule split_first [OF up])
  ultimately show ?thesis by argo
qed

text \<open>
  Cache keys keep sites apart: two requests share a key only if their sites, methods,
  URLs and variants are the same, whatever the URLs contain, so a response fetched under one
  site is never found under another.
\<close>

theorem entry_keys_keep_sites_apart:
  assumes "CHR 0x01 \<notin> set (site_of p @ m @ v)" and "CHR 0x01 \<notin> set (site_of p' @ m' @ v')"
  shows "entry_key p m url v = entry_key p' m' url' v'
    \<longleftrightarrow> site_of p = site_of p' \<and> to_upper m = to_upper m' \<and> url = url' \<and> v = v'"
  by (rule entry_key_inject [OF assms])

subsection \<open>Dropping an entry once\<close>

text \<open>
  An entry is dropped only while it is exactly the one the caller saw, in which case it
  is gone and its peer grants with it if asked; otherwise nothing changes. Of two callers
  that saw the same broken entry, whatever other entry the second finds there, only the
  first drops it.
\<close>

theorem broken_entry_is_dropped_once:
  assumes "drop_entry_if_unchanged key expected revoke ix = (ix', out)" and "index_inv ix"
  shows "(out = None \<longleftrightarrow> map_of (entries ix) key \<noteq> Some expected)
    \<and> (out = None \<longrightarrow> ix' = ix)
    \<and> (out \<noteq> None \<longrightarrow> map_of (entries ix') key = None
        \<and> (\<forall>k. k \<noteq> key \<longrightarrow> map_of (entries ix') k = map_of (entries ix) k)
        \<and> (\<forall>c \<in> set (contents expected). revoke \<longrightarrow> eligible_hashes c ix' = [])
        \<and> snd (drop_entry_if_unchanged key expected revoke ix') = None)"
proof (cases "map_of (entries ix) key = Some expected")
  case True
  note d = drop_if_unchanged_entries [OF assms(1)]
  obtain orphans where o: "out = Some orphans"
    "remove_entry key ix = (ix'\<lparr>peer_eligible := peer_eligible ix\<rparr>, orphans)"
    "peer_eligible ix' = (if revoke then fold AList.delete (contents expected) (peer_eligible ix) else peer_eligible ix)"
    using d True by auto
  have e: "entries ix' = AList.delete key (entries ix)"
    using remove_entry_step [OF assms(2) o(2)] by simp
  have gone: "map_of (fold AList.delete cs t) c = (if c \<in> set cs then None else map_of t c)"
    for cs c and t :: "(content_id, bytes list) table"
    by (induction cs arbitrary: t) (auto simp: AList.delete_conv')
  show ?thesis
    using True o e gone
    by (auto simp: AList.delete_conv' drop_entry_if_unchanged_def eligible_hashes_def)
next
  case False
  then show ?thesis using drop_if_unchanged_entries [OF assms(1)] by auto
qed

theorem broken_entry_is_dropped_once_witness:
  "let ix = fold (\<lambda>op ix. fst (run_op demo op ix)) demo_two empty_index;
       a = demo_entry ''a'' ''c'';
       (ix', out) = drop_entry_if_unchanged (key_of a) a True ix in
   out \<noteq> None \<and> snd (drop_entry_if_unchanged (key_of a) a True ix') = None"
proof -
  let ?ix = "fold (\<lambda>op ix. fst (run_op demo op ix)) demo_two empty_index"
  let ?a = "demo_entry ''a'' ''c''"
  obtain ix' out where d: "drop_entry_if_unchanged (key_of ?a) ?a True ?ix = (ix', out)" by fastforce
  have inv: "index_inv ?ix" by (rule index_machine.run_inv [OF index_inv_empty demo_two_ok])
  have "map_of (entries ?ix) (key_of ?a) = Some ?a" by (simp add: index_eval Let_def)
  then show ?thesis using broken_entry_is_dropped_once [OF d inv] d by (auto simp: Let_def)
qed

subsection \<open>Granting a hash once\<close>

text \<open>
  Granting verified hashes of a body tells the caller exactly which of them were not
  recorded before, each once, and records exactly those, provided some entry refers to the
  body, and nothing otherwise; granting the same hashes again tells of none.
\<close>

theorem grants_are_told_once:
  assumes "index_inv ix" and "grant_eligibility cid verified ix = (ix', new)"
  shows "distinct new
    \<and> set new = (if \<exists>k r. map_of (entries ix) k = Some r \<and> cid \<in> set (contents r)
         then set verified - set (eligible_hashes cid ix) else {})
    \<and> set (eligible_hashes cid ix') = set (eligible_hashes cid ix) \<union> set new
    \<and> snd (grant_eligibility cid verified ix') = []
    \<and> (\<forall>c. c \<noteq> cid \<longrightarrow> eligible_hashes c ix' = eligible_hashes c ix)"
proof -
  let ?old = "eligible_hashes cid ix"
  define fresh where "fresh = remdups_adj (sort (filter (\<lambda>k. k \<notin> set ?old) verified))"
  let ?live = "case map_of (blobs ix) cid of Some b \<Rightarrow> 0 < b_refcount b | None \<Rightarrow> False"
  have live: "?live \<longleftrightarrow> (\<exists>k r. map_of (entries ix) k = Some r \<and> cid \<in> set (contents r))"
    using refs_zero_map [OF index_invD(1) [OF assms(1)], of cid] index_invD(5) [OF assms(1), of cid]
    by (auto simp: counted_def split: option.splits)
  have def: "grant_eligibility cid verified jx =
      (if verified = [] then (jx, [])
       else if \<not> (case map_of (blobs jx) cid of Some b \<Rightarrow> 0 < b_refcount b | None \<Rightarrow> False) then (jx, [])
       else let new = remdups_adj (sort (filter (\<lambda>k. k \<notin> set (eligible_hashes cid jx)) verified)) in
         if new = [] then (jx, [])
         else (jx\<lparr>peer_eligible := AList.update cid (sort (eligible_hashes cid jx @ new)) (peer_eligible jx)\<rparr>, new))" for jx
    unfolding grant_eligibility_def eligible_hashes_def Let_def by simp
  have fresh: "set fresh = set verified - set ?old" "distinct fresh"
    unfolding fresh_def by (auto simp del: remdups_adj_set simp: remdups_adj_set)
  show ?thesis
  proof (cases "verified \<noteq> [] \<and> ?live \<and> fresh \<noteq> []")
    case True
    then have ix': "ix' = ix\<lparr>peer_eligible := AList.update cid (sort (?old @ fresh)) (peer_eligible ix)\<rparr>" "new = fresh"
      using assms(2) unfolding def [of ix] fresh_def by (auto simp: Let_def)
    have el: "eligible_hashes c ix' = (if c = cid then sort (?old @ fresh) else eligible_hashes c ix)" for c
      by (simp add: ix' eligible_hashes_def AList.update_conv')
    have "filter (\<lambda>k. k \<notin> set (eligible_hashes cid ix')) verified = []"
      using fresh(1) by (auto simp: el filter_empty_conv)
    then have "snd (grant_eligibility cid verified ix') = []" unfolding def [of ix'] by simp
    then show ?thesis using ix'(2) fresh live True el by auto
  next
    case False
    then have same: "ix' = ix" "new = []"
      using assms(2) unfolding def [of ix] fresh_def by (auto simp: Let_def split: if_splits)
    moreover have "set verified - set ?old = {}" if ?live
      using False that fresh(1) by auto
    ultimately show ?thesis using live assms(2) by auto
  qed
qed

theorem grants_are_told_once_witness:
  "let ix = fold (\<lambda>op ix. fst (run_op demo op ix)) demo_two empty_index;
       (ix', new) = grant_eligibility ''c'' [''h'', ''h''] ix in
   set new = {''h''} \<and> snd (grant_eligibility ''c'' [''h'', ''h''] ix') = []"
proof -
  let ?ix = "fold (\<lambda>op ix. fst (run_op demo op ix)) demo_two empty_index"
  obtain ix' new where g: "grant_eligibility ''c'' [''h'', ''h''] ?ix = (ix', new)" by fastforce
  have inv: "index_inv ?ix" by (rule index_machine.run_inv [OF index_inv_empty demo_two_ok])
  have "map_of (entries ?ix) (key_of (demo_entry ''a'' ''c'')) = Some (demo_entry ''a'' ''c'')"
    "''c'' \<in> set (contents (demo_entry ''a'' ''c''))" "eligible_hashes ''c'' ?ix = []"
    by (simp_all add: index_eval eligible_hashes_def Let_def)
  then have "set new = {''h''}" "snd (grant_eligibility ''c'' [''h'', ''h''] ix') = []"
    using grants_are_told_once [OF inv g] by auto
  then show ?thesis using g by (simp add: Let_def)
qed

theorem entry_keys_keep_sites_apart_witness:
  "entry_key (Some ''https://a.test'') ''GET'' ''u'' [] \<noteq> entry_key (Some ''https://b.test'') ''GET'' ''u'' []"
  using entry_keys_keep_sites_apart [of "Some ''https://a.test''" "''GET''" "[]" "Some ''https://b.test''" "''GET''" "[]"]
  by (simp add: site_of_def)

end
