(* ===== verification/Cache_Read.thy ===== *)
theory Cache_Read
  imports Policy Index
begin

text \<open>
  \<open>crates/syndeo-cache/src/cache.rs\<close>, the read path: what a request is answered with from the
  store, what happens to an entry whose body is lost, and what a peer is given. A \<open>Cache\<close> is
  the index, the files below \<open>blobs/\<close> and the options; \<open>now\<close> is the clock's answer. A method
  that can fail returns the cache it leaves with its result, since what it did before failing
  stays done.
\<close>

record cache =
  index_of :: index
  files :: fs
  options :: cache_options

definition and_then :: "cache \<times> 'a cres \<Rightarrow> ('a \<Rightarrow> cache \<Rightarrow> cache \<times> 'b cres) \<Rightarrow> cache \<times> 'b cres" where
  "and_then m f = (case m of (c, Inl e) \<Rightarrow> (c, Inl e) | (c, Inr a) \<Rightarrow> f a c)"

definition on_index :: "(index \<Rightarrow> index) \<Rightarrow> cache \<Rightarrow> cache" where
  "on_index f c = c\<lparr>index_of := f (index_of c)\<rparr>"

record 'h stored_response =
  r_key :: string
  r_status :: nat
  r_headers :: 'h
  r_body :: bytes
  r_content :: "content_id option"
  r_provenance :: provenance
  r_age :: nat
  r_meta :: "'h stored_meta"
  r_range :: "resolved option"
  r_body_omitted :: bool

datatype 'h lookup =
    Miss string
  | FreshHit "'h stored_response"
  | StaleHit "'h stored_response" bool string
  | RevalidateHit "'h stored_response" "(string \<times> string) list" "nat option" string

datatype wanted = Whole | WantRange resolved | Unwanted string

record want =
  w_range :: "resolved option"
  omit_body :: bool

definition normalize_url :: "('h, 'u) externs \<Rightarrow> string \<Rightarrow> string" where
  "normalize_url X raw =
     (case url_parse X raw of
        None \<Rightarrow> raw
      | Some u \<Rightarrow>
          (let u1 = url_no_fragment X u;
               port = (case url_port_or_default X u1 of
                   None \<Rightarrow> None
                 | Some p \<Rightarrow> if url_scheme X u1 = ''http'' \<and> p = 80
                     \<or> url_scheme X u1 = ''https'' \<and> p = 443 then None else Some p) in
           url_to_string X (url_set_port X port u1)))"

definition to_header_map :: "('h, 'u) externs \<Rightarrow> (string \<times> string) list \<Rightarrow> 'h" where
  "to_header_map X pairs =
     fold (\<lambda>(name, value) h.
         (case (name_from_bytes X name, value_from_str X value) of
            (Some n, Some v) \<Rightarrow> hm_append X n v h
          | _ \<Rightarrow> h)) pairs (hm_empty X)"

definition meta_of :: "('h, 'u) externs \<Rightarrow> entry_record \<Rightarrow> 'h stored_meta" where
  "meta_of X r = \<lparr>m_status = e_status r, m_headers = to_header_map X (e_headers r),
     request_time = e_request_time r, response_time = e_response_time r\<rparr>"

subsection \<open>Deleting files nothing refers to\<close>

fun delete_candidates :: "('h, 'u) externs \<Rightarrow> content_id list \<Rightarrow> index \<Rightarrow> fs \<Rightarrow> index \<times> fs \<times> nat" where
  "delete_candidates X [] ix fs = (ix, fs, 0)"
| "delete_candidates X (c # cs) ix fs =
     (let (ix1, forget) = forget_blob_if_unreferenced c ix;
          fs1 = (if forget then remove X c fs else fs);
          (ix2, fs2, n) = delete_candidates X cs ix1 fs1 in
      (ix2, fs2, (if forget then 1 else 0) + n))"

definition delete_orphans :: "('h, 'u) externs \<Rightarrow> content_id list \<Rightarrow> cache \<Rightarrow> cache \<times> nat" where
  "delete_orphans X cs c =
     (let (ix, fs, n) = delete_candidates X cs (index_of c) (files c) in
      (c\<lparr>index_of := ix, files := fs\<rparr>, n))"

definition drop_broken :: "('h, 'u) externs \<Rightarrow> string \<Rightarrow> entry_record \<Rightarrow> cache \<Rightarrow> cache" where
  "drop_broken X key r c =
     (case drop_broken_entry key r (index_of c) of
        (ix, None) \<Rightarrow> c\<lparr>index_of := ix\<rparr>
      | (ix, Some orphaned) \<Rightarrow>
          fst (delete_orphans X orphaned (c\<lparr>index_of := bump ''corrupt_entries'' 1 ix\<rparr>)))"

subsection \<open>Finding an entry\<close>

definition joined_values :: "string list \<Rightarrow> string option" where
  "joined_values vs = (if vs = [] then None else Some (join '','' vs))"

definition coding_accepted :: "('h, 'u) externs \<Rightarrow> entry_record \<Rightarrow> 'h \<Rightarrow> bool" where
  "coding_accepted X r req =
     coding_acceptable
       (joined_values (map snd (filter (\<lambda>(n, _). eq_ic n ''content-encoding'') (e_headers r))))
       (joined_values (text_values X req ''accept-encoding''))"

fun first_variant :: "('h, 'u) externs \<Rightarrow> string option \<Rightarrow> string \<Rightarrow> string \<Rightarrow> 'h \<Rightarrow> index
    \<Rightarrow> string list \<Rightarrow> (string \<times> entry_record) option" where
  "first_variant X part meth url req ix [] = None"
| "first_variant X part meth url req ix (candidate # rest) =
     (let key = entry_key part meth url candidate in
      case get_entry key ix of
        None \<Rightarrow> first_variant X part meth url req ix rest
      | Some r \<Rightarrow>
          if vary_key X (e_vary_fields r) req = e_vary_key r \<and> coding_accepted X r req
          then Some (key, r)
          else first_variant X part meth url req ix rest)"

definition select_variant :: "('h, 'u) externs \<Rightarrow> string option \<Rightarrow> string \<Rightarrow> string \<Rightarrow> 'h \<Rightarrow> index
    \<Rightarrow> (string \<times> entry_record) option" where
  "select_variant X part meth url req ix =
     first_variant X part meth url req ix (variant_keys part meth url ix)"

definition whole_or_unusable :: "entry_record \<Rightarrow> wanted" where
  "whole_or_unusable r =
     (if is_complete (e_body r) then Whole else Unwanted ''only part of the body is stored'')"

definition wanted_bytes :: "('h, 'u) externs \<Rightarrow> 'h \<Rightarrow> entry_record \<Rightarrow> 'h stored_meta \<Rightarrow> wanted" where
  "wanted_bytes X req r meta =
     (case header_text X req ''range'' of
        None \<Rightarrow> whole_or_unusable r
      | Some raw \<Rightarrow>
          if (case header_text X req ''if-range'' of
                Some condition \<Rightarrow> \<not> if_range_matches X condition (m_headers meta)
              | None \<Rightarrow> False)
          then Unwanted ''if-range does not match the stored validator''
          else (case parse_range raw of
            None \<Rightarrow> whole_or_unusable r
          | Some specs \<Rightarrow>
              if 1 < length specs
              then Unwanted ''multipart ranges are not served from the store''
              else (case complete_len (e_body r) of
                None \<Rightarrow> Unwanted ''the length of the whole body is not known''
              | Some whole_len \<Rightarrow>
                  (case resolve (hd specs) whole_len of
                     None \<Rightarrow> whole_or_unusable r
                   | Some resolved \<Rightarrow>
                       (let (start, end') = resolved_half_open resolved in
                        if \<not> covers (coverage_of (e_body r)) start end'
                        then Unwanted ''the requested range is not stored''
                        else WantRange resolved)))))"

subsection \<open>Reading bytes out of an entry\<close>

primrec read_segments :: "('h, 'u) externs \<Rightarrow> segment list \<Rightarrow> nat \<Rightarrow> nat \<Rightarrow> bytes \<Rightarrow> fs
    \<Rightarrow> fs \<times> (nat \<times> bytes) cres" where
  "read_segments X [] cursor end' out fs = (fs, Inr (cursor, out))"
| "read_segments X (s # ss) cursor end' out fs =
     (if seg_end s \<le> cursor then read_segments X ss cursor end' out fs
      else if cursor < seg_start s \<or> end' \<le> seg_start s then (fs, Inr (cursor, out))
      else (case get X (seg_content s) fs of
        (fs', Inl e) \<Rightarrow> (fs', Inl e)
      | (fs', Inr b) \<Rightarrow>
          (let stop = min end' (seg_end s);
               from = cursor - seg_start s;
               upto = min (stop - seg_start s) (length b);
               out' = out @ drop (min from upto) (take upto b) in
           if end' \<le> stop then (fs', Inr (stop, out'))
           else read_segments X ss stop end' out' fs')))"

definition span_name :: "nat \<Rightarrow> nat \<Rightarrow> string \<Rightarrow> string" where
  "span_name start end' url = ''bytes '' @ show_nat start @ ''..'' @ show_nat end' @ '' of '' @ url"

definition read_span :: "('h, 'u) externs \<Rightarrow> entry_record \<Rightarrow> nat \<Rightarrow> nat \<Rightarrow> fs \<Rightarrow> fs \<times> bytes cres" where
  "read_span X r start end' fs =
     (case e_body r of
        Complete content _ \<Rightarrow>
          (case get X content fs of
             (fs', Inl e) \<Rightarrow> (fs', Inl e)
           | (fs', Inr b) \<Rightarrow>
               (let upto = min end' (length b); from = min start upto in
                (fs', Inr (drop from (take upto b)))))
      | Partial _ segments \<Rightarrow>
          (case read_segments X segments start end' [] fs of
             (fs', Inl e) \<Rightarrow> (fs', Inl e)
           | (fs', Inr (cursor, out)) \<Rightarrow>
               if cursor < end' then (fs', Inl (MissingBlob (span_name start end' (e_url r))))
               else (fs', Inr out)))"

definition parse_value :: "('h, 'u) externs \<Rightarrow> string \<Rightarrow> string \<Rightarrow> 'h \<Rightarrow> 'h" where
  "parse_value X name text h =
     (case value_from_str X text of Some v \<Rightarrow> hm_insert X name v h | None \<Rightarrow> h)"

definition remove_named :: "('h, 'u) externs \<Rightarrow> string \<Rightarrow> 'h \<Rightarrow> 'h" where
  "remove_named X field h =
     (case name_from_bytes X field of Some name \<Rightarrow> hm_remove X name h | None \<Rightarrow> h)"

definition served_headers :: "('h, 'u) externs \<Rightarrow> 'h stored_meta \<Rightarrow> nat \<Rightarrow> resolved option \<Rightarrow> 'h" where
  "served_headers X meta age rng =
     (let h1 = fold (remove_named X) (suppressed_fields X meta) (m_headers meta);
          h2 = parse_value X ''age'' (show_nat age) (hm_remove X ''age'' h1) in
      case rng of
        None \<Rightarrow> h2
      | Some resolved \<Rightarrow>
          parse_value X ''content-length'' (show_nat (resolved_len resolved))
            (parse_value X ''content-range'' (content_range resolved) h2))"

definition materialize :: "('h, 'u) externs \<Rightarrow> string \<Rightarrow> entry_record \<Rightarrow> 'h stored_meta \<Rightarrow> nat \<Rightarrow> want
    \<Rightarrow> fs \<Rightarrow> fs \<times> 'h stored_response cres" where
  "materialize X key r meta age wnt fs =
     (let read = (if omit_body wnt then (fs, Inr [])
          else (case w_range wnt of
            Some resolved \<Rightarrow>
              (let (start, end') = resolved_half_open resolved in read_span X r start end' fs)
          | None \<Rightarrow>
              read_span X r 0 (case complete_len (e_body r) of Some n \<Rightarrow> n | None \<Rightarrow> 0) fs)) in
      case read of
        (fs', Inl e) \<Rightarrow> (fs', Inl e)
      | (fs', Inr body) \<Rightarrow>
          (let meta' = meta\<lparr>m_headers := strip_never_stored X (m_headers meta)\<rparr> in
           (fs', Inr \<lparr>r_key = key,
              r_status = (case w_range wnt of Some _ \<Rightarrow> 206 | None \<Rightarrow> e_status r),
              r_headers = served_headers X meta' age (w_range wnt),
              r_body = body,
              r_content = complete_content (e_body r),
              r_provenance = e_provenance r,
              r_age = age,
              r_meta = meta',
              r_range = w_range wnt,
              r_body_omitted = omit_body wnt\<rparr>)))"

subsection \<open>Lookup\<close>

type_synonym tally = "(string \<times> nat) list"

definition record_in :: "string option \<Rightarrow> nat \<Rightarrow> tally \<Rightarrow> cache \<Rightarrow> cache" where
  "record_in key now tally c = on_index (record_access key now tally) c"

definition miss :: "tally \<Rightarrow> string \<Rightarrow> cache \<Rightarrow> cache \<times> 'h lookup cres" where
  "miss tally reason c = (record_in None 0 (tally @ [(''misses'', 1)]) c, Inr (Miss reason))"

definition discard_broken :: "('h, 'u) externs \<Rightarrow> string \<Rightarrow> entry_record \<Rightarrow> tally \<Rightarrow> cache
    \<Rightarrow> cache \<times> 'h lookup cres" where
  "discard_broken X key r tally c =
     miss tally ''stored body missing or corrupt'' (drop_broken X key r c)"

text \<open>
  The three arms of \<open>lookup\<close> that read a body: a lost one becomes a miss, any other error is
  returned.
\<close>

definition with_body :: "('h, 'u) externs \<Rightarrow> string \<Rightarrow> entry_record \<Rightarrow> 'h stored_meta \<Rightarrow> nat \<Rightarrow> want
    \<Rightarrow> tally \<Rightarrow> ('h stored_response \<Rightarrow> cache \<Rightarrow> cache \<times> 'h lookup cres) \<Rightarrow> cache
    \<Rightarrow> cache \<times> 'h lookup cres" where
  "with_body X key r meta age wnt tally serve c =
     (case materialize X key r meta age wnt (files c) of
        (fs', Inr response) \<Rightarrow> serve response (c\<lparr>files := fs'\<rparr>)
      | (fs', Inl e) \<Rightarrow>
          if is_lost_body e then discard_broken X key r tally (c\<lparr>files := fs'\<rparr>)
          else (c\<lparr>files := fs'\<rparr>, Inl e))"

definition range_tally :: "want \<Rightarrow> tally" where
  "range_tally wnt = (if w_range wnt \<noteq> None then [(''range_hits'', 1)] else [])"

definition answer :: "('h, 'u) externs \<Rightarrow> 'h \<Rightarrow> string \<Rightarrow> entry_record \<Rightarrow> 'h stored_meta \<Rightarrow> want \<Rightarrow> nat
    \<Rightarrow> tally \<Rightarrow> cache \<Rightarrow> cache \<times> 'h lookup cres" where
  "answer X req key r meta wnt now tally c =
     (case evaluate X req meta now (options c) of
        Fresh age _ \<Rightarrow>
          with_body X key r meta age wnt tally (\<lambda>response c.
            (record_in (Some key) now (tally @ [(''hits'', 1)] @ range_tally wnt
                @ [(''bytes_from_cache'', length (r_body response))]) c,
             Inr (FreshHit response))) c
      | ServeStale age _ background reason \<Rightarrow>
          with_body X key r meta age wnt tally (\<lambda>response c.
            (record_in (Some key) now (tally @ [(''stale_hits'', 1)] @ range_tally wnt
                @ [(''bytes_from_cache'', length (r_body response))]) c,
             Inr (StaleHit response background reason))) c
      | Revalidate age _ sie reason \<Rightarrow>
          if \<not> has_validator X meta then miss tally ''stale with no validator'' c
          else if \<not> is_complete (e_body r)
            then miss tally ''a stale partial entry is refetched, not revalidated'' c
          else with_body X key r meta age wnt tally (\<lambda>response c.
            (record_in None 0 (tally @ [(''revalidations'', 1)]) c,
             Inr (RevalidateHit response (conditional_headers X meta) sie reason))) c
      | Unusable reason \<Rightarrow> miss tally reason c)"

definition select_for :: "('h, 'u) externs \<Rightarrow> string option \<Rightarrow> string \<Rightarrow> string \<Rightarrow> 'h \<Rightarrow> index
    \<Rightarrow> (string \<times> entry_record) option" where
  "select_for X part meth url req ix =
     (case select_variant X part meth url req ix of
        Some found \<Rightarrow> Some found
      | None \<Rightarrow> if eq_ic meth ''HEAD'' then select_variant X part ''GET'' url req ix else None)"

definition lookup :: "('h, 'u) externs \<Rightarrow> string option \<Rightarrow> string \<Rightarrow> string \<Rightarrow> 'h \<Rightarrow> nat \<Rightarrow> cache
    \<Rightarrow> cache \<times> 'h lookup cres" where
  "lookup X part meth raw_url req now c =
     (let tally = [(''requests'', 1)]; url = normalize_url X raw_url in
      if \<not> is_cacheable_method meth then miss tally ''method is not cacheable'' c
      else (case select_for X part meth url req (index_of c) of
        None \<Rightarrow> miss tally ''no stored variant'' c
      | Some (key, r) \<Rightarrow>
          (let meta = meta_of X r; head = eq_ic meth ''HEAD'' in
           case wanted_bytes X req r meta of
             Unwanted reason \<Rightarrow> miss tally reason c
           | WantRange resolved \<Rightarrow>
               answer X req key r meta \<lparr>w_range = Some resolved, omit_body = head\<rparr> now tally c
           | Whole \<Rightarrow>
               answer X req key r meta \<lparr>w_range = None, omit_body = head\<rparr> now tally c)))"

subsection \<open>Integrity rows and peers\<close>

fun algorithm_tag :: "algorithm \<Rightarrow> char" where
  "algorithm_tag Sha256 = CHR 0x01"
| "algorithm_tag Sha384 = CHR 0x02"
| "algorithm_tag Sha512 = CHR 0x03"

definition sri_key :: "algorithm \<Rightarrow> bytes \<Rightarrow> bytes" where
  "sri_key a dig = algorithm_tag a # dig"

definition hash_from_sri_key :: "bytes \<Rightarrow> hash option" where
  "hash_from_sri_key key =
     (case key of
        [] \<Rightarrow> None
      | tag # dig \<Rightarrow>
          if tag = CHR 0x01 then Some \<lparr>algorithm = Sha256, digest = dig\<rparr>
          else if tag = CHR 0x02 then Some \<lparr>algorithm = Sha384, digest = dig\<rparr>
          else if tag = CHR 0x03 then Some \<lparr>algorithm = Sha512, digest = dig\<rparr>
          else None)"

definition sri_digests :: "('h, 'u) externs \<Rightarrow> bytes \<Rightarrow> content_id \<Rightarrow> (bytes \<times> content_id) list" where
  "sri_digests X body cid =
     map (\<lambda>a. (sri_key a (digest_of X a body), cid)) [Sha256, Sha384, Sha512]"

definition content_for_integrity :: "hash \<Rightarrow> cache \<Rightarrow> content_id option" where
  "content_for_integrity h c = content_for_sri (sri_key (algorithm h) (digest h)) (index_of c)"

definition associate_integrity :: "hash \<Rightarrow> content_id \<Rightarrow> cache \<Rightarrow> cache" where
  "associate_integrity h cid c = on_index (index_sri [(sri_key (algorithm h) (digest h), cid)]) c"

definition discard_representation :: "('h, 'u) externs \<Rightarrow> string \<Rightarrow> content_id \<Rightarrow> cache \<Rightarrow> cache \<times> bool" where
  "discard_representation X key cid c =
     (case get_entry key (index_of c) of
        None \<Rightarrow> (c, False)
      | Some r \<Rightarrow>
          if complete_content (e_body r) \<noteq> Some cid then (c, False)
          else (case drop_entry_holding key r (index_of c) of
            (ix, None) \<Rightarrow> (c\<lparr>index_of := ix\<rparr>, False)
          | (ix, Some orphaned) \<Rightarrow> (fst (delete_orphans X orphaned (c\<lparr>index_of := ix\<rparr>)), True)))"

text \<open>A read whose lost body is an answer of its own, and whose other errors are errors.\<close>

definition grant_peer_eligibility :: "('h, 'u) externs \<Rightarrow> content_id \<Rightarrow> integrity \<Rightarrow> cache
    \<Rightarrow> cache \<times> hash list cres" where
  "grant_peer_eligibility X cid declared c =
     (case strongest declared of
        None \<Rightarrow> (c, Inr [])
      | Some s \<Rightarrow>
          (case get X cid (files c) of
             (fs, Inl e) \<Rightarrow> (c\<lparr>files := fs\<rparr>, if is_lost_body e then Inr [] else Inl e)
           | (fs, Inr b) \<Rightarrow>
               (let matching = remdups_adj
                      (filter (\<lambda>h. algorithm h = s \<and> hash_matches X h b) declared);
                    ks = map (\<lambda>h. sri_key (algorithm h) (digest h)) matching;
                    (ix, new) = grant_eligibility cid ks (index_of c) in
                (c\<lparr>files := fs, index_of := ix\<rparr>,
                 Inr (filter (\<lambda>h. sri_key (algorithm h) (digest h) \<in> set new) matching)))))"

definition peer_eligibility :: "content_id \<Rightarrow> cache \<Rightarrow> hash list" where
  "peer_eligibility cid c = List.map_filter hash_from_sri_key (eligible_hashes cid (index_of c))"

datatype peer_ask = AskContent content_id | AskIntegrity hash

definition body_for_peer :: "('h, 'u) externs \<Rightarrow> peer_ask \<Rightarrow> cache \<Rightarrow> cache \<times> bytes option cres" where
  "body_for_peer X ask c =
     (case (case ask of
          AskContent cid \<Rightarrow> Some (cid, None)
        | AskIntegrity h \<Rightarrow> map_option (\<lambda>cid. (cid, Some h)) (content_for_integrity h c)) of
        None \<Rightarrow> (c, Inr None)
      | Some (cid, named) \<Rightarrow>
          (let eligible = eligible_hashes cid (index_of c) in
           if eligible = [] then (c, Inr None)
           else if (case named of
                Some h \<Rightarrow> sri_key (algorithm h) (digest h) \<notin> set eligible | None \<Rightarrow> False)
             then (c, Inr None)
           else (case get X cid (files c) of
             (fs, Inl e) \<Rightarrow> (c\<lparr>files := fs\<rparr>, if is_lost_body e then Inr None else Inl e)
           | (fs, Inr b) \<Rightarrow>
               (c\<lparr>files := fs\<rparr>,
                Inr (if (case named of Some h \<Rightarrow> \<not> hash_matches X h b | None \<Rightarrow> False)
                     then None else Some b)))))"

definition has_content :: "('h, 'u) externs \<Rightarrow> content_id \<Rightarrow> cache \<Rightarrow> bool" where
  "has_content X cid c = contains X cid (files c)"

end
