(* ===== verification/Cache_Write.thy ===== *)
theory Cache_Write
  imports Cache_Read "HOL-Library.Product_Lexorder"
begin

text \<open>
  \<open>crates/syndeo-cache/src/cache.rs\<close>, the write path: storing a body, a streamed body or a
  range, folding a 304 or a HEAD in, invalidation, garbage collection, the size budget,
  clearing, and bodies a peer offers. The unique part of temporary names is the argument \<open>uq\<close>;
  one will do, since every write renames its own file away before the next.
\<close>

datatype store_outcome =
    Stored content_id bool
  | StoredPartial nat "nat option"
  | NotStored string

definition count :: "string \<Rightarrow> nat \<Rightarrow> cache \<Rightarrow> cache" where
  "count name n c = on_index (bump name n) c"

text \<open>Writing a body to the store, with the count of bytes that were there already.\<close>

definition put_body :: "('h, 'u) externs \<Rightarrow> string \<Rightarrow> bytes \<Rightarrow> cache \<Rightarrow> cache \<times> write_receipt cres" where
  "put_body X uq b c = (case put X uq b (files c) of (fs, r) \<Rightarrow> (c\<lparr>files := fs\<rparr>, r))"

definition count_dedupe :: "write_receipt \<Rightarrow> cache \<Rightarrow> cache" where
  "count_dedupe receipt c =
     (if \<not> w_newly_written receipt then count ''bytes_deduped'' (w_len receipt) c else c)"

definition blob_of_receipt :: "write_receipt \<Rightarrow> nat \<Rightarrow> content_id \<times> blob_record" where
  "blob_of_receipt receipt now = (w_id receipt,
     \<lparr>b_len = w_len receipt, b_stored_len = w_stored_len receipt,
      b_compression = w_compression receipt, b_refcount = 0, b_created = now\<rparr>)"

text \<open>Writing an entry, then deleting what it released.\<close>

definition put_record :: "('h, 'u) externs \<Rightarrow> entry_record \<Rightarrow> (content_id \<times> blob_record) list \<Rightarrow> cache
    \<Rightarrow> cache \<times> unit cres" where
  "put_record X r news c =
     (case put_entry X r news (index_of c) of
        (ix, Inl e) \<Rightarrow> (c\<lparr>index_of := ix\<rparr>, Inl e)
      | (ix, Inr orphaned) \<Rightarrow> (fst (delete_orphans X orphaned (c\<lparr>index_of := ix\<rparr>)), Inr ()))"

definition remove_record :: "('h, 'u) externs \<Rightarrow> string \<Rightarrow> cache \<Rightarrow> cache" where
  "remove_record X key c =
     (let (ix, orphaned) = remove_entry key (index_of c) in
      fst (delete_orphans X orphaned (c\<lparr>index_of := ix\<rparr>)))"

subsection \<open>Representations\<close>

definition strong_etag :: "('h, 'u) externs \<Rightarrow> 'h \<Rightarrow> string option" where
  "strong_etag X h =
     (case header_text X h ''etag'' of
        None \<Rightarrow> None
      | Some v \<Rightarrow> if starts_with ''W/'' (trim v) then None else Some (trim v))"

definition same_representation :: "('h, 'u) externs \<Rightarrow> 'h \<Rightarrow> 'h \<Rightarrow> bool" where
  "same_representation X stored fresh =
     (case (strong_etag X stored, strong_etag X fresh) of
        (Some a, Some b) \<Rightarrow> a = b
      | _ \<Rightarrow>
          (case (header_date X stored ''last-modified'', header_date X fresh ''last-modified'') of
             (Some a, Some b) \<Rightarrow> a = b
           | _ \<Rightarrow> False))"

subsection \<open>The size budget\<close>

definition cost_value :: "entry_record \<Rightarrow> rat" where
  "cost_value r =
     f64_div (f64_of_u64 (wrap64 (e_hits r + 1))) (f64_of_u64 (max (held_len (e_body r)) 1))"

fun order_for_eviction :: "eviction \<Rightarrow> (string \<times> entry_record) list \<Rightarrow> (string \<times> entry_record) list" where
  "order_for_eviction LeastRecentlyUsed es = sort_key (\<lambda>(_, r). e_last_used r) es"
| "order_for_eviction LeastFrequentlyUsed es = sort_key (\<lambda>(_, r). (e_hits r, e_last_used r)) es"
| "order_for_eviction Cost es = sort_key (\<lambda>(_, r). (cost_value r, e_last_used r)) es"

definition released_bytes :: "content_id list \<Rightarrow> index \<Rightarrow> nat \<Rightarrow> nat" where
  "released_bytes orphaned ix on_disk =
     fold (\<lambda>cid n. case get_blob cid ix of Some b \<Rightarrow> n - b_stored_len b | None \<Rightarrow> n) orphaned on_disk"

fun evict_until :: "('h, 'u) externs \<Rightarrow> nat \<Rightarrow> string list \<Rightarrow> nat \<Rightarrow> cache \<Rightarrow> cache \<times> nat" where
  "evict_until X target [] on_disk c = (c, 0)"
| "evict_until X target (key # rest) on_disk c =
     (if on_disk \<le> target then (c, 0)
      else let (ix, orphaned) = remove_entry key (index_of c);
               on_disk' = released_bytes orphaned ix on_disk;
               c1 = fst (delete_orphans X orphaned (c\<lparr>index_of := ix\<rparr>));
               (c2, n) = evict_until X target rest on_disk' c1 in
           (c2, n + 1))"

definition clamp :: "rat \<Rightarrow> rat \<Rightarrow> rat \<Rightarrow> rat" where
  "clamp lo hi x = (if x < lo then lo else if hi < x then hi else x)"

definition eviction_target :: "nat \<Rightarrow> cache_options \<Rightarrow> nat" where
  "eviction_target capacity opts =
     f64_to_u64 (f64_mul (f64_of_u64 capacity) (clamp (f64_round (1 / 10)) 1 (evict_to_fraction opts)))"

definition on_disk_total :: "index \<Rightarrow> nat" where
  "on_disk_total ix = (case blob_totals ix of (_, _, on_disk, _) \<Rightarrow> on_disk)"

definition enforce_budget :: "('h, 'u) externs \<Rightarrow> cache \<Rightarrow> cache \<times> nat" where
  "enforce_budget X c =
     (case capacity_bytes (options c) of
        None \<Rightarrow> (c, 0)
      | Some capacity \<Rightarrow>
          (let on_disk = on_disk_total (index_of c) in
           if on_disk \<le> capacity then (c, 0)
           else (let candidates = order_for_eviction (eviction (options c)) (all_entries (index_of c));
                     (c1, evicted) = evict_until X (eviction_target capacity (options c))
                        (map fst candidates) on_disk c in
                 (if 0 < evicted then count ''evictions'' evicted c1 else c1, evicted))))"

subsection \<open>Folding headers in\<close>

definition reconcile_head :: "('h, 'u) externs \<Rightarrow> string option \<Rightarrow> string \<Rightarrow> 'h \<Rightarrow> 'h \<Rightarrow> cache \<Rightarrow> cache" where
  "reconcile_head X part url req head_headers c =
     (case select_variant X part ''GET'' url req (index_of c) of
        None \<Rightarrow> c
      | Some (key, r) \<Rightarrow>
          (let stored = to_header_map X (e_headers r) in
           if \<not> same_representation X stored head_headers then remove_record X key c
           else on_index (refresh_entry
             (r\<lparr>e_headers := for_storage X (apply_304 X stored head_headers)\<rparr>)) c))"

definition record_not_modified :: "('h, 'u) externs \<Rightarrow> string \<Rightarrow> 'h \<Rightarrow> nat \<Rightarrow> nat \<Rightarrow> nat \<Rightarrow> cache
    \<Rightarrow> cache \<times> 'h stored_response option cres" where
  "record_not_modified X key fresh req_time resp_time now c =
     (case get_entry key (index_of c) of
        None \<Rightarrow> (c, Inr None)
      | Some old \<Rightarrow>
          (let headers = apply_304 X (to_header_map X (e_headers old)) fresh;
               r = old\<lparr>e_headers := for_storage X headers, e_request_time := req_time,
                       e_response_time := resp_time\<rparr>;
               c1 = count ''not_modified'' 1 (on_index (refresh_entry r) c);
               meta = \<lparr>m_status = e_status r, m_headers = headers,
                       request_time = req_time, response_time = resp_time\<rparr>;
               age = current_age X meta now in
           case materialize X key r meta age \<lparr>w_range = None, omit_body = False\<rparr> (files c1) of
             (fs, Inl e) \<Rightarrow>
               (if is_lost_body e then drop_broken X key r (c1\<lparr>files := fs\<rparr>) else c1\<lparr>files := fs\<rparr>, Inl e)
           | (fs, Inr response) \<Rightarrow>
               (count ''hits'' 1 (count ''bytes_from_cache'' (length (r_body response)) (c1\<lparr>files := fs\<rparr>)),
                Inr (Some response))))"

subsection \<open>Storing\<close>

text \<open>What an exchange brings: where it was asked for, how, and what came back.\<close>

record 'h exchange =
  x_partition :: "string option"
  x_method :: string
  x_url :: string
  x_request :: 'h
  x_status :: nat
  x_response :: 'h
  x_request_time :: nat
  x_response_time :: nat
  x_provenance :: provenance

definition meta_of_exchange :: "'h exchange \<Rightarrow> 'h stored_meta" where
  "meta_of_exchange x = \<lparr>m_status = x_status x, m_headers = x_response x,
     request_time = x_request_time x, response_time = x_response_time x\<rparr>"

definition whole_record :: "('h, 'u) externs \<Rightarrow> 'h exchange \<Rightarrow> string \<Rightarrow> string list \<Rightarrow> string
    \<Rightarrow> write_receipt \<Rightarrow> nat \<Rightarrow> entry_record" where
  "whole_record X x url fs vkey receipt now =
     \<lparr>e_partition = x_partition x, e_url = url, e_method = to_upper (x_method x),
      e_status = x_status x, e_headers = for_storage X (x_response x), e_vary_fields = fs,
      e_vary_key = vkey, e_body = Complete (w_id receipt) (w_len receipt),
      e_request_time = x_request_time x, e_response_time = x_response_time x, e_stored_at = now,
      e_last_used = now, e_hits = 0, e_provenance = x_provenance x\<rparr>"

text \<open>What \<open>store_with_provenance\<close> and \<open>finish_streamed\<close> both do once the body is on disk.\<close>

definition store_whole :: "('h, 'u) externs \<Rightarrow> 'h exchange \<Rightarrow> string \<Rightarrow> nat \<Rightarrow> write_receipt
    \<Rightarrow> (bytes \<times> content_id) list \<Rightarrow> cache \<Rightarrow> cache \<times> store_outcome cres" where
  "store_whole X x url now receipt rows c =
     (let fs = vary_fields X (x_response x);
          r = whole_record X x url fs (vary_key X fs (x_request x)) receipt now in
      and_then (put_record X r [blob_of_receipt receipt now] (count_dedupe receipt c)) (\<lambda>_ c.
        let c1 = count ''stores'' 1 (on_index (index_sri rows) c);
            c2 = (if eq_ic (x_method x) ''HEAD''
                  then reconcile_head X (x_partition x) url (x_request x) (x_response x) c1 else c1) in
        (fst (enforce_budget X c2), Inr (Stored (w_id receipt) (\<not> w_newly_written receipt)))))"

text \<open>The loop over the missing runs: each is written as a body of its own.\<close>

primrec put_runs :: "('h, 'u) externs \<Rightarrow> string \<Rightarrow> bytes \<Rightarrow> nat \<Rightarrow> nat \<Rightarrow> runs
    \<Rightarrow> segment list \<Rightarrow> (content_id \<times> blob_record) list \<Rightarrow> cache
    \<Rightarrow> cache \<times> (segment list \<times> (content_id \<times> blob_record) list) cres" where
  "put_runs X uq body start now [] segs news c = (c, Inr (segs, news))"
| "put_runs X uq body start now (run # rest) segs news c =
     (let slice = take (snd run - start - (fst run - start)) (drop (fst run - start) body) in
      and_then (put_body X uq slice c) (\<lambda>receipt c.
        put_runs X uq body start now rest
          (segs @ [\<lparr>seg_start = fst run, seg_end = snd run, seg_content = w_id receipt\<rparr>])
          (news @ [blob_of_receipt receipt now]) (count_dedupe receipt c)))"

definition partial_headers :: "('h, 'u) externs \<Rightarrow> 'h \<Rightarrow> nat option \<Rightarrow> 'h" where
  "partial_headers X h total_len =
     (let h1 = hm_remove X ''content-range'' h in
      case total_len of
        Some n \<Rightarrow> parse_value X ''content-length'' (show_nat n) h1
      | None \<Rightarrow> hm_remove X ''content-length'' h1)"

definition partial_segments :: "entry_record option \<Rightarrow> segment list" where
  "partial_segments existing =
     (case existing of
        Some r \<Rightarrow> (case e_body r of Partial _ segs \<Rightarrow> segs | Complete _ _ \<Rightarrow> [])
      | None \<Rightarrow> [])"

definition partial_record :: "('h, 'u) externs \<Rightarrow> 'h exchange \<Rightarrow> string \<Rightarrow> string list \<Rightarrow> string
    \<Rightarrow> entry_record option \<Rightarrow> nat option \<Rightarrow> segment list \<Rightarrow> nat \<Rightarrow> entry_record" where
  "partial_record X x url fs vkey existing total_len segs now =
     \<lparr>e_partition = x_partition x, e_url = url, e_method = ''GET'', e_status = 200,
      e_headers = for_storage X (partial_headers X (x_response x) total_len), e_vary_fields = fs,
      e_vary_key = vkey, e_body = Partial total_len segs, e_request_time = x_request_time x,
      e_response_time = x_response_time x,
      e_stored_at = (case existing of Some r \<Rightarrow> e_stored_at r | None \<Rightarrow> now), e_last_used = now,
      e_hits = (case existing of Some r \<Rightarrow> e_hits r | None \<Rightarrow> 0), e_provenance = x_provenance x\<rparr>"

text \<open>The runs met: the whole is read back, written as one body, and named by it.\<close>

definition complete_runs :: "('h, 'u) externs \<Rightarrow> string \<Rightarrow> nat \<Rightarrow> entry_record
    \<Rightarrow> (content_id \<times> blob_record) list \<Rightarrow> cache
    \<Rightarrow> cache \<times> (entry_record \<times> (content_id \<times> blob_record) list \<times> content_id option) cres" where
  "complete_runs X uq now r news c =
     (case e_body r of
        Partial (Some total_len) segs \<Rightarrow>
          if covers (from_sorted (segment_runs segs)) 0 total_len then
            (case read_span X r 0 total_len (files c) of
               (fs, Inl e) \<Rightarrow> (c\<lparr>files := fs\<rparr>, Inl e)
             | (fs, Inr whole) \<Rightarrow>
                 and_then (put_body X uq whole (c\<lparr>files := fs\<rparr>)) (\<lambda>receipt c.
                   (on_index (index_sri (sri_digests X whole (w_id receipt))) c,
                    Inr (r\<lparr>e_body := Complete (w_id receipt) (w_len receipt)\<rparr>,
                         news @ [blob_of_receipt receipt now], Some (w_id receipt)))))
          else (c, Inr (r, news, None))
      | _ \<Rightarrow> (c, Inr (r, news, None)))"

definition reject :: "string \<Rightarrow> cache \<Rightarrow> cache \<times> store_outcome cres" where
  "reject reason c = (count ''rejects'' 1 c, Inr (NotStored reason))"

text \<open>From what is held and what to keep of it, to the entry written.\<close>

definition merge_range :: "('h, 'u) externs \<Rightarrow> string \<Rightarrow> 'h exchange \<Rightarrow> string \<Rightarrow> bytes \<Rightarrow> nat
    \<Rightarrow> string list \<Rightarrow> string \<Rightarrow> content_range_t \<Rightarrow> entry_record option \<Rightarrow> cache
    \<Rightarrow> cache \<times> store_outcome cres" where
  "merge_range X uq x url body now fs vkey cr existing c =
     (let segs = partial_segments existing;
          total_len = (case c_complete cr of
              Some n \<Rightarrow> Some n
            | None \<Rightarrow> Option.bind existing (\<lambda>r. complete_len (e_body r)));
          (start, end') = content_range_half_open cr;
          gaps = missing (from_sorted (segment_runs segs)) start end' in
      and_then (put_runs X uq body start now gaps segs [] c) (\<lambda>(segs', news) c.
      let r = partial_record X x url fs vkey existing total_len (sort_key seg_start segs') now in
      and_then (complete_runs X uq now r news c) (\<lambda>(r', news', completed) c.
      and_then (put_record X r' news' c) (\<lambda>_ c.
        let c1 = count ''stores'' 1 c;
            c2 = (if completed = None then count ''partial_stores'' 1 c1 else c1) in
        (fst (enforce_budget X c2),
         Inr (case completed of
             Some content \<Rightarrow> Stored content False
           | None \<Rightarrow> StoredPartial (held_len (e_body r')) total_len))))))"

definition store_partial :: "('h, 'u) externs \<Rightarrow> string \<Rightarrow> 'h exchange \<Rightarrow> string \<Rightarrow> bytes \<Rightarrow> nat
    \<Rightarrow> string list \<Rightarrow> string \<Rightarrow> cache \<Rightarrow> cache \<times> store_outcome cres" where
  "store_partial X uq x url body now fs vkey c =
     (if \<not> eq_ic (x_method x) ''GET'' then reject ''only a GET is stored as partial content'' c
      else if is_multipart X (x_response x) then reject ''multipart ranges are passed through'' c
      else (case Option.bind (header_text X (x_response x) ''content-range'') parse_content_range of
        None \<Rightarrow> reject ''206 without a usable Content-Range'' c
      | Some cr \<Rightarrow>
          if content_range_len cr \<noteq> length body
          then reject ''206 body does not match its Content-Range'' c
          else (let key = entry_key (x_partition x) ''GET'' url vkey;
                    found = get_entry key (index_of c);
                    combinable = (case found of
                        Some r \<Rightarrow> same_representation X (to_header_map X (e_headers r)) (x_response x)
                      | None \<Rightarrow> False);
                    c1 = (if found \<noteq> None \<and> \<not> combinable then remove_record X key c else c);
                    existing = (if combinable then found else None) in
                if (case existing of Some r \<Rightarrow> is_complete (e_body r) | None \<Rightarrow> False)
                then (c1, Inr (NotStored ''the whole body is already stored''))
                else merge_range X uq x url body now fs vkey cr existing c1)))"

definition store_with_provenance :: "('h, 'u) externs \<Rightarrow> string \<Rightarrow> 'h exchange \<Rightarrow> bytes \<Rightarrow> nat \<Rightarrow> cache
    \<Rightarrow> cache \<times> store_outcome cres" where
  "store_with_provenance X uq x body now c =
     (let url = normalize_url X (x_url x);
          c1 = count ''bytes_from_origin'' (length body) c in
      case storability X (x_method x) (x_request x) (meta_of_exchange x) (length body) (options c) of
        Reject reason \<Rightarrow> reject reason c1
      | Store \<Rightarrow>
          (let fs = vary_fields X (x_response x); vkey = vary_key X fs (x_request x) in
           if x_status x = 206 then store_partial X uq x url body now fs vkey c1
           else and_then (put_body X uq body c1) (\<lambda>receipt c.
             store_whole X x url now receipt (sri_digests X body (w_id receipt)) c)))"

definition finish_streamed :: "('h, 'u) externs \<Rightarrow> string \<Rightarrow> 'h exchange \<Rightarrow> blob_writer \<Rightarrow> nat \<Rightarrow> cache
    \<Rightarrow> cache \<times> store_outcome cres" where
  "finish_streamed X uq x w now c =
     (let url = normalize_url X (x_url x);
          c1 = count ''bytes_from_origin'' (bw_len w) c;
          dropped = c1\<lparr>files := writer_abandon w (files c1)\<rparr> in
      case storability X (x_method x) (x_request x) (meta_of_exchange x) (bw_len w) (options c) of
        Reject reason \<Rightarrow> reject reason dropped
      | Store \<Rightarrow>
          if x_status x = 206 then reject ''a streamed 206 is not combined'' dropped
          else (case commit_writer X uq w (files c1) of
            (fs, Inl e) \<Rightarrow> (c1\<lparr>files := fs\<rparr>, Inl e)
          | (fs, Inr (receipt, dig)) \<Rightarrow>
              store_whole X x url now receipt
                (map (\<lambda>(a, d). (sri_key a d, w_id receipt)) (digests_each dig)) (c1\<lparr>files := fs\<rparr>)))"

subsection \<open>Opening\<close>

text \<open>What is on the disk when a cache opens: the index file, if any, and the files.\<close>

definition open_cache :: "cache_options \<Rightarrow> index option \<Rightarrow> fs \<Rightarrow> cache cres" where
  "open_cache opts index_file blob_files =
     bind_res (case open_index index_file of
         Inr ix \<Rightarrow> Inr (ix, blob_files)
       | Inl (SchemaMismatch _ _) \<Rightarrow> bind_res (open_index None) (\<lambda>ix. Inr (ix, []))
       | Inl e \<Rightarrow> Inl e) (\<lambda>(ix, fs).
     let (fs', swept) = sweep_abandoned fs in
     Inr \<lparr>index_of = (if 0 < swept then bump ''swept_temporaries'' swept ix else ix),
          files = fs', options = opts\<rparr>)"

subsection \<open>Invalidation and housekeeping\<close>

definition invalidate_one :: "('h, 'u) externs \<Rightarrow> string option \<Rightarrow> string \<Rightarrow> string \<Rightarrow> cache \<Rightarrow> cache \<times> nat" where
  "invalidate_one X part meth url c =
     (let (ix, orphaned) = invalidate part meth url (index_of c) in
      (fst (delete_orphans X orphaned (c\<lparr>index_of := ix\<rparr>)), length orphaned))"

definition invalidate_cache :: "('h, 'u) externs \<Rightarrow> string option \<Rightarrow> string \<Rightarrow> string \<Rightarrow> cache \<Rightarrow> cache \<times> nat" where
  "invalidate_cache X part meth raw_url c =
     (if \<not> invalidates meth then (c, 0)
      else let url = normalize_url X raw_url;
               (c1, n1) = invalidate_one X part ''GET'' url c;
               (c2, n2) = invalidate_one X part ''HEAD'' url c1 in
           (c2, n1 + n2))"

definition purge :: "('h, 'u) externs \<Rightarrow> string option \<Rightarrow> string \<Rightarrow> string \<Rightarrow> cache \<Rightarrow> cache" where
  "purge X part meth raw_url c = fst (invalidate_one X part meth (normalize_url X raw_url) c)"

definition collect_garbage :: "('h, 'u) externs \<Rightarrow> cache \<Rightarrow> cache \<times> nat" where
  "collect_garbage X c =
     (let (c1, deleted) = delete_orphans X (orphaned_blobs (index_of c)) c in
      (on_index (\<lambda>ix. fst (prune_sri ix)) c1, deleted))"

definition clear_cache :: "cache \<Rightarrow> cache \<times> nat" where
  "clear_cache c =
     (let (ix, n) = clear_index (index_of c) in
      (c\<lparr>index_of := ix, files := fst (remove_every_body (files c))\<rparr>, n))"

subsection \<open>A body a peer offers\<close>

datatype peer_proof = ProofContent content_id | ProofIntegrity integrity

fun describe :: "('h, 'u) externs \<Rightarrow> peer_proof \<Rightarrow> string" where
  "describe X (ProofContent cid) = to_hex X cid"
| "describe X (ProofIntegrity i) = join '' '' (map (to_token X) i)"

fun proof_holds :: "('h, 'u) externs \<Rightarrow> peer_proof \<Rightarrow> bytes \<Rightarrow> bool" where
  "proof_holds X (ProofContent cid) body \<longleftrightarrow> content_of X body = cid"
| "proof_holds X (ProofIntegrity i) body \<longleftrightarrow> (if i = [] then False else verify X i body)"

definition accept_peer_body :: "('h, 'u) externs \<Rightarrow> peer_proof \<Rightarrow> bytes \<Rightarrow> cache \<Rightarrow> cache \<times> unit cres" where
  "accept_peer_body X expected body c =
     (if \<not> proof_holds X expected body
      then (count ''peer_rejected'' 1 c,
            Inl (Integrity (describe X expected) (to_hex X (content_of X body))))
      else (count ''peer_accepted'' 1 c, Inr ()))"

end
