(* ===== verification/Serving.thy ===== *)
theory Serving
  imports Cache_Read
begin

text \<open>
  What a request may rely on when it is answered from the store: the entry is the request's
  own, the verdict is the policy's, the bytes are the stored representation's, and nothing
  that must not be replayed is.
\<close>

subsection \<open>From a hit to its entry\<close>

definition response_of :: "'h lookup \<Rightarrow> 'h stored_response option" where
  "response_of l =
     (case l of Miss _ \<Rightarrow> None | FreshHit s \<Rightarrow> Some s | StaleHit s _ _ \<Rightarrow> Some s
      | RevalidateHit s _ _ _ \<Rightarrow> Some s)"

lemma response_of_simps [simp]:
  "response_of (Miss reason) = None" "response_of (FreshHit s) = Some s"
  "response_of (StaleHit s b reason) = Some s" "response_of (RevalidateHit s cs sie reason) = Some s"
  by (simp_all add: response_of_def)

lemma first_variant_Some:
  "first_variant X part meth url req ix vs = Some (key, r) \<Longrightarrow>
   \<exists>v \<in> set vs. key = entry_key part meth url v \<and> map_of (entries ix) key = Some r
     \<and> vary_key X (e_vary_fields r) req = e_vary_key r \<and> coding_accepted X r req"
  by (induction vs) (auto simp: Let_def get_entry_def split: option.splits if_splits)

lemma select_for_Some:
  assumes "select_for X part meth url req ix = Some (key, r)"
  obtains m v where "key = entry_key part m url v" and "v \<in> set (variant_keys part m url ix)"
    and "map_of (entries ix) key = Some r"
    and "m = meth \<or> eq_ic meth ''HEAD'' \<and> m = ''GET''"
    and "vary_key X (e_vary_fields r) req = e_vary_key r" and "coding_accepted X r req"
proof -
  from assms consider "select_variant X part meth url req ix = Some (key, r)"
    | "eq_ic meth ''HEAD''" "select_variant X part ''GET'' url req ix = Some (key, r)"
    by (auto simp: select_for_def split: option.splits if_splits)
  then show thesis
  proof cases
    case 1
    then show thesis using first_variant_Some that unfolding select_variant_def by metis
  next
    case 2
    then show thesis using first_variant_Some that unfolding select_variant_def by metis
  qed
qed

text \<open>What the evaluation said of an entry that is served, by the kind of hit.\<close>

fun verdict_allows :: "freshness \<Rightarrow> nat \<Rightarrow> 'h lookup \<Rightarrow> bool" where
  "verdict_allows v age (Miss _) \<longleftrightarrow> False"
| "verdict_allows v age (FreshHit _) \<longleftrightarrow> (\<exists>life. v = Fresh age life)"
| "verdict_allows v age (StaleHit _ background reason) \<longleftrightarrow>
     (\<exists>life. v = ServeStale age life background reason)"
| "verdict_allows v age (RevalidateHit _ _ sie reason) \<longleftrightarrow> (\<exists>life. v = Revalidate age life sie reason)"

lemma discard_broken_miss: "discard_broken X key r tally c = (c', Inr l) \<Longrightarrow> response_of l = None"
  by (auto simp: discard_broken_def miss_def)

lemma with_body_hit:
  assumes "with_body X key r meta age wnt tally serve c = (c', Inr l)" and "response_of l = Some resp"
  obtains fs' s where "materialize X key r meta age wnt (files c) = (fs', Inr s)"
    and "serve s (c\<lparr>files := fs'\<rparr>) = (c', Inr l)"
proof -
  obtain fs' out where m: "materialize X key r meta age wnt (files c) = (fs', out)" by fastforce
  show thesis
  proof (cases out)
    case (Inl e)
    then have "response_of l = None"
      using assms(1) m discard_broken_miss [of X key r tally "c\<lparr>files := fs'\<rparr>" c' l]
      by (simp add: with_body_def split: if_splits)
    then show thesis using assms(2) by simp
  next
    case (Inr s)
    then show thesis using assms(1) m that by (simp add: with_body_def)
  qed
qed

lemma answer_hit:
  assumes "answer X req key r meta wnt now tally c = (c', Inr l)" and "response_of l = Some resp"
  obtains age fs' where "materialize X key r meta age wnt (files c) = (fs', Inr resp)"
    and "verdict_allows (evaluate X req meta now (options c)) age l"
proof (cases "evaluate X req meta now (options c)")
  case (Fresh age life)
  then show thesis
    using assms by (auto simp: answer_def intro: that elim!: with_body_hit [OF _ assms(2)])
next
  case (ServeStale age life background reason)
  then show thesis
    using assms by (auto simp: answer_def intro: that elim!: with_body_hit [OF _ assms(2)])
next
  case (Revalidate age life sie reason)
  show thesis
  proof (cases "has_validator X meta \<and> is_complete (e_body r)")
    case True
    then show thesis
      using assms Revalidate
      by (auto simp: answer_def intro: that elim!: with_body_hit [OF _ assms(2)])
  next
    case False
    then have "response_of l = None"
      using assms(1) Revalidate by (auto simp: answer_def miss_def split: if_splits)
    then show thesis using assms(2) by simp
  qed
next
  case (Unusable reason)
  then show thesis using assms by (auto simp: answer_def miss_def)
qed

lemma lookup_hit:
  assumes "lookup X part meth raw req now c = (c', Inr l)" and "response_of l = Some resp"
  obtains key r wnt age fs' where "select_for X part meth (normalize_url X raw) req (index_of c) = Some (key, r)"
    and "materialize X key r (meta_of X r) age wnt (files c) = (fs', Inr resp)"
    and "verdict_allows (evaluate X req (meta_of X r) now (options c)) age l"
    and "omit_body wnt = eq_ic meth ''HEAD''"
    and "wanted_bytes X req r (meta_of X r)
      = (case w_range wnt of Some resolved \<Rightarrow> WantRange resolved | None \<Rightarrow> Whole)"
    and "is_cacheable_method meth"
proof -
  let ?url = "normalize_url X raw" and ?head = "eq_ic meth ''HEAD''"
  have ok: "is_cacheable_method meth"
    using assms by (auto simp: lookup_def miss_def Let_def split: if_splits)
  obtain key r where sel: "select_for X part meth ?url req (index_of c) = Some (key, r)"
    using assms ok by (auto simp: lookup_def miss_def Let_def split: option.splits)
  show thesis
  proof (cases "wanted_bytes X req r (meta_of X r)")
    case Whole
    then have "answer X req key r (meta_of X r) \<lparr>w_range = None, omit_body = ?head\<rparr> now
        [(''requests'', 1)] c = (c', Inr l)"
      using assms(1) ok sel by (simp add: lookup_def Let_def)
    from answer_hit [OF this assms(2)] obtain age fs'
      where m: "materialize X key r (meta_of X r) age \<lparr>w_range = None, omit_body = ?head\<rparr> (files c) = (fs', Inr resp)"
        and v: "verdict_allows (evaluate X req (meta_of X r) now (options c)) age l" by blast
    show thesis by (rule that [OF sel m v]) (simp_all add: ok Whole)
  next
    case (WantRange resolved)
    then have "answer X req key r (meta_of X r) \<lparr>w_range = Some resolved, omit_body = ?head\<rparr> now
        [(''requests'', 1)] c = (c', Inr l)"
      using assms(1) ok sel by (simp add: lookup_def Let_def)
    from answer_hit [OF this assms(2)] obtain age fs'
      where m: "materialize X key r (meta_of X r) age \<lparr>w_range = Some resolved, omit_body = ?head\<rparr> (files c) = (fs', Inr resp)"
        and v: "verdict_allows (evaluate X req (meta_of X r) now (options c)) age l" by blast
    show thesis by (rule that [OF sel m v]) (simp_all add: ok WantRange)
  next
    case (Unwanted reason)
    then show thesis using assms ok sel by (auto simp: lookup_def Let_def miss_def)
  qed
qed

lemma materialize_Inr:
  assumes "materialize X key r meta age wnt fs = (fs', Inr resp)"
  shows "r_key resp = key \<and> r_age resp = age \<and> r_range resp = w_range wnt
    \<and> r_body_omitted resp = omit_body wnt \<and> r_content resp = complete_content (e_body r)
    \<and> r_meta resp = meta\<lparr>m_headers := strip_never_stored X (m_headers meta)\<rparr>
    \<and> r_headers resp = served_headers X (r_meta resp) age (w_range wnt)
    \<and> r_status resp = (case w_range wnt of Some _ \<Rightarrow> 206 | None \<Rightarrow> e_status r)
    \<and> r_provenance resp = e_provenance r
    \<and> (omit_body wnt \<longrightarrow> r_body resp = [])
    \<and> (\<not> omit_body wnt \<longrightarrow> (case w_range wnt of
          Some resolved \<Rightarrow>
            read_span X r (fst (resolved_half_open resolved)) (snd (resolved_half_open resolved)) fs
              = (fs', Inr (r_body resp))
        | None \<Rightarrow> read_span X r 0 (case complete_len (e_body r) of Some n \<Rightarrow> n | None \<Rightarrow> 0) fs
              = (fs', Inr (r_body resp))))"
proof -
  define read where "read = (if omit_body wnt then (fs, Inr [])
      else (case w_range wnt of
        Some resolved \<Rightarrow>
          read_span X r (fst (resolved_half_open resolved)) (snd (resolved_half_open resolved)) fs
      | None \<Rightarrow> read_span X r 0 (case complete_len (e_body r) of Some n \<Rightarrow> n | None \<Rightarrow> 0) fs))"
  have m: "materialize X key r meta age wnt fs = (case read of
      (fs', Inl e) \<Rightarrow> (fs', Inl e)
    | (fs', Inr body) \<Rightarrow>
        (let meta' = meta\<lparr>m_headers := strip_never_stored X (m_headers meta)\<rparr> in
         (fs', Inr \<lparr>r_key = key,
            r_status = (case w_range wnt of Some _ \<Rightarrow> 206 | None \<Rightarrow> e_status r),
            r_headers = served_headers X meta' age (w_range wnt),
            r_body = body, r_content = complete_content (e_body r),
            r_provenance = e_provenance r, r_age = age, r_meta = meta',
            r_range = w_range wnt, r_body_omitted = omit_body wnt\<rparr>)))"
    unfolding materialize_def read_def case_prod_beta Let_def by (rule refl)
  obtain body where read: "read = (fs', Inr body)"
    using assms unfolding m by (cases read; cases "snd read") (auto simp: Let_def)
  have resp: "resp = \<lparr>r_key = key,
      r_status = (case w_range wnt of Some _ \<Rightarrow> 206 | None \<Rightarrow> e_status r),
      r_headers = served_headers X (meta\<lparr>m_headers := strip_never_stored X (m_headers meta)\<rparr>) age (w_range wnt),
      r_body = body, r_content = complete_content (e_body r),
      r_provenance = e_provenance r, r_age = age,
      r_meta = meta\<lparr>m_headers := strip_never_stored X (m_headers meta)\<rparr>,
      r_range = w_range wnt, r_body_omitted = omit_body wnt\<rparr>"
    using assms unfolding m read by (simp add: Let_def)
  show ?thesis
    using read unfolding read_def resp by (cases "omit_body wnt"; cases "w_range wnt") simp_all
qed

subsection \<open>Whose entry it is\<close>

text \<open>
  What the request parser and the address parser ensure of every key: the byte that separates
  the parts of a key is in none of them.
\<close>

definition plain_keys :: "index \<Rightarrow> bool" where
  "plain_keys ix \<longleftrightarrow>
     (\<forall>k r. map_of (entries ix) k = Some r \<longrightarrow> CHR 0x01 \<notin> set (site_of (e_partition r) @ e_method r))
     \<and> (\<forall>p vs v. map_of (variants ix) p = Some vs \<longrightarrow> v \<in> set vs \<longrightarrow> CHR 0x01 \<notin> set v)"

lemma hexdigit_one: "is_hexdigit c \<Longrightarrow> c \<noteq> CHR 0x01"
  by (auto simp: is_hexdigit_def is_digit_def)

lemma vary_key_one: "hex_ok X \<Longrightarrow> CHR 0x01 \<notin> set (vary_key X fs req)"
  by (auto simp: vary_key_def hex_ok_def list_all_iff dest: hexdigit_one)

lemma keys_apart:
  "CHR 0x01 \<notin> set (site_of p @ m @ v) \<Longrightarrow> CHR 0x01 \<notin> set (site_of p' @ m' @ v') \<Longrightarrow>
   entry_key p m url v = entry_key p' m' url' v' \<Longrightarrow>
   site_of p = site_of p' \<and> to_upper m = to_upper m' \<and> url = url' \<and> v = v'"
  using entry_key_inject [of p m v p' m' v' url url'] by simp

subsection \<open>A cache holding one response\<close>

definition demo_stored :: "(string \<times> string) list \<Rightarrow> entry_record" where
  "demo_stored hs = \<lparr>e_partition = Some ''https://a.test'', e_url = ''https://a.test/x'', e_method = ''GET'',
     e_status = 200, e_headers = (''cache-control'', ''max-age=60'') # hs, e_vary_fields = [],
     e_vary_key = [], e_body = Complete ''body'' 4, e_request_time = 100, e_response_time = 100,
     e_stored_at = 100, e_last_used = 100, e_hits = 0, e_provenance = Origin\<rparr>"

definition demo_cache :: "(string \<times> string) list \<Rightarrow> cache" where
  "demo_cache hs =
     \<lparr>index_of = fst (put_entry demo (demo_stored hs) [(''body'',
        \<lparr>b_len = 4, b_stored_len = 5, b_compression = Uncompressed, b_refcount = 0,
         b_created = 100\<rparr>)] empty_index),
      files = [(path_for demo ''body'', compression_tag Uncompressed # ''body'')],
      options = default_options\<rparr>"

lemmas demo_cache_eval = demo_stored_def put_entry_def empty_index_def contents_def key_of_def
  pkey_of_def entry_key_def primary_key_def to_upper_def upper_char_def is_lower_def

lemma demo_cache_entries:
  "entries (index_of (demo_cache hs)) = [(key_of (demo_stored hs), demo_stored hs)]"
  "variants (index_of (demo_cache hs)) = [(pkey_of (demo_stored hs), [[]])]"
  "options (demo_cache hs) = default_options"
  "files (demo_cache hs) = [(path_for demo ''body'', compression_tag Uncompressed # ''body'')]"
  by (simp_all add: demo_cache_def demo_cache_eval Let_def)

lemma demo_cache_inv: "index_inv (index_of (demo_cache hs))" "plain_keys (index_of (demo_cache hs))"
proof -
  let ?news = "[(''body'', \<lparr>b_len = 4, b_stored_len = 5, b_compression = Uncompressed,
      b_refcount = 0, b_created = 100\<rparr>)]"
  have "snd (put_entry demo (demo_stored hs) ?news empty_index) = Inr []"
    by (simp add: demo_cache_eval Let_def)
  then have "put_entry demo (demo_stored hs) ?news empty_index = (index_of (demo_cache hs), Inr [])"
    by (simp add: demo_cache_def prod_eq_iff)
  then show "index_inv (index_of (demo_cache hs))"
    using put_entry_step [OF index_inv_empty] by (fastforce simp: empty_index_def u32_max_def)
  show "plain_keys (index_of (demo_cache hs))"
    by (simp add: plain_keys_def demo_cache_entries demo_stored_def site_of_def)
qed

lemma demo_normalize: "normalize_url demo ''https://a.test/x'' = ''https://a.test/x''"
  by (simp add: normalize_url_def demo_def Let_def)

lemma demo_select:
  "select_for demo (Some ''https://a.test'') ''GET'' ''https://a.test/x'' [] (index_of (demo_cache hs))
   = Some (key_of (demo_stored hs), demo_stored hs)"
  by (simp add: select_for_def select_variant_def variant_keys_def get_entry_def demo_cache_entries
      demo_stored_def key_of_def pkey_of_def entry_key_def primary_key_def to_upper_def
      upper_char_def is_lower_def vary_key_def coding_accepted_def joined_values_def coding_acceptable_def
      text_values_def demo_def List.map_filter_def)

lemma demo_get: "get demo ''body'' (files (demo_cache hs)) = (files (demo_cache hs), Inr ''body'')"
  by (rule get_present [where t = "compression_tag Uncompressed"])
    (simp_all add: demo_cache_entries decode_file_def compression_from_tag_def demo_def)

lemma demo_names:
  "name_from_bytes demo ''cache-control'' = Some ''cache-control''"
  "name_from_bytes demo ''set-cookie'' = Some ''set-cookie''"
  by (simp_all add: demo_def demo_name_def name_char_def is_alpha_def is_upper_def is_lower_def
      is_digit_def to_lower_def lower_char_def)

lemma demo_meta_of:
  "meta_of demo (demo_stored []) = \<lparr>m_status = 200, m_headers = [(''cache-control'', ''max-age=60'')],
     request_time = 100, response_time = 100\<rparr>"
  "meta_of demo (demo_stored [(''set-cookie'', ''s'')]) = \<lparr>m_status = 200,
     m_headers = [(''cache-control'', ''max-age=60''), (''set-cookie'', ''s'')],
     request_time = 100, response_time = 100\<rparr>"
  unfolding meta_of_def to_header_map_def demo_stored_def
  by (simp_all add: demo_names) (simp_all add: demo_def)

lemma demo_evaluate:
  assumes "hs \<in> {[], [(''set-cookie'', ''s'')]}"
  shows "evaluate demo [] (meta_of demo (demo_stored hs)) 150 default_options = Fresh 50 60"
proof -
  have "evaluate demo [] (meta_of demo (demo_stored [])) 150 default_options = Fresh 50 60"
    unfolding demo_meta_of by (simp add: policy_eval header_eval Let_def)
  moreover have "evaluate demo [] (meta_of demo (demo_stored [(''set-cookie'', ''s'')])) 150 default_options
      = Fresh 50 60"
    unfolding demo_meta_of by (simp add: policy_eval header_eval Let_def)
  ultimately show ?thesis using assms by (elim insertE emptyE) (simp_all only:)
qed

lemma demo_wanted: "wanted_bytes demo [] (demo_stored hs) meta = Whole"
  by (simp add: wanted_bytes_def header_text_def demo_def whole_or_unusable_def demo_stored_def)

lemma demo_lookup:
  assumes "hs \<in> {[], [(''set-cookie'', ''s'')]}"
  obtains c' resp where "lookup demo (Some ''https://a.test'') ''GET'' ''https://a.test/x'' [] 150 (demo_cache hs)
      = (c', Inr (FreshHit resp))" and "r_key resp = key_of (demo_stored hs)" and "r_body resp = ''body''"
    and "r_age resp = 50" and "\<not> r_body_omitted resp" and "r_range resp = None"
proof -
  let ?w = "\<lparr>w_range = None, omit_body = False\<rparr>"
  obtain resp where m: "materialize demo (key_of (demo_stored hs)) (demo_stored hs)
      (meta_of demo (demo_stored hs)) 50 ?w (files (demo_cache hs)) = (files (demo_cache hs), Inr resp)"
    and "r_key resp = key_of (demo_stored hs)" "r_body resp = ''body''" "r_age resp = 50"
      "\<not> r_body_omitted resp" "r_range resp = None"
    by (simp add: materialize_def Let_def read_span_def demo_stored_def demo_get)
  moreover have "\<exists>c'. lookup demo (Some ''https://a.test'') ''GET'' ''https://a.test/x'' [] 150 (demo_cache hs)
      = (c', Inr (FreshHit resp))"
    by (simp add: lookup_def Let_def demo_normalize demo_select demo_wanted answer_def
        demo_evaluate [OF assms] demo_cache_entries(3) with_body_def m is_cacheable_method_def
        eq_ic_def to_lower_def lower_char_def is_upper_def to_upper_def upper_char_def is_lower_def)
  ultimately show thesis using that by blast
qed

lemma cacheable_method_plain: "is_cacheable_method meth \<Longrightarrow> CHR 0x01 \<notin> set meth"
proof
  assume ok: "is_cacheable_method meth" and one: "CHR 0x01 \<in> set meth"
  then have "CHR 0x01 \<in> set (to_upper meth)" by (simp add: to_upper_one)
  then show False using ok by (auto simp: is_cacheable_method_def)
qed



subsection \<open>Which bytes are served\<close>

text \<open>
  A body as the pieces it is kept in, and what the byte at a position of the representation
  is: the byte at that place of a body that hashes to the piece's address.
\<close>

fun pieces :: "stored_body \<Rightarrow> segment list" where
  "pieces (Complete c n) = [\<lparr>seg_start = 0, seg_end = n, seg_content = c\<rparr>]"
| "pieces (Partial _ segs) = segs"

definition body_fits :: "('h, 'u) externs \<Rightarrow> segment list \<Rightarrow> bool" where
  "body_fits X segs \<longleftrightarrow>
     (\<forall>s \<in> set segs. \<forall>b. blake3 X b = seg_content s \<longrightarrow> length b = segment_len s)"

definition byte_at :: "('h, 'u) externs \<Rightarrow> segment list \<Rightarrow> nat \<Rightarrow> char \<Rightarrow> bool" where
  "byte_at X segs pos ch \<longleftrightarrow>
     (\<exists>s \<in> set segs. \<exists>b. blake3 X b = seg_content s \<and> seg_start s \<le> pos \<and> pos < seg_end s
        \<and> pos - seg_start s < length b \<and> b ! (pos - seg_start s) = ch)"

lemma slice_of_piece:
  assumes "length b = segment_len s" and "seg_start s \<le> cursor" and "cursor < seg_end s" and "cursor \<le> end'"
    and "stop = min end' (seg_end s)"
  defines "sl \<equiv> drop (min (cursor - seg_start s) (min (stop - seg_start s) (length b)))
      (take (min (stop - seg_start s) (length b)) b)"
  shows "length sl = stop - cursor"
    and "i < length sl \<Longrightarrow> sl ! i = b ! (cursor + i - seg_start s) \<and> cursor + i < seg_end s
      \<and> cursor + i - seg_start s < length b"
proof -
  have u: "min (stop - seg_start s) (length b) = stop - seg_start s" "stop \<le> seg_end s" "cursor \<le> stop"
    using assms(1-5) by (simp_all add: segment_len_def)
  then have sl: "sl = drop (cursor - seg_start s) (take (stop - seg_start s) b)"
    unfolding sl_def u(1) using assms(2) by (simp add: min_def)
  show len: "length sl = stop - cursor"
    using u assms(1-3) unfolding sl by (simp add: segment_len_def)
  assume i: "i < length sl"
  then have "cursor + i < stop" using len by linarith
  moreover have "cursor - seg_start s + i = cursor + i - seg_start s" using assms(2) by linarith
  ultimately show "sl ! i = b ! (cursor + i - seg_start s) \<and> cursor + i < seg_end s
      \<and> cursor + i - seg_start s < length b"
    using i u assms(1,2) unfolding sl by (simp add: segment_len_def)
qed

lemma read_segments_bytes:
  assumes "read_segments X ss cursor end' out fs = (fs', Inr (cursor', out'))"
    and "body_fits X ss" and "cursor \<le> end'"
  shows "\<exists>got. out' = out @ got \<and> cursor' = cursor + length got \<and> cursor' \<le> end'
    \<and> (\<forall>i < length got. byte_at X ss (cursor + i) (got ! i))"
  using assms
proof (induction ss arbitrary: cursor out fs)
  case (Cons s ss)
  have weaker: "byte_at X ss p ch \<Longrightarrow> byte_at X (s # ss) p ch" for p ch by (auto simp: byte_at_def)
  have fits: "body_fits X ss" using Cons.prems(2) by (simp add: body_fits_def)
  consider "seg_end s \<le> cursor" | "cursor < seg_end s" "cursor < seg_start s \<or> end' \<le> seg_start s"
    | "cursor < seg_end s" "seg_start s \<le> cursor" "seg_start s < end'" by linarith
  then show ?case
  proof cases
    case 1
    then show ?thesis using Cons.IH [OF _ fits Cons.prems(3)] Cons.prems(1) weaker by fastforce
  next
    case 2
    then show ?thesis using Cons.prems by auto
  next
    case 3
    let ?stop = "min end' (seg_end s)"
    obtain fs1 b where g: "get X (seg_content s) fs = (fs1, Inr b)"
      using Cons.prems(1) 3 by (auto split: prod.splits sum.splits)
    have b: "blake3 X b = seg_content s"
      using get_addr [of X "seg_content s" fs b] g by simp
    then have len: "length b = segment_len s" using Cons.prems(2) by (simp add: body_fits_def)
    let ?u = "min (?stop - seg_start s) (length b)"
    define sl where "sl = drop (min (cursor - seg_start s) ?u) (take ?u b)"
    note slice = slice_of_piece [OF len 3(2,1) Cons.prems(3) refl, folded sl_def]
    have here: "\<forall>i < length sl. byte_at X (s # ss) (cursor + i) (sl ! i)"
      using slice(2) b 3 by (force simp: byte_at_def)
    have stop: "cursor + length sl = ?stop" using slice(1) 3 Cons.prems(3) by simp
    show ?thesis
    proof (cases "end' \<le> ?stop")
      case True
      then have "out' = out @ sl" "cursor' = ?stop"
        using Cons.prems(1) 3 g by (auto simp: Let_def sl_def)
      then show ?thesis using here stop by force
    next
      case False
      then have "read_segments X ss ?stop end' (out @ sl) fs1 = (fs', Inr (cursor', out'))"
        using Cons.prems(1) 3 g by (auto simp: Let_def sl_def)
      from Cons.IH [OF this fits] obtain got where got: "out' = out @ sl @ got"
        "cursor' = ?stop + length got" "cursor' \<le> end'" "\<forall>i < length got. byte_at X ss (?stop + i) (got ! i)"
        by auto
      have "byte_at X (s # ss) (cursor + i) ((sl @ got) ! i)" if "i < length (sl @ got)" for i
      proof (cases "i < length sl")
        case True
        then show ?thesis using here by (simp add: nth_append)
      next
        case False
        then have "i - length sl < length got" using that by simp
        then have "byte_at X ss (?stop + (i - length sl)) (got ! (i - length sl))" using got(4) by blast
        moreover have "?stop + (i - length sl) = cursor + i" using stop False by linarith
        ultimately show ?thesis using False weaker by (simp add: nth_append)
      qed
      then show ?thesis using got stop by (intro exI [of _ "sl @ got"]) simp
    qed
  qed
qed simp

lemma select_for_entry:
  "select_for X part meth url req ix = Some (key, r) \<Longrightarrow> map_of (entries ix) key = Some r"
  by (erule select_for_Some)

lemma wanted_range:
  assumes "wanted_bytes X req r meta = WantRange resolved"
  shows "\<exists>n. complete_len (e_body r) = Some n \<and> r_first resolved \<le> r_last resolved
    \<and> r_last resolved < n \<and> r_complete resolved = n"
proof -
  obtain raw specs n where "parse_range raw = Some specs" "complete_len (e_body r) = Some n"
    "resolve (hd specs) n = Some resolved"
    using assms by (auto simp: wanted_bytes_def whole_or_unusable_def Let_def case_prod_beta split: option.splits if_splits)
  then show ?thesis using parse_range_ok [of raw specs] resolve_Some [of "hd specs" n resolved]
    by (cases specs) auto
qed

lemma wanted_whole: "wanted_bytes X req r meta = Whole \<Longrightarrow> is_complete (e_body r)"
  by (auto simp: wanted_bytes_def whole_or_unusable_def Let_def case_prod_beta split: option.splits if_splits)

lemma read_span_bytes:
  assumes "read_span X r start end' fs = (fs', Inr out)" and "body_fits X (pieces (e_body r))"
    and "start \<le> end'" and "case e_body r of Complete _ n \<Rightarrow> end' \<le> n | Partial _ _ \<Rightarrow> True"
  shows "length out = end' - start
    \<and> (\<forall>i < length out. byte_at X (pieces (e_body r)) (start + i) (out ! i))"
proof (cases "e_body r")
  case (Complete cid n)
  obtain fs1 b where g: "get X cid fs = (fs1, Inr b)"
    using assms(1) Complete by (auto simp: read_span_def split: prod.splits sum.splits)
  have b: "blake3 X b = cid" using get_addr [of X cid fs b] g by simp
  then have len: "length b = n" using assms(2) Complete by (simp add: body_fits_def segment_len_def)
  have e: "end' \<le> n" using assms(4) Complete by simp
  have out: "out = drop start (take end' b)"
    using assms(1,3) Complete g e len by (simp add: read_span_def Let_def min_def)
  have "byte_at X (pieces (e_body r)) (start + i) (out ! i)" if "i < length out" for i
    using that b e len assms(3) Complete out by (auto simp: byte_at_def)
  then show ?thesis using out e len by simp
next
  case (Partial n segs)
  obtain cur where rd: "read_segments X segs start end' [] fs = (fs', Inr (cur, out))" "end' \<le> cur"
    using assms(1) Partial by (auto simp: read_span_def split: prod.splits sum.splits if_splits)
  have "body_fits X segs" using assms(2) Partial by simp
  from read_segments_bytes [OF rd(1) this assms(3)] rd(2) Partial show ?thesis by auto
qed


lemma demo_body_fits: "body_fits demo (pieces (e_body (demo_stored hs)))"
  by (simp add: body_fits_def demo_stored_def segment_len_def demo_def)


subsection \<open>What is never replayed\<close>

lemma hm_laws:
  assumes "header_map_ok X"
  shows "is_name X n \<Longrightarrow> is_name X m \<Longrightarrow> hm_get_all X (hm_remove X n h) m = (if m = n then [] else hm_get_all X h m)"
    and "is_name X n \<Longrightarrow> is_name X m \<Longrightarrow> hm_get_all X (hm_insert X n v h) m = (if m = n then [v] else hm_get_all X h m)"
    and "is_name X n \<Longrightarrow> is_name X m \<Longrightarrow>
      hm_get_all X (hm_append X n v h) m = hm_get_all X h m @ (if m = n then [v] else [])"
    and "hm_get_all X (hm_empty X) n = []"
  using assms by (simp_all add: header_map_ok_def)

definition plain_text :: "string \<Rightarrow> bool" where
  "plain_text n \<longleftrightarrow> n \<noteq> [] \<and> length n \<le> 64 \<and> list_all name_char n \<and> to_lower n = n"

lemma plain_name:
  assumes "header_name_ok X" and "plain_text n"
  shows "is_name X n"
proof -
  have "name_from_bytes X n = Some (to_lower n)"
    using assms unfolding header_name_ok_def plain_text_def by blast
  moreover have "to_lower n = n" using assms(2) unfolding plain_text_def by blast
  ultimately show ?thesis unfolding is_name_def by simp
qed

lemma plain_texts: "list_all plain_text [''set-cookie'', ''set-cookie2'', ''age'', ''content-length'', ''content-range'']"
  by (simp add: plain_text_def name_char_def is_alpha_def is_lower_def is_upper_def is_digit_def
      to_lower_def lower_char_def)

lemma known_names:
  assumes "header_name_ok X"
  shows "is_name X ''set-cookie''" "is_name X ''set-cookie2''" "is_name X ''age''"
    "is_name X ''content-length''" "is_name X ''content-range''"
  using plain_texts by (simp_all add: plain_name [OF assms])

lemma stays_absent:
  assumes "header_map_ok X" and "header_name_ok X" and "is_name X m" and "hm_get_all X h m = []"
  shows "hm_get_all X (remove_named X field h) m = []"
    and "hm_get_all X (fold (remove_named X) fields' h) m = []"
    and "is_name X n \<Longrightarrow> m \<noteq> n \<Longrightarrow> hm_get_all X (parse_value X n text h) m = []"
    and "is_name X n \<Longrightarrow> hm_get_all X (hm_remove X n h) m = []"
proof -
  have one: "hm_get_all X (remove_named X f g) m = []" if "hm_get_all X g m = []" for f g
  proof (cases "name_from_bytes X f")
    case (Some n)
    then have "is_name X n" using assms(2) by (simp add: header_name_ok_def)
    then show ?thesis using Some that hm_laws(1) [OF assms(1) _ assms(3)] by (simp add: remove_named_def)
  qed (simp add: remove_named_def that)
  show "hm_get_all X (remove_named X field h) m = []" by (rule one [OF assms(4)])
  show "hm_get_all X (fold (remove_named X) fields' h) m = []"
    using assms(4) by (induction fields' arbitrary: h) (simp_all add: one)
  show "is_name X n \<Longrightarrow> m \<noteq> n \<Longrightarrow> hm_get_all X (parse_value X n text h) m = []"
    using assms(4) hm_laws(2) [OF assms(1) _ assms(3)] by (simp add: parse_value_def split: option.splits)
  show "is_name X n \<Longrightarrow> hm_get_all X (hm_remove X n h) m = []"
    using assms(4) hm_laws(1) [OF assms(1) _ assms(3)] by simp
qed

lemma stripped:
  assumes "header_map_ok X" and "header_name_ok X" and "never \<in> set NEVER_STORED"
  shows "hm_get_all X (strip_never_stored X h) never = []"
proof -
  note n = known_names [OF assms(2)]
  have "never = ''set-cookie'' \<or> never = ''set-cookie2''" using assms(3) by (simp add: NEVER_STORED_def)
  then show ?thesis
    unfolding strip_never_stored_def NEVER_STORED_def
    using hm_laws(1) [OF assms(1)] n by auto
qed

lemma served_stays_absent:
  assumes "header_map_ok X" and "header_name_ok X" and "never \<in> set NEVER_STORED"
    and "hm_get_all X (m_headers meta) never = []"
  shows "hm_get_all X (served_headers X meta age rng) never = []"
proof -
  note n = known_names [OF assms(2)]
  have never: "is_name X never" "never \<noteq> ''age''" "never \<noteq> ''content-length''" "never \<noteq> ''content-range''"
    using assms(3) n by (auto simp: NEVER_STORED_def)
  note keep = stays_absent [OF assms(1,2) never(1)]
  let ?h2 = "parse_value X ''age'' (show_nat age)
      (hm_remove X ''age'' (fold (remove_named X) (suppressed_fields X meta) (m_headers meta)))"
  have h2: "hm_get_all X ?h2 never = []"
    by (intro keep(3) [OF _ n(3) never(2)] keep(4) [OF _ n(3)] keep(2) assms(4))
  show ?thesis
  proof (cases rng)
    case (Some resolved)
    then show ?thesis
      using keep(3) [OF keep(3) [OF h2 n(5) never(4)] n(4) never(3)] by (simp add: served_headers_def Let_def)
  qed (use h2 in \<open>simp add: served_headers_def Let_def\<close>)
qed

text \<open>
  C32: Whatever the index holds, written by this version or an older one, no hit carries a
  \<open>Set-Cookie\<close> or \<open>Set-Cookie2\<close>, neither among the headers to send nor in the metadata
  handed on with them.
\<close>

theorem no_cookie_is_replayed:
  assumes "header_map_ok X" and "header_name_ok X" and "never \<in> set NEVER_STORED"
    and "lookup X part meth raw req now c = (c', Inr l)" and "response_of l = Some resp"
  shows "hm_get_all X (r_headers resp) never = [] \<and> hm_get_all X (m_headers (r_meta resp)) never = []"
proof -
  obtain key r wnt age fs' where
    m: "materialize X key r (meta_of X r) age wnt (files c) = (fs', Inr resp)"
    using lookup_hit [OF assms(4,5)] by metis
  have "hm_get_all X (m_headers (r_meta resp)) never = []"
    using materialize_Inr [OF m] stripped [OF assms(1-3)] by simp
  moreover have "r_headers resp = served_headers X (r_meta resp) age (w_range wnt)"
    using materialize_Inr [OF m] by simp
  ultimately show ?thesis using served_stays_absent [OF assms(1-3)] by simp
qed

theorem no_cookie_is_replayed_witness:
  "\<exists>c' resp. lookup demo (Some ''https://a.test'') ''GET'' ''https://a.test/x'' [] 150
       (demo_cache [(''set-cookie'', ''s'')]) = (c', Inr (FreshHit resp))
     \<and> hm_get_all demo (r_headers resp) ''set-cookie'' = []"
proof -
  obtain c' resp where l: "lookup demo (Some ''https://a.test'') ''GET'' ''https://a.test/x'' [] 150
      (demo_cache [(''set-cookie'', ''s'')]) = (c', Inr (FreshHit resp))"
    using demo_lookup [of "[(''set-cookie'', ''s'')]"] by blast
  have "''set-cookie'' \<in> set NEVER_STORED" by (simp add: NEVER_STORED_def)
  from no_cookie_is_replayed [OF demo_header_map_ok demo_header_name_ok this l] l show ?thesis by auto
qed

end
