(* ===== verification/Storing.thy ===== *)
theory Storing
  imports Cache_Write Serving
begin

text \<open>
  What the cache keeps through everything it does: counts that are exact, files that decode to
  their address, and a file for every body an entry names. One lemma per operation, and the
  operations as one machine.
\<close>

subsection \<open>The invariant\<close>

definition bodies_held :: "('h, 'u) externs \<Rightarrow> index \<Rightarrow> fs \<Rightarrow> bool" where
  "bodies_held X ix fs \<longleftrightarrow>
     (\<forall>k r cid. map_of (entries ix) k = Some r \<longrightarrow> cid \<in> set (contents r) \<longrightarrow> contains X cid fs)"

definition cache_inv :: "('h, 'u) externs \<Rightarrow> cache \<Rightarrow> bool" where
  "cache_inv X c \<longleftrightarrow>
     index_inv (index_of c) \<and> store_ok X (files c) \<and> bodies_held X (index_of c) (files c)"

lemma cache_invI [intro]:
  "index_inv (index_of c) \<Longrightarrow> store_ok X (files c) \<Longrightarrow> bodies_held X (index_of c) (files c) \<Longrightarrow> cache_inv X c"
  by (simp add: cache_inv_def)

lemma cache_invD:
  assumes "cache_inv X c"
  shows "index_inv (index_of c)" and "store_ok X (files c)" and "bodies_held X (index_of c) (files c)"
  using assms by (simp_all add: cache_inv_def)

lemma bodies_held_cong: "entries ix' = entries ix \<Longrightarrow> bodies_held X ix' fs = bodies_held X ix fs"
  by (simp add: bodies_held_def)

lemma bodies_held_fewer:
  "bodies_held X ix fs \<Longrightarrow> (\<And>k r. map_of (entries ix') k = Some r \<Longrightarrow> map_of (entries ix) k = Some r) \<Longrightarrow>
   bodies_held X ix' fs"
  by (simp add: bodies_held_def) blast

lemma contains_remove: "hex_ok X \<Longrightarrow> contains X c (remove X d fs) \<longleftrightarrow> c \<noteq> d \<and> contains X c fs"
  by (auto simp: contains_def exists_file_def map_of_remove)

text \<open>Only a body without a reference is forgotten.\<close>

lemma forget_unreferenced:
  assumes "index_inv ix" and "snd (forget_blob_if_unreferenced cid ix)"
    and "map_of (entries ix) k = Some r"
  shows "cid \<notin> set (contents r)"
proof
  assume "cid \<in> set (contents r)"
  from referenced_blob [OF assms(1,3) this] obtain b where "map_of (blobs ix) cid = Some b" "0 < b_refcount b"
    by blast
  then show False using assms(2) by (simp add: forget_blob_if_unreferenced_def)
qed

lemma delete_candidates_inv:
  assumes "index_inv ix" and "store_ok X fs" and "bodies_held X ix fs"
    and "delete_candidates X cs ix fs = (ix', fs', n)"
  shows "index_inv ix' \<and> store_ok X fs' \<and> bodies_held X ix' fs' \<and> entries ix' = entries ix"
  using assms
proof (induction cs arbitrary: ix fs n)
  case (Cons c cs)
  obtain ix1 forget where f: "forget_blob_if_unreferenced c ix = (ix1, forget)" by fastforce
  let ?fs1 = "if forget then remove X c fs else fs"
  obtain m where rest: "delete_candidates X cs ix1 ?fs1 = (ix', fs', m)"
    using Cons.prems(4) f by (auto simp: Let_def split: prod.splits)
  have ix1: "index_inv ix1" "entries ix1 = entries ix"
    using forget_step [OF Cons.prems(1), of c] f by simp_all
  have "store_ok X ?fs1" using Cons.prems(2) by (simp add: remove_store_ok)
  moreover have "bodies_held X ix1 ?fs1"
    using Cons.prems(3) forget_unreferenced [OF Cons.prems(1), of c] f store_okD(1) [OF Cons.prems(2)] ix1(2)
    by (auto simp: bodies_held_def contains_remove)
  ultimately show ?case using Cons.IH [OF ix1(1) _ _ rest] ix1(2) by simp
qed simp

lemma delete_orphans_inv:
  assumes "cache_inv X c"
  shows "cache_inv X (fst (delete_orphans X cs c))
    \<and> entries (index_of (fst (delete_orphans X cs c))) = entries (index_of c)
    \<and> options (fst (delete_orphans X cs c)) = options c"
proof -
  obtain ix fs n where d: "delete_candidates X cs (index_of c) (files c) = (ix, fs, n)" by (metis prod_cases3)
  from delete_candidates_inv [OF cache_invD [OF assms] d] show ?thesis
    by (auto simp: delete_orphans_def d)
qed

text \<open>A transaction that only drops entries, followed by deleting what it released.\<close>

lemma drop_then_delete:
  assumes "cache_inv X c" and "index_inv ix"
    and "\<And>k r. map_of (entries ix) k = Some r \<Longrightarrow> map_of (entries (index_of c)) k = Some r"
  shows "cache_inv X (c\<lparr>index_of := ix\<rparr>)" and "cache_inv X (fst (delete_orphans X cs (c\<lparr>index_of := ix\<rparr>)))"
proof -
  show kept: "cache_inv X (c\<lparr>index_of := ix\<rparr>)"
    using assms(2) cache_invD(2,3) [OF assms(1)] bodies_held_fewer [OF _ assms(3)] by (simp add: cache_inv_def)
  show "cache_inv X (fst (delete_orphans X cs (c\<lparr>index_of := ix\<rparr>)))"
    using delete_orphans_inv [OF kept] by blast
qed

lemma same_entries_inv:
  "cache_inv X c \<Longrightarrow> index_inv ix \<Longrightarrow> entries ix = entries (index_of c) \<Longrightarrow> cache_inv X (c\<lparr>index_of := ix\<rparr>)"
  by (rule drop_then_delete) auto

subsection \<open>Counters and rows\<close>

lemma index_inv_bump [simp]: "index_inv (bump name n ix) = index_inv ix"
  by (simp add: bump_def)

lemma entries_rows [simp]:
  "entries (bump name n ix) = entries ix" "entries (index_sri rows ix) = entries ix"
  "entries (fst (prune_sri ix)) = entries ix"
  by (simp_all add: bump_def index_sri_def prune_sri_def Let_def)

lemma index_inv_rows [simp]:
  "index_inv (index_sri rows ix) = index_inv ix" "index_inv (fst (prune_sri ix)) = index_inv ix"
  by (simp_all add: index_sri_def prune_sri_def Let_def)

lemma count_inv [simp]: "cache_inv X (count name n c) = cache_inv X c"
  by (simp add: count_def on_index_def cache_inv_def bodies_held_def)

lemma index_sri_inv [simp]: "cache_inv X (on_index (index_sri rows) c) = cache_inv X c"
  by (simp add: on_index_def cache_inv_def bodies_held_def)

lemma record_in_inv: "cache_inv X c \<Longrightarrow> cache_inv X (record_in key now tally c)"
proof -
  assume inv: "cache_inv X c"
  let ?ix = "record_access key now tally (index_of c)"
  have "index_inv ?ix"
    using stamp_entry_step [OF cache_invD(1) [OF inv], of _ now] cache_invD(1) [OF inv]
    by (cases key) (auto simp: record_access_def)
  moreover have "\<exists>old. map_of (entries (index_of c)) k = Some old \<and> contents r = contents old"
    if "map_of (entries ?ix) k = Some r" for k r
    using that
    by (cases key) (auto simp: record_access_def stamp_entry_def AList.update_conv' contents_def
        split: option.splits if_splits)
  then have "bodies_held X ?ix (files c)"
    using cache_invD(3) [OF inv] unfolding bodies_held_def by metis
  ultimately show ?thesis
    using cache_invD(2) [OF inv] by (auto simp: record_in_def on_index_def)
qed

subsection \<open>Removing\<close>

lemma remove_entry_fewer:
  assumes "index_inv ix" and "remove_entry key ix = (ix', orphans)"
  shows "index_inv ix'" and "map_of (entries ix') k = Some r \<Longrightarrow> map_of (entries ix) k = Some r"
  using remove_entry_step [OF assms] by (auto simp: AList.delete_conv' split: if_splits)

lemma remove_record_inv: "cache_inv X c \<Longrightarrow> cache_inv X (remove_record X key c)"
proof -
  assume inv: "cache_inv X c"
  obtain ix orphans where rm: "remove_entry key (index_of c) = (ix, orphans)" by fastforce
  note fewer = remove_entry_fewer [OF cache_invD(1) [OF inv] rm]
  show ?thesis using drop_then_delete(2) [OF inv fewer] by (simp add: remove_record_def rm)
qed

lemma remove_record_length:
  "cache_inv X c \<Longrightarrow> length (entries (index_of (remove_record X key c))) \<le> length (entries (index_of c))"
proof -
  assume inv: "cache_inv X c"
  obtain ix orphans where rm: "remove_entry key (index_of c) = (ix, orphans)" by fastforce
  note fewer = remove_entry_fewer [OF cache_invD(1) [OF inv] rm]
  have "entries (index_of (remove_record X key c)) = entries ix"
    using delete_orphans_inv [OF drop_then_delete(1) [OF inv fewer]] by (simp add: remove_record_def rm)
  moreover have "length (AList.delete key es) \<le> length es" for es :: "(string, entry_record) table"
    by (simp add: AList.delete_eq)
  ultimately show ?thesis using remove_entry_step [OF cache_invD(1) [OF inv] rm] by simp
qed

lemma drop_fewer:
  assumes "index_inv ix" and "drop_entry_if_unchanged key r revoke ix = (ix', out)"
  shows "index_inv ix'" and "map_of (entries ix') k = Some q \<Longrightarrow> map_of (entries ix) k = Some q"
proof -
  show "index_inv ix'"
    using run_op_step [OF assms(1), of "DropIfUnchanged key r revoke"] assms(2) by simp
  assume q: "map_of (entries ix') k = Some q"
  show "map_of (entries ix) k = Some q"
  proof (cases "map_of (entries ix) key = Some r")
    case True
    then obtain orphans where "remove_entry key ix = (ix'\<lparr>peer_eligible := peer_eligible ix\<rparr>, orphans)"
      using drop_if_unchanged_entries [OF assms(2)] by auto
    from remove_entry_fewer(2) [OF assms(1) this] q show ?thesis by simp
  next
    case False
    then show ?thesis using drop_if_unchanged_entries [OF assms(2)] q by simp
  qed
qed

lemma drop_broken_inv: "cache_inv X c \<Longrightarrow> cache_inv X (drop_broken X key r c)"
proof -
  assume inv: "cache_inv X c"
  obtain ix out where d: "drop_broken_entry key r (index_of c) = (ix, out)" by fastforce
  note fewer = drop_fewer [OF cache_invD(1) [OF inv] d [unfolded drop_broken_entry_def]]
  show ?thesis
  proof (cases out)
    case None
    then show ?thesis using drop_then_delete(1) [OF inv fewer] d by (simp add: drop_broken_def)
  next
    case (Some orphaned)
    have "cache_inv X (fst (delete_orphans X orphaned (c\<lparr>index_of := bump ''corrupt_entries'' 1 ix\<rparr>)))"
      by (rule drop_then_delete(2) [OF inv]) (simp_all add: fewer)
    then show ?thesis using Some d by (simp add: drop_broken_def)
  qed
qed

lemma discard_representation_inv: "cache_inv X c \<Longrightarrow> cache_inv X (fst (discard_representation X key cid c))"
proof -
  assume inv: "cache_inv X c"
  show ?thesis
  proof (cases "get_entry key (index_of c)")
    case None
    then show ?thesis using inv by (simp add: discard_representation_def)
  next
    case (Some r)
    obtain ix out where d: "drop_entry_holding key r (index_of c) = (ix, out)" by fastforce
    note fewer = drop_fewer [OF cache_invD(1) [OF inv] d [unfolded drop_entry_holding_def]]
    show ?thesis
      using drop_then_delete [OF inv fewer] inv Some d
      by (auto simp: discard_representation_def split: option.splits)
  qed
qed

lemma invalidate_one_inv: "cache_inv X c \<Longrightarrow> cache_inv X (fst (invalidate_one X part meth url c))"
proof -
  assume inv: "cache_inv X c"
  obtain ix orphans where i: "invalidate part meth url (index_of c) = (ix, orphans)" by fastforce
  note st = invalidate_step [OF cache_invD(1) [OF inv] i]
  then have fewer: "map_of (entries ix) k = Some r \<Longrightarrow> map_of (entries (index_of c)) k = Some r" for k r
    by blast
  show ?thesis using drop_then_delete(2) [OF inv conjunct1 [OF st] fewer] by (simp add: invalidate_one_def i)
qed

lemma invalidate_cache_inv: "cache_inv X c \<Longrightarrow> cache_inv X (fst (invalidate_cache X part meth url c))"
  by (simp add: invalidate_cache_def Let_def case_prod_beta invalidate_one_inv)

lemma purge_inv: "cache_inv X c \<Longrightarrow> cache_inv X (purge X part meth url c)"
  by (simp add: purge_def invalidate_one_inv)

lemma collect_garbage_inv: "cache_inv X c \<Longrightarrow> cache_inv X (fst (collect_garbage X c))"
proof -
  assume inv: "cache_inv X c"
  let ?c1 = "fst (delete_orphans X (orphaned_blobs (index_of c)) c)"
  have "cache_inv X ?c1" using delete_orphans_inv [OF inv] by blast
  from same_entries_inv [OF this, of "fst (prune_sri (index_of ?c1))"] cache_invD(1) [OF this]
  show ?thesis by (simp add: collect_garbage_def Let_def case_prod_beta on_index_def)
qed

lemma map_of_remove_every_body:
  "map_of (fst (remove_every_body fs)) p
    = (if in_fan_out p \<and> \<not> is_temporary (last p) then None else map_of fs p)"
proof -
  have "fst (remove_every_body fs) = filter (\<lambda>(q, _). \<not> (in_fan_out q \<and> \<not> is_temporary (last q))) fs"
    unfolding remove_every_body_def Let_def fst_conv by (rule filter_cong) auto
  then show ?thesis using map_of_filter_keys [of "\<lambda>q. \<not> (in_fan_out q \<and> \<not> is_temporary (last q))" fs p] by simp
qed

lemma clear_store_ok: "store_ok X fs \<Longrightarrow> store_ok X (fst (remove_every_body fs))"
  unfolding store_ok_def map_of_remove_every_body by (auto split: if_splits)

lemma clear_cache_inv: "cache_inv X c \<Longrightarrow> cache_inv X (fst (clear_cache c))"
  using clear_store_ok [of X "files c"]
  by (auto simp: cache_inv_def clear_cache_def clear_index_def index_inv_def bodies_held_def counted_def
      refs_def Let_def)

lemma evict_until_inv: "cache_inv X c \<Longrightarrow> cache_inv X (fst (evict_until X target ks on_disk c))"
proof (induction ks arbitrary: on_disk c)
  case (Cons key rest)
  obtain ix orphaned where rm: "remove_entry key (index_of c) = (ix, orphaned)" by fastforce
  note fewer = remove_entry_fewer [OF cache_invD(1) [OF Cons.prems] rm]
  show ?case
    using Cons.IH [OF drop_then_delete(2) [OF Cons.prems fewer]] Cons.prems
    by (simp add: rm Let_def case_prod_beta)
qed simp

lemma enforce_budget_inv: "cache_inv X c \<Longrightarrow> cache_inv X (fst (enforce_budget X c))"
  by (auto simp: enforce_budget_def Let_def case_prod_beta evict_until_inv split: option.split)

subsection \<open>Reading\<close>

lemma get_same: "store_ok X fs \<Longrightarrow> fst (get X cid fs) = fs"
  using get_sound [of X fs cid] get_absent [of X cid fs] by (cases "contains X cid fs") auto

lemma read_segments_same: "store_ok X fs \<Longrightarrow> fst (read_segments X ss cursor end' out fs) = fs"
proof (induction ss arbitrary: cursor out)
  case (Cons s ss)
  obtain r where "get X (seg_content s) fs = (fs, r)" using get_same [OF Cons.prems] by (metis prod.collapse)
  then show ?case using Cons by (cases r) (simp_all add: Let_def)
qed simp

lemma read_span_same: "store_ok X fs \<Longrightarrow> fst (read_span X r start end' fs) = fs"
proof (cases "e_body r")
  case (Complete cid n)
  assume ok: "store_ok X fs"
  obtain q where "get X cid fs = (fs, q)" using get_same [OF ok] by (metis prod.collapse)
  then show ?thesis using Complete by (cases q) (simp_all add: read_span_def Let_def)
next
  case (Partial n segs)
  assume ok: "store_ok X fs"
  obtain q where "read_segments X segs start end' [] fs = (fs, q)"
    using read_segments_same [OF ok] by (metis prod.collapse)
  then show ?thesis using Partial by (cases q) (auto simp: read_span_def)
qed

lemma materialize_same: "store_ok X fs \<Longrightarrow> fst (materialize X key r meta age wnt fs) = fs"
proof -
  assume ok: "store_ok X fs"
  have read: "fst (if omit_body wnt then (fs, Inr [])
      else (case w_range wnt of
        Some resolved \<Rightarrow> (let (start, end') = resolved_half_open resolved in read_span X r start end' fs)
      | None \<Rightarrow> read_span X r 0 (case complete_len (e_body r) of Some n \<Rightarrow> n | None \<Rightarrow> 0) fs)) = fs"
    using read_span_same [OF ok] by (simp add: case_prod_beta Let_def split: option.splits)
  show ?thesis
    unfolding materialize_def Let_def
    using read [unfolded Let_def] by (simp add: case_prod_beta split: sum.splits)
qed

lemma with_body_inv:
  assumes "cache_inv X c" and "\<And>s. cache_inv X (fst (serve s c))"
  shows "cache_inv X (fst (with_body X key r meta age wnt tally serve c))"
proof -
  obtain out where m: "materialize X key r meta age wnt (files c) = (files c, out)"
    using materialize_same [OF cache_invD(2) [OF assms(1)]] by (metis prod.collapse)
  have "cache_inv X (fst (discard_broken X key r tally c))"
    by (simp add: discard_broken_def miss_def record_in_inv drop_broken_inv assms(1))
  then show ?thesis using m assms by (cases out) (simp_all add: with_body_def)
qed

lemma answer_inv: "cache_inv X c \<Longrightarrow> cache_inv X (fst (answer X req key r meta wnt now tally c))"
  by (cases "evaluate X req meta now (options c)")
    (simp_all add: answer_def with_body_inv record_in_inv miss_def)

lemma lookup_inv: "cache_inv X c \<Longrightarrow> cache_inv X (fst (lookup X part meth raw req now c))"
  by (simp add: lookup_def Let_def miss_def record_in_inv answer_inv case_prod_beta
      split: option.split wanted.split)

lemma grant_peer_inv: "cache_inv X c \<Longrightarrow> cache_inv X (fst (grant_peer_eligibility X cid declared c))"
proof -
  assume inv: "cache_inv X c"
  obtain q where g: "get X cid (files c) = (files c, q)"
    using get_same [OF cache_invD(2) [OF inv]] by (metis prod.collapse)
  have same: "entries (fst (grant_eligibility cid ks ix)) = entries ix" for ks ix
    by (simp add: grant_eligibility_def Let_def)
  have "cache_inv X (c\<lparr>index_of := fst (grant_eligibility cid ks (index_of c))\<rparr>)" for ks
    using run_op_step [OF cache_invD(1) [OF inv], of "Grant cid ks" X] same
    by (intro same_entries_inv [OF inv]) simp_all
  then show ?thesis
    using inv g
    by (simp add: grant_peer_eligibility_def case_prod_beta Let_def split: option.split sum.split)
qed

lemma body_for_peer_same:
  assumes "store_ok X (files c)"
  shows "fst (body_for_peer X ask c) = c"
proof -
  have "c\<lparr>files := fst (get X cid (files c))\<rparr> = c" for cid using get_same [OF assms] by simp
  then show ?thesis
    by (cases ask) (simp_all add: body_for_peer_def case_prod_beta Let_def split: option.split sum.split)
qed

lemma accept_peer_inv: "cache_inv X c \<Longrightarrow> cache_inv X (fst (accept_peer_body X expected body c))"
  by (simp add: accept_peer_body_def)

subsection \<open>Writing\<close>

definition grows :: "('h, 'u) externs \<Rightarrow> fs \<Rightarrow> fs \<Rightarrow> bool" where
  "grows X fs fs' \<longleftrightarrow> (\<forall>cid b. get_opt X cid fs = Some b \<longrightarrow> get_opt X cid fs' = Some b)"

lemma grows_refl [simp]: "grows X fs fs"
  by (simp add: grows_def)

lemma grows_trans: "grows X fs fs' \<Longrightarrow> grows X fs' fs'' \<Longrightarrow> grows X fs fs''"
  by (simp add: grows_def)

lemma grows_contains:
  "store_ok X fs \<Longrightarrow> store_ok X fs' \<Longrightarrow> grows X fs fs' \<Longrightarrow> contains X cid fs \<Longrightarrow> contains X cid fs'"
  using get_opt_contains [of X fs cid] get_opt_contains [of X fs' cid] by (auto simp: grows_def)

lemma grows_inv: "cache_inv X c \<Longrightarrow> store_ok X fs \<Longrightarrow> grows X (files c) fs \<Longrightarrow> cache_inv X (c\<lparr>files := fs\<rparr>)"
  using grows_contains [of X "files c" fs] by (auto simp: cache_inv_def bodies_held_def)

lemma put_body_inv:
  assumes inv: "cache_inv X c" and put: "put_body X uq b c = (c', out)"
  obtains receipt where "out = Inr receipt" and "cache_inv X c'" and "w_id receipt = blake3 X b"
    and "w_len receipt = length b" and "contains X (blake3 X b) (files c')"
    and "grows X (files c) (files c')" and "index_of c' = index_of c" and "options c' = options c"
    and "w_newly_written receipt = (\<not> contains X (blake3 X b) (files c))"
proof -
  let ?fs = "files c"
  note ok = cache_invD(2) [OF inv]
  obtain fs' r where p: "put X uq b ?fs = (fs', Inr r)" "store_ok X fs'" "w_id r = blake3 X b"
    "w_len r = length b" "contains X (blake3 X b) fs'" "w_newly_written r = (\<not> contains X (blake3 X b) ?fs)"
    using put_total [OF ok, of uq b] by blast
  have "grows X ?fs fs'"
    unfolding grows_def
  proof (intro allI impI)
    fix cid b'
    assume old: "get_opt X cid ?fs = Some b'"
    show "get_opt X cid fs' = Some b'"
      using bs.put_keeps [OF ok, of b b' uq] bs.put_other [OF ok, of cid b uq] old p(1)
      by (cases "cid = blake3 X b") simp_all
  qed
  moreover have "c' = c\<lparr>files := fs'\<rparr>" "out = Inr r" using put p(1) by (simp_all add: put_body_def)
  ultimately show thesis using that p grows_inv [OF inv p(2)] by simp
qed

lemma put_entry_entries:
  "put_entry X r news ix = (ix', Inr orphans) \<Longrightarrow> entries ix' = AList.update (key_of r) r (entries ix)"
  by (auto simp: put_entry_def Let_def split: prod.splits sum.splits)

lemma put_entry_error: "put_entry X r news ix = (ix', Inl e) \<Longrightarrow> ix' = ix"
  by (auto simp: put_entry_def Let_def split: prod.splits sum.splits)

lemma put_record_inv:
  assumes inv: "cache_inv X c" and room: "length (entries (index_of c)) < u32_max"
    and held: "\<And>cid. cid \<in> set (contents r) \<Longrightarrow> contains X cid (files c)"
  shows "cache_inv X (fst (put_record X r news c))"
    and "snd (put_record X r news c) = Inr () \<Longrightarrow>
      entries (index_of (fst (put_record X r news c))) = AList.update (key_of r) r (entries (index_of c))"
    and "options (fst (put_record X r news c)) = options c"
proof -
  obtain ix out where put: "put_entry X r news (index_of c) = (ix, out)" by fastforce
  have "cache_inv X (fst (put_record X r news c))
    \<and> (snd (put_record X r news c) = Inr () \<longrightarrow>
      entries (index_of (fst (put_record X r news c))) = AList.update (key_of r) r (entries (index_of c)))
    \<and> options (fst (put_record X r news c)) = options c"
  proof (cases out)
    case (Inl e)
    then show ?thesis using put put_entry_error inv by (fastforce simp: put_record_def)
  next
    case (Inr orphaned)
    note put' = put [unfolded Inr]
    have e: "entries ix = AList.update (key_of r) r (entries (index_of c))" by (rule put_entry_entries [OF put'])
    have "bodies_held X ix (files c)"
      using cache_invD(3) [OF inv] held by (auto simp: bodies_held_def e AList.update_conv' split: if_splits)
    then have "cache_inv X (c\<lparr>index_of := ix\<rparr>)"
      using put_entry_step [OF cache_invD(1) [OF inv] room put'] cache_invD(2) [OF inv] by auto
    from delete_orphans_inv [OF this] show ?thesis using put' e by (simp add: put_record_def)
  qed
  then show "cache_inv X (fst (put_record X r news c))"
    and "snd (put_record X r news c) = Inr () \<Longrightarrow>
      entries (index_of (fst (put_record X r news c))) = AList.update (key_of r) r (entries (index_of c))"
    and "options (fst (put_record X r news c)) = options c" by blast+
qed

text \<open>A refresh that finds the entry it read.\<close>

lemma refresh_inv:
  assumes inv: "cache_inv X c" and old: "map_of (entries (index_of c)) k = Some old"
    and r: "contents r = contents old" "pkey_of r = pkey_of old" "e_vary_key r = e_vary_key old"
  shows "cache_inv X (on_index (refresh_entry r) c)"
proof -
  have k: "key_of r = k" using index_invD(4) [OF cache_invD(1) [OF inv] old] r by (simp add: key_of_split)
  note st = replace_entry_step [OF cache_invD(1) [OF inv] old r(1) k r(2,3)]
  have "bodies_held X (refresh_entry r (index_of c)) (files c)"
    using cache_invD(3) [OF inv] old r(1) k
    by (auto simp: bodies_held_def refresh_entry_def AList.update_conv' split: if_splits)
  then show ?thesis
    using st cache_invD(2) [OF inv] by (auto simp: on_index_def refresh_entry_def k)
qed

lemma select_variant_entry:
  "select_variant X part meth url req ix = Some (key, r) \<Longrightarrow> map_of (entries ix) key = Some r"
  unfolding select_variant_def by (drule first_variant_Some) blast

lemma reconcile_head_inv: "cache_inv X c \<Longrightarrow> cache_inv X (reconcile_head X part url req hs c)"
proof -
  assume inv: "cache_inv X c"
  show ?thesis
  proof (cases "select_variant X part ''GET'' url req (index_of c)")
    case None
    then show ?thesis using inv by (simp add: reconcile_head_def)
  next
    case (Some p)
    obtain key r where p: "p = (key, r)" by fastforce
    note r = select_variant_entry [OF Some [unfolded p]]
    have "cache_inv X (on_index (refresh_entry (r\<lparr>e_headers := h\<rparr>)) c)" for h
      by (rule refresh_inv [OF inv r]) (simp_all add: contents_def pkey_of_def)
    then show ?thesis using Some p remove_record_inv [OF inv] by (simp add: reconcile_head_def Let_def)
  qed
qed

lemma record_not_modified_inv:
  "cache_inv X c \<Longrightarrow> cache_inv X (fst (record_not_modified X key fresh rq rs now c))"
proof -
  assume inv: "cache_inv X c"
  show ?thesis
  proof (cases "get_entry key (index_of c)")
    case None
    then show ?thesis using inv by (simp add: record_not_modified_def)
  next
    case (Some old)
    let ?h = "apply_304 X (to_header_map X (e_headers old)) fresh"
    let ?r = "old\<lparr>e_headers := for_storage X ?h, e_request_time := rq, e_response_time := rs\<rparr>"
    let ?c1 = "count ''not_modified'' 1 (on_index (refresh_entry ?r) c)"
    let ?m = "\<lparr>m_status = e_status ?r, m_headers = ?h, request_time = rq, response_time = rs\<rparr>"
    have old: "map_of (entries (index_of c)) key = Some old" using Some by (simp add: get_entry_def)
    have "cache_inv X (on_index (refresh_entry ?r) c)"
      by (rule refresh_inv [OF inv old]) (simp_all add: contents_def pkey_of_def)
    then have c1: "cache_inv X ?c1" by simp
    obtain out where m: "materialize X key ?r ?m (current_age X ?m now) \<lparr>w_range = None, omit_body = False\<rparr>
        (files ?c1) = (files ?c1, out)"
      using materialize_same [OF cache_invD(2) [OF c1]] by (metis prod.collapse)
    show ?thesis
      using Some m c1 drop_broken_inv [OF c1]
      by (cases out) (simp_all add: record_not_modified_def Let_def)
  qed
qed

subsection \<open>Storing a body\<close>

lemma store_whole_inv:
  assumes inv: "cache_inv X c" and room: "length (entries (index_of c)) < u32_max"
    and held: "contains X (w_id receipt) (files c)"
  shows "cache_inv X (fst (store_whole X x url now receipt rows c))"
proof -
  let ?vf = "vary_fields X (x_response x)"
  let ?r = "whole_record X x url ?vf (vary_key X ?vf (x_request x)) receipt now"
  let ?c = "count_dedupe receipt c"
  have c: "cache_inv X ?c" "entries (index_of ?c) = entries (index_of c)" "files ?c = files c"
    using inv by (simp_all add: count_dedupe_def) (simp_all add: count_def on_index_def)
  have "contents ?r = [w_id receipt]" by (simp add: contents_def whole_record_def)
  then have put: "cache_inv X (fst (put_record X ?r [blob_of_receipt receipt now] ?c))"
    using put_record_inv(1) [OF c(1), of ?r "[blob_of_receipt receipt now]"] room held c(2,3) by simp
  obtain c1 out where p: "put_record X ?r [blob_of_receipt receipt now] ?c = (c1, out)" by fastforce
  show ?thesis
    using put unfolding store_whole_def Let_def p and_then_def
    by (cases out) (simp_all add: enforce_budget_inv reconcile_head_inv)
qed

lemma put_runs_inv:
  assumes "cache_inv X c" and "put_runs X uq body start now runs' segs news c = (c', out)"
  obtains segs' news' where "out = Inr (segs @ segs', news @ news')" and "cache_inv X c'"
    and "entries (index_of c') = entries (index_of c)" and "blobs (index_of c') = blobs (index_of c)"
    and "grows X (files c) (files c')" and "options c' = options c"
    and "segment_runs segs' = runs'"
    and "\<forall>s \<in> set segs'. map_of news' (seg_content s) \<noteq> None"
    and "\<forall>s \<in> set segs'. contains X (seg_content s) (files c')"
    and "\<forall>s \<in> set segs'. seg_content s =
      blake3 X (take (seg_end s - start - (seg_start s - start)) (drop (seg_start s - start) body))"
  using assms
proof (induction runs' arbitrary: segs news c thesis)
  case Nil
  then show ?case using Nil.prems(1) [of "[]" "[]"] by (simp add: segment_runs_def)
next
  case (Cons run rest)
  let ?slice = "take (snd run - start - (fst run - start)) (drop (fst run - start) body)"
  obtain c1 out1 where b: "put_body X uq ?slice c = (c1, out1)" by fastforce
  obtain receipt where pb: "out1 = Inr receipt" "cache_inv X c1" "w_id receipt = blake3 X ?slice"
    "contains X (blake3 X ?slice) (files c1)" "grows X (files c) (files c1)" "index_of c1 = index_of c"
    "options c1 = options c"
    by (rule put_body_inv [OF Cons.prems(2) b])
  let ?s = "\<lparr>seg_start = fst run, seg_end = snd run, seg_content = w_id receipt\<rparr>"
  let ?c2 = "count_dedupe receipt c1"
  have c2: "cache_inv X ?c2" "entries (index_of ?c2) = entries (index_of c)" "files ?c2 = files c1"
    "options ?c2 = options c" "blobs (index_of ?c2) = blobs (index_of c)"
    using pb(2,6,7) by (simp_all add: count_dedupe_def) (simp_all add: count_def on_index_def bump_def)
  have run: "put_runs X uq body start now rest (segs @ [?s]) (news @ [blob_of_receipt receipt now]) ?c2 = (c', out)"
    using Cons.prems(3) b pb(1) by (simp add: Let_def and_then_def)
  obtain segs' news' where r: "out = Inr ((segs @ [?s]) @ segs', (news @ [blob_of_receipt receipt now]) @ news')"
    "cache_inv X c'" "entries (index_of c') = entries (index_of ?c2)" "blobs (index_of c') = blobs (index_of ?c2)"
    "grows X (files ?c2) (files c')" "options c' = options ?c2" "segment_runs segs' = rest"
    "\<forall>s \<in> set segs'. map_of news' (seg_content s) \<noteq> None"
    "\<forall>s \<in> set segs'. contains X (seg_content s) (files c')"
    "\<forall>s \<in> set segs'. seg_content s =
      blake3 X (take (seg_end s - start - (seg_start s - start)) (drop (seg_start s - start) body))"
    by (rule Cons.IH [OF _ c2(1) run])
  have here: "contains X (blake3 X ?slice) (files c')"
    using grows_contains [OF cache_invD(2) [OF pb(2)] cache_invD(2) [OF r(2)]] r(5) c2(3) pb(4) by simp
  have g: "grows X (files c) (files c')" using grows_trans [OF pb(5)] r(5) c2(3) by simp
  have mo: "\<forall>s \<in> set (?s # segs'). map_of (blob_of_receipt receipt now # news') (seg_content s) \<noteq> None"
    using r(8) by (auto simp: blob_of_receipt_def)
  have co: "\<forall>s \<in> set (?s # segs'). contains X (seg_content s) (files c')"
    using r(9) here pb(3) by simp
  have ct: "\<forall>s \<in> set (?s # segs'). seg_content s =
      blake3 X (take (seg_end s - start - (seg_start s - start)) (drop (seg_start s - start) body))"
    using r(10) pb(3) by simp
  have sr: "segment_runs (?s # segs') = run # rest" using r(7) by (simp add: segment_runs_def)
  have same: "entries (index_of c') = entries (index_of c)" "blobs (index_of c') = blobs (index_of c)"
    "options c' = options c" using r(3,4,6) c2 by simp_all
  show ?case by (rule Cons.prems(1) [OF _ r(2) same(1,2) g same(3) sr mo co ct]) (simp add: r(1))
qed

lemma complete_runs_inv:
  assumes "cache_inv X c" and "complete_runs X uq now r news c = (c', out)"
    and "\<And>cid. cid \<in> set (contents r) \<Longrightarrow> contains X cid (files c)"
  shows "cache_inv X c' \<and> entries (index_of c') = entries (index_of c)
    \<and> (\<forall>r' news' comp. out = Inr (r', news', comp) \<longrightarrow>
        (\<forall>cid \<in> set (contents r'). contains X cid (files c')))"
proof (cases "\<exists>n segs. e_body r = Partial (Some n) segs \<and> covers (from_sorted (segment_runs segs)) 0 n")
  case True
  then obtain n segs where r: "e_body r = Partial (Some n) segs"
    "covers (from_sorted (segment_runs segs)) 0 n" by blast
  obtain q where sp: "read_span X r 0 n (files c) = (files c, q)"
    using read_span_same [OF cache_invD(2) [OF assms(1)]] by (metis prod.collapse)
  show ?thesis
  proof (cases q)
    case (Inl e)
    then have "c' = c" "out = Inl e" using assms(2) r sp by (simp_all add: complete_runs_def)
    then show ?thesis using assms(1) by simp
  next
    case (Inr whole)
    obtain c1 out1 where b: "put_body X uq whole c = (c1, out1)" by fastforce
    obtain receipt where pb: "out1 = Inr receipt" "cache_inv X c1" "w_id receipt = blake3 X whole"
      "contains X (blake3 X whole) (files c1)" "index_of c1 = index_of c"
      by (rule put_body_inv [OF assms(1) b])
    have "c\<lparr>files := files c\<rparr> = c" by simp
    then have "c' = on_index (index_sri (sri_digests X whole (w_id receipt))) c1"
      and "out = Inr (r\<lparr>e_body := Complete (w_id receipt) (w_len receipt)\<rparr>,
        news @ [blob_of_receipt receipt now], Some (w_id receipt))"
      using assms(2) r sp Inr b pb(1) by (simp_all add: complete_runs_def and_then_def)
    then show ?thesis using pb by (simp add: contents_def) (simp add: on_index_def)
  qed
next
  case False
  then have "c' = c \<and> out = Inr (r, news, None)"
    using assms(2) by (auto simp: complete_runs_def split: stored_body.splits option.splits if_splits)
  then show ?thesis using assms(1,3) by auto
qed

lemma merge_range_inv:
  assumes inv: "cache_inv X c" and room: "length (entries (index_of c)) < u32_max"
    and found: "\<And>r. existing = Some r \<Longrightarrow> \<exists>k. map_of (entries (index_of c)) k = Some r"
  shows "cache_inv X (fst (merge_range X uq x url body now fs vkey cr existing c))"
proof -
  let ?segs = "partial_segments existing"
  let ?total = "case c_complete cr of Some n \<Rightarrow> Some n
      | None \<Rightarrow> Option.bind existing (\<lambda>r. complete_len (e_body r))"
  let ?start = "fst (content_range_half_open cr)" and ?upto = "snd (content_range_half_open cr)"
  let ?gaps = "missing (from_sorted (segment_runs ?segs)) ?start ?upto"
  have old: "contains X (seg_content s) (files c)" if s: "s \<in> set ?segs" for s
  proof -
    obtain r n segs where r: "existing = Some r" "e_body r = Partial n segs" "s \<in> set segs"
      using s unfolding partial_segments_def
      by (cases existing) (auto, case_tac "e_body a", auto)
    then have "seg_content s \<in> set (contents r)" by (simp add: contents_def)
    then show ?thesis using found [OF r(1)] cache_invD(3) [OF inv] by (auto simp: bodies_held_def)
  qed
  obtain c1 out1 where run: "put_runs X uq body ?start now ?gaps ?segs [] c = (c1, out1)" by fastforce
  obtain segs' news where pr: "out1 = Inr (?segs @ segs', [] @ news)" "cache_inv X c1"
    "entries (index_of c1) = entries (index_of c)"
    "grows X (files c) (files c1)" "\<forall>s \<in> set segs'. contains X (seg_content s) (files c1)"
    by (rule put_runs_inv [OF inv run])
  note e1 = pr(3)
  let ?r = "partial_record X x url fs vkey existing ?total (sort_key seg_start (?segs @ segs')) now"
  have held: "contains X cid (files c1)" if "cid \<in> set (contents ?r)" for cid
    using that old pr(5) grows_contains [OF cache_invD(2) [OF inv] cache_invD(2) [OF pr(2)] pr(4)]
    by (auto simp: contents_def partial_record_def)
  obtain c2 out2 where comp: "complete_runs X uq now ?r news c1 = (c2, out2)" by fastforce
  note cr2 = complete_runs_inv [OF pr(2) comp held]
  have unfolded: "merge_range X uq x url body now fs vkey cr existing c
      = and_then (c2, out2) (\<lambda>(r', news', completed) c. and_then (put_record X r' news' c) (\<lambda>_ c.
          let c1 = count ''stores'' 1 c;
              c2 = (if completed = None then count ''partial_stores'' 1 c1 else c1) in
          (fst (enforce_budget X c2), Inr (case completed of
               Some content \<Rightarrow> Stored content False
             | None \<Rightarrow> StoredPartial (held_len (e_body r')) ?total))))"
    using run comp pr(1) by (simp add: merge_range_def case_prod_beta Let_def and_then_def [of "(c1, _)"])
  show ?thesis
  proof (cases out2)
    case (Inl e)
    then show ?thesis using cr2 by (simp add: unfolded and_then_def)
  next
    case (Inr p)
    obtain r' news' k where p: "p = (r', news', k)" by (metis prod_cases3)
    have "cache_inv X (fst (put_record X r' news' c2))"
      using cr2 e1 room Inr p by (intro put_record_inv(1)) auto
    moreover obtain c3 u where "put_record X r' news' c2 = (c3, u)" by fastforce
    ultimately show ?thesis
      using Inr p by (cases u) (simp_all add: unfolded and_then_def Let_def enforce_budget_inv)
  qed
qed

lemma store_partial_inv:
  assumes inv: "cache_inv X c" and room: "length (entries (index_of c)) < u32_max"
  shows "cache_inv X (fst (store_partial X uq x url body now fs vkey c))"
proof -
  let ?key = "entry_key (x_partition x) ''GET'' url vkey"
  let ?found = "get_entry ?key (index_of c)"
  have rm: "cache_inv X (remove_record X ?key c)" by (rule remove_record_inv [OF inv])
  have fewer: "length (entries (index_of (remove_record X ?key c))) < u32_max"
    using room remove_record_length [OF inv, of ?key] by linarith
  define comb where "comb = (case ?found of
      Some r \<Rightarrow> same_representation X (to_header_map X (e_headers r)) (x_response x) | None \<Rightarrow> False)"
  define c1 where "c1 = (if ?found \<noteq> None \<and> \<not> comb then remove_record X ?key c else c)"
  have c1: "cache_inv X c1" "length (entries (index_of c1)) < u32_max" "comb \<Longrightarrow> c1 = c"
    by (simp_all add: c1_def rm inv fewer room)
  define ex where "ex = (if comb then ?found else None)"
  have merge: "cache_inv X (fst (merge_range X uq x url body now fs vkey cr e c1))" if "e = ex" for cr e
    unfolding that by (rule merge_range_inv [OF c1(1,2)]) (auto simp: ex_def c1(3) get_entry_def split: if_splits)
  show ?thesis
    unfolding store_partial_def Let_def comb_def [symmetric] c1_def [symmetric] ex_def [symmetric]
    using inv c1(1) by (simp add: reject_def merge split: option.split)
qed

lemma store_inv:
  assumes inv: "cache_inv X c" and room: "length (entries (index_of c)) < u32_max"
  shows "cache_inv X (fst (store_with_provenance X uq x body now c))"
proof -
  let ?url = "normalize_url X (x_url x)" and ?c1 = "count ''bytes_from_origin'' (length body) c"
  let ?vf = "vary_fields X (x_response x)"
  have c1: "cache_inv X ?c1" "length (entries (index_of ?c1)) < u32_max"
    using inv room by (simp, simp add: count_def on_index_def)
  obtain c2 out where put: "put_body X uq body ?c1 = (c2, out)" by fastforce
  obtain receipt where pb: "out = Inr receipt" "cache_inv X c2" "w_id receipt = blake3 X body"
    "contains X (blake3 X body) (files c2)" "index_of c2 = index_of ?c1"
    by (rule put_body_inv [OF c1(1) put])
  have whole: "cache_inv X (fst (store_whole X x ?url now receipt rows c2))" for rows
    using store_whole_inv [OF pb(2), of receipt] pb c1(2) by simp
  show ?thesis
    using whole c1(1) store_partial_inv [OF c1] put pb(1)
    by (simp add: store_with_provenance_def Let_def reject_def and_then_def split: storability.split)
qed

subsection \<open>A body stored as it streams in\<close>

definition store_in_pieces :: "('h, 'u) externs \<Rightarrow> string \<Rightarrow> string \<Rightarrow> 'h exchange \<Rightarrow> bytes list \<Rightarrow> nat \<Rightarrow> cache
    \<Rightarrow> cache \<times> store_outcome cres" where
  "store_in_pieces X uq v x cs now c =
     (let (fs1, w) = writer v (files c) in
      case write_chunks cs w fs1 of
        (fs2, Inl e) \<Rightarrow> (c\<lparr>files := fs2\<rparr>, Inl e)
      | (fs2, Inr w') \<Rightarrow> finish_streamed X uq x w' now (c\<lparr>files := fs2\<rparr>))"

lemma store_ok_cong: "map_of fs' = map_of fs \<Longrightarrow> store_ok X fs' = store_ok X fs"
  by (simp add: store_ok_def)

lemma same_files_inv: "cache_inv X c \<Longrightarrow> map_of fs = map_of (files c) \<Longrightarrow> cache_inv X (c\<lparr>files := fs\<rparr>)"
  using store_ok_cong [of fs "files c" X]
  by (simp add: cache_inv_def bodies_held_def contains_def exists_file_def)

lemma store_in_pieces_inv:
  assumes inv: "cache_inv X c" and room: "length (entries (index_of c)) < u32_max"
    and fresh: "map_of (files c) [''staging'', v] = None"
  shows "cache_inv X (fst (store_in_pieces X uq v x cs now c))"
proof -
  let ?fs = "files c" and ?s = "[''staging'', v]"
  obtain fs1 w where w: "writer v ?fs = (fs1, w)" by fastforce
  have w0: "fs1 = AList.update ?s [] ?fs" "bw_open w" "bw_path w = ?s" "bw_digests w = Some streaming_new"
    using w by (auto simp: writer_def Let_def)
  have s: "map_of fs1 (bw_path w) = Some []" using w0(1,3) by (simp add: fs_simps)
  from write_chunks_map [OF w0(2) s w0(4), of cs] obtain fs2 where
    raw: "write_chunks cs w fs1 = (fs2, Inr (w\<lparr>bw_hasher := bw_hasher w @ concat cs,
      bw_digests := Some (fold streaming_update cs streaming_new), bw_len := bw_len w + length (concat cs)\<rparr>))"
    and m2: "map_of fs2 = (map_of fs1)(bw_path w \<mapsto> [] @ concat cs)" by blast
  define w' where "w' = w\<lparr>bw_hasher := bw_hasher w @ concat cs,
      bw_digests := Some (fold streaming_update cs streaming_new), bw_len := bw_len w + length (concat cs)\<rparr>"
  have ch: "write_chunks cs w fs1 = (fs2, Inr w')" "bw_path w' = ?s"
    using raw w0(3) by (simp_all add: w'_def)
  let ?c1 = "count ''bytes_from_origin'' (bw_len w') (c\<lparr>files := fs2\<rparr>)"
  let ?dropped = "?c1\<lparr>files := writer_abandon w' (files ?c1)\<rparr>"
  have f: "files (count name n d) = files d" for name n d by (simp add: count_def on_index_def)
  have "map_of (writer_abandon w' fs2) = map_of ?fs"
    using m2 fresh ch(2) w0(1,3) by (simp add: writer_abandon_def fs_simps fun_eq_iff)
  moreover have "?dropped = count ''bytes_from_origin'' (bw_len w') (c\<lparr>files := writer_abandon w' fs2\<rparr>)"
    by (simp add: count_def on_index_def)
  ultimately have dropped: "cache_inv X ?dropped" by (simp add: same_files_inv [OF inv])
  obtain fs3 r where cm: "commit_writer X uq w' fs2 = (fs3, r)" by fastforce
  obtain receipt dig where r: "r = Inr (receipt, dig)" "store_ok X fs3"
    "snd (put X uq (concat cs) ?fs) = Inr receipt" "map_of fs3 = map_of (fst (put X uq (concat cs) ?fs))"
    using commit_chunks [OF cache_invD(2) [OF inv] fresh w ch(1) cm] by blast
  obtain c' out where pb: "put_body X uq (concat cs) c = (c', out)" by fastforce
  obtain receipt' where pr: "out = Inr receipt'" "cache_inv X c'" "w_id receipt' = blake3 X (concat cs)"
    "contains X (blake3 X (concat cs)) (files c')" "index_of c' = index_of c"
    by (rule put_body_inv [OF inv pb])
  have c': "files c' = fst (put X uq (concat cs) ?fs)" "receipt' = receipt"
    using pb r(3) pr(1) by (auto simp: put_body_def split: prod.splits)
  have "cache_inv X (c'\<lparr>files := fs3\<rparr>)"
    by (rule same_files_inv [OF pr(2)]) (simp add: r(4) c'(1))
  then have c3: "cache_inv X (?c1\<lparr>files := fs3\<rparr>)"
    using pr(5) by (simp add: cache_inv_def count_def on_index_def bodies_held_def)
  have "contains X (w_id receipt) fs3"
    using pr(3,4) r(4) c' by (simp add: contains_def exists_file_def)
  then have "cache_inv X (fst (store_whole X x url now receipt rows (?c1\<lparr>files := fs3\<rparr>)))" for url rows
    using store_whole_inv [OF c3] room by (simp add: count_def on_index_def)
  then show ?thesis
    using dropped
    by (simp add: store_in_pieces_def w ch(1) finish_streamed_def Let_def f cm r(1) reject_def split: storability.split)
qed

subsection \<open>The cache as one machine\<close>

datatype 'h cache_op =
    DoLookup "string option" string string 'h nat
  | DoStore string "'h exchange" bytes nat
  | DoStream string string "'h exchange" "bytes list" nat
  | DoNotModified string 'h nat nat nat
  | DoInvalidate "string option" string string
  | DoPurge "string option" string string
  | DoCollect
  | DoBudget
  | DoClear
  | DoDiscard string content_id
  | DoGrant content_id integrity
  | DoServePeer peer_ask
  | DoAcceptPeer peer_proof bytes

fun run_cache :: "('h, 'u) externs \<Rightarrow> 'h cache_op \<Rightarrow> cache \<Rightarrow> cache" where
  "run_cache X (DoLookup part meth url req now) c = fst (lookup X part meth url req now c)"
| "run_cache X (DoStore uq x body now) c = fst (store_with_provenance X uq x body now c)"
| "run_cache X (DoStream uq v x cs now) c = fst (store_in_pieces X uq v x cs now c)"
| "run_cache X (DoNotModified key fresh rq rs now) c = fst (record_not_modified X key fresh rq rs now c)"
| "run_cache X (DoInvalidate part meth url) c = fst (invalidate_cache X part meth url c)"
| "run_cache X (DoPurge part meth url) c = purge X part meth url c"
| "run_cache X DoCollect c = fst (collect_garbage X c)"
| "run_cache X DoBudget c = fst (enforce_budget X c)"
| "run_cache X DoClear c = fst (clear_cache c)"
| "run_cache X (DoDiscard key cid) c = fst (discard_representation X key cid c)"
| "run_cache X (DoGrant cid declared) c = fst (grant_peer_eligibility X cid declared c)"
| "run_cache X (DoServePeer ask) c = fst (body_for_peer X ask c)"
| "run_cache X (DoAcceptPeer expected body) c = fst (accept_peer_body X expected body c)"

text \<open>A store needs room in the reference counts, and a stream a staging name not in use.\<close>

fun cache_op_ok :: "'h cache_op \<Rightarrow> cache \<Rightarrow> bool" where
  "cache_op_ok (DoStore _ _ _ _) c \<longleftrightarrow> length (entries (index_of c)) < u32_max"
| "cache_op_ok (DoStream _ v _ _ _) c \<longleftrightarrow>
     length (entries (index_of c)) < u32_max \<and> map_of (files c) [''staging'', v] = None"
| "cache_op_ok _ c \<longleftrightarrow> True"

lemma run_cache_inv: "cache_inv X c \<Longrightarrow> cache_op_ok op c \<Longrightarrow> cache_inv X (run_cache X op c)"
  by (cases op)
    (simp_all add: lookup_inv store_inv store_in_pieces_inv record_not_modified_inv invalidate_cache_inv
      purge_inv collect_garbage_inv enforce_budget_inv clear_cache_inv discard_representation_inv
      grant_peer_inv body_for_peer_same cache_invD accept_peer_inv)

interpretation cache_machine: machine "run_cache X" cache_op_ok "cache_inv X"
  for X :: "('h, 'u) externs"
  by unfold_locales (rule run_cache_inv)

end
