(* ===== verification/Store_Lookup.thy ===== *)
theory Store_Lookup
  imports Storing
begin

text \<open>
  The cache end to end: what a store leaves in the index, that a later request is answered
  with it, and that no sequence of operations parts an entry from its body.
\<close>

subsection \<open>What a store leaves behind\<close>

lemma take_all_total:
  "(\<And>c. c \<in> set cs \<Longrightarrow> map_of bs c \<noteq> None \<or> map_of news c \<noteq> None) \<Longrightarrow> \<exists>bs'. take_all news cs bs = Inr bs'"
proof (induction cs arbitrary: bs)
  case (Cons c cs)
  have known: "map_of (AList.update c v bs) d \<noteq> None \<or> map_of news d \<noteq> None" if "d \<in> set cs" for v d
    using Cons.prems [of d] that by (auto simp: AList.update_conv')
  show ?case
    using Cons.prems [of c] Cons.IH [OF known] by (auto split: option.split)
qed simp

lemma put_entry_total:
  assumes "\<And>cid. cid \<in> set (contents r) \<Longrightarrow> map_of (blobs ix) cid \<noteq> None \<or> map_of news cid \<noteq> None"
  shows "\<exists>ix' orphans. put_entry X r news ix = (ix', Inr orphans)"
proof -
  define held where "held = (case map_of (entries ix) (key_of r) of Some p \<Rightarrow> contents p | None \<Rightarrow> [])"
  let ?H = "filter (\<lambda>c. c \<notin> set (contents r)) held" and ?W = "filter (\<lambda>c. c \<notin> set held) (contents r)"
  obtain bs1 orphans where rel: "release_all ?H (blobs ix) = (bs1, orphans)" by fastforce
  have "distinct ?H" unfolding held_def by (simp split: option.split)
  then have "map_of bs1 c \<noteq> None \<longleftrightarrow> map_of (blobs ix) c \<noteq> None" for c
    using release_all_map [of ?H "blobs ix"] rel by (auto split: if_splits)
  then obtain bs2 where "take_all news ?W bs1 = Inr bs2"
    using take_all_total [of ?W bs1 news] assms by auto
  then show ?thesis
    unfolding put_entry_def Let_def held_def [symmetric] rel prod.case by simp
qed

lemma put_entry_variants:
  "put_entry X r news ix = (ix', Inr orphans) \<Longrightarrow>
   map_of (variants ix') p = Some ks \<Longrightarrow>
   \<exists>ks0. (map_of (variants ix) p = Some ks0 \<or> map_of (variants ix) p = None \<and> ks0 = [])
     \<and> set ks \<subseteq> set ks0 \<union> (if p = pkey_of r then {e_vary_key r} else {})"
  by (cases "map_of (variants ix) p")
    (auto simp: put_entry_def Let_def AList.update_conv' split: prod.splits sum.splits if_splits)

text \<open>Fewer entries, and no variant that was not listed.\<close>

definition shrinks :: "cache \<Rightarrow> cache \<Rightarrow> bool" where
  "shrinks c c' \<longleftrightarrow>
     (\<forall>k r. map_of (entries (index_of c')) k = Some r \<longrightarrow> map_of (entries (index_of c)) k = Some r)
     \<and> (\<forall>p ks. map_of (variants (index_of c')) p = Some ks \<longrightarrow>
          (\<exists>ks0. map_of (variants (index_of c)) p = Some ks0 \<and> set ks \<subseteq> set ks0))
     \<and> options c' = options c"

lemma shrinks_refl [simp]: "shrinks c c"
  by (simp add: shrinks_def)

lemma shrinks_trans: "shrinks c c' \<Longrightarrow> shrinks c' c'' \<Longrightarrow> shrinks c c''"
proof -
  assume a: "shrinks c c'" and b: "shrinks c' c''"
  have "\<exists>ks0. map_of (variants (index_of c)) p = Some ks0 \<and> set ks \<subseteq> set ks0"
    if "map_of (variants (index_of c'')) p = Some ks" for p ks
  proof -
    obtain ks1 where "map_of (variants (index_of c')) p = Some ks1" "set ks \<subseteq> set ks1"
      using b \<open>map_of (variants (index_of c'')) p = Some ks\<close> unfolding shrinks_def by blast
    moreover obtain ks0 where "map_of (variants (index_of c)) p = Some ks0" "set ks1 \<subseteq> set ks0"
      using a calculation(1) unfolding shrinks_def by blast
    ultimately show ?thesis by blast
  qed
  then show ?thesis using a b unfolding shrinks_def by simp
qed

lemma forget_variants [simp]: "variants (fst (forget_blob_if_unreferenced c ix)) = variants ix"
  by (simp add: forget_blob_if_unreferenced_def Let_def case_prod_beta)

lemma delete_candidates_variants:
  "delete_candidates X cs ix fs = (ix', fs', n) \<Longrightarrow> variants ix' = variants ix"
proof (induction cs arbitrary: ix fs n)
  case (Cons c cs)
  obtain ix1 forget where f: "forget_blob_if_unreferenced c ix = (ix1, forget)" by fastforce
  then have "variants ix1 = variants ix" using forget_variants [of c ix] by simp
  then show ?case using Cons f by (auto simp: Let_def split: prod.splits)
qed simp

lemma delete_orphans_shrinks: "cache_inv X c \<Longrightarrow> shrinks c (fst (delete_orphans X cs c))"
proof -
  assume inv: "cache_inv X c"
  obtain ix fs n where d: "delete_candidates X cs (index_of c) (files c) = (ix, fs, n)" by (metis prod_cases3)
  show ?thesis
    using delete_orphans_inv [OF inv, of cs] delete_candidates_variants [OF d]
    by (simp add: shrinks_def delete_orphans_def d)
qed

lemma remove_entry_variants:
  "remove_entry key ix = (ix', orphans) \<Longrightarrow> map_of (variants ix') p = Some ks \<Longrightarrow>
   \<exists>ks0. map_of (variants ix) p = Some ks0 \<and> set ks \<subseteq> set ks0"
  by (cases "map_of (entries ix) key"; cases "map_of (variants ix) p")
    (auto simp: remove_entry_def Let_def AList.update_conv' AList.delete_conv'
      split: prod.splits if_splits option.splits)

lemma evict_until_shrinks: "cache_inv X c \<Longrightarrow> shrinks c (fst (evict_until X target ks on_disk c))"
proof (induction ks arbitrary: on_disk c)
  case (Cons key rest)
  obtain ix orphaned where rm: "remove_entry key (index_of c) = (ix, orphaned)" by fastforce
  note fewer = remove_entry_fewer [OF cache_invD(1) [OF Cons.prems] rm]
  note kept = drop_then_delete [OF Cons.prems fewer]
  have "shrinks c (c\<lparr>index_of := ix\<rparr>)"
    using fewer(2) remove_entry_variants [OF rm] by (simp add: shrinks_def)
  from shrinks_trans [OF this delete_orphans_shrinks [OF kept(1)]]
  show ?case
    using shrinks_trans [OF _ Cons.IH [OF kept(2)]] by (simp add: rm Let_def case_prod_beta)
qed simp

lemma enforce_budget_shrinks: "cache_inv X c \<Longrightarrow> shrinks c (fst (enforce_budget X c))"
proof -
  assume inv: "cache_inv X c"
  have "shrinks c (count name n d) = shrinks c d" for name n d
    by (simp add: shrinks_def count_def on_index_def bump_def)
  then show ?thesis
    by (simp add: enforce_budget_def Let_def case_prod_beta evict_until_shrinks [OF inv] split: option.split)
qed

definition record_for :: "('h, 'u) externs \<Rightarrow> 'h exchange \<Rightarrow> bytes \<Rightarrow> nat \<Rightarrow> entry_record" where
  "record_for X x body now =
     (let vf = vary_fields X (x_response x) in
      whole_record X x (normalize_url X (x_url x)) vf (vary_key X vf (x_request x))
        \<lparr>w_id = blake3 X body, w_len = length body, w_stored_len = 0, w_compression = Uncompressed,
         w_newly_written = False\<rparr> now)"

lemma whole_record_cong:
  "w_id a = w_id b \<Longrightarrow> w_len a = w_len b \<Longrightarrow> whole_record X x url fs vk a now = whole_record X x url fs vk b now"
  by (simp add: whole_record_def)

lemma count_entries [simp]:
  "entries (index_of (count name n c)) = entries (index_of c)"
  "variants (index_of (count name n c)) = variants (index_of c)"
  "blobs (index_of (count name n c)) = blobs (index_of c)"
  "files (count name n c) = files c" "options (count name n c) = options c"
  by (simp_all add: count_def on_index_def bump_def)

lemma count_dedupe_same [simp]:
  "entries (index_of (count_dedupe t c)) = entries (index_of c)"
  "variants (index_of (count_dedupe t c)) = variants (index_of c)"
  "files (count_dedupe t c) = files c" "options (count_dedupe t c) = options c"
  "cache_inv X (count_dedupe t c) = cache_inv X c"
  by (simp_all add: count_dedupe_def)

lemma put_record_total:
  assumes inv: "cache_inv X c" and room: "length (entries (index_of c)) < u32_max"
    and held: "\<And>cid. cid \<in> set (contents r) \<Longrightarrow> contains X cid (files c)
      \<and> (map_of (blobs (index_of c)) cid \<noteq> None \<or> map_of news cid \<noteq> None)"
  obtains c' where "put_record X r news c = (c', Inr ())" and "cache_inv X c'"
    and "entries (index_of c') = AList.update (key_of r) r (entries (index_of c))"
    and "\<forall>p ks. map_of (variants (index_of c')) p = Some ks \<longrightarrow>
      (\<exists>ks0. (map_of (variants (index_of c)) p = Some ks0 \<or> map_of (variants (index_of c)) p = None \<and> ks0 = [])
        \<and> set ks \<subseteq> set ks0 \<union> (if p = pkey_of r then {e_vary_key r} else {}))"
    and "options c' = options c"
proof -
  obtain ix orphans where put: "put_entry X r news (index_of c) = (ix, Inr orphans)"
    using put_entry_total [of r "index_of c" news X] held by blast
  define c' where "c' = fst (delete_orphans X orphans (c\<lparr>index_of := ix\<rparr>))"
  have rec: "put_record X r news c = (c', Inr ())" by (simp add: put_record_def put c'_def)
  have "bodies_held X ix (files c)"
    using cache_invD(3) [OF inv] held
    by (auto simp: bodies_held_def put_entry_entries [OF put] AList.update_conv' split: if_splits)
  then have mid: "cache_inv X (c\<lparr>index_of := ix\<rparr>)"
    using put_entry_step [OF cache_invD(1) [OF inv] room put] cache_invD(2) [OF inv] by auto
  obtain ix2 fs2 n where d: "delete_candidates X orphans ix (files c) = (ix2, fs2, n)" by (metis prod_cases3)
  have "variants (index_of c') = variants ix"
    using delete_candidates_variants [OF d] by (simp add: c'_def delete_orphans_def d)
  then show thesis
    using that [OF rec] put_entry_variants [OF put] delete_orphans_inv [OF mid, of orphans]
      put_entry_entries [OF put] unfolding c'_def by simp
qed

lemma store_plain:
  assumes inv: "cache_inv X c" and room: "length (entries (index_of c)) < u32_max"
    and ok: "storability X (x_method x) (x_request x) (meta_of_exchange x) (length body) (options c) = Store"
    and plain: "x_status x \<noteq> 206" "\<not> eq_ic (x_method x) ''HEAD''"
  obtains c1 d where "store_with_provenance X uq x body now c
      = (fst (enforce_budget X c1), Inr (Stored (blake3 X body) d))"
    and "cache_inv X c1"
    and "entries (index_of c1) = AList.update (key_of (record_for X x body now)) (record_for X x body now)
      (entries (index_of c))"
    and "\<forall>p ks. map_of (variants (index_of c1)) p = Some ks \<longrightarrow>
      (\<exists>ks0. (map_of (variants (index_of c)) p = Some ks0 \<or> map_of (variants (index_of c)) p = None \<and> ks0 = [])
        \<and> set ks \<subseteq> set ks0 \<union> (if p = pkey_of (record_for X x body now) then {e_vary_key (record_for X x body now)} else {}))"
    and "options c1 = options c"
proof -
  let ?r = "record_for X x body now" and ?c0 = "count ''bytes_from_origin'' (length body) c"
  have c0: "cache_inv X ?c0" using inv by simp
  obtain c2 out where put: "put_body X uq body ?c0 = (c2, out)" by fastforce
  obtain t where pb: "out = Inr t" "cache_inv X c2" "w_id t = blake3 X body" "w_len t = length body"
    "contains X (blake3 X body) (files c2)" "index_of c2 = index_of ?c0" "options c2 = options ?c0"
    by (rule put_body_inv [OF c0 put])
  have r: "whole_record X x (normalize_url X (x_url x)) (vary_fields X (x_response x))
      (vary_key X (vary_fields X (x_response x)) (x_request x)) t now = ?r"
    unfolding record_for_def Let_def by (rule whole_record_cong) (simp_all add: pb)
  have cid: "contents ?r = [blake3 X body]"
    by (simp add: record_for_def Let_def whole_record_def contents_def)
  obtain c3 where rec: "put_record X ?r [blob_of_receipt t now] (count_dedupe t c2) = (c3, Inr ())"
    "cache_inv X c3" "entries (index_of c3) = AList.update (key_of ?r) ?r (entries (index_of (count_dedupe t c2)))"
    "\<forall>p ks. map_of (variants (index_of c3)) p = Some ks \<longrightarrow>
      (\<exists>ks0. (map_of (variants (index_of (count_dedupe t c2))) p = Some ks0
          \<or> map_of (variants (index_of (count_dedupe t c2))) p = None \<and> ks0 = [])
        \<and> set ks \<subseteq> set ks0 \<union> (if p = pkey_of ?r then {e_vary_key ?r} else {}))"
    "options c3 = options (count_dedupe t c2)"
    by (rule put_record_total [of X "count_dedupe t c2" ?r "[blob_of_receipt t now]"])
      (use pb room in \<open>simp_all add: cid blob_of_receipt_def\<close>)
  define c4 where "c4 = count ''stores'' 1 (on_index (index_sri (sri_digests X body (w_id t))) c3)"
  have st: "store_with_provenance X uq x body now c
      = (fst (enforce_budget X c4), Inr (Stored (blake3 X body) (\<not> w_newly_written t)))"
    using ok plain put pb(1,3) rec(1)
    by (simp add: store_with_provenance_def Let_def and_then_def store_whole_def r c4_def)
  have i4: "cache_inv X c4" using rec(2) by (simp add: c4_def)
  have c4: "entries (index_of c4) = entries (index_of c3)" "variants (index_of c4) = variants (index_of c3)"
    "options c4 = options c3"
    by (simp_all add: c4_def on_index_def index_sri_def)
  have same: "entries (index_of (count_dedupe t c2)) = entries (index_of c)"
    "variants (index_of (count_dedupe t c2)) = variants (index_of c)" "options (count_dedupe t c2) = options c"
    using pb(6,7) by simp_all
  show thesis
    by (rule that [OF st i4 _ _]) (use c4 rec(3-5) in \<open>simp_all only: same\<close>)
qed



definition demo_exchange :: "(string \<times> bytes) list exchange" where
  "demo_exchange = \<lparr>x_partition = Some ''https://a.test'', x_method = ''GET'',
     x_url = ''https://a.test/x'', x_request = [], x_status = 200,
     x_response = [(''cache-control'', ''max-age=60'')], x_request_time = 100, x_response_time = 100,
     x_provenance = Origin\<rparr>"

definition demo_empty :: cache where
  "demo_empty = \<lparr>index_of = empty_index, files = [], options = default_options\<lparr>capacity_bytes := None\<rparr>\<rparr>"

lemma demo_empty_inv: "cache_inv demo demo_empty"
  using index_inv_empty
  by (simp add: cache_inv_def demo_empty_def store_ok_empty demo_crates_ok bodies_held_def)
    (simp add: empty_index_def)

lemma demo_names_2: "demo_name ''cache-control'' = Some ''cache-control''"
  using demo_names(1) by (simp add: demo_def)

lemma demo_record: "record_for demo demo_exchange ''body'' 100 = demo_stored []"
proof -
  have h: "for_storage demo [(''cache-control'', ''max-age=60'')] = [(''cache-control'', ''max-age=60'')]"
    by (simp add: for_storage_def sanitize_def connection_tokens_def text_values_def demo_def demo_names_2
        is_hop_by_hop_def HOP_BY_HOP_def is_never_stored_def NEVER_STORED_def eq_ic_def to_lower_def
        lower_char_def is_upper_def List.map_filter_def)
  have v: "vary_fields demo [(''cache-control'', ''max-age=60'')] = []"
    by (simp add: vary_fields_def listed_fields_def text_values_def demo_def List.map_filter_def)
  have b: "blake3 demo b = b" for b by (simp add: demo_def)
  show ?thesis
    by (simp add: record_for_def Let_def demo_exchange_def whole_record_def h v b vary_key_def demo_normalize
        demo_stored_def to_upper_def upper_char_def is_lower_def)
qed

lemma demo_storable:
  "storability demo ''GET'' [] (meta_of_exchange demo_exchange) 4 (options demo_empty) = Store"
  by (simp add: storability_def meta_of_exchange_def demo_exchange_def demo_empty_def policy_eval header_eval
      Let_def is_cacheable_method_def to_upper_def upper_char_def is_lower_def vary_fields_def
      listed_fields_def varies_on_everything_def is_heuristically_cacheable_def HEURISTICALLY_CACHEABLE_def)


lemma demo_exchange_simps:
  "x_method demo_exchange = ''GET''" "x_request demo_exchange = []" "x_status demo_exchange \<noteq> 206"
  "length ''body'' = 4" "x_partition demo_exchange = Some ''https://a.test''"
  "x_url demo_exchange = ''https://a.test/x''" "length (entries (index_of demo_empty)) < u32_max"
  by (simp_all add: demo_exchange_def demo_empty_def empty_index_def u32_max_def)

lemma demo_store_allowed:
  "storability demo (x_method demo_exchange) (x_request demo_exchange) (meta_of_exchange demo_exchange)
     (length ''body'') (options demo_empty) = Store"
  unfolding demo_exchange_simps using demo_storable .

lemma demo_store:
  obtains c' d where "store_with_provenance demo ''u'' demo_exchange ''body'' 100 demo_empty
      = (c', Inr (Stored (blake3 demo ''body'') d))"
    and "entries (index_of c') = [(key_of (demo_stored []), demo_stored [])]"
proof -
  have head: "\<not> eq_ic (x_method demo_exchange) ''HEAD''"
    by (simp add: demo_exchange_simps(1) eq_ic_def to_lower_def lower_char_def is_upper_def)
  obtain c1 d where c1: "store_with_provenance demo ''u'' demo_exchange ''body'' 100 demo_empty
      = (fst (enforce_budget demo c1), Inr (Stored (blake3 demo ''body'') d))"
    "entries (index_of c1) = AList.update (key_of (demo_stored [])) (demo_stored []) (entries (index_of demo_empty))"
    "options c1 = options demo_empty"
    by (rule store_plain [where uq = "''u''" and now = 100,
        OF demo_empty_inv demo_exchange_simps(7) demo_store_allowed demo_exchange_simps(3) head])
      (simp add: demo_record)
  have "fst (enforce_budget demo c1) = c1" using c1(3) by (simp add: enforce_budget_def demo_empty_def)
  then show thesis using that c1(1,2) by (simp add: demo_empty_def empty_index_def)
qed


text \<open>
  C34: Whatever sequence of lookups, stores, streams, revalidations, invalidations, purges,
  collections, evictions, clearings and peer exchanges a fresh cache goes through, every body
  an entry names is on disk and reads back as bytes that hash to its name, under a reference
  count that is exactly the number of entries naming it; so no entry ever outlives its bytes.
\<close>

theorem named_bodies_stay_on_disk:
  assumes "crates_ok X"
    and "all_ok cache_op_ok (run_cache X) ops \<lparr>index_of = empty_index, files = [], options = opts\<rparr>"
    and "c = fold (run_cache X) ops \<lparr>index_of = empty_index, files = [], options = opts\<rparr>"
    and "map_of (entries (index_of c)) k = Some r" and "cid \<in> set (contents r)"
  shows "\<exists>b row. get X cid (files c) = (files c, Inr b) \<and> blake3 X b = cid
    \<and> map_of (blobs (index_of c)) cid = Some row \<and> b_refcount row = refs cid (entries (index_of c))
    \<and> 0 < b_refcount row"
proof -
  have "cache_inv X \<lparr>index_of = empty_index, files = [], options = opts\<rparr>"
    using index_inv_empty by (simp add: cache_inv_def store_ok_empty assms(1) bodies_held_def)
      (simp add: empty_index_def)
  from cache_machine.run_inv [OF this assms(2)] have inv: "cache_inv X c" by (simp add: assms(3))
  have "contains X cid (files c)" using cache_invD(3) [OF inv] assms(4,5) by (auto simp: bodies_held_def)
  moreover obtain row where row: "map_of (blobs (index_of c)) cid = Some row" "0 < b_refcount row"
    using referenced_blob [OF cache_invD(1) [OF inv] assms(4,5)] by blast
  moreover have "b_refcount row = refs cid (entries (index_of c))"
    using index_invD(5) [OF cache_invD(1) [OF inv], of cid] row(1) by (simp add: counted_def)
  ultimately show ?thesis using get_sound [OF cache_invD(2) [OF inv]] by blast
qed


theorem named_bodies_stay_on_disk_witness:
  "let c = fold (run_cache demo) [DoStore ''u'' demo_exchange ''body'' 100] demo_empty in
   get demo ''body'' (files c) = (files c, Inr ''body'')"
proof -
  let ?ops = "[DoStore ''u'' demo_exchange ''body'' 100]"
  let ?c = "fold (run_cache demo) ?ops demo_empty"
  note e = demo_empty_def
  obtain c' d where st: "store_with_provenance demo ''u'' demo_exchange ''body'' 100 demo_empty
      = (c', Inr (Stored (blake3 demo ''body'') d))"
    "entries (index_of c') = [(key_of (demo_stored []), demo_stored [])]" by (rule demo_store)
  have "?c = c'" using st(1) by simp
  then have here: "map_of (entries (index_of ?c)) (key_of (demo_stored [])) = Some (demo_stored [])"
    by (simp add: st(2))
  have "''body'' \<in> set (contents (demo_stored []))" by (simp add: contents_def demo_stored_def)
  moreover have "all_ok cache_op_ok (run_cache demo) ?ops demo_empty" using demo_exchange_simps(7) by simp
  ultimately obtain b where "get demo ''body'' (files ?c) = (files ?c, Inr b)" "blake3 demo b = ''body''"
    using named_bodies_stay_on_disk [OF demo_crates_ok _ _ here] unfolding e by blast
  then show ?thesis by (simp add: demo_def)
qed

end
