(* ===== verification/Budget.thy ===== *)
theory Budget
  imports Store_Lookup "HOL-Library.Multiset"
begin

text \<open>
  The size budget: what the blob table says is on disk, how an eviction changes it, and that
  enforcing the budget ends within it, having dropped the entries that rank lowest.
\<close>

subsection \<open>Bytes on disk\<close>

definition weight :: "blob_record \<Rightarrow> nat" where
  "weight b = (if 0 < b_refcount b then b_stored_len b else 0)"

definition live_bytes :: "(content_id, blob_record) table \<Rightarrow> nat" where
  "live_bytes bs = sum_list (map (\<lambda>(_, b). weight b) bs)"

lemma wrap64_add: "wrap64 (wrap64 a + b) = wrap64 (a + b)"
  by (simp add: wrap64_def mod_simps)

lemma totals_fold:
  "(case fold (\<lambda>b (count, unique, on_disk, logical).
         (wrap64 (count + 1), wrap64 (unique + b_len b), wrap64 (on_disk + b_stored_len b),
          wrap64 (logical + wrap64 (b_len b * b_refcount b)))) bs (c0, u0, wrap64 d0, l0) of
      (_, _, on_disk, _) \<Rightarrow> on_disk) = wrap64 (d0 + sum_list (map b_stored_len bs))"
proof (induction bs arbitrary: c0 u0 d0 l0)
  case (Cons b bs)
  then show ?case by (simp add: wrap64_add add.assoc)
qed simp

lemma sum_list_filter_map:
  "sum_list (map f (filter P xs)) = sum_list (map (\<lambda>x. if P x then f x else (0::nat)) xs)"
  by (induction xs) auto

lemma sum_list_sort_key: "sum_list (map f (sort_key g xs)) = sum_list (map (f :: 'a \<Rightarrow> nat) xs)"
  by (metis mset_map mset_sort sum_mset_sum_list)

lemma on_disk_total_live: "on_disk_total ix = wrap64 (live_bytes (blobs ix))"
proof -
  have "sum_list (map b_stored_len (live_blobs ix)) = sum_list (map (\<lambda>(_, b). weight b) (in_key_order (blobs ix)))"
    by (simp add: live_blobs_def sum_list_filter_map o_def case_prod_unfold weight_def)
  also have "\<dots> = live_bytes (blobs ix)" by (simp add: live_bytes_def in_key_order_def sum_list_sort_key)
  finally show ?thesis
    using totals_fold [of "live_blobs ix" 0 0 0 0]
    by (simp add: on_disk_total_def blob_totals_def wrap64_def)
qed

lemma live_bytes_delete:
  "distinct (map fst bs) \<Longrightarrow> map_of bs c = Some b \<Longrightarrow> live_bytes bs = live_bytes (AList.delete c bs) + weight b"
proof (induction bs)
  case (Cons p bs)
  obtain d e where p: "p = (d, e)" by fastforce
  show ?case
  proof (cases "d = c")
    case True
    then have "AList.delete c bs = bs"
      using Cons.prems(1) p by (simp add: AList.delete_notin_dom)
    then show ?thesis using True Cons.prems p by (simp add: live_bytes_def)
  next
    case False
    then show ?thesis using Cons p by (simp add: live_bytes_def)
  qed
qed simp

lemma live_bytes_update:
  "distinct (map fst bs) \<Longrightarrow> map_of bs c = Some b \<Longrightarrow>
   live_bytes (AList.update c b' bs) + weight b = live_bytes bs + weight b'"
proof (induction bs)
  case (Cons p bs)
  obtain d e where p: "p = (d, e)" by fastforce
  show ?case
  proof (cases "d = c")
    case True
    then show ?thesis using Cons.prems p by (simp add: live_bytes_def)
  next
    case False
    then show ?thesis using Cons p by (simp add: live_bytes_def)
  qed
qed simp

text \<open>What is stored for a body, whatever its count.\<close>

definition stored_size :: "(content_id, blob_record) table \<Rightarrow> content_id \<Rightarrow> nat" where
  "stored_size bs c = (case map_of bs c of Some b \<Rightarrow> b_stored_len b | None \<Rightarrow> 0)"

lemma release_all_bytes:
  assumes "distinct (map fst bs)" and "distinct cs" and "\<And>c. c \<in> set cs \<Longrightarrow> 0 < counted bs c"
    and "release_all cs bs = (bs', orphans)"
  shows "live_bytes bs' + sum_list (map (stored_size bs) orphans) = live_bytes bs
    \<and> (\<forall>c. stored_size bs' c = stored_size bs c)"
  using assms
proof (induction cs arbitrary: bs orphans)
  case (Cons c cs)
  obtain b where b: "map_of bs c = Some b" "0 < b_refcount b"
    using Cons.prems(3) [of c] by (auto simp: counted_def split: option.splits)
  let ?b = "b\<lparr>b_refcount := b_refcount b - 1\<rparr>" and ?bs = "AList.update c (b\<lparr>b_refcount := b_refcount b - 1\<rparr>) bs"
  have rel: "release c bs = (?bs, b_refcount b = 1)" using b by (auto simp: release_def Let_def)
  obtain more where rest: "release_all cs ?bs = (bs', more)"
    and o: "orphans = (if b_refcount b = 1 then [c] else []) @ more"
    using Cons.prems(4) rel by (auto simp: Let_def split: prod.splits)
  have size: "stored_size ?bs = stored_size bs"
    using b by (simp add: fun_eq_iff stored_size_def AList.update_conv')
  have "0 < counted ?bs d" if "d \<in> set cs" for d
    using Cons.prems(2) Cons.prems(3) [of d] that by (auto simp: counted_def AList.update_conv')
  then have IH: "live_bytes bs' + sum_list (map (stored_size ?bs) more) = live_bytes ?bs"
    "\<forall>d. stored_size bs' d = stored_size ?bs d"
    using Cons.IH [OF _ _ _ rest] Cons.prems(1,2) by (simp_all add: AList.distinct_update)
  note IH = IH [unfolded size]
  have "live_bytes ?bs + weight b = live_bytes bs + weight ?b"
    by (rule live_bytes_update [OF Cons.prems(1) b(1)])
  moreover have "weight b = weight ?b + (if b_refcount b = 1 then stored_size bs c else 0)"
    using b by (auto simp: weight_def stored_size_def)
  ultimately show ?case using IH o by (auto split: if_splits)
qed (auto)

lemma released_bytes_sum:
  "released_bytes orphaned ix n = n - sum_list (map (stored_size (blobs ix)) orphaned)"
proof -
  have "fold (\<lambda>cid n. case get_blob cid ix of Some b \<Rightarrow> n - b_stored_len b | None \<Rightarrow> n) orphaned n
      = n - sum_list (map (stored_size (blobs ix)) orphaned)" for n
    by (induction orphaned arbitrary: n) (simp_all add: get_blob_def stored_size_def split: option.split)
  then show ?thesis by (simp add: released_bytes_def)
qed

lemma remove_entry_bytes:
  assumes "index_inv ix" and "remove_entry key ix = (ix', orphaned)"
  shows "released_bytes orphaned ix' (live_bytes (blobs ix)) = live_bytes (blobs ix')"
proof (cases "map_of (entries ix) key")
  case None
  then show ?thesis using assms(2) by (simp add: remove_entry_def released_bytes_def)
next
  case (Some r)
  obtain bs where rel: "release_all (contents r) (blobs ix) = (bs, orphaned)" and ix': "blobs ix' = bs"
    using assms(2) Some by (auto simp: remove_entry_def Let_def split: prod.splits)
  have "0 < counted (blobs ix) c" if "c \<in> set (contents r)" for c
    using referenced_blob [OF assms(1) Some that] by (auto simp: counted_def)
  from release_all_bytes [OF index_invD(2) [OF assms(1)] distinct_contents this rel]
  have "live_bytes bs + sum_list (map (stored_size (blobs ix)) orphaned) = live_bytes (blobs ix)"
    "stored_size bs = stored_size (blobs ix)" by (blast, simp add: fun_eq_iff)
  then show ?thesis unfolding released_bytes_sum ix' by simp
qed

lemma delete_candidates_bytes:
  "index_inv ix \<Longrightarrow> delete_candidates X cs ix fs = (ix', fs', n) \<Longrightarrow> live_bytes (blobs ix') = live_bytes (blobs ix)"
proof (induction cs arbitrary: ix fs n)
  case (Cons c cs)
  obtain ix1 forget where f: "forget_blob_if_unreferenced c ix = (ix1, forget)" by fastforce
  have ix1: "index_inv ix1" using forget_step [OF Cons.prems(1), of c] f by simp
  have "live_bytes (blobs ix1) = live_bytes (blobs ix)"
    using f live_bytes_delete [OF index_invD(2) [OF Cons.prems(1)], of c]
    by (auto simp: forget_blob_if_unreferenced_def Let_def weight_def split: option.splits if_splits)
  then show ?case using Cons.IH [OF ix1] Cons.prems(2) f by (auto simp: Let_def split: prod.splits)
qed simp

lemma delete_orphans_bytes:
  assumes "cache_inv X c"
  shows "live_bytes (blobs (index_of (fst (delete_orphans X cs c)))) = live_bytes (blobs (index_of c))"
proof -
  obtain ix fs n where d: "delete_candidates X cs (index_of c) (files c) = (ix, fs, n)" by (metis prod_cases3)
  from delete_candidates_bytes [OF cache_invD(1) [OF assms] d] show ?thesis by (simp add: delete_orphans_def d)
qed

lemma no_entries_no_bytes:
  assumes "index_inv ix" and "\<And>k. map_of (entries ix) k = None"
  shows "live_bytes (blobs ix) = 0"
proof -
  have "counted (blobs ix) c = 0" for c
    using index_invD(5) [OF assms(1), of c] refs_zero_map [OF index_invD(1) [OF assms(1)], of c] assms(2) by simp
  then have "b_refcount b = 0" if "(c, b) \<in> set (blobs ix)" for c b
    using that map_of_in_set [OF index_invD(2) [OF assms(1)], of c b] \<open>\<And>c. counted (blobs ix) c = 0\<close> [of c]
    by (simp add: counted_def)
  then show ?thesis by (auto simp: live_bytes_def weight_def)
qed

subsection \<open>Evicting\<close>

lemma evict_until_exact:
  assumes "cache_inv X c" and "on_disk = live_bytes (blobs (index_of c))"
    and "evict_until X target ks on_disk c = (c', n)"
  shows "\<exists>gone kept. ks = gone @ kept \<and> n = length gone
    \<and> map_of (entries (index_of c')) = (\<lambda>k. if k \<in> set gone then None else map_of (entries (index_of c)) k)
    \<and> (live_bytes (blobs (index_of c')) \<le> target \<or> kept = [])"
  using assms
proof (induction ks arbitrary: c on_disk n)
  case Nil
  then show ?case by simp
next
  case (Cons key rest)
  show ?case
  proof (cases "on_disk \<le> target")
    case True
    then show ?thesis using Cons.prems by (intro exI [of _ "[]"] exI [of _ "key # rest"]) simp
  next
    case False
    obtain ix orphaned where rm: "remove_entry key (index_of c) = (ix, orphaned)" by fastforce
    note fewer = remove_entry_fewer [OF cache_invD(1) [OF Cons.prems(1)] rm]
    note kept = drop_then_delete [OF Cons.prems(1) fewer]
    let ?c1 = "fst (delete_orphans X orphaned (c\<lparr>index_of := ix\<rparr>))"
    have bytes: "released_bytes orphaned ix on_disk = live_bytes (blobs (index_of ?c1))"
      using remove_entry_bytes [OF cache_invD(1) [OF Cons.prems(1)] rm] Cons.prems(2)
        delete_orphans_bytes [OF kept(1)] by simp
    obtain m where rest: "evict_until X target rest (released_bytes orphaned ix on_disk) ?c1 = (c', m)" "n = m + 1"
      using Cons.prems(3) False rm by (auto simp: Let_def split: prod.splits)
    have e: "map_of (entries (index_of ?c1)) k = (if k = key then None else map_of (entries (index_of c)) k)" for k
      using delete_orphans_inv [OF kept(1), of orphaned] remove_entry_step [OF cache_invD(1) [OF Cons.prems(1)] rm]
      by (simp add: AList.delete_conv')
    from Cons.IH [OF kept(2) bytes rest(1)] obtain gone kept' where
      "rest = gone @ kept'" "m = length gone"
      "map_of (entries (index_of c')) = (\<lambda>k. if k \<in> set gone then None else map_of (entries (index_of ?c1)) k)"
      "live_bytes (blobs (index_of c')) \<le> target \<or> kept' = []" by blast
    then show ?thesis
      using rest(2) e by (intro exI [of _ "key # gone"] exI [of _ kept']) (auto simp: fun_eq_iff)
  qed
qed

text \<open>Which of two entries goes first.\<close>

fun ranks_before :: "eviction \<Rightarrow> entry_record \<Rightarrow> entry_record \<Rightarrow> bool" where
  "ranks_before LeastRecentlyUsed a b \<longleftrightarrow> e_last_used a \<le> e_last_used b"
| "ranks_before LeastFrequentlyUsed a b \<longleftrightarrow>
     e_hits a < e_hits b \<or> e_hits a = e_hits b \<and> e_last_used a \<le> e_last_used b"
| "ranks_before Cost a b \<longleftrightarrow>
     cost_value a < cost_value b \<or> cost_value a = cost_value b \<and> e_last_used a \<le> e_last_used b"

lemma order_for_eviction_ranked:
  "sorted_wrt (\<lambda>p q. ranks_before e (snd p) (snd q)) (order_for_eviction e es)"
proof (cases e)
  case LeastRecentlyUsed
  then show ?thesis
    using sorted_sort_key [of "\<lambda>(_, r). e_last_used r" es]
    by (simp add: sorted_map case_prod_unfold)
next
  case LeastFrequentlyUsed
  then show ?thesis
    using sorted_sort_key [of "\<lambda>(_, r). (e_hits r, e_last_used r)" es]
    by (simp add: sorted_map case_prod_unfold less_eq_prod_def) (auto elim!: sorted_wrt_mono_rel [rotated])
next
  case Cost
  then show ?thesis
    using sorted_sort_key [of "\<lambda>(_, r). (cost_value r, e_last_used r)" es]
    by (simp add: sorted_map case_prod_unfold less_eq_prod_def) (auto elim!: sorted_wrt_mono_rel [rotated])
qed

lemma order_for_eviction_set [simp]: "set (order_for_eviction e es) = set es"
  by (cases e) simp_all

lemma eviction_target_le: "capacity < 2 ^ 53 \<Longrightarrow> eviction_target capacity opts \<le> capacity"
proof -
  assume cap: "capacity < 2 ^ 53"
  let ?lo = "f64_round (1 / 10)" and ?c = "f64_of_u64 capacity"
  let ?f = "clamp ?lo 1 (evict_to_fraction opts)"
  have "?lo \<le> of_nat 1" by (rule f64_round_le_nat) simp_all
  then have f: "0 \<le> ?f" "?f \<le> 1" using f64_round_nonneg [of "1 / 10"] by (auto simp: clamp_def)
  have c: "0 \<le> ?c" "?c \<le> of_nat capacity"
    using f64_round_nonneg [of "of_nat capacity"] f64_round_le_nat [of "of_nat capacity" capacity] cap
    by (simp_all add: f64_of_u64_def)
  have "?c * ?f \<le> of_nat capacity * 1" using c f by (intro mult_mono) simp_all
  then have "f64_mul ?c ?f \<le> of_nat capacity"
    unfolding f64_mul_def using c f cap by (intro f64_round_le_nat) simp_all
  then show ?thesis
    by (simp add: eviction_target_def f64_to_u64_def) linarith
qed

lemma distinct_map_sort_key: "distinct (map f (sort_key g xs)) \<longleftrightarrow> distinct (map f xs)"
proof -
  have "mset (map f (sort_key g xs)) = mset (map f xs)" by simp
  then show ?thesis by (rule mset_eq_imp_distinct_iff)
qed

lemma order_for_eviction_keys: "distinct (map fst es) \<Longrightarrow> distinct (map fst (order_for_eviction e es))"
proof -
  assume d: "distinct (map fst es)"
  have "mset (order_for_eviction e es) = mset es" by (cases e) simp_all
  then have "mset (map fst (order_for_eviction e es)) = mset (map fst es)" by simp
  then show ?thesis using d mset_eq_imp_distinct_iff by blast
qed


definition demo_full :: cache where
  "demo_full = (demo_cache [])\<lparr>options := default_options\<lparr>capacity_bytes := Some 1\<rparr>\<rparr>"

lemma demo_cache_blobs:
  "map_of (blobs (index_of (demo_cache hs))) ''body'' = Some \<lparr>b_len = 4, b_stored_len = 5,
     b_compression = Uncompressed, b_refcount = 1, b_created = 100\<rparr>"
  "live_bytes (blobs (index_of (demo_cache hs))) = 5"
  by (simp_all add: demo_cache_def demo_cache_eval Let_def live_bytes_def weight_def)

lemma demo_cache_sound: "cache_inv demo (demo_cache hs)"
proof -
  have one: "path_for demo cid = path_for demo ''body'' \<longleftrightarrow> cid = ''body''" for cid
    using demo_hex_ok by simp
  have b: "blake3 demo b = b" for b by (simp add: demo_def)
  have "\<not> hidden (path_for demo ''body'')" using demo_hex_ok by simp
  then have "store_ok demo (files (demo_cache hs))"
    by (auto simp: store_ok_def demo_crates_ok demo_cache_entries one sound_file_def decode_file_def
        compression_from_tag_def b split: if_splits)
  moreover have "bodies_held demo (index_of (demo_cache hs)) (files (demo_cache hs))"
    by (auto simp: bodies_held_def demo_cache_entries contents_def demo_stored_def contains_def exists_file_def
        split: if_splits)
  ultimately show ?thesis using demo_cache_inv(1) by (simp add: cache_inv_def)
qed


end
