(* ===== verification/Partial.thy ===== *)
theory Partial
  imports Budget
begin

text \<open>
  Ranges of one representation accumulating in an entry: an entry that holds part of a
  representation stands for the set of its bytes that are held, and folding a range in adds
  exactly that range to the set, until the whole is there and becomes one body.
\<close>

subsection \<open>Segments of a representation\<close>

definition slice :: "bytes \<Rightarrow> nat \<Rightarrow> nat \<Rightarrow> bytes" where
  "slice rep i j = take (j - i) (drop i rep)"

definition held_of :: "('h, 'u) externs \<Rightarrow> bytes \<Rightarrow> segment list \<Rightarrow> bool" where
  "held_of X rep segs \<longleftrightarrow>
     (\<forall>s \<in> set segs. seg_start s \<le> seg_end s \<and> seg_end s \<le> length rep
        \<and> seg_content s = blake3 X (slice rep (seg_start s) (seg_end s)))"

definition slices_free :: "('h, 'u) externs \<Rightarrow> bytes \<Rightarrow> bool" where
  "slices_free X rep \<longleftrightarrow> (\<forall>i j. collision_free X (slice rep i j))"

lemma slice_length [simp]: "j \<le> length rep \<Longrightarrow> length (slice rep i j) = j - i"
  by (simp add: slice_def)

lemma slice_nth: "j \<le> length rep \<Longrightarrow> i + k < j \<Longrightarrow> slice rep i j ! k = rep ! (i + k)"
  by (simp add: slice_def)

lemma slice_slice: "i \<le> a \<Longrightarrow> a \<le> b \<Longrightarrow> b \<le> j \<Longrightarrow> take (b - i - (a - i)) (drop (a - i) (slice rep i j)) = slice rep a b"
  by (simp add: slice_def drop_take min_def)

lemma slices_freeD: "slices_free X rep \<Longrightarrow> blake3 X b = blake3 X (slice rep i j) \<Longrightarrow> b = slice rep i j"
  by (simp add: slices_free_def collision_free_def)

lemma held_of_fits: "held_of X rep segs \<Longrightarrow> slices_free X rep \<Longrightarrow> body_fits X segs"
  unfolding held_of_def body_fits_def by (metis slices_freeD slice_length segment_len_def)

lemma held_of_byte:
  assumes "held_of X rep segs" and "slices_free X rep" and "byte_at X segs p ch"
  shows "p < length rep \<and> ch = rep ! p"
proof -
  obtain s b where s: "s \<in> set segs" "blake3 X b = seg_content s" "seg_start s \<le> p" "p < seg_end s"
    "b ! (p - seg_start s) = ch"
    using assms(3) by (auto simp: byte_at_def)
  have e: "seg_end s \<le> length rep" "seg_content s = blake3 X (slice rep (seg_start s) (seg_end s))"
    using assms(1) s(1) by (auto simp: held_of_def)
  then have "b = slice rep (seg_start s) (seg_end s)" using slices_freeD [OF assms(2)] s(2) by metis
  then have "ch = rep ! p" using s(3-5) e(1) slice_nth [of "seg_end s" rep "seg_start s" "p - seg_start s"] by simp
  then show ?thesis using s(4) e(1) by simp
qed

lemma held_of_runs_ok: "held_of X rep segs \<Longrightarrow> runs_ok (segment_runs segs)"
  by (auto simp: held_of_def runs_ok_def segment_runs_def list_all_iff)

text \<open>Segments in order that cover a span are read to its end.\<close>

lemma read_segments_total:
  assumes "store_ok X fs" and "sorted (map seg_start segs)" and "cursor < end'"
    and "\<And>s. s \<in> set segs \<Longrightarrow> contains X (seg_content s) fs"
    and "{cursor..<end'} \<subseteq> bytes_in (segment_runs segs)"
  shows "\<exists>cursor' out'. read_segments X segs cursor end' out fs = (fs, Inr (cursor', out')) \<and> end' \<le> cursor'"
  using assms
proof (induction segs arbitrary: cursor out)
  case Nil
  then have "cursor \<in> bytes_in (segment_runs [])" by auto
  then show ?case by (simp add: segment_runs_def)
next
  case (Cons s ss)
  have runs: "bytes_in (segment_runs (s # ss)) = {seg_start s..<seg_end s} \<union> bytes_in (segment_runs ss)"
    by (simp add: segment_runs_def)
  have IH: "\<exists>cursor' out'. read_segments X ss c end' o' fs = (fs, Inr (cursor', out')) \<and> end' \<le> cursor'"
    if "c < end'" "{c..<end'} \<subseteq> bytes_in (segment_runs ss)" for c o'
    using Cons.IH [OF Cons.prems(1) _ that(1) _ that(2)] Cons.prems(2,4) by simp
  show ?case
  proof (cases "seg_end s \<le> cursor")
    case True
    then have "{cursor..<end'} \<subseteq> bytes_in (segment_runs ss)" using Cons.prems(5) runs by auto
    then show ?thesis using IH [OF Cons.prems(3)] True by simp
  next
    case False
    then have ahead: "cursor < seg_end s" by simp
    have start: "seg_start s \<le> cursor"
    proof (rule ccontr)
      assume late: "\<not> seg_start s \<le> cursor"
      have "cursor \<in> bytes_in (segment_runs (s # ss))" using Cons.prems(3,5) by auto
      then have "cursor \<in> bytes_in (segment_runs ss)" using runs late by auto
      then obtain t where "t \<in> set ss" "seg_start t \<le> cursor" by (auto simp: bytes_in_def segment_runs_def)
      moreover have "seg_start s \<le> seg_start t" if "t \<in> set ss" using Cons.prems(2) that by auto
      ultimately show False using late by simp
    qed
    obtain b where g: "get X (seg_content s) fs = (fs, Inr b)"
      using get_sound [OF Cons.prems(1)] Cons.prems(4) [of s] by auto
    let ?stop = "min end' (seg_end s)"
    let ?out = "out @ drop (min (cursor - seg_start s) (min (?stop - seg_start s) (length b)))
        (take (min (?stop - seg_start s) (length b)) b)"
    have step: "read_segments X (s # ss) cursor end' out fs
        = (if end' \<le> ?stop then (fs, Inr (?stop, ?out)) else read_segments X ss ?stop end' ?out fs)"
      using False start Cons.prems(3) g by (simp add: Let_def)
    show ?thesis
    proof (cases "end' \<le> ?stop")
      case True
      then show ?thesis using step by auto
    next
      case False
      have "{?stop..<end'} \<subseteq> bytes_in (segment_runs ss)"
      proof
        fix x assume "x \<in> {?stop..<end'}"
        then have "x \<in> {cursor..<end'}" "x \<notin> {seg_start s..<seg_end s}" using False ahead by auto
        then show "x \<in> bytes_in (segment_runs ss)" using Cons.prems(5) runs by blast
      qed
      then show ?thesis using IH [of ?stop ?out] step False by simp
    qed
  qed
qed

lemma whole_reads:
  assumes "store_ok X fs" and "e_body r = Partial n segs" and "sorted (map seg_start segs)" and "rep \<noteq> []"
    and "\<And>s. s \<in> set segs \<Longrightarrow> contains X (seg_content s) fs"
    and "{0..<length rep} \<subseteq> bytes_in (segment_runs segs)" and "held_of X rep segs" and "slices_free X rep"
  shows "read_span X r 0 (length rep) fs = (fs, Inr rep)"
proof -
  obtain cur out where rd: "read_segments X segs 0 (length rep) [] fs = (fs, Inr (cur, out))" "length rep \<le> cur"
    using read_segments_total [OF assms(1,3) _ assms(5,6), of "[]"] assms(4) by auto
  from read_segments_bytes [OF rd(1) held_of_fits [OF assms(7,8)]] rd(2)
  have out: "length out = length rep" "\<forall>i < length out. byte_at X segs i (out ! i)" by auto
  then have "out = rep" using held_of_byte [OF assms(7,8)] by (intro nth_equalityI) auto
  then show ?thesis using rd assms(2) by (simp add: read_span_def)
qed


subsection \<open>Folding a range in\<close>

text \<open>The part of a representation an entry holds, as the set of its bytes.\<close>

definition bytes_held :: "stored_body \<Rightarrow> nat set" where
  "bytes_held b = bytes_in (segment_runs (pieces b))"

text \<open>What an entry's body says of a representation, true of it.\<close>

definition part_of :: "('h, 'u) externs \<Rightarrow> bytes \<Rightarrow> stored_body \<Rightarrow> bool" where
  "part_of X rep b \<longleftrightarrow> held_of X rep (pieces b)
     \<and> (complete_len b = None \<or> complete_len b = Some (length rep))
     \<and> (is_complete b \<longrightarrow> b = Complete (blake3 X rep) (length rep))"

lemma slice_all [simp]: "slice rep 0 (length rep) = rep"
  by (simp add: slice_def)

lemma part_of_whole: "part_of X rep (Complete (blake3 X rep) (length rep))"
  by (simp add: part_of_def held_of_def)

lemma bytes_in_segments_cong: "set xs = set ys \<Longrightarrow> bytes_in (segment_runs xs) = bytes_in (segment_runs ys)"
  by (simp add: bytes_in_def segment_runs_def)

lemma held_of_cong: "set xs = set ys \<Longrightarrow> held_of X rep xs = held_of X rep ys"
  by (simp add: held_of_def)

lemma segment_runs_append [simp]: "segment_runs (xs @ ys) = segment_runs xs @ segment_runs ys"
  by (simp add: segment_runs_def)

lemma merge_range_exact:
  assumes inv: "cache_inv X c" and room: "length (entries (index_of c)) < u32_max"
    and old: "case existing of Some o' \<Rightarrow> (\<exists>k. map_of (entries (index_of c)) k = Some o') \<and> e_body o' = Partial n segs
      | None \<Rightarrow> n = None \<and> segs = []"
    and held: "held_of X rep segs" and free: "slices_free X rep" and size: "length rep \<le> u64_max"
    and cr: "c_first cr \<le> c_last cr" "c_last cr < length rep"
    and body: "body = slice rep (c_first cr) (c_last cr + 1)"
    and lens: "n = None \<or> n = Some (length rep)" "c_complete cr = None \<or> c_complete cr = Some (length rep)"
  obtains c1 r out where "merge_range X uq x url body now fs vkey cr existing c = (fst (enforce_budget X c1), Inr out)"
    and "cache_inv X c1" and "entries (index_of c1) = AList.update (key_of r) r (entries (index_of c))"
    and "key_of r = entry_key (x_partition x) ''GET'' url vkey" and "part_of X rep (e_body r)"
    and "bytes_held (e_body r) = bytes_in (segment_runs segs) \<union> {c_first cr..c_last cr}"
    and "is_complete (e_body r) \<longleftrightarrow> (n \<noteq> None \<or> c_complete cr \<noteq> None)
      \<and> {0..<length rep} \<subseteq> bytes_in (segment_runs segs) \<union> {c_first cr..c_last cr}"
    and "complete_len (e_body r) \<noteq> None \<longleftrightarrow> n \<noteq> None \<or> c_complete cr \<noteq> None"
proof -
  define total where "total = (if n \<noteq> None \<or> c_complete cr \<noteq> None then Some (length rep) else None)"
  let ?start = "c_first cr" and ?upto = "c_last cr + 1"
  let ?runs = "segment_runs segs" and ?R = "bytes_in (segment_runs segs) \<union> {c_first cr..c_last cr}"
  let ?gaps = "missing (from_sorted ?runs) ?start ?upto"
  have psegs: "partial_segments existing = segs" using old by (simp add: partial_segments_def split: option.splits)
  have ptot: "(case c_complete cr of Some m \<Rightarrow> Some m
      | None \<Rightarrow> Option.bind existing (\<lambda>r. complete_len (e_body r))) = total"
    using old lens by (auto simp: total_def split: option.splits)
  have half: "content_range_half_open cr = (?start, ?upto)"
    using cr(2) size by (simp add: content_range_half_open_def)
  note runs_ok = held_of_runs_ok [OF held]
  obtain c1 out1 where run: "put_runs X uq body ?start now ?gaps segs [] c = (c1, out1)" by fastforce
  obtain new news where pr: "out1 = Inr (segs @ new, [] @ news)" "cache_inv X c1"
    "entries (index_of c1) = entries (index_of c)" "blobs (index_of c1) = blobs (index_of c)"
    "grows X (files c) (files c1)" "options c1 = options c" "segment_runs new = ?gaps"
    "\<forall>s \<in> set new. map_of news (seg_content s) \<noteq> None"
    "\<forall>s \<in> set new. contains X (seg_content s) (files c1)"
    "\<forall>s \<in> set new. seg_content s =
      blake3 X (take (seg_end s - ?start - (seg_start s - ?start)) (drop (seg_start s - ?start) body))"
    by (rule put_runs_inv [OF inv run])
  let ?all = "sort_key seg_start (segs @ new)"
  let ?r = "partial_record X x url fs vkey existing total ?all now"
  have bounds: "?start \<le> seg_start s \<and> seg_start s < seg_end s \<and> seg_end s \<le> ?upto" if "s \<in> set new" for s
  proof -
    have "(seg_start s, seg_end s) \<in> set (segment_runs new)" using that by (simp add: segment_runs_def)
    then show ?thesis using cov.gaps_bounds [OF runs_ok] unfolding pr(7) by blast
  qed
  have "held_of X rep new"
    unfolding held_of_def
  proof
    fix s assume s: "s \<in> set new"
    note b = bounds [OF s]
    have "seg_content s = blake3 X (slice rep (seg_start s) (seg_end s))"
      using pr(10) s slice_slice [of ?start "seg_start s" "seg_end s" ?upto rep] b body by simp
    then show "seg_start s \<le> seg_end s \<and> seg_end s \<le> length rep
        \<and> seg_content s = blake3 X (slice rep (seg_start s) (seg_end s))"
      using b cr(2) by simp
  qed
  then have all: "held_of X rep ?all" using held by (simp add: held_of_def) blast
  have bytes: "bytes_in (segment_runs ?all) = ?R"
  proof -
    have "bytes_in (segment_runs ?all) = bytes_in (?runs @ ?gaps)"
      using bytes_in_segments_cong [of ?all "segs @ new"] pr(7) by simp
    then show ?thesis using cov.fill_exact [OF runs_ok, of ?start ?upto]
      by (simp add: atLeastLessThanSuc_atLeastAtMost)
  qed
  have held1: "contains X (seg_content s) (files c1)
      \<and> (map_of (blobs (index_of c1)) (seg_content s) \<noteq> None \<or> map_of news (seg_content s) \<noteq> None)"
    if s: "s \<in> set ?all" for s
  proof (cases "s \<in> set new")
    case True
    then show ?thesis using pr(8,9) by blast
  next
    case False
    then have "s \<in> set segs" using s by simp
    then obtain k o' where o': "map_of (entries (index_of c)) k = Some o'" "seg_content s \<in> set (contents o')"
      using old by (auto simp: contents_def split: option.splits)
    have "contains X (seg_content s) (files c)" using cache_invD(3) [OF inv] o' by (auto simp: bodies_held_def)
    then show ?thesis
      using grows_contains [OF cache_invD(2) [OF inv] cache_invD(2) [OF pr(2)] pr(5)]
        referenced_blob [OF cache_invD(1) [OF inv] o'] pr(4) by auto
  qed
  have r: "e_body ?r = Partial total ?all" "key_of ?r = entry_key (x_partition x) ''GET'' url vkey"
    "contents ?r = remdups_adj (sort (map seg_content ?all))"
    by (simp_all add: partial_record_def key_of_def contents_def)
  define goal where "goal = (\<lambda>(c2 :: cache) (r' :: entry_record) (news' :: (content_id \<times> blob_record) list) (comp :: content_id option). cache_inv X c2 \<and> entries (index_of c2) = entries (index_of c)
    \<and> key_of r' = key_of ?r \<and> part_of X rep (e_body r') \<and> bytes_held (e_body r') = ?R
    \<and> (is_complete (e_body r') \<longleftrightarrow> total \<noteq> None \<and> {0..<length rep} \<subseteq> ?R)
    \<and> complete_len (e_body r') = total
    \<and> (\<forall>cid \<in> set (contents r'). contains X cid (files c2)
        \<and> (map_of (blobs (index_of c2)) cid \<noteq> None \<or> map_of news' cid \<noteq> None)))"
  have sorted: "sorted (map seg_start ?all)" by simp
  have "\<exists>c2 r' news' comp. complete_runs X uq now ?r news c1 = (c2, Inr (r', news', comp)) \<and> goal c2 r' news' comp"
  proof (cases "total \<noteq> None \<and> {0..<length rep} \<subseteq> ?R")
    case True
    then have tot: "total = Some (length rep)" by (auto simp: total_def split: if_splits)
    have cover: "covers (from_sorted (segment_runs ?all)) 0 (length rep)"
      using True cov.holds_iff [OF held_of_runs_ok [OF all], of 0 "length rep"] bytes by simp
    have "rep \<noteq> []" using cr(2) by auto
    have rd: "read_span X ?r 0 (length rep) (files c1) = (files c1, Inr rep)"
      by (rule whole_reads [OF cache_invD(2) [OF pr(2)] r(1) sorted \<open>rep \<noteq> []\<close> _ _ all free])
        (use held1 True bytes in auto)
    obtain c2 out2 where pb: "put_body X uq rep c1 = (c2, out2)" by fastforce
    obtain t where t: "out2 = Inr t" "cache_inv X c2" "w_id t = blake3 X rep" "w_len t = length rep"
      "contains X (blake3 X rep) (files c2)" "index_of c2 = index_of c1"
      by (rule put_body_inv [OF pr(2) pb])
    let ?c2 = "on_index (index_sri (sri_digests X rep (w_id t))) c2"
    let ?r' = "?r\<lparr>e_body := Complete (blake3 X rep) (length rep)\<rparr>"
    have "c1\<lparr>files := files c1\<rparr> = c1" by simp
    then have "complete_runs X uq now ?r news c1
        = (?c2, Inr (?r', news @ [blob_of_receipt t now], Some (blake3 X rep)))"
      using r(1) tot cover rd pb t(1,3,4) by (simp add: complete_runs_def and_then_def)
    moreover have "goal ?c2 ?r' (news @ [blob_of_receipt t now]) (Some (blake3 X rep))"
    proof -
      have same: "entries (index_of ?c2) = entries (index_of c)" "files ?c2 = files c2"
        using t(6) pr(3) by (simp_all add: on_index_def)
      have R: "?R \<subseteq> {0..<length rep}"
        using held cr(2) by (auto simp: held_of_def bytes_in_def segment_runs_def)
      have "key_of ?r' = key_of ?r" "contents ?r' = [blake3 X rep]" "bytes_held (e_body ?r') = {0..<length rep}"
        by (simp_all add: key_of_def contents_def bytes_held_def segment_runs_def)
      then show ?thesis
        unfolding goal_def using t same True R part_of_whole tot by (simp add: blob_of_receipt_def)
    qed
    ultimately show ?thesis by blast
  next
    case False
    have "complete_runs X uq now ?r news c1 = (c1, Inr (?r, news, None))"
    proof (cases total)
      case (Some m)
      then have "m = length rep" by (simp add: total_def split: if_splits)
      then have "\<not> covers (from_sorted (segment_runs ?all)) 0 m"
        using False Some cov.holds_iff [OF held_of_runs_ok [OF all], of 0 m] bytes by simp
      then show ?thesis unfolding complete_runs_def r(1) using Some by simp
    next
      case None
      then show ?thesis unfolding complete_runs_def r(1) by simp
    qed
    moreover have "goal c1 ?r news None"
    proof -
      have "part_of X rep (e_body ?r)" using all r(1) by (simp add: part_of_def total_def)
      moreover have "bytes_held (e_body ?r) = ?R" using bytes r(1) by (simp add: bytes_held_def)
      moreover have "\<forall>cid \<in> set (contents ?r). contains X cid (files c1)
          \<and> (map_of (blobs (index_of c1)) cid \<noteq> None \<or> map_of news cid \<noteq> None)"
        using held1 unfolding r(3) by auto
      ultimately show ?thesis unfolding goal_def using pr(2,3) r(1) False by simp
    qed
    ultimately show ?thesis by blast
  qed
  then obtain c2 r' news' comp where comp: "complete_runs X uq now ?r news c1 = (c2, Inr (r', news', comp))"
    and g: "goal c2 r' news' comp" by blast
  obtain c3 where put: "put_record X r' news' c2 = (c3, Inr ())" "cache_inv X c3"
    "entries (index_of c3) = AList.update (key_of r') r' (entries (index_of c2))"
    by (rule put_record_total [of X c2 r' news']) (use g room in \<open>auto simp: goal_def\<close>)
  define c4 where "c4 = (if comp = None then Cache_Write.count ''partial_stores'' 1 (Cache_Write.count ''stores'' 1 c3) else Cache_Write.count ''stores'' 1 c3)"
  have c4: "cache_inv X c4" "entries (index_of c4) = entries (index_of c3)"
    using put(2) by (simp_all add: c4_def)
  define out where "out = (case comp of Some content \<Rightarrow> Stored content False
      | None \<Rightarrow> StoredPartial (held_len (e_body r')) total)"
  have "merge_range X uq x url body now fs vkey cr existing c = (fst (enforce_budget X c4), Inr out)"
    unfolding merge_range_def psegs ptot half Let_def prod.case run and_then_def pr(1) append_Nil sum.case comp
      put(1) c4_def out_def by (rule refl)
  from that [OF this c4(1)] show thesis
    using g put(3) c4(2) r(2) by (auto simp: goal_def total_def split: if_splits)
qed


definition demo_range :: "(string \<times> bytes) list exchange" where
  "demo_range = demo_exchange\<lparr>x_status := 206, x_response := [(''content-range'', ''bytes 0-1/4'')]\<rparr>"


end
