(* ===== verification/Lookahead.thy ===== *)
theory Lookahead
  imports Prelude
begin

text \<open>
  The lookahead of the page parser, \<open>crates/syndeo-dom/src/budget.rs\<close>: a scanner that
  follows the HTML tokenizer's states through the input to find where each tag begins and
  ends and how many attributes it has, so that nobody is given a tag that was not paid for.

  The input is a list of Unicode scalar values, positions are byte offsets into its UTF-8
  form, and a slice off a character boundary, which panics, is \<open>None\<close>. The body of the
  loop of \<open>next_tag\<close> is \<open>turn\<close>, a function on the loop's variables; what one
  character does in each state is \<open>read_char\<close>, with the source's arms in its order.
\<close>

subsection \<open>Text\<close>

type_synonym uchar = nat
type_synonym utext = "uchar list"

abbreviation uc :: "char \<Rightarrow> uchar" where
  "uc c \<equiv> of_char c"

definition len_utf8 :: "uchar \<Rightarrow> nat" where
  "len_utf8 c = (if c < 0x80 then 1 else if c < 0x800 then 2 else if c < 0x10000 then 3 else 4)"

definition str_len :: "utext \<Rightarrow> nat" where
  "str_len s = sum_list (map len_utf8 s)"

text \<open>\<open>&s[n..]\<close> and \<open>&s[..n]\<close>.\<close>

fun str_from :: "nat \<Rightarrow> utext \<Rightarrow> utext option" where
  "str_from 0 s = Some s"
| "str_from (Suc n) [] = None"
| "str_from (Suc n) (c # s) = (if Suc n < len_utf8 c then None else str_from (Suc n - len_utf8 c) s)"

fun str_upto :: "nat \<Rightarrow> utext \<Rightarrow> utext option" where
  "str_upto 0 s = Some []"
| "str_upto (Suc n) [] = None"
| "str_upto (Suc n) (c # s) =
     (if Suc n < len_utf8 c then None else map_option ((#) c) (str_upto (Suc n - len_utf8 c) s))"

text \<open>\<open>&s[a..b]\<close>.\<close>

definition str_slice :: "nat \<Rightarrow> nat \<Rightarrow> utext \<Rightarrow> utext option" where
  "str_slice a b s = (if b < a then None else Option.bind (str_from a s) (str_upto (b - a)))"

definition uc_upper :: "uchar \<Rightarrow> bool" where
  "uc_upper c \<longleftrightarrow> 65 \<le> c \<and> c \<le> 90"

definition uc_alpha :: "uchar \<Rightarrow> bool" where
  "uc_alpha c \<longleftrightarrow> uc_upper c \<or> 97 \<le> c \<and> c \<le> 122"

definition uc_lower :: "uchar \<Rightarrow> uchar" where
  "uc_lower c = (if uc_upper c then c + 32 else c)"

definition whitespace :: "uchar \<Rightarrow> bool" where
  "whitespace c \<longleftrightarrow> c \<in> {uc (CHR 0x09), uc (CHR 0x0A), uc (CHR 0x0C), uc (CHR 0x20), uc (CHR 0x0D)}"

subsection \<open>The states\<close>

datatype escape_kind = Escaped | DoubleEscaped

datatype raw_kind = Rcdata | Rawtext | ScriptData | ScriptDataEscaped escape_kind

datatype tag_kind = StartTag | EndTag

datatype html_state =
    Data | TagOpen | EndTagOpen | TagName | BeforeAttributeName | AttributeName
  | AfterAttributeName | BeforeAttributeValue | DoubleQuoted | SingleQuoted | Unquoted
  | AfterAttributeValueQuoted | SelfClosingStartTag | MarkupDeclarationOpen | CommentStart
  | CommentStartDash | Comment | CommentLessThanSign | CommentLessThanSignBang
  | CommentLessThanSignBangDash | CommentLessThanSignBangDashDash | CommentEndDash
  | CommentEnd | CommentEndBang | BogusComment | Doctype | CdataSection
  | CdataSectionBracket | CdataSectionEnd | Raw raw_kind | RawLessThanSign raw_kind
  | RawEndTagOpen raw_kind | RawEndTagName raw_kind | ScriptDataEscapeStart
  | ScriptDataEscapeStartDash | ScriptDataDoubleEscapeStart
  | ScriptDataEscapedDash escape_kind | ScriptDataEscapedDashDash escape_kind
  | ScriptDataDoubleEscapeEnd | Plaintext

fun reading_a_tag :: "html_state \<Rightarrow> bool" where
  "reading_a_tag TagOpen = True"
| "reading_a_tag EndTagOpen = True"
| "reading_a_tag TagName = True"
| "reading_a_tag BeforeAttributeName = True"
| "reading_a_tag AttributeName = True"
| "reading_a_tag AfterAttributeName = True"
| "reading_a_tag BeforeAttributeValue = True"
| "reading_a_tag DoubleQuoted = True"
| "reading_a_tag SingleQuoted = True"
| "reading_a_tag Unquoted = True"
| "reading_a_tag AfterAttributeValueQuoted = True"
| "reading_a_tag SelfClosingStartTag = True"
| "reading_a_tag (RawLessThanSign k) = True"
| "reading_a_tag (RawEndTagOpen k) = True"
| "reading_a_tag (RawEndTagName k) = True"
| "reading_a_tag _ = False"

record found_tag =
  f_start :: nat
  f_end :: nat
  f_attributes :: nat

datatype scan_result = ScanTag found_tag | ScanEnd | ScanLimit

record lookahead =
  l_input :: utext
  l_position :: nat
  l_state :: html_state
  l_open :: "nat option"
  l_kind :: tag_kind
  l_attributes :: nat
  l_name :: utext
  l_last_start :: utext
  l_temp :: utext
  l_foreign :: bool

definition lookahead_new :: "utext \<Rightarrow> lookahead" where
  "lookahead_new input = \<lparr> l_input = input, l_position = 0, l_state = Data, l_open = None,
     l_kind = StartTag, l_attributes = 0, l_name = [], l_last_start = [], l_temp = [],
     l_foreign = False \<rparr>"

subsection \<open>What the tree builder left the tokenizer in\<close>

datatype next_state = NextData | NextRaw raw_kind | NextPlaintext

record emitted =
  em_kind :: tag_kind
  em_name :: utext
  em_next :: next_state

definition follow :: "emitted \<Rightarrow> lookahead \<Rightarrow> lookahead" where
  "follow e l =
     (let l = (if em_kind e = StartTag then l\<lparr>l_last_start := em_name e\<rparr> else l)
      in l\<lparr>l_state := (case em_next e of NextData \<Rightarrow> Data | NextRaw k \<Rightarrow> Raw k | NextPlaintext \<Rightarrow> Plaintext)\<rparr>)"

definition begin_tag :: "tag_kind \<Rightarrow> nat \<Rightarrow> uchar \<Rightarrow> lookahead \<Rightarrow> lookahead" where
  "begin_tag kind start c l =
     l\<lparr>l_open := Some start, l_kind := kind, l_attributes := 0, l_name := [uc_lower c]\<rparr>"

definition begin_attribute :: "lookahead \<Rightarrow> lookahead" where
  "begin_attribute l = l\<lparr>l_attributes := l_attributes l + 1\<rparr>"

definition emit_tag :: "nat \<Rightarrow> lookahead \<Rightarrow> lookahead \<times> found_tag" where
  "emit_tag stop l =
     (l\<lparr>l_open := None,
        l_last_start := (if l_kind l = StartTag then l_name l else l_last_start l),
        l_attributes := 0, l_state := Data\<rparr>,
      \<lparr> f_start = (case l_open l of Some s \<Rightarrow> s | None \<Rightarrow> stop), f_end = stop,
        f_attributes = l_attributes l \<rparr>)"

definition appropriate :: "lookahead \<Rightarrow> bool" where
  "appropriate l \<longleftrightarrow> l_kind l = EndTag \<and> l_name l = l_last_start l"

subsection \<open>One character\<close>

text \<open>
  What becomes of the loop after a character: the next one is read; this one is read again
  in the new state; this one and some after it are taken; the arm ends in \<open>continue\<close>; a
  tag has ended.
\<close>

datatype outcome = Next | Again | Skip nat | Onward | Emit found_tag

definition goto :: "html_state \<Rightarrow> lookahead \<Rightarrow> lookahead \<times> outcome" where
  "goto s l = (l\<lparr>l_state := s\<rparr>, Next)"

definition reconsume :: "html_state \<Rightarrow> lookahead \<Rightarrow> lookahead \<times> outcome" where
  "reconsume s l = (l\<lparr>l_state := s\<rparr>, Again)"

definition stay :: "lookahead \<Rightarrow> lookahead \<times> outcome" where
  "stay l = (l, Next)"

definition emit :: "nat \<Rightarrow> lookahead \<Rightarrow> lookahead \<times> outcome" where
  "emit after l = (let (l, f) = emit_tag after l in (l, Emit f))"

definition raw_less_than :: "raw_kind \<Rightarrow> uchar \<Rightarrow> lookahead \<Rightarrow> lookahead \<times> outcome" where
  "raw_less_than kind c l =
     (if kind = ScriptDataEscaped Escaped then
        if c = uc (CHR ''/'') then goto (RawEndTagOpen (ScriptDataEscaped Escaped)) l
        else if uc_alpha c then goto ScriptDataDoubleEscapeStart (l\<lparr>l_temp := [uc_lower c]\<rparr>)
        else reconsume (Raw (ScriptDataEscaped Escaped)) l
      else if kind = ScriptDataEscaped DoubleEscaped then
        if c = uc (CHR ''/'') then goto ScriptDataDoubleEscapeEnd (l\<lparr>l_temp := []\<rparr>)
        else reconsume (Raw (ScriptDataEscaped DoubleEscaped)) l
      else
        if c = uc (CHR ''/'') then goto (RawEndTagOpen kind) l
        else if c = uc (CHR ''!'') \<and> kind = ScriptData then goto ScriptDataEscapeStart l
        else reconsume (Raw kind) l)"

definition raw_end_tag_name :: "raw_kind \<Rightarrow> nat \<Rightarrow> uchar \<Rightarrow> lookahead \<Rightarrow> lookahead \<times> outcome" where
  "raw_end_tag_name kind after c l =
     (if appropriate l \<and> whitespace c then (l\<lparr>l_state := BeforeAttributeName\<rparr>, Onward)
      else if appropriate l \<and> c = uc (CHR ''/'') then (l\<lparr>l_state := SelfClosingStartTag\<rparr>, Onward)
      else if appropriate l \<and> c = uc (CHR ''>'') then emit after l
      else if uc_alpha c then stay (l\<lparr>l_name := l_name l @ [uc_lower c]\<rparr>)
      else reconsume (Raw kind) (l\<lparr>l_open := None\<rparr>))"

text \<open>What follows \<open><!\<close>, decided all at once; the argument is the input from here on.\<close>

definition markup_declaration :: "utext \<Rightarrow> lookahead \<Rightarrow> lookahead \<times> outcome" where
  "markup_declaration rest l =
     (let l = l\<lparr>l_open := None\<rparr>
      in if take 2 rest = map uc ''--'' then (l\<lparr>l_state := CommentStart\<rparr>, Skip 1)
         else if map uc_lower (take 7 rest) = map uc ''doctype'' then (l\<lparr>l_state := Doctype\<rparr>, Skip 6)
         else if take 7 rest = map uc ''[CDATA['' \<and> l_foreign l then (l\<lparr>l_state := CdataSection\<rparr>, Skip 6)
         else reconsume BogusComment l)"

definition double_escape :: "escape_kind \<Rightarrow> escape_kind \<Rightarrow> escape_kind \<Rightarrow> uchar \<Rightarrow> lookahead \<Rightarrow> lookahead \<times> outcome" where
  "double_escape script other otherwise c l =
     (if whitespace c \<or> c = uc (CHR ''/'') \<or> c = uc (CHR ''>'') then
        goto (Raw (ScriptDataEscaped (if l_temp l = map uc ''script'' then script else other))) l
      else if uc_alpha c then stay (l\<lparr>l_temp := l_temp l @ [uc_lower c]\<rparr>)
      else reconsume (Raw (ScriptDataEscaped otherwise)) l)"

text \<open>Comments, doctypes and CDATA sections.\<close>

fun read_markup :: "uchar \<Rightarrow> html_state \<Rightarrow> lookahead \<Rightarrow> lookahead \<times> outcome" where
  "read_markup c CommentStart l =
     (if c = uc (CHR ''-'') then goto CommentStartDash l
      else if c = uc (CHR ''>'') then goto Data l else goto Comment l)"
| "read_markup c CommentStartDash l =
     (if c = uc (CHR ''-'') then goto CommentEnd l
      else if c = uc (CHR ''>'') then goto Data l else goto Comment l)"
| "read_markup c Comment l =
     (if c = uc (CHR ''<'') then goto CommentLessThanSign l
      else if c = uc (CHR ''-'') then goto CommentEndDash l else stay l)"
| "read_markup c CommentLessThanSign l =
     (if c = uc (CHR ''!'') then goto CommentLessThanSignBang l
      else if c = uc (CHR ''<'') then stay l else reconsume Comment l)"
| "read_markup c CommentLessThanSignBang l =
     (if c = uc (CHR ''-'') then goto CommentLessThanSignBangDash l else reconsume Comment l)"
| "read_markup c CommentLessThanSignBangDash l =
     (if c = uc (CHR ''-'') then goto CommentLessThanSignBangDashDash l else reconsume CommentEndDash l)"
| "read_markup c CommentLessThanSignBangDashDash l = reconsume CommentEnd l"
| "read_markup c CommentEndDash l =
     (if c = uc (CHR ''-'') then goto CommentEnd l else goto Comment l)"
| "read_markup c CommentEnd l =
     (if c = uc (CHR ''>'') then goto Data l
      else if c = uc (CHR ''!'') then goto CommentEndBang l
      else if c = uc (CHR ''-'') then stay l else reconsume Comment l)"
| "read_markup c CommentEndBang l =
     (if c = uc (CHR ''-'') then goto CommentEndDash l
      else if c = uc (CHR ''>'') then goto Data l else goto Comment l)"
| "read_markup c BogusComment l = (if c = uc (CHR ''>'') then goto Data l else stay l)"
| "read_markup c Doctype l = (if c = uc (CHR ''>'') then goto Data l else stay l)"
| "read_markup c CdataSection l =
     (if c = uc (CHR '']'') then goto CdataSectionBracket l else stay l)"
| "read_markup c CdataSectionBracket l =
     (if c = uc (CHR '']'') then goto CdataSectionEnd l else reconsume CdataSection l)"
| "read_markup c CdataSectionEnd l =
     (if c = uc (CHR '']'') then stay l
      else if c = uc (CHR ''>'') then goto Data l else reconsume CdataSection l)"
| "read_markup c _ l = stay l"

text \<open>Raw text and scripts.\<close>

fun read_raw :: "nat \<Rightarrow> uchar \<Rightarrow> html_state \<Rightarrow> lookahead \<Rightarrow> lookahead \<times> outcome" where
  "read_raw at c (Raw kind) l =
     (case kind of
        ScriptDataEscaped escape \<Rightarrow>
          if c = uc (CHR ''-'') then goto (ScriptDataEscapedDash escape) l
          else if c = uc (CHR ''<'') then goto (RawLessThanSign kind) (l\<lparr>l_open := Some at\<rparr>)
          else stay l
      | _ \<Rightarrow> if c = uc (CHR ''<'') then goto (RawLessThanSign kind) (l\<lparr>l_open := Some at\<rparr>) else stay l)"
| "read_raw at c (RawLessThanSign kind) l = raw_less_than kind c l"
| "read_raw at c (RawEndTagOpen kind) l =
     (if uc_alpha c then
        goto (RawEndTagName kind) (begin_tag EndTag (case l_open l of Some s \<Rightarrow> s | None \<Rightarrow> at) c l)
      else reconsume (Raw kind) l)"
| "read_raw at c (RawEndTagName kind) l = raw_end_tag_name kind (at + len_utf8 c) c l"
| "read_raw at c ScriptDataEscapeStart l =
     (if c = uc (CHR ''-'') then goto ScriptDataEscapeStartDash l else reconsume (Raw ScriptData) l)"
| "read_raw at c ScriptDataEscapeStartDash l =
     (if c = uc (CHR ''-'') then goto (ScriptDataEscapedDashDash Escaped) l
      else reconsume (Raw ScriptData) l)"
| "read_raw at c (ScriptDataEscapedDash escape) l =
     (if c = uc (CHR ''-'') then goto (ScriptDataEscapedDashDash escape) l
      else if c = uc (CHR ''<'') then
        goto (RawLessThanSign (ScriptDataEscaped escape)) (l\<lparr>l_open := Some at\<rparr>)
      else goto (Raw (ScriptDataEscaped escape)) l)"
| "read_raw at c (ScriptDataEscapedDashDash escape) l =
     (if c = uc (CHR ''-'') then stay l
      else if c = uc (CHR ''<'') then
        goto (RawLessThanSign (ScriptDataEscaped escape)) (l\<lparr>l_open := Some at\<rparr>)
      else if c = uc (CHR ''>'') then goto (Raw ScriptData) l
      else goto (Raw (ScriptDataEscaped escape)) l)"
| "read_raw at c ScriptDataDoubleEscapeStart l = double_escape DoubleEscaped Escaped Escaped c l"
| "read_raw at c ScriptDataDoubleEscapeEnd l = double_escape Escaped DoubleEscaped DoubleEscaped c l"
| "read_raw at c _ l = stay l"

text \<open>The tag states, and the states above.\<close>

fun read_char :: "nat \<Rightarrow> uchar \<Rightarrow> utext \<Rightarrow> html_state \<Rightarrow> lookahead \<Rightarrow> lookahead \<times> outcome" where
  "read_char at c rest Data l =
     (if c = uc (CHR ''<'') then goto TagOpen (l\<lparr>l_open := Some at\<rparr>) else stay l)"
| "read_char at c rest Plaintext l = stay l"
| "read_char at c rest TagOpen l =
     (if c = uc (CHR ''!'') then goto MarkupDeclarationOpen l
      else if c = uc (CHR ''/'') then goto EndTagOpen l
      else if c = uc (CHR ''?'') then goto BogusComment l
      else if uc_alpha c then goto TagName (begin_tag StartTag (at - 1) c l)
      else reconsume Data (l\<lparr>l_open := None\<rparr>))"
| "read_char at c rest EndTagOpen l =
     (if c = uc (CHR ''>'') then goto Data (l\<lparr>l_open := None\<rparr>)
      else if uc_alpha c then goto TagName (begin_tag EndTag (at - 2) c l)
      else reconsume BogusComment (l\<lparr>l_open := None\<rparr>))"
| "read_char at c rest TagName l =
     (if whitespace c then goto BeforeAttributeName l
      else if c = uc (CHR ''/'') then goto SelfClosingStartTag l
      else if c = uc (CHR ''>'') then emit (at + len_utf8 c) l
      else stay (l\<lparr>l_name := l_name l @ [uc_lower c]\<rparr>))"
| "read_char at c rest BeforeAttributeName l =
     (if whitespace c then stay l
      else if c = uc (CHR ''/'') then goto SelfClosingStartTag l
      else if c = uc (CHR ''>'') then emit (at + len_utf8 c) l
      else goto AttributeName (begin_attribute l))"
| "read_char at c rest AttributeName l =
     (if whitespace c then goto AfterAttributeName l
      else if c = uc (CHR ''/'') then goto SelfClosingStartTag l
      else if c = uc (CHR ''='') then goto BeforeAttributeValue l
      else if c = uc (CHR ''>'') then emit (at + len_utf8 c) l
      else stay l)"
| "read_char at c rest AfterAttributeName l =
     (if whitespace c then stay l
      else if c = uc (CHR ''/'') then goto SelfClosingStartTag l
      else if c = uc (CHR ''='') then goto BeforeAttributeValue l
      else if c = uc (CHR ''>'') then emit (at + len_utf8 c) l
      else goto AttributeName (begin_attribute l))"
| "read_char at c rest BeforeAttributeValue l =
     (if whitespace c then stay l
      else if c = uc (CHR 0x22) then goto DoubleQuoted l
      else if c = uc (CHR 0x27) then goto SingleQuoted l
      else if c = uc (CHR ''>'') then emit (at + len_utf8 c) l
      else reconsume Unquoted l)"
| "read_char at c rest DoubleQuoted l =
     (if c = uc (CHR 0x22) then goto AfterAttributeValueQuoted l else stay l)"
| "read_char at c rest SingleQuoted l =
     (if c = uc (CHR 0x27) then goto AfterAttributeValueQuoted l else stay l)"
| "read_char at c rest Unquoted l =
     (if whitespace c then goto BeforeAttributeName l
      else if c = uc (CHR ''>'') then emit (at + len_utf8 c) l
      else stay l)"
| "read_char at c rest AfterAttributeValueQuoted l =
     (if whitespace c then goto BeforeAttributeName l
      else if c = uc (CHR ''/'') then goto SelfClosingStartTag l
      else if c = uc (CHR ''>'') then emit (at + len_utf8 c) l
      else reconsume BeforeAttributeName l)"
| "read_char at c rest SelfClosingStartTag l =
     (if c = uc (CHR ''>'') then emit (at + len_utf8 c) l else reconsume BeforeAttributeName l)"
| "read_char at c rest MarkupDeclarationOpen l = markup_declaration (c # rest) l"
| "read_char at c rest CommentStart l = read_markup c CommentStart l"
| "read_char at c rest CommentStartDash l = read_markup c CommentStartDash l"
| "read_char at c rest Comment l = read_markup c Comment l"
| "read_char at c rest CommentLessThanSign l = read_markup c CommentLessThanSign l"
| "read_char at c rest CommentLessThanSignBang l = read_markup c CommentLessThanSignBang l"
| "read_char at c rest CommentLessThanSignBangDash l = read_markup c CommentLessThanSignBangDash l"
| "read_char at c rest CommentLessThanSignBangDashDash l = read_markup c CommentLessThanSignBangDashDash l"
| "read_char at c rest CommentEndDash l = read_markup c CommentEndDash l"
| "read_char at c rest CommentEnd l = read_markup c CommentEnd l"
| "read_char at c rest CommentEndBang l = read_markup c CommentEndBang l"
| "read_char at c rest BogusComment l = read_markup c BogusComment l"
| "read_char at c rest Doctype l = read_markup c Doctype l"
| "read_char at c rest CdataSection l = read_markup c CdataSection l"
| "read_char at c rest CdataSectionBracket l = read_markup c CdataSectionBracket l"
| "read_char at c rest CdataSectionEnd l = read_markup c CdataSectionEnd l"
| "read_char at c rest (Raw kind) l = read_raw at c (Raw kind) l"
| "read_char at c rest (RawLessThanSign kind) l = read_raw at c (RawLessThanSign kind) l"
| "read_char at c rest (RawEndTagOpen kind) l = read_raw at c (RawEndTagOpen kind) l"
| "read_char at c rest (RawEndTagName kind) l = read_raw at c (RawEndTagName kind) l"
| "read_char at c rest ScriptDataEscapeStart l = read_raw at c ScriptDataEscapeStart l"
| "read_char at c rest ScriptDataEscapeStartDash l = read_raw at c ScriptDataEscapeStartDash l"
| "read_char at c rest (ScriptDataEscapedDash escape) l = read_raw at c (ScriptDataEscapedDash escape) l"
| "read_char at c rest (ScriptDataEscapedDashDash escape) l = read_raw at c (ScriptDataEscapedDashDash escape) l"
| "read_char at c rest ScriptDataDoubleEscapeStart l = read_raw at c ScriptDataDoubleEscapeStart l"
| "read_char at c rest ScriptDataDoubleEscapeEnd l = read_raw at c ScriptDataDoubleEscapeEnd l"

subsection \<open>The loop\<close>

text \<open>
  The variables of the loop of \<open>next_tag\<close>: the scanner, the character held back if one
  is, and the iterator as the byte offset of its next character and what is left of it.
\<close>

record scanning =
  s_ahead :: lookahead
  s_held :: "(nat \<times> uchar) option"
  s_cursor :: nat
  s_chars :: utext

definition settle :: "lookahead \<Rightarrow> lookahead" where
  "settle l = (if reading_a_tag (l_state l) then l else l\<lparr>l_open := None\<rparr>)"

definition consume :: "nat \<Rightarrow> uchar \<Rightarrow> scanning \<Rightarrow> scanning + lookahead \<times> scan_result" where
  "consume at c s =
     (let l = (s_ahead s)\<lparr>l_position := at + len_utf8 c\<rparr>
      in case read_char at c (s_chars s) (l_state l) l of
        (l, Next) \<Rightarrow> Inl (s\<lparr>s_ahead := settle l\<rparr>)
      | (l, Again) \<Rightarrow> Inl (s\<lparr>s_ahead := settle l, s_held := Some (at, c)\<rparr>)
      | (l, Skip n) \<Rightarrow> Inl (s\<lparr>s_ahead := settle l,
            s_cursor := s_cursor s + str_len (take n (s_chars s)), s_chars := drop n (s_chars s)\<rparr>)
      | (l, Onward) \<Rightarrow> Inl (s\<lparr>s_ahead := l\<rparr>)
      | (l, Emit f) \<Rightarrow> Inr (l, ScanTag f))"

definition turn :: "nat \<Rightarrow> scanning \<Rightarrow> scanning + lookahead \<times> scan_result" where
  "turn limit s =
     (case s_held s of
        Some (at, c) \<Rightarrow> consume at c (s\<lparr>s_held := None\<rparr>)
      | None \<Rightarrow>
          (case s_chars s of
             [] \<Rightarrow> Inr ((s_ahead s)\<lparr>l_position := str_len (l_input (s_ahead s))\<rparr>, ScanEnd)
           | c # cs \<Rightarrow>
               if limit \<le> s_cursor s then Inr ((s_ahead s)\<lparr>l_position := s_cursor s\<rparr>, ScanLimit)
               else consume (s_cursor s) c (s\<lparr>s_cursor := s_cursor s + len_utf8 c, s_chars := cs\<rparr>)))"

text \<open>
  A character is read again only in a state that reads it again at most once more, so the
  loop ends: \<open>again_rank\<close> bounds how often.
\<close>

fun again_rank :: "html_state \<Rightarrow> nat" where
  "again_rank CommentLessThanSignBangDashDash = 2"
| "again_rank Data = 0"
| "again_rank Plaintext = 0"
| "again_rank BogusComment = 0"
| "again_rank Unquoted = 0"
| "again_rank BeforeAttributeName = 0"
| "again_rank Comment = 0"
| "again_rank CommentEndDash = 0"
| "again_rank CdataSection = 0"
| "again_rank (Raw k) = 0"
| "again_rank _ = 1"

definition effort :: "scanning \<Rightarrow> nat" where
  "effort s = 3 * (length (s_chars s) + (if s_held s = None then 0 else 1))
     + (if s_held s = None then 2 else again_rank (l_state (s_ahead s)))"

lemmas outcomes = goto_def reconsume_def stay_def emit_def emit_tag_def

lemma settle_state [simp]: "l_state (settle l) = l_state l"
  by (simp add: settle_def)

lemma read_char_again:
  "read_char at c rest st l = (l', Again) \<Longrightarrow> again_rank (l_state l') < again_rank st"
  by (cases st) (auto simp: outcomes raw_less_than_def raw_end_tag_name_def markup_declaration_def
      double_escape_def begin_tag_def Let_def split: if_splits raw_kind.splits)

lemma again_rank_le: "again_rank s \<le> 2"
  by (cases s) auto
text \<open>
  Where a tag began: not before the scan did, before the character at hand, on a character
  boundary, and right where the tokenizer's own states put it.
\<close>

definition open_ok :: "nat \<Rightarrow> (nat \<Rightarrow> bool) \<Rightarrow> nat \<Rightarrow> html_state \<Rightarrow> nat option \<Rightarrow> bool" where
  "open_ok b bd at st ot \<longleftrightarrow>
     (\<forall>p. ot = Some p \<longrightarrow> b \<le> p \<and> p < at \<and> bd p) \<and>
     (reading_a_tag st \<longrightarrow> ot \<noteq> None) \<and>
     (st = TagOpen \<longrightarrow> 1 \<le> at \<and> ot = Some (at - 1)) \<and>
     (st = EndTagOpen \<longrightarrow> 2 \<le> at \<and> ot = Some (at - 2))"

lemma len_utf8_pos [simp]: "0 < len_utf8 c" "Suc 0 \<le> len_utf8 c" "len_utf8 c \<le> 4" "len_utf8 c \<noteq> 0"
  by (simp_all add: len_utf8_def)

lemma less_len_utf8: "a \<le> b \<Longrightarrow> a < b + len_utf8 c"
  using len_utf8_pos(1) [of c] by linarith

lemma read_char_keeps:
  "read_char at c rest st l = (l', r) \<Longrightarrow>
   l_input l' = l_input l \<and> l_position l' = l_position l \<and> l_foreign l' = l_foreign l"
  by (cases st) (auto simp: outcomes raw_less_than_def raw_end_tag_name_def markup_declaration_def
      double_escape_def begin_tag_def begin_attribute_def Let_def split: if_splits raw_kind.splits)

lemma read_char_open:
  assumes "read_char at c rest st l = (l', r)" and "open_ok b bd at st (l_open l)"
    and "bd at" and "b \<le> at" and "l_state l = st"
  shows "case r of
      Next \<Rightarrow> open_ok b bd (at + len_utf8 c) (l_state l') (l_open (settle l'))
    | Again \<Rightarrow> open_ok b bd at (l_state l') (l_open (settle l'))
    | Skip n \<Rightarrow> \<not> reading_a_tag (l_state l')
    | Onward \<Rightarrow> open_ok b bd (at + len_utf8 c) (l_state l') (l_open l')
    | Emit f \<Rightarrow> b \<le> f_start f \<and> f_start f \<le> at \<and> bd (f_start f) \<and> f_end f = at + len_utf8 c
        \<and> l_state l' = Data \<and> l_open l' = None"
proof -
  have len: "len_utf8 60 = 1" "len_utf8 47 = 1" by (auto simp: len_utf8_def)
  have q: "l' = fst (read_char at c rest st l)" "r = snd (read_char at c rest st l)" using assms(1) by auto
  show ?thesis
  proof (cases "l_open l")
    case None
    show ?thesis
      using assms(2-5) len unfolding q
      by (cases st) (simp_all add: None outcomes raw_less_than_def raw_end_tag_name_def markup_declaration_def
        double_escape_def begin_tag_def begin_attribute_def open_ok_def settle_def Let_def
        split: raw_kind.split)
  next
    case (Some p)
    have "p < at" using assms(2) Some by (simp add: open_ok_def)
    then have "p < at + len_utf8 c" by simp
    show ?thesis
      using assms(2-5) len unfolding q
      by (cases st) (simp_all add: Some outcomes raw_less_than_def raw_end_tag_name_def markup_declaration_def
        double_escape_def begin_tag_def begin_attribute_def open_ok_def settle_def Let_def
        split: raw_kind.split, auto)
  qed
qed
definition boundary :: "utext \<Rightarrow> nat \<Rightarrow> bool" where
  "boundary s p \<longleftrightarrow> (\<exists>k. p = str_len (take k s))"

lemma str_len_simps [simp]:
  "str_len [] = 0" "str_len (c # s) = len_utf8 c + str_len s" "str_len (s @ s') = str_len s + str_len s'"
  by (simp_all add: str_len_def)

lemma str_len_take_le: "str_len (take k s) \<le> str_len s"
  using str_len_simps(3) [of "take k s" "drop k s"] by simp

lemma boundary_le: "boundary s p \<Longrightarrow> p \<le> str_len s"
  by (auto simp: boundary_def str_len_take_le)

lemma boundary_ends [simp]: "boundary s 0" "boundary s (str_len s)"
  by (auto simp: boundary_def intro: exI [of _ 0] exI [of _ "length s"])

lemma str_len_ascii: "\<forall>c\<in>set s. c < 0x80 \<Longrightarrow> str_len s = length s"
  by (induction s) (simp_all add: len_utf8_def)

lemma uc_lower_ascii: "uc_lower c < 0x80 \<Longrightarrow> c < 0x80"
  by (auto simp: uc_lower_def split: if_splits)

lemma read_char_skip:
  assumes "read_char at c rest st l = (l', Skip n)"
  shows "len_utf8 c + str_len (take n rest) \<le> 7"
proof -
  have ascii: "len_utf8 c = 1 \<and> str_len (take n rest) \<le> n"
    if "map uc_lower (c # take n rest) = s" "\<forall>x\<in>set s. x < 0x80" for s
  proof -
    have "\<forall>x\<in>set (c # take n rest). x < 0x80" using that uc_lower_ascii by auto
    then show ?thesis using str_len_ascii [of "take n rest"] by (simp add: len_utf8_def)
  qed
  have lower: "map uc_lower (c # take n rest) = map uc_lower s" if "c # take n rest = s" for s
    using that by simp
  from assms have "st = MarkupDeclarationOpen"
    by (cases st) (auto simp: outcomes raw_less_than_def raw_end_tag_name_def double_escape_def
        begin_tag_def begin_attribute_def Let_def split: if_splits raw_kind.splits)
  with assms consider "n = 1" "take 2 (c # rest) = map uc ''--''"
    | "n = 6" "map uc_lower (take 7 (c # rest)) = map uc ''doctype''"
    | "n = 6" "take 7 (c # rest) = map uc ''[CDATA[''"
    by (auto simp: markup_declaration_def outcomes Let_def split: if_splits)
  then show ?thesis
  proof cases
    case 1
    then show ?thesis using ascii [OF lower, of "map uc ''--''"] by (auto simp: numeral_2_eq_2 uc_lower_def uc_upper_def)
  next
    case 2
    then show ?thesis using ascii [of "map uc ''doctype''"] by auto
  next
    case 3
    then show ?thesis using ascii [OF lower, of "map uc ''[CDATA[''"] by (auto simp: uc_lower_def uc_upper_def)
  qed
qed

end
