(* ===== verification/Scanning.thy ===== *)
theory Scanning
  imports Lookahead
begin

text \<open>
  The loop of \<open>Lookahead::next_tag\<close>: it ends, it slices its input only where characters
  begin, and a tag it reports lies where it has read.
\<close>

definition here :: "scanning \<Rightarrow> nat" where
  "here s = (case s_held s of Some (at, c) \<Rightarrow> at | None \<Rightarrow> s_cursor s)"

definition scan_inv :: "utext \<Rightarrow> nat \<Rightarrow> nat \<Rightarrow> scanning \<Rightarrow> bool" where
  "scan_inv inp b limit s \<longleftrightarrow>
     l_input (s_ahead s) = inp \<and>
     (\<exists>k. s_chars s = drop k inp \<and> s_cursor s = str_len (take k inp)) \<and>
     (\<forall>at c. s_held s = Some (at, c) \<longrightarrow> at < limit \<and> at + len_utf8 c = s_cursor s \<and> boundary inp at) \<and>
     s_cursor s \<le> max b (limit + 6) \<and> b \<le> here s \<and>
     open_ok b (boundary inp) (here s) (l_state (s_ahead s)) (l_open (s_ahead s))"

text \<open>What a finished scan says: how far it got, and where what it found lies.\<close>

definition scanned_ok :: "utext \<Rightarrow> nat \<Rightarrow> nat \<Rightarrow> lookahead \<times> scan_result \<Rightarrow> bool" where
  "scanned_ok inp b limit lr \<longleftrightarrow>
     (let l = fst lr; p = l_position l
      in l_input l = inp \<and> boundary inp p \<and> b \<le> p \<and> p \<le> max b (limit + 6) \<and>
         (\<forall>o'. l_open l = Some o' \<longrightarrow> b \<le> o' \<and> o' \<le> p \<and> boundary inp o') \<and>
         (case snd lr of
            ScanTag f \<Rightarrow> b \<le> f_start f \<and> f_start f < f_end f \<and> f_end f = p \<and> boundary inp (f_start f)
              \<and> l_state l = Data \<and> l_open l = None
          | ScanEnd \<Rightarrow> p = str_len inp
          | ScanLimit \<Rightarrow> limit \<le> p))"

lemma boundary_cursor: "boundary s (str_len (take k s))"
  by (auto simp: boundary_def)

lemma take_drop_str_len: "str_len (take k s) + str_len (take n (drop k s)) = str_len (take (k + n) s)"
  by (simp add: take_add)

lemma consume_inv:
  assumes "s_held s = None" and "l_input (s_ahead s) = inp"
    and "s_chars s = drop k inp" and "s_cursor s = str_len (take k inp)"
    and "at + len_utf8 c = s_cursor s" and "boundary inp at" and "at < limit" and "b \<le> at"
    and "open_ok b (boundary inp) at (l_state (s_ahead s)) (l_open (s_ahead s))"
  shows "case consume at c s of Inl s' \<Rightarrow> scan_inv inp b limit s' | Inr lr \<Rightarrow> scanned_ok inp b limit lr"
proof -
  let ?l = "(s_ahead s)\<lparr>l_position := at + len_utf8 c\<rparr>"
  obtain l' r where rc: "read_char at c (s_chars s) (l_state ?l) ?l = (l', r)" by fastforce
  have keeps: "l_input l' = inp" "l_position l' = at + len_utf8 c"
    using read_char_keeps [OF rc] assms(2) by auto
  have op: "open_ok b (boundary inp) at (l_state ?l) (l_open ?l)" using assms(9) by simp
  note o = read_char_open [OF rc op assms(6,8) refl]
  have len: "len_utf8 c \<le> 4" by simp
  have cur: "s_cursor s \<le> max b (limit + 6)" using assms(5,7) len by linarith
  have settled: "l_input (settle l') = inp" using keeps by (simp add: settle_def)
  have b_cur: "b \<le> s_cursor s" using assms(5,8) by simp
  show ?thesis
  proof (cases r)
    case Next
    then show ?thesis using rc o keeps settled assms(1,3-5) cur b_cur
      by (auto simp: consume_def scan_inv_def here_def)
  next
    case Again
    then show ?thesis using rc o keeps settled assms(1,3-8) cur b_cur
      by (auto simp: consume_def scan_inv_def here_def)
  next
    case (Skip n)
    let ?cur = "s_cursor s + str_len (take n (s_chars s))"
    have "?cur \<le> max b (limit + 6)" using read_char_skip [OF rc [unfolded Skip]] assms(5,7) by linarith
    moreover have "?cur = str_len (take (k + n) inp)" using assms(3,4) by (simp add: take_drop_str_len)
    moreover have "open_ok b (boundary inp) ?cur (l_state l') (l_open (settle l'))"
      using o Skip by (auto simp: open_ok_def settle_def)
    ultimately show ?thesis using Skip rc settled assms(1,3) b_cur
      by (auto simp: consume_def scan_inv_def here_def add.commute intro!: exI [of _ "k + n"])
  next
    case Onward
    then show ?thesis using rc o keeps assms(1,3-5) cur b_cur
      by (auto simp: consume_def scan_inv_def here_def)
  next
    case (Emit f)
    have "f_start f < f_end f" using o Emit by (auto intro: less_len_utf8)
    with Emit show ?thesis using rc o keeps assms(4-8) cur b_cur boundary_cursor [of inp k]
      by (auto simp: consume_def scanned_ok_def Let_def)
  qed
qed

lemma turn_inv:
  assumes "scan_inv inp b limit s"
  shows "case turn limit s of Inl s' \<Rightarrow> scan_inv inp b limit s' | Inr lr \<Rightarrow> scanned_ok inp b limit lr"
proof -
  obtain k where k: "s_chars s = drop k inp" "s_cursor s = str_len (take k inp)"
    using assms by (auto simp: scan_inv_def)
  show ?thesis
  proof (cases "s_held s")
    case (Some p)
    obtain at c where p: "p = (at, c)" by fastforce
    show ?thesis
      using consume_inv [of "s\<lparr>s_held := None\<rparr>" inp k at c limit b] assms Some p k
      by (auto simp: scan_inv_def turn_def here_def)
  next
    case None
    show ?thesis
    proof (cases "s_chars s")
      case Nil
      then have "str_len inp = s_cursor s" using k by simp
      then show ?thesis using None Nil assms
        by (auto simp: turn_def scanned_ok_def scan_inv_def here_def open_ok_def)
    next
      case (Cons c cs)
      then have c: "drop (Suc k) inp = cs" "take (Suc k) inp = take k inp @ [c]"
        using k by (metis drop_Suc drop_tl list.sel(3), metis drop_eq_Nil hd_drop_conv_nth k(1) list.distinct(1) list.sel(1) not_le take_Suc_conv_app_nth)
      show ?thesis
      proof (cases "limit \<le> s_cursor s")
        case True
        then show ?thesis using None Cons assms k boundary_cursor [of inp k]
          by (auto simp: turn_def scanned_ok_def scan_inv_def here_def open_ok_def)
      next
        case False
        then show ?thesis
          using consume_inv [of "s\<lparr>s_cursor := s_cursor s + len_utf8 c, s_chars := cs\<rparr>" inp "Suc k" "s_cursor s" c limit b]
            None Cons assms c k boundary_cursor [of inp k]
          by (auto simp: turn_def scan_inv_def here_def)
      qed
    qed
  qed
qed

subsection \<open>The loop ends\<close>

lemma turn_effort: "turn limit s = Inl s' \<Longrightarrow> effort s' < effort s"
proof -
  assume t: "turn limit s = Inl s'"
  have step: "effort s' < (case s_held s of
        None \<Rightarrow> 3 * length (s_chars s1) + 5 | Some _ \<Rightarrow> 3 * length (s_chars s1) + 3 + again_rank (l_state (s_ahead s)))"
    if "consume at c s1 = Inl s'" "s_held s1 = None" "s_ahead s1 = s_ahead s" for at c s1
  proof -
    obtain l' r where rc: "read_char at c (s_chars s1) (l_state (s_ahead s))
        ((s_ahead s)\<lparr>l_position := at + len_utf8 c\<rparr>) = (l', r)" by fastforce
    have "r = Again \<Longrightarrow> again_rank (l_state l') < again_rank (l_state (s_ahead s))"
      using rc by (auto dest: read_char_again)
    moreover have "again_rank (l_state (s_ahead s)) \<le> 2" by (rule again_rank_le)
    ultimately show ?thesis using that rc
      by (cases r) (auto simp: consume_def effort_def split: option.splits)
  qed
  show ?thesis
  proof (cases "s_held s")
    case (Some p)
    then show ?thesis
      using t step [of "fst p" "snd p" "s\<lparr>s_held := None\<rparr>"]
      by (cases p) (auto simp: turn_def effort_def)
  next
    case None
    then obtain c cs where cs: "s_chars s = c # cs" using t by (auto simp: turn_def split: list.splits)
    then show ?thesis
      using t None step [of "s_cursor s" c "s\<lparr>s_cursor := s_cursor s + len_utf8 c, s_chars := cs\<rparr>"]
      by (auto simp: turn_def effort_def split: if_splits)
  qed
qed

function scan :: "nat \<Rightarrow> scanning \<Rightarrow> lookahead \<times> scan_result" where
  "scan limit s = (case turn limit s of Inl s' \<Rightarrow> scan limit s' | Inr lr \<Rightarrow> lr)"
  by auto

termination
  by (relation "measure (effort \<circ> snd)") (auto simp: turn_effort)

declare scan.simps [simp del]

lemma scan_turn:
  "turn limit s = Inl s' \<Longrightarrow> scan limit s = scan limit s'"
  "turn limit s = Inr lr \<Longrightarrow> scan limit s = lr"
  by (simp_all add: scan.simps [of limit s])

lemma scan_ok: "scan_inv inp b limit s \<Longrightarrow> scanned_ok inp b limit (scan limit s)"
proof (induction limit s rule: scan.induct)
  case (1 limit s)
  then show ?case using turn_inv [of inp b limit s] by (cases "turn limit s") (auto simp: scan_turn)
qed

text \<open>\<open>next_tag\<close>: the iterator starts at the scanner's position; a slice off a boundary panics.\<close>

definition next_tag :: "nat \<Rightarrow> lookahead \<Rightarrow> (lookahead \<times> scan_result) option" where
  "next_tag limit l =
     (case str_from (l_position l) (l_input l) of
        None \<Rightarrow> None
      | Some chars \<Rightarrow>
          Some (scan limit \<lparr> s_ahead = l, s_held = None, s_cursor = l_position l, s_chars = chars \<rparr>))"

lemma str_from_boundary: "str_from (str_len (take k s)) s = Some (drop k s)"
proof (induction s arbitrary: k)
  case (Cons c s)
  show ?case
  proof (cases k)
    case (Suc j)
    obtain m where m: "len_utf8 c + str_len (take j s) = Suc m" by (cases "len_utf8 c + str_len (take j s)") auto
    have "str_from (Suc m) (c # s) = str_from (Suc m - len_utf8 c) s" using m by simp
    then show ?thesis using Suc m Cons.IH [of j] by (metis add_diff_cancel_left' drop_Suc_Cons str_len_simps(2) take_Suc_Cons)
  qed simp
qed simp

lemma str_upto_boundary: "str_upto (str_len (take k s)) s = Some (take k s)"
proof (induction s arbitrary: k)
  case (Cons c s)
  show ?case
  proof (cases k)
    case (Suc j)
    obtain m where m: "len_utf8 c + str_len (take j s) = Suc m" by (cases "len_utf8 c + str_len (take j s)") auto
    have "str_upto (Suc m) (c # s) = map_option ((#) c) (str_upto (Suc m - len_utf8 c) s)" using m by simp
    moreover have "Suc m - len_utf8 c = str_len (take j s)" using m by simp
    ultimately show ?thesis using Suc m Cons.IH [of j] by (metis option.simps(9) str_len_simps(2) take_Suc_Cons)
  qed simp
qed simp

text \<open>Between tags the scanner is in no tag.\<close>

definition ready :: "utext \<Rightarrow> lookahead \<Rightarrow> bool" where
  "ready inp l \<longleftrightarrow> l_input l = inp \<and> boundary inp (l_position l) \<and> l_open l = None \<and>
     \<not> reading_a_tag (l_state l)"

lemma next_tag_ok:
  assumes "ready inp l"
  shows "\<exists>lr. next_tag limit l = Some lr \<and> scanned_ok inp (l_position l) limit lr"
proof -
  obtain k where k: "l_position l = str_len (take k inp)" using assms by (auto simp: ready_def boundary_def)
  let ?s = "\<lparr> s_ahead = l, s_held = None, s_cursor = l_position l, s_chars = drop k inp \<rparr>"
  have "scan_inv inp (l_position l) limit ?s"
    using assms k by (auto simp: scan_inv_def ready_def here_def open_ok_def)
  then show ?thesis using scan_ok assms k by (auto simp: next_tag_def ready_def str_from_boundary)
qed

end
