(* ===== verification/Tags.thy ===== *)
theory Tags
  imports Scanning
begin

text \<open>
  What \<open>next_tag\<close> finds: it returns after a bounded number of turns of its loop, and a tag
  written out as pages write them is found where it is, with as many attributes as it has.
\<close>

subsection \<open>It returns\<close>

text \<open>The loop, run for at most so many turns.\<close>

fun laps :: "nat \<Rightarrow> nat \<Rightarrow> scanning \<Rightarrow> (lookahead \<times> scan_result) option" where
  "laps 0 limit s = None"
| "laps (Suc n) limit s = (case turn limit s of Inl s' \<Rightarrow> laps n limit s' | Inr lr \<Rightarrow> Some lr)"

lemma laps_scan: "effort s < n \<Longrightarrow> laps n limit s = Some (scan limit s)"
proof (induction n arbitrary: s)
  case (Suc n)
  then show ?case using turn_effort [of limit s]
    by (cases "turn limit s") (fastforce simp: scan_turn)+
qed simp

abbreviation scan_at :: "lookahead \<Rightarrow> nat \<Rightarrow> utext \<Rightarrow> scanning" where
  "scan_at l cur cs \<equiv> \<lparr> s_ahead = l, s_held = None, s_cursor = cur, s_chars = cs \<rparr>"

text \<open>
  C37: \<open>Lookahead::next_tag\<close> always returns, from any state of the tokenizer and at any
  limit: its loop goes round at most three times for each character left, however often it
  holds one back to be read again, and the slice it starts from never panics when the
  scanner stands between two characters.
\<close>

theorem next_tag_returns:
  assumes "boundary (l_input l) (l_position l)"
  shows "\<exists>chars r. str_from (l_position l) (l_input l) = Some chars \<and> next_tag limit l = Some r
    \<and> laps (3 * length chars + 3) limit (scan_at l (l_position l) chars) = Some r"
proof -
  obtain k where "l_position l = str_len (take k (l_input l))" using assms by (auto simp: boundary_def)
  then have chars: "str_from (l_position l) (l_input l) = Some (drop k (l_input l))"
    by (simp add: str_from_boundary)
  then show ?thesis
    using laps_scan [of "scan_at l (l_position l) (drop k (l_input l))"] by (simp add: next_tag_def effort_def)
qed

theorem next_tag_returns_witness:
  "\<exists>chars r. str_from 0 (map uc ''<a b=c>'') = Some chars
     \<and> next_tag 9 (lookahead_new (map uc ''<a b=c>'')) = Some r
     \<and> laps (3 * length chars + 3) 9 (scan_at (lookahead_new (map uc ''<a b=c>'')) 0 chars) = Some r"
  using next_tag_returns [of "lookahead_new (map uc ''<a b=c>'')" 9] by (simp add: lookahead_new_def)

subsection \<open>A tag as pages write it\<close>

definition render_attribute :: "utext \<times> utext \<Rightarrow> utext" where
  "render_attribute nv = [uc (CHR '' '')] @ fst nv @ map uc [CHR ''='', CHR 0x22] @ snd nv @ [uc (CHR 0x22)]"

definition render_tag :: "tag_kind \<Rightarrow> utext \<Rightarrow> (utext \<times> utext) list \<Rightarrow> utext" where
  "render_tag kind name as =
     uc (CHR ''<'') # (if kind = EndTag then [uc (CHR ''/'')] else []) @ name
       @ concat (map render_attribute as) @ [uc (CHR ''>'')]"

definition name_ok :: "utext \<Rightarrow> bool" where
  "name_ok name \<longleftrightarrow> name \<noteq> [] \<and> uc_alpha (hd name) \<and>
     (\<forall>c\<in>set name. \<not> whitespace c \<and> c \<noteq> uc (CHR ''/'') \<and> c \<noteq> uc (CHR ''>''))"

definition attribute_ok :: "utext \<times> utext \<Rightarrow> bool" where
  "attribute_ok nv \<longleftrightarrow> fst nv \<noteq> [] \<and> uc (CHR 0x22) \<notin> set (snd nv) \<and>
     (\<forall>c\<in>set (fst nv). \<not> whitespace c \<and> c \<noteq> uc (CHR ''/'') \<and> c \<noteq> uc (CHR ''='') \<and> c \<noteq> uc (CHR ''>''))"

lemma eat:
  assumes "cur < limit" and "read_char cur c cs (l_state l) (l\<lparr>l_position := cur + len_utf8 c\<rparr>) = (l', Next)"
  shows "scan limit (scan_at l cur (c # cs)) = scan limit (scan_at (settle l') (cur + len_utf8 c) cs)"
  by (rule scan_turn) (use assms in \<open>simp add: turn_def consume_def\<close>)

text \<open>What of the scanner decides what it reports.\<close>

definition sees :: "html_state \<Rightarrow> nat option \<Rightarrow> nat \<Rightarrow> lookahead \<Rightarrow> bool" where
  "sees st ot n l \<longleftrightarrow> l_state l = st \<and> l_open l = ot \<and> l_attributes l = n"

lemma eat_run:
  assumes step: "\<And>l at x r. sees st ot n l \<Longrightarrow> P x \<Longrightarrow> \<exists>l'. read_char at x r st l = (l', Next) \<and> sees st ot n l'"
    and "reading_a_tag st \<or> ot = None"
  shows "sees st ot n l \<Longrightarrow> \<forall>x\<in>set xs. P x \<Longrightarrow> cur + str_len xs \<le> limit \<Longrightarrow>
    \<exists>l'. sees st ot n l' \<and> scan limit (scan_at l cur (xs @ ys)) = scan limit (scan_at l' (cur + str_len xs) ys)"
proof (induction xs arbitrary: l cur)
  case (Cons x xs)
  obtain l1 where l1: "read_char cur x (xs @ ys) st (l\<lparr>l_position := cur + len_utf8 x\<rparr>) = (l1, Next)" "sees st ot n l1"
    using step [of "l\<lparr>l_position := cur + len_utf8 x\<rparr>" x cur "xs @ ys"] Cons.prems by (auto simp: sees_def)
  have settled: "settle l1 = l1" using l1(2) assms(2) by (auto simp: sees_def settle_def)
  have "cur < limit" using Cons.prems(3) len_utf8_pos(1) [of x] by (simp only: str_len_simps)
  then have "scan limit (scan_at l cur ((x # xs) @ ys)) = scan limit (scan_at l1 (cur + len_utf8 x) (xs @ ys))"
    using eat [of cur limit x "xs @ ys" l l1] l1 settled Cons.prems(1) by (simp add: sees_def)
  moreover obtain l2 where "sees st ot n l2"
    "scan limit (scan_at l1 (cur + len_utf8 x) (xs @ ys)) = scan limit (scan_at l2 (cur + len_utf8 x + str_len xs) ys)"
    using Cons.IH [OF l1(2), of "cur + len_utf8 x"] Cons.prems by (auto simp: add.assoc)
  ultimately show ?case by (auto simp: add.assoc)
qed auto

lemma eat_one:
  assumes "sees st ot n l" and "cur + len_utf8 c \<le> limit"
    and step: "\<And>l r. sees st ot n l \<Longrightarrow> \<exists>l'. read_char cur c r st l = (l', Next) \<and> sees st' ot' n' l'"
    and "reading_a_tag st' \<or> ot' = None"
  shows "\<exists>l'. sees st' ot' n' l' \<and>
    scan limit (scan_at l cur (c # cs)) = scan limit (scan_at l' (cur + len_utf8 c) cs)"
proof -
  obtain l1 where l1: "read_char cur c cs st (l\<lparr>l_position := cur + len_utf8 c\<rparr>) = (l1, Next)" "sees st' ot' n' l1"
    using step [of "l\<lparr>l_position := cur + len_utf8 c\<rparr>" cs] assms(1) by (auto simp: sees_def)
  have "settle l1 = l1" using l1(2) assms(4) by (auto simp: sees_def settle_def)
  moreover have "cur < limit" using assms(2) len_utf8_pos(1) [of c] by linarith
  ultimately show ?thesis using eat [of cur limit c cs l l1] l1 assms(1) by (auto simp: sees_def)
qed

lemma one_byte [simp]:
  "len_utf8 32 = 1" "len_utf8 34 = 1" "len_utf8 47 = 1" "len_utf8 60 = 1" "len_utf8 61 = 1" "len_utf8 62 = 1"
  by (simp_all add: len_utf8_def)

lemmas eats = outcomes sees_def begin_attribute_def begin_tag_def whitespace_def

lemma eat_attribute:
  assumes "sees st (Some p) n l" and "st \<in> {TagName, AfterAttributeValueQuoted}" and "attribute_ok nv"
    and "cur + str_len (render_attribute nv) \<le> limit"
  shows "\<exists>l'. sees AfterAttributeValueQuoted (Some p) (n + 1) l' \<and>
    scan limit (scan_at l cur (render_attribute nv @ ys))
      = scan limit (scan_at l' (cur + str_len (render_attribute nv)) ys)"
proof -
  obtain a as v where nv: "nv = (a # as, v)" using assms(3) by (cases nv; cases "fst nv") (auto simp: attribute_ok_def)
  have ok: "\<forall>c\<in>set (a # as). \<not> whitespace c \<and> c \<noteq> 47 \<and> c \<noteq> 61 \<and> c \<noteq> 62" "\<forall>c\<in>set v. c \<noteq> 34"
    using assms(3) nv by (auto simp: attribute_ok_def)
  have shape: "render_attribute nv @ ys = 32 # a # as @ 61 # 34 # v @ 34 # ys"
    "str_len (render_attribute nv) = 4 + len_utf8 a + str_len as + str_len v"
    using nv by (simp_all add: render_attribute_def)
  note room = assms(4) [unfolded shape]
  obtain l1 where l1: "sees BeforeAttributeName (Some p) n l1"
    "scan limit (scan_at l cur (32 # a # as @ 61 # 34 # v @ 34 # ys))
       = scan limit (scan_at l1 (cur + 1) (a # as @ 61 # 34 # v @ 34 # ys))"
    using eat_one [of st "Some p" n l cur 32 limit BeforeAttributeName "Some p" n "a # as @ 61 # 34 # v @ 34 # ys"]
      assms(1,2) room by (auto simp: eats)
  obtain l2 where l2: "sees AttributeName (Some p) (n + 1) l2"
    "scan limit (scan_at l1 (cur + 1) (a # as @ 61 # 34 # v @ 34 # ys))
       = scan limit (scan_at l2 (cur + 1 + len_utf8 a) (as @ 61 # 34 # v @ 34 # ys))"
    using eat_one [OF l1(1), of "cur + 1" a limit AttributeName "Some p" "n + 1" "as @ 61 # 34 # v @ 34 # ys"]
      ok(1) room by (auto simp: eats)
  obtain l3 where l3: "sees AttributeName (Some p) (n + 1) l3"
    "scan limit (scan_at l2 (cur + 1 + len_utf8 a) (as @ 61 # 34 # v @ 34 # ys))
       = scan limit (scan_at l3 (cur + 1 + len_utf8 a + str_len as) (61 # 34 # v @ 34 # ys))"
    using eat_run [of AttributeName "Some p" "n + 1" "\<lambda>c. \<not> whitespace c \<and> c \<noteq> 47 \<and> c \<noteq> 61 \<and> c \<noteq> 62" l2 as
        "cur + 1 + len_utf8 a" limit "61 # 34 # v @ 34 # ys"] l2(1) ok(1) room by (auto simp: eats)
  obtain l4 where l4: "sees BeforeAttributeValue (Some p) (n + 1) l4"
    "scan limit (scan_at l3 (cur + 1 + len_utf8 a + str_len as) (61 # 34 # v @ 34 # ys))
       = scan limit (scan_at l4 (cur + 1 + len_utf8 a + str_len as + 1) (34 # v @ 34 # ys))"
    using eat_one [OF l3(1), of "cur + 1 + len_utf8 a + str_len as" 61 limit BeforeAttributeValue "Some p" "n + 1"
        "34 # v @ 34 # ys"] room by (auto simp: eats)
  obtain l5 where l5: "sees DoubleQuoted (Some p) (n + 1) l5"
    "scan limit (scan_at l4 (cur + 1 + len_utf8 a + str_len as + 1) (34 # v @ 34 # ys))
       = scan limit (scan_at l5 (cur + 1 + len_utf8 a + str_len as + 2) (v @ 34 # ys))"
    using eat_one [OF l4(1), of "cur + 1 + len_utf8 a + str_len as + 1" 34 limit DoubleQuoted "Some p" "n + 1" "v @ 34 # ys"]
      room by (auto simp: eats)
  obtain l6 where l6: "sees DoubleQuoted (Some p) (n + 1) l6"
    "scan limit (scan_at l5 (cur + 1 + len_utf8 a + str_len as + 2) (v @ 34 # ys))
       = scan limit (scan_at l6 (cur + 1 + len_utf8 a + str_len as + 2 + str_len v) (34 # ys))"
    using eat_run [of DoubleQuoted "Some p" "n + 1" "\<lambda>c. c \<noteq> 34" l5 v
        "cur + 1 + len_utf8 a + str_len as + 2" limit "34 # ys"] l5(1) ok(2) room by (auto simp: eats)
  obtain l7 where l7: "sees AfterAttributeValueQuoted (Some p) (n + 1) l7"
    "scan limit (scan_at l6 (cur + 1 + len_utf8 a + str_len as + 2 + str_len v) (34 # ys))
       = scan limit (scan_at l7 (cur + 1 + len_utf8 a + str_len as + 2 + str_len v + 1) ys)"
    using eat_one [OF l6(1), of "cur + 1 + len_utf8 a + str_len as + 2 + str_len v" 34 limit AfterAttributeValueQuoted
        "Some p" "n + 1" ys] room by (auto simp: eats)
  have "scan limit (scan_at l cur (32 # a # as @ 61 # 34 # v @ 34 # ys))
      = scan limit (scan_at l7 (cur + (4 + len_utf8 a + str_len as + str_len v)) ys)"
    using l7(2) by (simp only: l1(2) l2(2) l3(2) l4(2) l5(2) l6(2)) (simp add: eval_nat_numeral ac_simps)
  then show ?thesis using l7(1) unfolding shape by blast
qed

lemma eat_attributes:
  "sees st (Some p) n l \<Longrightarrow> st \<in> {TagName, AfterAttributeValueQuoted} \<Longrightarrow> \<forall>nv\<in>set as. attribute_ok nv \<Longrightarrow>
   cur + str_len (concat (map render_attribute as)) \<le> limit \<Longrightarrow>
   \<exists>l' st'. st' \<in> {TagName, AfterAttributeValueQuoted} \<and> sees st' (Some p) (n + length as) l' \<and>
     scan limit (scan_at l cur (concat (map render_attribute as) @ ys))
       = scan limit (scan_at l' (cur + str_len (concat (map render_attribute as))) ys)"
proof (induction as arbitrary: st n l cur)
  case (Cons nv as)
  let ?rest = "concat (map render_attribute as)"
  obtain l1 where l1: "sees AfterAttributeValueQuoted (Some p) (n + 1) l1"
    "scan limit (scan_at l cur (render_attribute nv @ ?rest @ ys))
       = scan limit (scan_at l1 (cur + str_len (render_attribute nv)) (?rest @ ys))"
    using eat_attribute [OF Cons.prems(1,2), of nv cur limit "?rest @ ys"] Cons.prems(3,4) by auto
  obtain l2 st2 where "st2 \<in> {TagName, AfterAttributeValueQuoted}" "sees st2 (Some p) (n + 1 + length as) l2"
    "scan limit (scan_at l1 (cur + str_len (render_attribute nv)) (?rest @ ys))
       = scan limit (scan_at l2 (cur + str_len (render_attribute nv) + str_len ?rest) ys)"
    using Cons.IH [OF l1(1), of "cur + str_len (render_attribute nv)"] Cons.prems(3,4) by auto
  then show ?case using l1(2) by (auto simp: add.assoc)
qed auto

lemma eat_name:
  assumes "sees Data None n l" and "name_ok name"
    and "cur + str_len (uc (CHR ''<'') # (if kind = EndTag then [uc (CHR ''/'')] else []) @ name) \<le> limit"
  shows "\<exists>l'. sees TagName (Some cur) 0 l' \<and>
    scan limit (scan_at l cur (uc (CHR ''<'') # (if kind = EndTag then [uc (CHR ''/'')] else []) @ name @ ys))
      = scan limit (scan_at l' (cur + str_len (uc (CHR ''<'') # (if kind = EndTag then [uc (CHR ''/'')] else []) @ name)) ys)"
proof -
  obtain c cs where name: "name = c # cs" using assms(2) by (cases name) (auto simp: name_ok_def)
  have c: "uc_alpha c" and cs: "\<forall>c\<in>set cs. \<not> whitespace c \<and> c \<noteq> 47 \<and> c \<noteq> 62"
    using assms(2) by (auto simp: name_ok_def name)
  have other: "c \<noteq> 33" "c \<noteq> 47" "c \<noteq> 63" "c \<noteq> 62" using c by (auto simp: uc_alpha_def uc_upper_def)
  have named: "\<exists>l'. sees TagName (Some cur) 0 l' \<and>
      scan limit (scan_at l2 at (c # cs @ ys)) = scan limit (scan_at l' (at + len_utf8 c + str_len cs) ys)"
    if l2: "sees st (Some cur) n l2" and st: "st = TagOpen \<and> at = cur + 1 \<or> st = EndTagOpen \<and> at = cur + 2"
      and room: "at + len_utf8 c + str_len cs \<le> limit" for l2 st at
  proof -
    obtain l3 where l3: "sees TagName (Some cur) 0 l3"
      "scan limit (scan_at l2 at (c # cs @ ys)) = scan limit (scan_at l3 (at + len_utf8 c) (cs @ ys))"
      using eat_one [OF l2, of at c limit TagName "Some cur" 0 "cs @ ys"] st c other room by (auto simp: eats)
    then show ?thesis
      using eat_run [of TagName "Some cur" 0 "\<lambda>c. \<not> whitespace c \<and> c \<noteq> 47 \<and> c \<noteq> 62" l3 cs "at + len_utf8 c" limit ys]
        cs room by (auto simp: eats)
  qed
  have opened: "\<exists>l1. sees TagOpen (Some cur) n l1 \<and>
      scan limit (scan_at l cur (60 # zs)) = scan limit (scan_at l1 (cur + 1) zs)" for zs
    using eat_one [OF assms(1), of cur 60 limit TagOpen "Some cur" n zs] assms(3) by (auto simp: eats)
  show ?thesis
  proof (cases kind)
    case StartTag
    then show ?thesis using opened [of "c # cs @ ys"] named [of TagOpen _ "cur + 1"] assms(3)
      by (auto simp: name add.assoc)
  next
    case EndTag
    obtain l1 where l1: "sees TagOpen (Some cur) n l1"
      "scan limit (scan_at l cur (60 # 47 # c # cs @ ys)) = scan limit (scan_at l1 (cur + 1) (47 # c # cs @ ys))"
      using opened by blast
    obtain l2 where "sees EndTagOpen (Some cur) n l2"
      "scan limit (scan_at l1 (cur + 1) (47 # c # cs @ ys)) = scan limit (scan_at l2 (cur + 2) (c # cs @ ys))"
      using eat_one [OF l1(1), of "cur + 1" 47 limit EndTagOpen "Some cur" n "c # cs @ ys"] assms(3) EndTag
      by (auto simp: eats)
    then show ?thesis using l1 named [of EndTagOpen l2 "cur + 2"] assms(3) EndTag
      by (auto simp: name add.assoc)
  qed
qed

lemma str_from_append: "str_from (str_len a) (a @ b) = Some b"
  using str_from_boundary [of "length a" "a @ b"] by simp

lemma str_upto_append: "str_upto (str_len a) (a @ b) = Some a"
  using str_upto_boundary [of "length a" "a @ b"] by simp

lemma str_slice_append: "str_slice (str_len a) (str_len a + str_len b) (a @ b @ c) = Some b"
  by (simp add: str_slice_def str_from_append str_upto_append)

text \<open>
  C38: A tag written the way pages write them, its attributes in double quotes, after text
  that opens no other, is found by \<open>next_tag\<close> exactly: reported from its \<open><\<close> to just
  past its \<open>>\<close>, a slice of the input that is that tag and nothing else, with as many
  attributes as are written in it, duplicates included. A \<open>>\<close> or a \<open><\<close> in a quoted
  value does not end it early.
\<close>

theorem written_tag_is_found:
  assumes "l_input l = before @ prose @ render_tag kind name as @ ys" and "l_position l = str_len before"
    and "l_state l = Data" and "l_open l = None"
    and "uc (CHR ''<'') \<notin> set prose" and "name_ok name" and "\<forall>nv\<in>set as. attribute_ok nv"
    and "str_len (before @ prose @ render_tag kind name as) \<le> limit"
  shows "\<exists>l' f. next_tag limit l = Some (l', ScanTag f)
    \<and> f_start f = str_len (before @ prose) \<and> f_end f = str_len (before @ prose @ render_tag kind name as)
    \<and> str_slice (f_start f) (f_end f) (l_input l) = Some (render_tag kind name as)
    \<and> f_attributes f = length as"
proof -
  let ?n = "l_attributes l" and ?attrs = "concat (map render_attribute as)"
  let ?head = "uc (CHR ''<'') # (if kind = EndTag then [uc (CHR ''/'')] else []) @ name"
  have tag: "render_tag kind name as = ?head @ ?attrs @ [62]" by (simp add: render_tag_def)
  let ?p = "str_len before" let ?q = "?p + str_len prose" let ?r = "?q + str_len ?head"
  let ?e = "?r + str_len ?attrs"
  have room: "?e + 1 \<le> limit" using assms(8) unfolding tag by (simp only: str_len_simps one_byte)
  obtain l1 where l1: "sees Data None ?n l1"
    "scan limit (scan_at l ?p (prose @ ?head @ ?attrs @ 62 # ys)) = scan limit (scan_at l1 ?q (?head @ ?attrs @ 62 # ys))"
    using eat_run [of Data None ?n "\<lambda>c. c \<noteq> 60" l prose ?p limit "?head @ ?attrs @ 62 # ys"] assms(3-5) room
    by (auto simp: eats)
  obtain l2 where l2: "sees TagName (Some ?q) 0 l2"
    "scan limit (scan_at l1 ?q (?head @ ?attrs @ 62 # ys)) = scan limit (scan_at l2 ?r (?attrs @ 62 # ys))"
    using eat_name [OF l1(1) assms(6), of ?q kind limit "?attrs @ 62 # ys"] room by fastforce
  obtain l3 st where l3: "st \<in> {TagName, AfterAttributeValueQuoted}" "sees st (Some ?q) (length as) l3"
    "scan limit (scan_at l2 ?r (?attrs @ 62 # ys)) = scan limit (scan_at l3 ?e (62 # ys))"
    using eat_attributes [OF l2(1) _ assms(7), of ?r limit "62 # ys"] room by auto
  let ?f = "\<lparr>f_start = ?q, f_end = ?e + 1, f_attributes = length as\<rparr>"
  have "\<exists>l'. turn limit (scan_at l3 ?e (62 # ys)) = Inr (l', ScanTag ?f)"
    using l3(1,2) room by (auto simp: turn_def consume_def eats)
  then obtain l' where "scan limit (scan_at l ?p (prose @ ?head @ ?attrs @ 62 # ys)) = (l', ScanTag ?f)"
    unfolding l1(2) l2(2) l3(3) using scan_turn(2) by blast
  then have "next_tag limit l = Some (l', ScanTag ?f)"
    using assms(1,2) str_from_append [of before "prose @ render_tag kind name as @ ys"]
    by (simp add: next_tag_def tag)
  moreover have "str_len (render_tag kind name as) = str_len ?head + str_len ?attrs + 1" unfolding tag by simp
  ultimately show ?thesis
    using assms(1) str_slice_append [of "before @ prose" "render_tag kind name as" ys] by (simp add: add.assoc)
qed

theorem written_tag_is_found_witness:
  "\<exists>l' f. next_tag 99 (lookahead_new (map uc ''1 > 0 <a x='' @ [34] @ map uc ''<b>'' @ [34] @ map uc ''>ok''))
       = Some (l', ScanTag f)
    \<and> f_start f = 6 \<and> f_end f = 17 \<and> f_attributes f = 1"
  using written_tag_is_found [of "lookahead_new (map uc ''1 > 0 <a x='' @ [34] @ map uc ''<b>'' @ [34] @ map uc ''>ok'')"
      "[]" "map uc ''1 > 0 ''" StartTag "map uc ''a''" "[(map uc ''x'', map uc ''<b>'')]" "map uc ''ok''" 99]
  by (auto simp: lookahead_new_def render_tag_def render_attribute_def name_ok_def attribute_ok_def
      uc_alpha_def uc_upper_def whitespace_def len_utf8_def)

end
