(* ===== verification/Page_Budget.thy ===== *)
theory Page_Budget
  imports Tags
begin

text \<open>
  The rest of \<open>crates/syndeo-dom/src/budget.rs\<close>: the meter, the gate between html5ever's
  tokenizer and its tree builder, the tree that charges each change for what it walks, and
  the loop of \<open>parse\<close>.

  html5ever and its tree are the record \<open>html5ever\<close>. They call back into the source, so
  what they do is a tree of calls: \<open>talk\<close> is what the tokenizer asks of its sink while it
  is fed, \<open>building\<close> what the tree builder does to the tree for one token, each going on
  with the answer it gets. Both are finite: a call of html5ever's returns.
\<close>

subsection \<open>The meter\<close>

record meter =
  m_budget :: nat
  m_charged :: nat
  m_refused :: bool

definition meter_new :: "nat \<Rightarrow> meter" where
  "meter_new budget = \<lparr> m_budget = budget, m_charged = 0, m_refused = False \<rparr>"

definition afford :: "nat \<Rightarrow> meter \<Rightarrow> meter \<times> bool" where
  "afford units m =
     (let charged = sat_add (m_charged m) units
      in if m_budget m < charged \<or> m_refused m then (m\<lparr>m_refused := True\<rparr>, False)
         else (m\<lparr>m_charged := charged\<rparr>, True))"

definition charge :: "nat \<Rightarrow> meter \<Rightarrow> meter" where
  "charge units m = m\<lparr>m_charged := sat_add (m_charged m) units\<rparr>"

definition spent :: "meter \<Rightarrow> bool" where
  "spent m \<longleftrightarrow> m_refused m \<or> m_budget m < m_charged m"

definition remaining :: "meter \<Rightarrow> nat" where
  "remaining m = (if m_refused m then 0 else m_budget m - m_charged m)"

definition WORK_BUDGET :: nat where
  "WORK_BUDGET = 2 ^ 27"

definition attribute_cost :: "nat \<Rightarrow> nat" where
  "attribute_cost n = min (n * (n - 1)) u64_max div 2 + n"

subsection \<open>The tree\<close>

text \<open>What the source reads of the tree: parents that are still there, children, attributes.\<close>

record 'n dom_view =
  d_parent :: "'n \<Rightarrow> 'n option"
  d_children :: "'n \<Rightarrow> 'n list"
  d_attributes :: "'n \<Rightarrow> nat option"

datatype 'n node_or_text = AppendNode 'n | AppendText

datatype 'n tree_op =
    CreateElement nat
  | CreateComment
  | CreatePi
  | AppendChild 'n "'n node_or_text"
  | AppendBasedOnParentNode 'n 'n "'n node_or_text"
  | AppendDoctype
  | AppendBeforeSibling 'n "'n node_or_text"
  | AddAttrsIfMissing 'n nat
  | RemoveFromParent 'n
  | ReparentChildren 'n 'n
  | CloneOption 'n
  | Uncharged

definition siblings :: "'n dom_view \<Rightarrow> 'n \<Rightarrow> nat" where
  "siblings d n = (case d_parent d n of None \<Rightarrow> 0 | Some p \<Rightarrow> length (d_children d p))"

fun moved :: "'n dom_view \<Rightarrow> 'n node_or_text \<Rightarrow> nat" where
  "moved d (AppendNode n) = siblings d n"
| "moved d AppendText = 0"

text \<open>The two loops of \<open>extent\<close>: down a stack of nodes, and up the parents.\<close>

partial_function (option) count_below :: "'n dom_view \<Rightarrow> 'n list \<Rightarrow> nat \<Rightarrow> nat option" where
  "count_below d stack count =
     (if stack = [] then Some count
      else count_below d (butlast stack @ d_children d (last stack)) (count + 1))"

partial_function (option) count_above :: "'n dom_view \<Rightarrow> 'n option \<Rightarrow> nat \<Rightarrow> nat option" where
  "count_above d up count =
     (case up of None \<Rightarrow> Some count | Some p \<Rightarrow> count_above d (d_parent d p) (count + 1))"

definition extent :: "'n dom_view \<Rightarrow> 'n \<Rightarrow> nat option" where
  "extent d n = Option.bind (count_below d [n] 0) (count_above d (d_parent d n))"

fun op_cost :: "'n dom_view \<Rightarrow> 'n tree_op \<Rightarrow> nat option" where
  "op_cost d (CreateElement attrs) = Some (1 + attrs)"
| "op_cost d CreateComment = Some 1"
| "op_cost d CreatePi = Some 1"
| "op_cost d (AppendChild parent child) = Some 1"
| "op_cost d (AppendBasedOnParentNode element prev child) = Some (1 + siblings d element + moved d child)"
| "op_cost d AppendDoctype = Some 1"
| "op_cost d (AppendBeforeSibling sibling new) = Some (1 + siblings d sibling + moved d new)"
| "op_cost d (AddAttrsIfMissing target attrs) =
     Some (1 + 4 * (case d_attributes d target of Some n \<Rightarrow> n | None \<Rightarrow> 0) + attrs)"
| "op_cost d (RemoveFromParent target) = Some (1 + siblings d target)"
| "op_cost d (ReparentChildren node new_parent) = Some (1 + length (d_children d node))"
| "op_cost d (CloneOption n) = map_option Suc (extent d n)"
| "op_cost d Uncharged = Some 0"

subsection \<open>html5ever\<close>

datatype token = TagToken tag_kind utext nat | EOFToken | OtherToken

datatype sink_result = SinkContinue | SinkRawData raw_kind | SinkPlaintext | SinkOther

datatype 'k talk = Quiet 'k | Give token "sink_result \<Rightarrow> 'k talk" | AskForeign "bool \<Rightarrow> 'k talk"

datatype ('n, 'd, 'b) building = Built 'b sink_result | Change "'n tree_op" "'d \<Rightarrow> ('n, 'd, 'b) building"

record ('k, 'n, 'd, 'b) html5ever =
  tok_new :: 'k
  tok_feed :: "utext \<Rightarrow> 'k \<Rightarrow> 'k talk"
  tok_end :: "'k \<Rightarrow> 'k talk"
  tb_new :: 'b
  tb_token :: "token \<Rightarrow> 'b \<Rightarrow> 'd \<Rightarrow> ('n, 'd, 'b) building"
  tb_end :: "'b \<Rightarrow> 'd \<Rightarrow> ('n, 'd, 'b) building"
  tb_held :: "'b \<Rightarrow> nat"
  tb_foreign :: "'b \<Rightarrow> 'd \<Rightarrow> bool"
  dom_new :: 'd
  dom_change :: "'n tree_op \<Rightarrow> 'd \<Rightarrow> 'd"
  dom_view :: "'d \<Rightarrow> 'n dom_view"

subsection \<open>The gate\<close>

record ('d, 'b) gate =
  g_builder :: 'b
  g_dom :: 'd
  g_meter :: meter
  g_last_tag :: "emitted option"

text \<open>\<open>Metered\<close>: every change is charged for, then made. \<open>None\<close> is a walk that does not end.\<close>

primrec run_building ::
    "('k, 'n, 'd, 'b) html5ever \<Rightarrow> ('n, 'd, 'b) building \<Rightarrow> 'd \<Rightarrow> meter \<Rightarrow> ('b \<times> sink_result \<times> 'd \<times> meter) option" where
  "run_building H (Built b r) d m = Some (b, r, d, m)"
| "run_building H (Change change k) d m =
     (case op_cost (dom_view H d) change of
        None \<Rightarrow> None
      | Some units \<Rightarrow>
          let d' = dom_change H change d in run_building H (k d') d' (charge units m))"

definition give_token ::
    "('k, 'n, 'd, 'b) html5ever \<Rightarrow> token \<Rightarrow> ('d, 'b) gate \<Rightarrow> (sink_result \<times> ('d, 'b) gate) option" where
  "give_token H t g =
     (case run_building H (tb_token H t (g_builder g) (g_dom g)) (g_dom g) (g_meter g) of
        None \<Rightarrow> None
      | Some (b, r, d, m) \<Rightarrow>
          Some (r, g\<lparr>g_builder := b, g_dom := d, g_meter := m,
            g_last_tag :=
              (case t of
                 TagToken kind name _ \<Rightarrow>
                   Some \<lparr> em_kind = kind, em_name = name,
                     em_next = (case r of SinkRawData k \<Rightarrow> NextRaw k | SinkPlaintext \<Rightarrow> NextPlaintext | _ \<Rightarrow> NextData) \<rparr>
               | _ \<Rightarrow> g_last_tag g)\<rparr>))"

definition token_attributes :: "token \<Rightarrow> nat" where
  "token_attributes t = (case t of TagToken _ _ n \<Rightarrow> n | _ \<Rightarrow> 0)"

definition process_token ::
    "('k, 'n, 'd, 'b) html5ever \<Rightarrow> token \<Rightarrow> ('d, 'b) gate \<Rightarrow> (sink_result \<times> ('d, 'b) gate) option" where
  "process_token H t g =
     (if spent (g_meter g) \<and> t \<noteq> EOFToken then Some (SinkContinue, g)
      else
        let cost = 1 + tb_held H (g_builder g) + token_attributes t
        in if t = EOFToken then give_token H t (g\<lparr>g_meter := charge cost (g_meter g)\<rparr>)
           else case afford cost (g_meter g) of
             (m, False) \<Rightarrow> Some (SinkContinue, g\<lparr>g_meter := m\<rparr>)
           | (m, True) \<Rightarrow> give_token H t (g\<lparr>g_meter := m\<rparr>))"

definition gate_foreign :: "('k, 'n, 'd, 'b) html5ever \<Rightarrow> ('d, 'b) gate \<Rightarrow> bool" where
  "gate_foreign H g = tb_foreign H (g_builder g) (g_dom g)"

definition gate_end :: "('k, 'n, 'd, 'b) html5ever \<Rightarrow> ('d, 'b) gate \<Rightarrow> ('d, 'b) gate option" where
  "gate_end H g =
     (case run_building H (tb_end H (g_builder g) (g_dom g)) (g_dom g) (g_meter g) of
        None \<Rightarrow> None
      | Some (b, r, d, m) \<Rightarrow> Some (g\<lparr>g_builder := b, g_dom := d, g_meter := m\<rparr>))"

primrec run_talk :: "('k, 'n, 'd, 'b) html5ever \<Rightarrow> 'k talk \<Rightarrow> ('d, 'b) gate \<Rightarrow> ('k \<times> ('d, 'b) gate) option" where
  "run_talk H (Quiet k) g = Some (k, g)"
| "run_talk H (Give t f) g =
     (case process_token H t g of None \<Rightarrow> None | Some (r, g') \<Rightarrow> run_talk H (f r) g')"
| "run_talk H (AskForeign f) g = run_talk H (f (gate_foreign H g)) g"

subsection \<open>The parse\<close>

text \<open>The variables of the loop of \<open>parse\<close>.\<close>

record ('k, 'd, 'b) parsing =
  p_tok :: 'k
  p_gate :: "('d, 'b) gate"
  p_ahead :: lookahead
  p_parsed :: nat
  p_given :: nat

definition feed_html ::
    "('k, 'n, 'd, 'b) html5ever \<Rightarrow> utext \<Rightarrow> ('k, 'd, 'b) parsing \<Rightarrow> ('k, 'd, 'b) parsing option" where
  "feed_html H input p =
     (if input = [] then Some p
      else case run_talk H (tok_feed H input (p_tok p)) (p_gate p) of
        None \<Rightarrow> None
      | Some (k, g) \<Rightarrow> Some (p\<lparr>p_tok := k, p_gate := g\<rparr>))"

text \<open>\<open>feed(&html[given..to])\<close> and \<open>given = to\<close>; a bad slice panics.\<close>

definition feed_to ::
    "('k, 'n, 'd, 'b) html5ever \<Rightarrow> utext \<Rightarrow> nat \<Rightarrow> ('k, 'd, 'b) parsing \<Rightarrow> ('k, 'd, 'b) parsing option" where
  "feed_to H html stop p =
     Option.bind (str_slice (p_given p) stop html)
       (\<lambda>piece. map_option (\<lambda>p. p\<lparr>p_given := stop\<rparr>) (feed_html H piece p))"

definition gate_meter :: "(meter \<Rightarrow> meter) \<Rightarrow> ('k, 'd, 'b) parsing \<Rightarrow> ('k, 'd, 'b) parsing" where
  "gate_meter f p = p\<lparr>p_gate := (p_gate p)\<lparr>g_meter := f (g_meter (p_gate p))\<rparr>\<rparr>"

abbreviation page_meter :: "('k, 'd, 'b) parsing \<Rightarrow> meter" where
  "page_meter p \<equiv> g_meter (p_gate p)"

text \<open>What ends the loop: the state it leaves, and where the page was cut.\<close>

type_synonym ('k, 'd, 'b) page_cut = "('k, 'd, 'b) parsing \<times> nat option"

text \<open>What the loop does with the tag, once what comes before it is parsed.\<close>

definition parse_tag ::
    "('k, 'n, 'd, 'b) html5ever \<Rightarrow> utext \<Rightarrow> bool \<Rightarrow> nat \<Rightarrow> nat \<Rightarrow> nat \<Rightarrow> ('k, 'd, 'b) parsing
      \<Rightarrow> (('k, 'd, 'b) parsing + ('k, 'd, 'b) page_cut) option" where
  "parse_tag H html tagged start stop attributes p =
     (let p = p\<lparr>p_parsed := start\<rparr>; (m, affordable) = afford (attribute_cost attributes) (page_meter p);
          p = gate_meter (\<lambda>_. m) p
      in if \<not> affordable then Some (Inr (p, Some (p_parsed p)))
         else case feed_to H html stop p of
             None \<Rightarrow> None
           | Some p \<Rightarrow>
               if spent (page_meter p) then Some (Inr (p, Some (p_parsed p)))
               else
                 let p = p\<lparr>p_parsed := stop\<rparr>
                 in if \<not> tagged then Some (Inr (p, None))
                    else case g_last_tag (p_gate p) of
                        None \<Rightarrow> Some (Inl p)
                      | Some e \<Rightarrow> Some (Inl (p\<lparr>p_ahead := follow e (p_ahead p),
                          p_gate := (p_gate p)\<lparr>g_last_tag := None\<rparr>\<rparr>)))"

definition parse_step ::
    "('k, 'n, 'd, 'b) html5ever \<Rightarrow> utext \<Rightarrow> ('k, 'd, 'b) parsing
      \<Rightarrow> (('k, 'd, 'b) parsing + ('k, 'd, 'b) page_cut) option" where
  "parse_step H html p =
     (let ahead = (p_ahead p)\<lparr>l_foreign := gate_foreign H (p_gate p)\<rparr>;
          start = l_position ahead;
          limit = sat_add start (min (remaining (page_meter p)) u64_max)
      in case next_tag limit ahead of
           None \<Rightarrow> None
         | Some (ahead, result) \<Rightarrow>
             let p = gate_meter (charge (l_position ahead - start)) (p\<lparr>p_ahead := ahead\<rparr>)
             in if result = ScanLimit then
                  let stop = (case l_open ahead of Some s \<Rightarrow> s | None \<Rightarrow> l_position ahead)
                  in case feed_to H html stop p of
                       None \<Rightarrow> None
                     | Some p \<Rightarrow> Some (Inr (p, Some (if spent (page_meter p) then p_parsed p else stop)))
                else
                  let (tagged, start, stop, attributes) =
                        (case result of
                           ScanTag f \<Rightarrow> (True, f_start f, f_end f, f_attributes f)
                         | _ \<Rightarrow> (False, case l_open ahead of Some s \<Rightarrow> s | None \<Rightarrow> str_len html,
                                  str_len html, l_attributes ahead))
                  in case feed_to H html start p of
                       None \<Rightarrow> None
                     | Some p \<Rightarrow>
                         if spent (page_meter p) then Some (Inr (p, Some (p_parsed p)))
                         else parse_tag H html tagged start stop attributes p)"

partial_function (option) parse_loop ::
    "('k, 'n, 'd, 'b) html5ever \<Rightarrow> utext \<Rightarrow> ('k, 'd, 'b) parsing \<Rightarrow> ('k, 'd, 'b) page_cut option" where
  "parse_loop H html p =
     (case parse_step H html p of
        None \<Rightarrow> None
      | Some (Inl p') \<Rightarrow> parse_loop H html p'
      | Some (Inr r) \<Rightarrow> Some r)"

definition parse_new :: "('k, 'n, 'd, 'b) html5ever \<Rightarrow> utext \<Rightarrow> nat \<Rightarrow> ('k, 'd, 'b) parsing" where
  "parse_new H html budget =
     \<lparr> p_tok = tok_new H,
       p_gate = \<lparr> g_builder = tb_new H, g_dom = dom_new H, g_meter = meter_new budget, g_last_tag = None \<rparr>,
       p_ahead = lookahead_new html, p_parsed = 0, p_given = 0 \<rparr>"

text \<open>\<open>tokenizer.end()\<close>, then the end of the tree builder.\<close>

definition end_page :: "('k, 'n, 'd, 'b) html5ever \<Rightarrow> ('k, 'd, 'b) parsing \<Rightarrow> ('k, 'd, 'b) parsing option" where
  "end_page H p =
     Option.bind (run_talk H (tok_end H (p_tok p)) (p_gate p))
       (\<lambda>(k, g). map_option (\<lambda>g. p\<lparr>p_tok := k, p_gate := g\<rparr>) (gate_end H g))"

text \<open>\<open>parse\<close>: the page as it was left, its tree in the gate, and where it was cut.\<close>

definition parse_page ::
    "('k, 'n, 'd, 'b) html5ever \<Rightarrow> utext \<Rightarrow> nat \<Rightarrow> ('k, 'd, 'b) page_cut option" where
  "parse_page H html budget =
     Option.bind (parse_loop H html (parse_new H html budget))
       (\<lambda>(p, cut_at). map_option (\<lambda>p. (p, cut_at)) (end_page H p))"

record cut_short =
  cs_parsed :: nat
  cs_of :: nat

text \<open>\<open>Document::parse_within\<close>, without the base address: the tree and what is cut short.\<close>

definition parse_within ::
    "('k, 'n, 'd, 'b) html5ever \<Rightarrow> utext \<Rightarrow> nat \<Rightarrow> ('d \<times> cut_short option) option" where
  "parse_within H html budget =
     map_option (\<lambda>(p, cut_at). (g_dom (p_gate p),
         map_option (\<lambda>n. \<lparr> cs_parsed = n, cs_of = str_len html \<rparr>) cut_at))
       (parse_page H html budget)"

end
