(* ===== verification/Page_Work.thy ===== *)
theory Page_Work
  imports Page_Budget
begin

text \<open>
  What the budget of \<open>parse\<close> bounds, and what a page parsed within it is: the parse always
  returns and stops between two characters, its work passes the budget by no more than one
  token's worth, and when the budget was never spent the tree is the one html5ever builds
  with no budget at all.
\<close>

subsection \<open>How much html5ever does\<close>

text \<open>
  The states of the tree builder and its tree a page can reach, and the most one call costs
  in them: \<open>reach\<close> holds at the start and is kept, and \<open>most\<close> bounds the changes one
  token makes and the elements held. How large \<open>most\<close> is depends on the page.
\<close>

primrec building_within ::
    "('k, 'n, 'd, 'b) html5ever \<Rightarrow> ('b \<Rightarrow> 'd \<Rightarrow> bool) \<Rightarrow> ('n, 'd, 'b) building \<Rightarrow> 'd \<Rightarrow> nat \<Rightarrow> bool" where
  "building_within H reach (Built b r) d most \<longleftrightarrow> reach b d"
| "building_within H reach (Change change k) d most \<longleftrightarrow>
     (case op_cost (dom_view H d) change of
        None \<Rightarrow> False
      | Some units \<Rightarrow> units \<le> most \<and>
          building_within H reach (k (dom_change H change d)) (dom_change H change d) (most - units))"

primrec eofs_within :: "'k talk \<Rightarrow> nat \<Rightarrow> bool" where
  "eofs_within (Quiet k) n \<longleftrightarrow> True"
| "eofs_within (Give t f) n \<longleftrightarrow>
     (if t = EOFToken then 0 < n \<and> (\<forall>r. eofs_within (f r) (n - 1)) else (\<forall>r. eofs_within (f r) n))"
| "eofs_within (AskForeign f) n \<longleftrightarrow> (\<forall>b. eofs_within (f b) n)"

definition works_within :: "('k, 'n, 'd, 'b) html5ever \<Rightarrow> ('b \<Rightarrow> 'd \<Rightarrow> bool) \<Rightarrow> nat \<Rightarrow> bool" where
  "works_within H reach most \<longleftrightarrow>
     reach (tb_new H) (dom_new H) \<and>
     (\<forall>b d. reach b d \<longrightarrow> tb_held H b \<le> most \<and> building_within H reach (tb_end H b d) d most
       \<and> (\<forall>t. building_within H reach (tb_token H t b d) d most)) \<and>
     (\<forall>s k. eofs_within (tok_feed H s k) 0) \<and> (\<forall>k. eofs_within (tok_end H k) 1)"

definition gate_ok ::
    "('k, 'n, 'd, 'b) html5ever \<Rightarrow> ('b \<Rightarrow> 'd \<Rightarrow> bool) \<Rightarrow> nat \<Rightarrow> nat \<Rightarrow> ('d, 'b) gate \<Rightarrow> bool" where
  "gate_ok H reach budget over g \<longleftrightarrow>
     reach (g_builder g) (g_dom g) \<and> m_budget (g_meter g) = budget \<and> m_charged (g_meter g) \<le> budget + over"

lemma sat_add_le: "sat_add a b \<le> a + b"
  by (simp add: sat_add_def)

lemma afford_cases:
  "afford u m = (m', ok) \<Longrightarrow> m_budget m' = m_budget m \<and>
     (ok \<longrightarrow> m_charged m' = sat_add (m_charged m) u \<and> m_charged m' \<le> m_budget m \<and> \<not> m_refused m') \<and>
     (\<not> ok \<longrightarrow> m_charged m' = m_charged m \<and> m_refused m')"
  by (auto simp: afford_def sat_add_def Let_def split: if_splits)

lemma run_building_within:
  "building_within H reach bld d most \<Longrightarrow>
   \<exists>b r d' m'. run_building H bld d m = Some (b, r, d', m') \<and> reach b d' \<and> m_budget m' = m_budget m
     \<and> m_refused m' = m_refused m \<and> m_charged m' \<le> m_charged m + most"
proof (induction bld arbitrary: d m most)
  case (Change change k)
  let ?d = "dom_change H change d"
  obtain u where u: "op_cost (dom_view H d) change = Some u" "u \<le> most" "building_within H reach (k ?d) ?d (most - u)"
    using Change.prems by (auto split: option.splits)
  obtain b r d' m' where "run_building H (k ?d) ?d (charge u m) = Some (b, r, d', m')" "reach b d'"
    "m_budget m' = m_budget (charge u m)" "m_refused m' = m_refused (charge u m)"
    "m_charged m' \<le> m_charged (charge u m) + (most - u)"
    using Change.IH [OF _ u(3), of "charge u m"] by blast
  moreover have "m_charged (charge u m) \<le> m_charged m + u" by (simp add: charge_def sat_add_le)
  ultimately show ?case using u by (auto simp: charge_def Let_def)
qed simp

lemma give_token_within:
  assumes "works_within H reach most" and "gate_ok H reach budget over g"
  shows "\<exists>r g'. give_token H t g = Some (r, g') \<and> reach (g_builder g') (g_dom g')
    \<and> m_budget (g_meter g') = budget \<and> m_charged (g_meter g') \<le> m_charged (g_meter g) + most"
proof -
  have "building_within H reach (tb_token H t (g_builder g) (g_dom g)) (g_dom g) most"
    using assms by (simp add: works_within_def gate_ok_def)
  from run_building_within [OF this, of "g_meter g"] show ?thesis
    using assms(2) by (auto simp: give_token_def gate_ok_def)
qed

lemma process_token_within:
  assumes W: "works_within H reach most" and g: "gate_ok H reach budget over g" and over: "most \<le> over"
    and "t \<noteq> EOFToken"
  shows "\<exists>r g'. process_token H t g = Some (r, g') \<and> gate_ok H reach budget over g'"
proof (cases "spent (g_meter g)")
  case True
  then show ?thesis using g assms(4) by (simp add: process_token_def)
next
  case False
  let ?u = "1 + tb_held H (g_builder g) + token_attributes t"
  obtain m ok where a: "afford ?u (g_meter g) = (m, ok)" by fastforce
  let ?g = "g\<lparr>g_meter := m\<rparr>"
  have ok: "gate_ok H reach budget over ?g" using afford_cases [OF a] g by (auto simp: gate_ok_def)
  show ?thesis
  proof (cases ok)
    case True
    have "m_charged m \<le> budget" using afford_cases [OF a] True g by (auto simp: gate_ok_def)
    then show ?thesis using give_token_within [OF W ok, of t] True False a over assms(4)
      by (auto simp: process_token_def gate_ok_def Let_def)
  qed (use False a ok assms(4) in \<open>auto simp: process_token_def Let_def\<close>)
qed

lemma process_eof_within:
  assumes W: "works_within H reach most" and g: "gate_ok H reach budget over g"
  shows "\<exists>r g'. process_token H EOFToken g = Some (r, g') \<and> gate_ok H reach budget (over + 1 + 2 * most) g'"
proof -
  let ?u = "1 + tb_held H (g_builder g)" let ?g = "g\<lparr>g_meter := charge ?u (g_meter g)\<rparr>"
  have "tb_held H (g_builder g) \<le> most" using W g unfolding works_within_def gate_ok_def by blast
  then have c: "m_charged (g_meter ?g) \<le> budget + (over + 1 + most)"
    using g sat_add_le [of "m_charged (g_meter g)" ?u] by (simp add: charge_def gate_ok_def)
  have ok: "gate_ok H reach budget (over + 1 + most) ?g" using g c by (simp add: gate_ok_def charge_def)
  show ?thesis using give_token_within [OF W ok, of EOFToken] c
    by (fastforce simp: process_token_def token_attributes_def gate_ok_def Let_def)
qed

lemma run_talk_within:
  assumes W: "works_within H reach most"
  shows "eofs_within tk n \<Longrightarrow> gate_ok H reach budget over g \<Longrightarrow> most \<le> over \<Longrightarrow>
    \<exists>k g'. run_talk H tk g = Some (k, g') \<and> gate_ok H reach budget (over + n * (1 + 2 * most)) g'"
proof (induction tk arbitrary: g over n)
  case (Quiet k)
  then show ?case by (auto simp: gate_ok_def)
next
  case (AskForeign f)
  then show ?case by auto
next
  case (Give t f)
  show ?case
  proof (cases "t = EOFToken")
    case True
    then obtain n' where n: "n = Suc n'" "\<forall>r. eofs_within (f r) n'" using Give.prems(1) by (cases n) auto
    obtain r g' where g': "process_token H t g = Some (r, g')" "gate_ok H reach budget (over + 1 + 2 * most) g'"
      using process_eof_within [OF W Give.prems(2)] True by blast
    then show ?thesis using Give.IH [OF _ spec [OF n(2), of r] g'(2)] Give.prems(3) n(1) by (simp add: ac_simps)
  next
    case False
    obtain r g' where g': "process_token H t g = Some (r, g')" "gate_ok H reach budget over g'"
      using process_token_within [OF W Give.prems(2,3) False] by blast
    moreover have "eofs_within (f r) n" using Give.prems(1) False by simp
    ultimately show ?thesis using Give.IH [OF _ _ g'(2) Give.prems(3), of "f r" n] by auto
  qed
qed

subsection \<open>One round of the loop\<close>

lemma ready_follow: "ready html l \<Longrightarrow> ready html (follow e l)"
  by (auto simp: ready_def follow_def Let_def split: next_state.split)

lemma ready_foreign: "ready html l \<Longrightarrow> ready html (l\<lparr>l_foreign := b\<rparr>)"
  by (simp add: ready_def)

lemma slice_ok:
  assumes "boundary s a" and "boundary s b" and "a \<le> b"
  shows "str_slice a b s \<noteq> None"
proof -
  obtain i j where ij: "a = str_len (take i s)" "b = str_len (take j s)" using assms by (auto simp: boundary_def)
  have rest: "str_from a s = Some (drop i s)" using ij by (simp add: str_from_boundary)
  show ?thesis
  proof (cases "j \<le> i")
    case True
    then have "str_len (take j s) \<le> str_len (take i s)"
      using take_drop_str_len [of j s "i - j"] by simp
    then have "b - a = 0" using ij by simp
    then show ?thesis using rest assms(3) by (simp add: str_slice_def)
  next
    case False
    then have "b - a = str_len (take (j - i) (drop i s))" using ij take_drop_str_len [of i s "j - i"] by simp
    then show ?thesis using rest assms(3) by (simp add: str_slice_def str_upto_boundary)
  qed
qed

text \<open>What holds whenever the loop starts over.\<close>

definition page_inv ::
    "('k, 'n, 'd, 'b) html5ever \<Rightarrow> ('b \<Rightarrow> 'd \<Rightarrow> bool) \<Rightarrow> utext \<Rightarrow> nat \<Rightarrow> nat \<Rightarrow> ('k, 'd, 'b) parsing \<Rightarrow> bool" where
  "page_inv H reach html budget most p \<longleftrightarrow>
     ready html (p_ahead p) \<and> p_parsed p = l_position (p_ahead p) \<and> p_given p = l_position (p_ahead p) \<and>
     gate_ok H reach budget (max 6 most) (p_gate p) \<and> \<not> spent (page_meter p)"

text \<open>Where a page may be said to be cut: between characters, in what was given.\<close>

definition cut_ok :: "utext \<Rightarrow> ('k, 'd, 'b) page_cut \<Rightarrow> bool" where
  "cut_ok html r \<longleftrightarrow>
     (case snd r of
        None \<Rightarrow> p_given (fst r) = str_len html \<and> p_parsed (fst r) = str_len html
      | Some n \<Rightarrow> boundary html n \<and> p_parsed (fst r) \<le> n \<and> n \<le> p_given (fst r) \<and> p_given (fst r) \<le> str_len html)"

lemma feed_to_within:
  assumes W: "works_within H reach most" and "gate_ok H reach budget over (p_gate p)" and "most \<le> over"
    and "boundary html (p_given p)" and "boundary html stop" and "p_given p \<le> stop"
  shows "\<exists>k g. feed_to H html stop p = Some (p\<lparr>p_tok := k, p_gate := g, p_given := stop\<rparr>)
    \<and> gate_ok H reach budget over g"
proof -
  obtain piece where piece: "str_slice (p_given p) stop html = Some piece" using slice_ok [OF assms(4,5,6)] by blast
  have "eofs_within (tok_feed H piece (p_tok p)) 0" using W by (simp add: works_within_def)
  from run_talk_within [OF W this assms(2,3)]
  obtain k g where kg: "run_talk H (tok_feed H piece (p_tok p)) (p_gate p) = Some (k, g)" "gate_ok H reach budget over g"
    by auto
  show ?thesis
  proof (cases "piece = []")
    case True
    then show ?thesis using piece assms(2)
      by (auto simp: feed_to_def feed_html_def intro!: exI [of _ "p_tok p"] exI [of _ "p_gate p"])
  next
    case False
    then show ?thesis using piece kg by (auto simp: feed_to_def feed_html_def)
  qed
qed

definition step_ok ::
    "('k, 'n, 'd, 'b) html5ever \<Rightarrow> ('b \<Rightarrow> 'd \<Rightarrow> bool) \<Rightarrow> utext \<Rightarrow> nat \<Rightarrow> nat \<Rightarrow> nat
      \<Rightarrow> (('k, 'd, 'b) parsing + ('k, 'd, 'b) page_cut) option \<Rightarrow> bool" where
  "step_ok H reach html budget most base r \<longleftrightarrow>
     (case r of
        None \<Rightarrow> False
      | Some (Inl p) \<Rightarrow> page_inv H reach html budget most p \<and> base < p_given p
      | Some (Inr (p, cut_at)) \<Rightarrow> gate_ok H reach budget (max 6 most) (p_gate p) \<and> cut_ok html (p, cut_at))"

lemma gate_ok_afford:
  "gate_ok H reach budget over g \<Longrightarrow> afford u (g_meter g) = (m, ok) \<Longrightarrow> gate_ok H reach budget over (g\<lparr>g_meter := m\<rparr>)"
  using afford_cases [of u "g_meter g" m ok] by (cases ok) (auto simp: gate_ok_def)

lemma parse_tag_ok:
  assumes W: "works_within H reach most" and g: "gate_ok H reach budget (max 6 most) (p_gate p)"
    and b: "boundary html start" "boundary html stop" "start \<le> stop" "p_given p = start"
    and tagged: "tagged \<Longrightarrow> ready html (p_ahead p) \<and> l_position (p_ahead p) = stop \<and> base < stop"
    and last_piece: "\<not> tagged \<Longrightarrow> stop = str_len html"
  shows "step_ok H reach html budget most base (parse_tag H html tagged start stop attributes p)"
proof -
  obtain m ok where a: "afford (attribute_cost attributes) (page_meter p) = (m, ok)" by fastforce
  let ?p = "gate_meter (\<lambda>_. m) (p\<lparr>p_parsed := start\<rparr>)"
  have g1: "gate_ok H reach budget (max 6 most) (p_gate ?p)"
    using gate_ok_afford [OF g a] by (simp add: gate_meter_def)
  have le: "start \<le> str_len html" "stop \<le> str_len html" using b boundary_le by auto
  show ?thesis
  proof (cases ok)
    case False
    then show ?thesis using a g1 b le
      by (simp add: parse_tag_def Let_def step_ok_def cut_ok_def gate_meter_def)
  next
    case True
    obtain k g where f: "feed_to H html stop ?p = Some (?p\<lparr>p_tok := k, p_gate := g, p_given := stop\<rparr>)"
      "gate_ok H reach budget (max 6 most) g"
      using feed_to_within [OF W g1, of html stop] b by (auto simp: gate_meter_def)
    let ?q = "p\<lparr>p_parsed := start, p_tok := k, p_gate := g, p_given := stop\<rparr>"
    have q: "parse_tag H html tagged start stop attributes p
        = (if spent (g_meter g) then Some (Inr (?q, Some start))
           else if \<not> tagged then Some (Inr (?q\<lparr>p_parsed := stop\<rparr>, None))
           else case g_last_tag g of
               None \<Rightarrow> Some (Inl (?q\<lparr>p_parsed := stop\<rparr>))
             | Some e \<Rightarrow> Some (Inl (?q\<lparr>p_parsed := stop, p_ahead := follow e (p_ahead p),
                 p_gate := g\<lparr>g_last_tag := None\<rparr>\<rparr>)))"
      using a f True by (simp add: parse_tag_def Let_def gate_meter_def split: option.split)
    consider "spent (g_meter g)" | "\<not> spent (g_meter g)" "\<not> tagged" | "\<not> spent (g_meter g)" "tagged" by blast
    then show ?thesis
    proof cases
      case 1
      then show ?thesis using f(2) b le by (simp add: q step_ok_def cut_ok_def)
    next
      case 2
      then show ?thesis using f(2) last_piece unfolding q by (simp add: step_ok_def cut_ok_def)
    next
      case 3
      have pos: "l_position (follow e (p_ahead p)) = stop" for e using tagged 3 by (simp add: follow_def Let_def)
      show ?thesis using 3 f(2) tagged pos ready_follow unfolding q
        by (auto simp: step_ok_def page_inv_def gate_ok_def split: option.split)
    qed
  qed
qed

lemma parse_step_ok:
  assumes W: "works_within H reach most" and inv: "page_inv H reach html budget most p"
  shows "step_ok H reach html budget most (p_given p) (parse_step H html p)"
proof -
  let ?l = "(p_ahead p)\<lparr>l_foreign := gate_foreign H (p_gate p)\<rparr>" let ?from = "l_position (p_ahead p)"
  let ?limit = "sat_add ?from (min (remaining (page_meter p)) u64_max)"
  have ready: "ready html ?l" using inv by (simp add: page_inv_def ready_foreign)
  obtain l res where nt: "next_tag ?limit ?l = Some (l, res)" and sc: "scanned_ok html ?from ?limit (l, res)"
    using next_tag_ok [OF ready, of ?limit] by auto
  let ?p = "gate_meter (charge (l_position l - ?from)) (p\<lparr>p_ahead := l\<rparr>)"
  have reached: "l_position l \<le> ?from + remaining (page_meter p) + 6"
    using sc sat_add_le [of ?from "min (remaining (page_meter p)) u64_max"] by (auto simp: scanned_ok_def Let_def)
  have m: "m_charged (page_meter p) \<le> budget" "m_budget (page_meter p) = budget" "reach (g_builder (p_gate p)) (g_dom (p_gate p))"
    using inv by (auto simp: page_inv_def gate_ok_def spent_def)
  have "m_charged (page_meter ?p) \<le> m_charged (page_meter p) + (l_position l - ?from)"
    by (simp add: gate_meter_def charge_def sat_add_le)
  also have "\<dots> \<le> budget + 6"
    using reached m inv by (auto simp: remaining_def page_inv_def spent_def split: if_splits)
  finally have g: "gate_ok H reach budget (max 6 most) (p_gate ?p)"
    using m by (simp add: gate_ok_def gate_meter_def charge_def)
  have at: "p_given ?p = ?from" "p_parsed ?p = ?from" "boundary html ?from" "?from \<le> l_position l"
    using inv sc by (auto simp: page_inv_def gate_meter_def ready_def scanned_ok_def Let_def)
  have pos: "boundary html (l_position l)" "l_position l \<le> str_len html"
    using sc boundary_le by (auto simp: scanned_ok_def Let_def)
  have opened: "boundary html s \<and> ?from \<le> s \<and> s \<le> l_position l" if "l_open l = Some s" for s
    using sc that by (auto simp: scanned_ok_def Let_def)
  show ?thesis
  proof (cases "res = ScanLimit")
    case True
    let ?stop = "case l_open l of Some s \<Rightarrow> s | None \<Rightarrow> l_position l"
    have stop: "boundary html ?stop" "?from \<le> ?stop" "?stop \<le> str_len html"
      using opened pos at(4) by (auto split: option.split dest: le_trans)
    obtain k gt where f: "feed_to H html ?stop ?p = Some (?p\<lparr>p_tok := k, p_gate := gt, p_given := ?stop\<rparr>)"
      "gate_ok H reach budget (max 6 most) gt"
      using feed_to_within [OF W g, of html ?stop] stop at by auto
    then show ?thesis using True nt stop at by (simp add: parse_step_def Let_def step_ok_def cut_ok_def)
  next
    case False
    define ts where "ts = (case res of
        ScanTag f \<Rightarrow> (True, f_start f, f_end f, f_attributes f)
      | _ \<Rightarrow> (False, case l_open l of Some s \<Rightarrow> s | None \<Rightarrow> str_len html, str_len html, l_attributes l))"
    obtain tagged start stop attributes where t: "ts = (tagged, start, stop, attributes)" by (cases ts) auto
    have where_: "boundary html start" "boundary html stop" "?from \<le> start" "start \<le> stop"
      "tagged \<Longrightarrow> ready html l \<and> l_position l = stop \<and> ?from < stop" "\<not> tagged \<Longrightarrow> stop = str_len html"
      using False sc t opened at(4) pos
      by (auto simp: ts_def scanned_ok_def Let_def ready_def split: scan_result.splits option.splits)
    obtain k gt where f: "feed_to H html start ?p = Some (?p\<lparr>p_tok := k, p_gate := gt, p_given := start\<rparr>)"
      "gate_ok H reach budget (max 6 most) gt"
      using feed_to_within [OF W g, of html start] where_ at by auto
    let ?q = "?p\<lparr>p_tok := k, p_gate := gt, p_given := start\<rparr>"
    have step: "parse_step H html p = (if spent (g_meter gt) then Some (Inr (?q, Some ?from))
        else parse_tag H html tagged start stop attributes ?q)"
      using False nt f(1) t at unfolding ts_def [symmetric]
      by (simp add: parse_step_def Let_def ts_def [symmetric])
    have given: "p_given p = ?from" using inv by (simp add: page_inv_def)
    show ?thesis
    proof (cases "spent (g_meter gt)")
      case True
      then show ?thesis using f(2) where_ at boundary_le [OF where_(1)] by (simp add: step step_ok_def cut_ok_def)
    next
      case False
      then show ?thesis
        using parse_tag_ok [OF W, of budget ?q html start stop tagged "p_given p" attributes] f(2) where_ given
        by (simp add: step gate_meter_def)
    qed
  qed
qed

subsection \<open>The whole page\<close>

lemma parse_loop_ok:
  assumes W: "works_within H reach most"
  shows "page_inv H reach html budget most p \<Longrightarrow>
    \<exists>r. parse_loop H html p = Some r \<and> gate_ok H reach budget (max 6 most) (p_gate (fst r)) \<and> cut_ok html r"
proof (induction "str_len html - p_given p" arbitrary: p rule: less_induct)
  case less
  have st: "step_ok H reach html budget most (p_given p) (parse_step H html p)"
    by (rule parse_step_ok [OF W less.prems])
  show ?case
  proof (cases "parse_step H html p")
    case None
    then show ?thesis using st by (simp add: step_ok_def)
  next
    case (Some r)
    show ?thesis
    proof (cases r)
      case (Inl p')
      then have inv: "page_inv H reach html budget most p'" and more: "p_given p < p_given p'"
        using st Some by (auto simp: step_ok_def)
      then have "p_given p' \<le> str_len html" by (auto simp: page_inv_def ready_def intro: boundary_le)
      then have "str_len html - p_given p' < str_len html - p_given p" using more by linarith
      from less.hyps [OF this inv] show ?thesis using Some Inl by (subst parse_loop.simps) simp
    next
      case (Inr q)
      then show ?thesis using st Some by (cases q) (subst parse_loop.simps, simp add: step_ok_def)
    qed
  qed
qed

lemma end_page_within:
  assumes W: "works_within H reach most" and g: "gate_ok H reach budget (max 6 most) (p_gate p)"
  shows "\<exists>k g. end_page H p = Some (p\<lparr>p_tok := k, p_gate := g\<rparr>)
    \<and> gate_ok H reach budget (max 6 most + 1 + 3 * most) g"
proof -
  have "eofs_within (tok_end H (p_tok p)) 1" using W by (simp add: works_within_def)
  from run_talk_within [OF W this g] obtain k g1 where
    t: "run_talk H (tok_end H (p_tok p)) (p_gate p) = Some (k, g1)"
    and g1: "gate_ok H reach budget (max 6 most + (1 + 2 * most)) g1" by auto
  have "building_within H reach (tb_end H (g_builder g1) (g_dom g1)) (g_dom g1) most"
    using W g1 by (simp add: works_within_def gate_ok_def)
  from run_building_within [OF this, of "g_meter g1"] obtain b r d m where
    "run_building H (tb_end H (g_builder g1) (g_dom g1)) (g_dom g1) (g_meter g1) = Some (b, r, d, m)"
    "reach b d" "m_budget m = m_budget (g_meter g1)" "m_charged m \<le> m_charged (g_meter g1) + most" by blast
  then show ?thesis
    using t g1 by (intro exI [of _ k] exI [of _ "g1\<lparr>g_builder := b, g_dom := d, g_meter := m\<rparr>"])
      (simp add: end_page_def gate_end_def gate_ok_def)
qed


text \<open>
  A small html5ever: its tokenizer gives one token for each character and one more when the
  input ends, its tree builder adds one element for each, and it holds one element open.
\<close>

primrec demo_feed :: "utext \<Rightarrow> unit talk" where
  "demo_feed [] = Quiet ()"
| "demo_feed (c # s) = Give OtherToken (\<lambda>_. demo_feed s)"

definition demo_html :: "(unit, nat, nat, unit) html5ever" where
  "demo_html =
     \<lparr> tok_new = (), tok_feed = (\<lambda>s _. demo_feed s),
       tok_end = (\<lambda>_. Give OtherToken (\<lambda>_. Give EOFToken (\<lambda>_. Quiet ()))),
       tb_new = (),
       tb_token = (\<lambda>t _ _. if t = EOFToken then Built () SinkContinue
                           else Change (CreateElement 0) (\<lambda>_. Built () SinkContinue)),
       tb_end = (\<lambda>_ _. Built () SinkContinue), tb_held = (\<lambda>_. 1), tb_foreign = (\<lambda>_ _. False),
       dom_new = 0, dom_change = (\<lambda>_ n. n + 1),
       dom_view = (\<lambda>_. \<lparr> d_parent = (\<lambda>_. None), d_children = (\<lambda>_. []), d_attributes = (\<lambda>_. None) \<rparr>) \<rparr>"

lemma demo_feed_eofs: "eofs_within (demo_feed s) 0"
  by (induction s) simp_all

lemma demo_works: "works_within demo_html (\<lambda>_ _. True) 1"
  by (simp add: works_within_def demo_html_def demo_feed_eofs)


subsection \<open>Within the budget\<close>

text \<open>html5ever with no gate and no meter.\<close>

primrec plain_building :: "('k, 'n, 'd, 'b) html5ever \<Rightarrow> ('n, 'd, 'b) building \<Rightarrow> 'd \<Rightarrow> 'b \<times> sink_result \<times> 'd" where
  "plain_building H (Built b r) d = (b, r, d)"
| "plain_building H (Change change k) d = plain_building H (k (dom_change H change d)) (dom_change H change d)"

primrec plain_talk :: "('k, 'n, 'd, 'b) html5ever \<Rightarrow> 'k talk \<Rightarrow> 'b \<times> 'd \<Rightarrow> 'k \<times> 'b \<times> 'd" where
  "plain_talk H (Quiet k) s = (k, s)"
| "plain_talk H (Give t f) s =
     (let (b, r, d) = plain_building H (tb_token H t (fst s) (snd s)) (snd s) in plain_talk H (f r) (b, d))"
| "plain_talk H (AskForeign f) s = plain_talk H (f (tb_foreign H (fst s) (snd s))) s"

definition plain_feed :: "('k, 'n, 'd, 'b) html5ever \<Rightarrow> utext \<Rightarrow> 'k \<times> 'b \<times> 'd \<Rightarrow> 'k \<times> 'b \<times> 'd" where
  "plain_feed H input ks = (if input = [] then ks else plain_talk H (tok_feed H input (fst ks)) (snd ks))"

definition plain_parse :: "('k, 'n, 'd, 'b) html5ever \<Rightarrow> utext \<Rightarrow> 'd" where
  "plain_parse H html =
     (let (k, s) = plain_feed H html (tok_new H, tb_new H, dom_new H);
          (_, b, d) = plain_talk H (tok_end H k) s;
          (_, _, d) = plain_building H (tb_end H b d) d
      in d)"

text \<open>The tokenizer takes its input in any pieces.\<close>

definition streams :: "('k, 'n, 'd, 'b) html5ever \<Rightarrow> bool" where
  "streams H \<longleftrightarrow> (\<forall>a b ks. plain_feed H (a @ b) ks = plain_feed H b (plain_feed H a ks))"

definition later :: "meter \<Rightarrow> meter \<Rightarrow> bool" where
  "later m m' \<longleftrightarrow> m_budget m' = m_budget m \<and> (m_refused m \<longrightarrow> m_refused m') \<and>
     (m_charged m \<le> u64_max \<longrightarrow> m_charged m \<le> m_charged m' \<and> m_charged m' \<le> u64_max)"

lemma later_refl [simp]: "later m m"
  by (simp add: later_def)

lemma later_trans [trans]: "later a b \<Longrightarrow> later b c \<Longrightarrow> later a c"
  by (auto simp: later_def)

lemma later_spent: "later m m' \<Longrightarrow> m_charged m \<le> u64_max \<Longrightarrow> spent m \<Longrightarrow> spent m'"
  by (auto simp: later_def spent_def)

lemma later_charge [simp]: "later m (charge u m)"
  by (simp add: later_def charge_def sat_add_ge)

lemma later_afford: "afford u m = (m', ok) \<Longrightarrow> later m m'"
  by (auto simp: later_def afford_def Let_def sat_add_ge split: if_splits)

lemma run_building_plain:
  "run_building H bld d m = Some (b, r, d', m') \<Longrightarrow> plain_building H bld d = (b, r, d') \<and> later m m'"
proof (induction bld arbitrary: d m)
  case (Change change k)
  then obtain u where "run_building H (k (dom_change H change d)) (dom_change H change d) (charge u m) = Some (b, r, d', m')"
    by (auto simp: Let_def split: option.splits)
  from Change.IH [OF _ this] later_trans [OF later_charge [of m u]] show ?case by auto
qed simp

abbreviation state_of :: "('d, 'b) gate \<Rightarrow> 'b \<times> 'd" where
  "state_of g \<equiv> (g_builder g, g_dom g)"

lemma give_token_plain:
  "give_token H t g = Some (r, g') \<Longrightarrow>
   plain_building H (tb_token H t (g_builder g) (g_dom g)) (g_dom g) = (g_builder g', r, g_dom g')
     \<and> later (g_meter g) (g_meter g')"
  by (auto simp: give_token_def dest!: run_building_plain split: option.splits)

lemma process_token_plain:
  assumes "process_token H t g = Some (r, g')"
  shows "later (g_meter g) (g_meter g')"
    and "m_charged (g_meter g) \<le> u64_max \<Longrightarrow> \<not> spent (g_meter g') \<Longrightarrow>
      plain_building H (tb_token H t (g_builder g) (g_dom g)) (g_dom g) = (g_builder g', r, g_dom g')"
proof -
  let ?u = "1 + tb_held H (g_builder g) + token_attributes t"
  consider "spent (g_meter g)" "g' = g" | "t = EOFToken" "give_token H t (g\<lparr>g_meter := charge ?u (g_meter g)\<rparr>) = Some (r, g')"
    | m where "afford ?u (g_meter g) = (m, False)" "g' = g\<lparr>g_meter := m\<rparr>"
    | m where "afford ?u (g_meter g) = (m, True)" "give_token H t (g\<lparr>g_meter := m\<rparr>) = Some (r, g')"
  proof (cases "spent (g_meter g) \<and> t \<noteq> EOFToken")
    case True
    then have "g' = g" using assms by (simp add: process_token_def)
    then show ?thesis using True that(1) by blast
  next
    case False
    obtain m ok where a: "afford ?u (g_meter g) = (m, ok)" by fastforce
    show ?thesis
    proof (cases "t = EOFToken")
      case True
      then show ?thesis using assms False that(2) by (simp add: process_token_def)
    next
      case other: False
      then show ?thesis using assms False a that(3,4) by (cases ok) (auto simp: process_token_def)
    qed
  qed
  then have "later (g_meter g) (g_meter g') \<and> (m_charged (g_meter g) \<le> u64_max \<longrightarrow> \<not> spent (g_meter g') \<longrightarrow>
      plain_building H (tb_token H t (g_builder g) (g_dom g)) (g_dom g) = (g_builder g', r, g_dom g'))"
  proof cases
    case 2
    then show ?thesis using give_token_plain [OF 2(2)] by (auto intro: later_trans [OF later_charge])
  next
    case 3
    then show ?thesis using later_afford [OF 3(1)] afford_cases [OF 3(1)] by (simp add: spent_def)
  next
    case 4
    then show ?thesis using give_token_plain [OF 4(2)] later_afford [OF 4(1)] by (auto intro: later_trans)
  qed simp
  then show "later (g_meter g) (g_meter g')"
    and "m_charged (g_meter g) \<le> u64_max \<Longrightarrow> \<not> spent (g_meter g') \<Longrightarrow>
      plain_building H (tb_token H t (g_builder g) (g_dom g)) (g_dom g) = (g_builder g', r, g_dom g')" by blast+
qed

lemma run_talk_plain:
  "run_talk H tk g = Some (k, g') \<Longrightarrow> later (g_meter g) (g_meter g') \<and>
     (m_charged (g_meter g) \<le> u64_max \<longrightarrow> \<not> spent (g_meter g') \<longrightarrow> plain_talk H tk (state_of g) = (k, state_of g'))"
proof (induction tk arbitrary: g)
  case (Give t f)
  then obtain r g1 where p: "process_token H t g = Some (r, g1)" and rest: "run_talk H (f r) g1 = Some (k, g')"
    by (auto split: option.splits)
  have IH: "later (g_meter g1) (g_meter g')"
    "m_charged (g_meter g1) \<le> u64_max \<Longrightarrow> \<not> spent (g_meter g') \<Longrightarrow> plain_talk H (f r) (state_of g1) = (k, state_of g')"
    using Give.IH [OF _ rest] by auto
  note l = process_token_plain(1) [OF p]
  have "plain_talk H (Give t f) (state_of g) = (k, state_of g')"
    if c: "m_charged (g_meter g) \<le> u64_max" and s: "\<not> spent (g_meter g')"
  proof -
    have c1: "m_charged (g_meter g1) \<le> u64_max" using l c by (simp add: later_def)
    then have "\<not> spent (g_meter g1)" using later_spent [OF IH(1)] s by blast
    then show ?thesis using process_token_plain(2) [OF p c] IH(2) [OF c1 s] by simp
  qed
  then show ?case using later_trans [OF l IH(1)] by blast
qed (auto simp: gate_foreign_def)

text \<open>What has been given has been parsed as html5ever parses it.\<close>

definition html_start :: "('k, 'n, 'd, 'b) html5ever \<Rightarrow> 'k \<times> 'b \<times> 'd" where
  "html_start H = (tok_new H, tb_new H, dom_new H)"

definition fed :: "('k, 'n, 'd, 'b) html5ever \<Rightarrow> utext \<Rightarrow> ('k, 'd, 'b) parsing \<Rightarrow> bool" where
  "fed H html p \<longleftrightarrow> (\<exists>pre. str_upto (p_given p) html = Some pre \<and>
     (p_tok p, state_of (p_gate p)) = plain_feed H pre (html_start H))"

definition goes :: "('k, 'n, 'd, 'b) html5ever \<Rightarrow> utext \<Rightarrow> ('k, 'd, 'b) parsing \<Rightarrow> ('k, 'd, 'b) parsing \<Rightarrow> bool" where
  "goes H html p p' \<longleftrightarrow> later (page_meter p) (page_meter p') \<and>
     (m_charged (page_meter p) \<le> u64_max \<longrightarrow> \<not> spent (page_meter p') \<longrightarrow> fed H html p \<longrightarrow> fed H html p')"

lemma goes_trans [trans]: "goes H html p q \<Longrightarrow> goes H html q r \<Longrightarrow> goes H html p r"
  unfolding goes_def
  by (meson later_def later_spent later_trans)

lemma goes_meter: "later (page_meter p) (f (page_meter p)) \<Longrightarrow> goes H html p (gate_meter f p)"
  by (simp add: goes_def gate_meter_def fed_def)

lemma str_upto_split: "str_upto n s = Some x \<Longrightarrow> \<exists>y. s = x @ y \<and> str_len x = n"
proof (induction n s arbitrary: x rule: str_upto.induct)
  case (3 n c s)
  then obtain z where z: "str_upto (Suc n - len_utf8 c) s = Some z" "x = c # z" "\<not> Suc n < len_utf8 c"
    by (auto split: if_splits)
  then show ?case using "3.IH" by fastforce
qed auto

lemma str_from_split: "str_from n s = Some y \<Longrightarrow> \<exists>x. s = x @ y \<and> str_len x = n"
proof (induction n s arbitrary: y rule: str_from.induct)
  case (3 n c s)
  then obtain z where "s = z @ y" "str_len z = Suc n - len_utf8 c" "\<not> Suc n < len_utf8 c"
    by (auto split: if_splits)
  then show ?case by (intro exI [of _ "c # z"]) simp
qed auto

lemma str_upto_slice:
  assumes "str_upto a s = Some pre" and "str_slice a b s = Some piece"
  shows "str_upto b s = Some (pre @ piece)"
proof -
  obtain y where y: "s = pre @ y" "str_len pre = a" using str_upto_split [OF assms(1)] by blast
  then have "str_upto (b - a) y = Some piece" "a \<le> b"
    using assms(2) str_from_append [of pre y] by (auto simp: str_slice_def split: if_splits)
  then obtain z where "y = piece @ z" "str_len piece = b - a" using str_upto_split by blast
  then show ?thesis using y \<open>a \<le> b\<close> str_upto_append [of "pre @ piece" z] by simp
qed

lemma feed_to_goes:
  assumes S: "streams H" and f: "feed_to H html stop p = Some p'"
  shows "goes H html p p' \<and> p_given p' = stop \<and> p_parsed p' = p_parsed p"
proof -
  obtain piece q where q: "str_slice (p_given p) stop html = Some piece" "feed_html H piece p = Some q"
    "p' = q\<lparr>p_given := stop\<rparr>" using f by (auto simp: feed_to_def bind_eq_Some_conv)
  have run: "later (page_meter p) (page_meter q) \<and> p_parsed q = p_parsed p \<and>
      (m_charged (page_meter p) \<le> u64_max \<longrightarrow> \<not> spent (page_meter q) \<longrightarrow>
        (p_tok q, state_of (p_gate q)) = plain_feed H piece (p_tok p, state_of (p_gate p)))"
    using q(2) by (auto simp: feed_html_def plain_feed_def dest!: run_talk_plain split: if_splits option.splits)
  have "fed H html p'" if "m_charged (page_meter p) \<le> u64_max" "\<not> spent (page_meter p')" "fed H html p"
  proof -
    obtain pre where pre: "str_upto (p_given p) html = Some pre"
      "(p_tok p, state_of (p_gate p)) = plain_feed H pre (html_start H)" using \<open>fed H html p\<close> by (auto simp: fed_def)
    have "plain_feed H (pre @ piece) (html_start H) = plain_feed H piece (plain_feed H pre (html_start H))"
      using S unfolding streams_def by blast
    then have "(p_tok q, state_of (p_gate q)) = plain_feed H (pre @ piece) (html_start H)"
      using run that pre(2) q(3) by simp
    then show ?thesis using str_upto_slice [OF pre(1) q(1)] q(3) by (simp add: fed_def)
  qed
  then show ?thesis using run q(3) by (simp add: goes_def)
qed

lemma goes_ahead: "goes H html p (p\<lparr>p_ahead := l\<rparr>)" "goes H html p (p\<lparr>p_parsed := n\<rparr>)"
  "goes H html p (p\<lparr>p_parsed := n, p_ahead := l, p_gate := (p_gate p)\<lparr>g_last_tag := e\<rparr>\<rparr>)"
  by (simp_all add: goes_def fed_def)

definition goes_on ::
    "('k, 'n, 'd, 'b) html5ever \<Rightarrow> utext \<Rightarrow> ('k, 'd, 'b) parsing \<Rightarrow> (('k, 'd, 'b) parsing + ('k, 'd, 'b) page_cut) \<Rightarrow> bool" where
  "goes_on H html p r \<longleftrightarrow>
     (case r of Inl q \<Rightarrow> goes H html p q
      | Inr (q, cut_at) \<Rightarrow> goes H html p q \<and> (cut_at = None \<longrightarrow> p_given q = str_len html))"

lemma goes_on_trans: "goes H html p q \<Longrightarrow> goes_on H html q r \<Longrightarrow> goes_on H html p r"
  by (auto simp: goes_on_def split: sum.splits prod.splits intro: goes_trans)

lemma parse_tag_goes:
  assumes S: "streams H" and "\<not> tagged \<Longrightarrow> stop = str_len html"
    and r: "parse_tag H html tagged start stop attributes p = Some r"
  shows "goes_on H html p r"
proof -
  obtain m ok where a: "afford (attribute_cost attributes) (page_meter p) = (m, ok)" by fastforce
  let ?p = "gate_meter (\<lambda>_. m) (p\<lparr>p_parsed := start\<rparr>)"
  have "goes H html p (p\<lparr>p_parsed := start\<rparr>)" by (rule goes_ahead)
  also have "goes H html (p\<lparr>p_parsed := start\<rparr>) ?p"
    by (rule goes_meter) (use later_afford [OF a] in simp)
  finally have 1: "goes H html p ?p" .
  show ?thesis
  proof (cases ok)
    case False
    then show ?thesis using r a 1 by (auto simp: parse_tag_def Let_def goes_on_def)
  next
    case True
    then obtain q where q: "feed_to H html stop ?p = Some q" using r a
      by (auto simp: parse_tag_def Let_def split: option.splits)
    have 2: "goes H html p q" "p_given q = stop" using goes_trans [OF 1] feed_to_goes [OF S q] by auto
    have "goes_on H html q r"
      using r a True q assms(2) 2(2) goes_ahead
      by (auto simp: parse_tag_def Let_def goes_on_def goes_def fed_def split: option.splits if_splits)
    then show ?thesis by (rule goes_on_trans [OF 2(1)])
  qed
qed

lemma parse_step_goes:
  assumes S: "streams H" and r: "parse_step H html p = Some r"
  shows "goes_on H html p r"
proof -
  let ?l = "(p_ahead p)\<lparr>l_foreign := gate_foreign H (p_gate p)\<rparr>"
  let ?limit = "sat_add (l_position ?l) (min (remaining (page_meter p)) u64_max)"
  obtain l res where nt: "next_tag ?limit ?l = Some (l, res)"
    using r by (auto simp: parse_step_def Let_def split: option.splits)
  let ?p = "gate_meter (charge (l_position l - l_position ?l)) (p\<lparr>p_ahead := l\<rparr>)"
  have "goes H html p (p\<lparr>p_ahead := l\<rparr>)" by (rule goes_ahead)
  also have "goes H html (p\<lparr>p_ahead := l\<rparr>) ?p" by (rule goes_meter) simp
  finally have 1: "goes H html p ?p" .
  show ?thesis
  proof (cases "res = ScanLimit")
    case True
    let ?stop = "case l_open l of Some s \<Rightarrow> s | None \<Rightarrow> l_position l"
    obtain q where q: "feed_to H html ?stop ?p = Some q" "\<exists>n. r = Inr (q, Some n)"
      using r nt True by (auto simp: parse_step_def Let_def split: option.splits)
    then show ?thesis using goes_trans [OF 1] feed_to_goes [OF S q(1)] by (auto simp: goes_on_def)
  next
    case False
    define ts where "ts = (case res of
        ScanTag f \<Rightarrow> (True, f_start f, f_end f, f_attributes f)
      | _ \<Rightarrow> (False, case l_open l of Some s \<Rightarrow> s | None \<Rightarrow> str_len html, str_len html, l_attributes l))"
    obtain tagged start stop attributes where t: "ts = (tagged, start, stop, attributes)" by (cases ts) auto
    have stop: "\<not> tagged \<Longrightarrow> stop = str_len html" using t False by (auto simp: ts_def split: scan_result.splits)
    obtain q where q: "feed_to H html start ?p = Some q"
      and rest: "r = Inr (q, Some (p_parsed q)) \<or> parse_tag H html tagged start stop attributes q = Some r"
      using r nt False t by (auto simp: parse_step_def Let_def ts_def [symmetric] split: option.splits if_splits)
    have 2: "goes H html p q" using goes_trans [OF 1] feed_to_goes [OF S q] by auto
    show ?thesis using rest
    proof
      assume "parse_tag H html tagged start stop attributes q = Some r"
      from goes_on_trans [OF 2 parse_tag_goes [OF S stop this]] show ?thesis by blast
    qed (use 2 in \<open>simp add: goes_on_def\<close>)
  qed
qed

lemma parse_loop_goes:
  assumes "parse_loop H html p = Some r"
  shows "streams H \<longrightarrow> goes_on H html p (Inr r)"
proof (rule parse_loop.raw_induct
    [where P = "\<lambda>H html p r. streams H \<longrightarrow> goes_on H html p (Inr r)", OF _ assms], rule impI)
  fix loop H html p r
  assume IH: "\<And>H html p r. loop H html p = Some r \<Longrightarrow> streams H \<longrightarrow> goes_on H html p (Inr r)"
    and round: "(case parse_step H html p of None \<Rightarrow> None
      | Some (Inl p') \<Rightarrow> loop H html p' | Some (Inr r) \<Rightarrow> Some r) = Some r"
    and S: "streams H"
  from round consider q where "parse_step H html p = Some (Inl q)" "loop H html q = Some r"
    | "parse_step H html p = Some (Inr r)"
    by (auto split: option.splits sum.splits)
  then show "goes_on H html p (Inr r)"
  proof cases
    case 1
    moreover have "goes H html p q" using parse_step_goes [OF S 1(1)] by (simp add: goes_on_def)
    ultimately show ?thesis using IH S by (blast intro: goes_on_trans)
  next
    case 2
    then show ?thesis by (rule parse_step_goes [OF S])
  qed
qed

text \<open>
  C40: A page parsed within its budget is the page. When \<open>parse\<close> says it was not cut and its
  budget was not spent by the end, the tree it returns is the one html5ever builds when it is
  given the whole page at once with no budget: stopping at every tag, charging every token
  and every change, changes nothing in what is parsed.
\<close>

theorem uncut_page_is_html5evers:
  assumes "streams H" and "parse_page H html budget = Some (p, None)" and "\<not> spent (page_meter p)"
  shows "g_dom (p_gate p) = plain_parse H html"
proof -
  obtain q where q: "parse_loop H html (parse_new H html budget) = Some (q, None)" "end_page H q = Some p"
    using assms(2) by (auto simp: parse_page_def bind_eq_Some_conv)
  have g: "goes H html (parse_new H html budget) q" "p_given q = str_len html"
    using parse_loop_goes [OF q(1)] assms(1) by (auto simp: goes_on_def)
  obtain k g1 g2 where e: "run_talk H (tok_end H (p_tok q)) (p_gate q) = Some (k, g1)" "gate_end H g1 = Some g2"
    "p = q\<lparr>p_tok := k, p_gate := g2\<rparr>" using q(2) by (auto simp: end_page_def bind_eq_Some_conv)
  have new: "m_charged (page_meter (parse_new H html budget)) \<le> u64_max" "fed H html (parse_new H html budget)"
    by (simp_all add: parse_new_def meter_new_def fed_def plain_feed_def html_start_def)
  have c: "m_charged (page_meter q) \<le> u64_max" using g(1) new(1) by (simp add: goes_def later_def)
  note t = run_talk_plain [OF e(1)]
  obtain b r d m where ge: "run_building H (tb_end H (g_builder g1) (g_dom g1)) (g_dom g1) (g_meter g1) = Some (b, r, d, m)"
    "g2 = g1\<lparr>g_builder := b, g_dom := d, g_meter := m\<rparr>"
    using e(2) by (auto simp: gate_end_def split: option.splits)
  note u = run_building_plain [OF ge(1)]
  have c1: "m_charged (g_meter g1) \<le> u64_max" using t c by (simp add: later_def)
  have s1: "\<not> spent (g_meter g1)" using later_spent [of "g_meter g1" m] u c1 assms(3) e(3) ge(2) by auto
  then have s: "\<not> spent (page_meter q)" using later_spent t c by blast
  then have "fed H html q" using g(1) new by (simp add: goes_def)
  moreover have "str_upto (str_len html) html = Some html" using str_upto_append [of html "[]"] by simp
  ultimately have "plain_feed H html (html_start H) = (p_tok q, state_of (p_gate q))" using g(2) by (simp add: fed_def)
  then show ?thesis using t c s1 u ge(2) e(3) by (simp add: plain_parse_def html_start_def [symmetric])
qed

lemma demo_plain_talk: "plain_talk demo_html (demo_feed s) ((), n) = ((), (), n + length s)"
  by (induction s arbitrary: n) (simp_all add: demo_html_def)

lemma demo_streams: "streams demo_html"
proof -
  have feed: "plain_feed demo_html s ((), (), n) = ((), (), n + length s)" for s n
    using demo_plain_talk [of s n] by (simp add: plain_feed_def demo_html_def)
  show ?thesis by (auto simp: streams_def feed)
qed

lemma demo_next_tag: "1 \<le> limit \<Longrightarrow> next_tag limit ((lookahead_new [97])\<lparr>l_foreign := b\<rparr>)
    = Some ((lookahead_new [97])\<lparr>l_foreign := b, l_position := 1\<rparr>, ScanEnd)"
  by (simp add: next_tag_def lookahead_new_def) (simp add: scan.simps turn_def consume_def settle_def outcomes len_utf8_def)

lemma demo_slices: "str_slice 0 1 [97] = Some [97]" "str_slice 1 1 [97] = Some []"
  by (simp_all add: str_slice_def len_utf8_def)

lemma demo_give: "give_token demo_html OtherToken \<lparr> g_builder = (), g_dom = n, g_meter = m, g_last_tag = None \<rparr>
  = Some (SinkContinue, \<lparr> g_builder = (), g_dom = n + 1, g_meter = charge 1 m, g_last_tag = None \<rparr>)"
  by (simp add: give_token_def demo_html_def Let_def)

lemma demo_give_eof: "give_token demo_html EOFToken \<lparr> g_builder = (), g_dom = n, g_meter = m, g_last_tag = None \<rparr>
  = Some (SinkContinue, \<lparr> g_builder = (), g_dom = n, g_meter = m, g_last_tag = None \<rparr>)"
  by (simp add: give_token_def demo_html_def Let_def)

lemma small_sums:
  "a + b \<le> 4294967296 \<Longrightarrow> sat_add a b = a + b" "a \<le> 4294967296 \<Longrightarrow> min a u64_max = a"
  by (simp_all add: sat_add_def u64_max_def)

lemma demo_held: "tb_held demo_html () = 1" "tok_feed demo_html s u = demo_feed s" "tok_end demo_html u = Give OtherToken (\<lambda>_. Give EOFToken (\<lambda>_. Quiet ()))"
  "tok_new demo_html = ()" "tb_new demo_html = ()" "dom_new demo_html = 0" "tb_foreign demo_html u d = False" "tb_end demo_html u d = Built () SinkContinue"
  by (simp_all add: demo_html_def)

lemmas demo_next = demo_next_tag [of _ False, unfolded lookahead_new_def, simplified]

lemmas demo_page_eval = gate_meter_def feed_to_def parse_tag_def demo_slices [unfolded One_nat_def] len_utf8_def feed_html_def
  process_token_def demo_held afford_def charge_def small_sums spent_def token_attributes_def demo_give
  attribute_cost_def Let_def
lemma demo_step:
  assumes "4 \<le> n" and "n \<le> 100"
  shows "\<exists>q. parse_step demo_html [97] (parse_new demo_html [97] n) = Some (Inr (q, None)) \<and> p_tok q = ()
    \<and> p_gate q = \<lparr> g_builder = (), g_dom = 1, g_meter = \<lparr>m_budget = n, m_charged = 4, m_refused = False\<rparr>,
        g_last_tag = None\<rparr>"
  using assms
  by (simp add: parse_step_def parse_new_def gate_foreign_def remaining_def meter_new_def small_sums demo_held
      lookahead_new_def demo_next) (simp add: demo_page_eval)

lemma demo_page:
  assumes "4 \<le> n" and "n \<le> 100"
  shows "\<exists>p. parse_page demo_html [97] n = Some (p, None) \<and> g_dom (p_gate p) = (if 6 \<le> n then 2 else 1)
    \<and> (9 \<le> n \<longrightarrow> \<not> spent (page_meter p))"
  using demo_step [OF assms] assms
  by (auto simp: parse_page_def parse_loop.simps [of demo_html "[97]" "parse_new demo_html [97] n"]
      end_page_def demo_page_eval demo_give_eof gate_end_def)

theorem uncut_page_is_html5evers_witness:
  "\<exists>p. parse_page demo_html [97] 50 = Some (p, None) \<and> g_dom (p_gate p) = plain_parse demo_html [97]"
proof -
  obtain p where "parse_page demo_html [97] 50 = Some (p, None)" "\<not> spent (page_meter p)"
    using demo_page [of 50] by auto
  then show ?thesis using uncut_page_is_html5evers [OF demo_streams] by blast
qed

text \<open>
  The condition on the budget is needed: tokens the tokenizer has left when the input ends are
  charged for after the last check, and dropped with nothing said when they do not fit.
\<close>

lemma tail_dropped_silently:
  "\<exists>p. parse_page demo_html [97] 4 = Some (p, None) \<and> g_dom (p_gate p) \<noteq> plain_parse demo_html [97]"
proof -
  have "plain_parse demo_html [97] = 2"
    using demo_plain_talk [of "[97]" 0] by (simp add: plain_parse_def plain_feed_def demo_html_def Let_def)
  then show ?thesis using demo_page [of 4] by auto
qed

end
