(* ===== verification/Confirm.thy ===== *)
theory Confirm
  imports Externals
begin

text \<open>
  \<open>crates/syndeo-ipc/src/confirm.rs\<close>: the confirmations the shell mints once a person has
  said yes, and their check in the keystore. HMAC-SHA256 is the parameter \<open>hm\<close>, a key and
  a message to a tag; the clock and the random nonce are arguments; strings are their UTF-8
  bytes; the memory of used confirmations, a hash map, is an association list.
\<close>

datatype purpose = OriginLogin | ChainTransaction | Attestation

fun purpose_str :: "purpose \<Rightarrow> string" where
  "purpose_str OriginLogin = ''origin login''"
| "purpose_str ChainTransaction = ''chain transaction''"
| "purpose_str Attestation = ''attestation''"

datatype confirmation_error =
  BadMac | Expired | NotYetValid | Replayed | PayloadMismatch | TooManyOutstanding

definition CONFIRMATION_TTL :: nat where
  "CONFIRMATION_TTL = 120"

definition MAX_OUTSTANDING :: nat where
  "MAX_OUTSTANDING = 65536"

record confirmation =
  cf_origin :: string
  cf_purpose :: purpose
  cf_payload_hash :: string
  cf_description_hash :: string
  cf_nonce :: string
  cf_issued_at :: nat
  cf_expires_at :: nat
  cf_mac :: string

definition unit_separator :: char where
  "unit_separator = CHR 0x1F"

definition signed_parts :: "confirmation \<Rightarrow> string list" where
  "signed_parts c =
     [''syndeo-confirmation-v1'', cf_origin c, purpose_str (cf_purpose c), cf_payload_hash c,
      cf_description_hash c, cf_nonce c, show_nat (cf_issued_at c), show_nat (cf_expires_at c)]"

definition signing_input :: "confirmation \<Rightarrow> bytes" where
  "signing_input c = concat (map (\<lambda>part. part @ [unit_separator]) (signed_parts c))"

record confirmer =
  cr_secret :: bytes
  cr_consumed :: "(string \<times> nat) list"
  cr_capacity :: nat

definition confirmer_new :: "bytes \<Rightarrow> confirmer" where
  "confirmer_new secret = \<lparr> cr_secret = secret, cr_consumed = [], cr_capacity = MAX_OUTSTANDING \<rparr>"

type_synonym hmac = "bytes \<Rightarrow> bytes \<Rightarrow> bytes"

text \<open>\<open>now + CONFIRMATION_TTL\<close> is a \<open>u64\<close> addition; a clock within reach never overflows it.\<close>

definition issue ::
    "('h, 'u) externs \<Rightarrow> hmac \<Rightarrow> confirmer \<Rightarrow> nat \<Rightarrow> bytes \<Rightarrow> string \<Rightarrow> purpose \<Rightarrow> string \<Rightarrow> bytes \<Rightarrow> confirmation" where
  "issue X hm k now nonce origin purpose description payload =
     (let c = \<lparr> cf_origin = origin, cf_purpose = purpose,
                cf_payload_hash = hex_encode X (blake3 X payload),
                cf_description_hash = hex_encode X (blake3 X description),
                cf_nonce = hex_encode X nonce, cf_issued_at = now,
                cf_expires_at = now + CONFIRMATION_TTL, cf_mac = [] \<rparr>
      in c\<lparr>cf_mac := hex_encode X (hm (cr_secret k) (signing_input c))\<rparr>)"

definition check_confirmation ::
    "('h, 'u) externs \<Rightarrow> hmac \<Rightarrow> confirmer \<Rightarrow> nat \<Rightarrow> confirmation \<Rightarrow> bytes \<Rightarrow> confirmation_error option" where
  "check_confirmation X hm k now c payload =
     (let expected = hm (cr_secret k) (signing_input c);
          presented = (case hex_decode X (cf_mac c) of Some b \<Rightarrow> b | None \<Rightarrow> [])
      in if length presented \<noteq> length expected \<or> presented \<noteq> expected then Some BadMac
         else if cf_expires_at c < now then Some Expired
         else if now + 5 < cf_issued_at c then Some NotYetValid
         else if hex_encode X (blake3 X payload) \<noteq> cf_payload_hash c then Some PayloadMismatch
         else None)"

definition verify_confirmation ::
    "('h, 'u) externs \<Rightarrow> hmac \<Rightarrow> nat \<Rightarrow> confirmation \<Rightarrow> bytes \<Rightarrow> confirmer
      \<Rightarrow> confirmer \<times> (confirmation_error + unit)" where
  "verify_confirmation X hm now c payload k =
     (case check_confirmation X hm k now c payload of
        Some e \<Rightarrow> (k, Inl e)
      | None \<Rightarrow>
          let consumed = filter (\<lambda>p. now \<le> snd p) (cr_consumed k); k = k\<lparr>cr_consumed := consumed\<rparr>
          in if cf_nonce c \<in> fst ` set consumed then (k, Inl Replayed)
             else if cr_capacity k \<le> length consumed then (k, Inl TooManyOutstanding)
             else (k\<lparr>cr_consumed := (cf_nonce c, cf_expires_at c) # consumed\<rparr>, Inr ()))"

subsection \<open>Used once\<close>

text \<open>Presentations, in the order the keystore gets them: when, what, and for which payload.\<close>

type_synonym presentation = "nat \<times> confirmation \<times> bytes"

fun accepted :: "('h, 'u) externs \<Rightarrow> hmac \<Rightarrow> presentation list \<Rightarrow> confirmer \<Rightarrow> confirmation list" where
  "accepted X hm [] k = []"
| "accepted X hm ((now, c, payload) # ps) k =
     (case verify_confirmation X hm now c payload k of
        (k', Inl e) \<Rightarrow> accepted X hm ps k'
      | (k', Inr u) \<Rightarrow> c # accepted X hm ps k')"

text \<open>What was used is either remembered or too old to be presented again.\<close>

definition remembers :: "nat \<Rightarrow> confirmer \<Rightarrow> confirmation \<Rightarrow> bool" where
  "remembers t k c \<longleftrightarrow> cf_expires_at c < t \<or> (cf_nonce c, cf_expires_at c) \<in> set (cr_consumed k)"

lemma verify_accepts:
  "verify_confirmation X hm now c payload k = (k', Inr u) \<longleftrightarrow>
     check_confirmation X hm k now c payload = None \<and>
     cf_nonce c \<notin> fst ` set (filter (\<lambda>p. now \<le> snd p) (cr_consumed k)) \<and>
     length (filter (\<lambda>p. now \<le> snd p) (cr_consumed k)) < cr_capacity k \<and>
     k' = k\<lparr>cr_consumed := (cf_nonce c, cf_expires_at c) # filter (\<lambda>p. now \<le> snd p) (cr_consumed k)\<rparr>"
  by (auto simp: verify_confirmation_def Let_def split: option.splits)

lemma verify_remembers:
  assumes "verify_confirmation X hm now c payload k = (k', r)" and "remembers t k a" and "t \<le> now"
  shows "remembers now k' a"
  using assms by (auto simp: verify_confirmation_def remembers_def Let_def split: option.splits if_splits)

lemma check_not_expired: "check_confirmation X hm k now c payload = None \<Longrightarrow> now \<le> cf_expires_at c"
  by (auto simp: check_confirmation_def Let_def split: if_splits)

lemma remembered_not_accepted:
  "remembers t k c \<Longrightarrow> t \<le> now \<Longrightarrow> verify_confirmation X hm now c payload k \<noteq> (k', Inr u)"
  by (force simp: verify_accepts remembers_def dest: check_not_expired)

lemma accepted_new:
  "sorted (map fst ps) \<Longrightarrow> \<forall>p\<in>set ps. t \<le> fst p \<Longrightarrow> remembers t k a \<Longrightarrow> a \<notin> set (accepted X hm ps k)"
proof (induction ps arbitrary: k t)
  case (Cons p ps)
  obtain now c payload where p: "p = (now, c, payload)" by (cases p) auto
  obtain k' r where v: "verify_confirmation X hm now c payload k = (k', r)" by fastforce
  have t: "t \<le> now" using Cons.prems(2) p by simp
  have "remembers now k' a" by (rule verify_remembers [OF v Cons.prems(3) t])
  then have "a \<notin> set (accepted X hm ps k')" using Cons.IH [of now k'] Cons.prems(1) p by simp
  moreover have "r = Inr u \<Longrightarrow> c \<noteq> a" for u
    using remembered_not_accepted [OF _ t, of k c X hm payload k' u] v Cons.prems(3) by auto
  ultimately show ?case using p v by (cases r) auto
qed simp

text \<open>
  C22: A confirmation is good for one signature. Whatever confirmations the keystore is
  shown, forged, repeated or mixed, those it accepts are all different, so long as its clock
  does not go back: what has been forgotten to make room is exactly what has expired.
\<close>

theorem confirmation_used_once:
  assumes "sorted (map fst ps)"
  shows "distinct (accepted X hm ps k)"
  using assms
proof (induction ps arbitrary: k)
  case (Cons p ps)
  obtain now c payload where p: "p = (now, c, payload)" by (cases p) auto
  obtain k' r where v: "verify_confirmation X hm now c payload k = (k', r)" by fastforce
  have rest: "distinct (accepted X hm ps k')" using Cons by simp
  have "c \<notin> set (accepted X hm ps k')" if "r = Inr u" for u
  proof -
    have "remembers now k' c" using v that by (auto simp: verify_accepts remembers_def)
    then show ?thesis using accepted_new [of ps now k' c] Cons.prems p by simp
  qed
  then show ?case using rest p v by (cases r) auto
qed simp

definition hex_decode_ok :: "('h, 'u) externs \<Rightarrow> bool" where
  "hex_decode_ok X \<longleftrightarrow> (\<forall>b. hex_decode X (hex_encode X b) = Some b)"

lemma demo_hex_decode_ok: "hex_decode_ok demo"
  by (simp add: hex_decode_ok_def demo_def demo_unhex_hex)

text \<open>A tag that a message has, no other message has: what a MAC is for.\<close>

definition mac_binds :: "hmac \<Rightarrow> bytes \<Rightarrow> bytes \<Rightarrow> bool" where
  "mac_binds hm secret m \<longleftrightarrow> (\<forall>m'. hm secret m' = hm secret m \<longrightarrow> m' = m)"

theorem confirmation_used_once_witness:
  "distinct (accepted demo (\<lambda>s m. s @ m)
     (replicate 2 (100, issue demo (\<lambda>s m. s @ m) (confirmer_new ''k'') 100 ''n'' ''https://a'' OriginLogin ''hi'' ''pay'', ''pay''))
     (confirmer_new ''k''))"
  by (rule confirmation_used_once) (simp add: numeral_2_eq_2)

subsection \<open>Bound to what was shown\<close>

lemma separated_no_inner:
  assumes "concat (map (\<lambda>p. p @ [s]) xs) = concat (map (\<lambda>p. p @ [s]) ys)" and "length xs = length ys"
    and "\<forall>y\<in>set ys. s \<notin> set y"
  shows "\<forall>x\<in>set xs. s \<notin> set x"
proof -
  have n: "length (filter ((=) s) (concat (map (\<lambda>p. p @ [s]) zs)))
      = length zs + sum_list (map (\<lambda>z. length (filter ((=) s) z)) zs)" for zs
    by (induction zs) simp_all
  let ?inner = "\<lambda>zs. sum_list (map (\<lambda>z. length (filter ((=) s) z)) zs)"
  have "?inner ys = 0" using assms(3) by (auto simp: filter_empty_conv)
  moreover have "length xs + ?inner xs = length ys + ?inner ys" using n [of xs] n [of ys] assms(1) by metis
  ultimately have "?inner xs = 0" using assms(2) by linarith
  then have "\<forall>x\<in>set xs. length (filter ((=) s) x) = 0" by (simp only: sum_list_eq_0_iff set_map ball_simps)
  then show ?thesis by (auto simp: filter_empty_conv)
qed

lemma separated_inject:
  "concat (map (\<lambda>p. p @ [s]) xs) = concat (map (\<lambda>p. p @ [s]) ys) \<Longrightarrow> length xs = length ys \<Longrightarrow>
   \<forall>y\<in>set ys. s \<notin> set y \<Longrightarrow> \<forall>x\<in>set xs. s \<notin> set x \<Longrightarrow> xs = ys"
proof (induction xs ys rule: list_induct2')
  case (4 x xs y ys)
  have "x = takeWhile (\<lambda>c. c \<noteq> s) (concat (map (\<lambda>p. p @ [s]) (x # xs)))"
    using "4.prems"(4) by (simp add: takeWhile_append)
  also have "\<dots> = y" unfolding "4.prems"(1) using "4.prems"(3) by (simp add: takeWhile_append)
  finally show ?case using 4 by simp
qed simp_all

lemma show_nat_inject: "show_nat m = show_nat n \<longleftrightarrow> m = n"
  by (metis num_of_digits_show_nat)

lemma purpose_str_inject: "purpose_str p = purpose_str q \<longleftrightarrow> p = q"
  by (cases p; cases q) simp_all

definition separator_free :: "string \<Rightarrow> bool" where
  "separator_free s \<longleftrightarrow> unit_separator \<notin> set s"

lemma digits_separator_free: "list_all is_hexdigit s \<Longrightarrow> separator_free s"
  by (auto simp: separator_free_def list_all_iff unit_separator_def is_hexdigit_def is_digit_def)

lemma issued_parts:
  assumes "hex_ok X" and "separator_free origin"
  shows "\<forall>p\<in>set (signed_parts (issue X hm k now nonce origin purpose description payload)). unit_separator \<notin> set p"
proof -
  have hex: "separator_free (hex_encode X b)" for b using assms(1) digits_separator_free by (simp add: hex_ok_def)
  have num: "separator_free (show_nat n)" for n
    by (rule digits_separator_free) (use show_nat_digits [of n] in \<open>auto simp: list_all_iff is_hexdigit_def\<close>)
  show ?thesis using hex num assms(2)
    by (cases purpose) (simp_all add: signed_parts_def issue_def Let_def separator_free_def unit_separator_def)
qed

lemma signing_input_inject:
  assumes "signing_input c = signing_input i" and "\<forall>p\<in>set (signed_parts i). unit_separator \<notin> set p"
    and "cf_mac c = cf_mac i"
  shows "c = i"
proof -
  have len: "length (signed_parts c) = length (signed_parts i)" by (simp add: signed_parts_def)
  have eq: "concat (map (\<lambda>p. p @ [unit_separator]) (signed_parts c)) = concat (map (\<lambda>p. p @ [unit_separator]) (signed_parts i))"
    using assms(1) by (simp only: signing_input_def)
  have "signed_parts c = signed_parts i"
    by (rule separated_inject [OF eq len assms(2) separated_no_inner [OF eq len assms(2)]])
  then show ?thesis using assms(3)
    by (cases c; cases i) (simp add: signed_parts_def show_nat_inject purpose_str_inject)
qed

text \<open>
  C23: A confirmation is bound to what the person was shown. If the keystore accepts anything
  that carries the MAC of a confirmation the shell issued, then it is that confirmation,
  field for field - the same site, purpose, description, nonce and times - the payload
  to be signed is the payload the shell issued it for, and it is at most two minutes old.
\<close>

theorem confirmation_is_what_was_shown:
  assumes "hex_ok X" and "hex_decode_ok X" and "separator_free origin"
    and i: "i = issue X hm shell now0 nonce origin purpose description payload"
    and "cr_secret keystore = cr_secret shell" and "mac_binds hm (cr_secret shell) (signing_input i)"
    and "collision_free X payload"
    and v: "verify_confirmation X hm now c payload' keystore = (keystore', Inr u)" and "cf_mac c = cf_mac i"
  shows "c = i \<and> payload' = payload \<and> now \<le> now0 + 120"
proof -
  have chk: "check_confirmation X hm keystore now c payload' = None" using v by (simp add: verify_accepts)
  have mac: "cf_mac i = hex_encode X (hm (cr_secret shell) (signing_input i))"
    unfolding i by (simp add: issue_def Let_def signing_input_def signed_parts_def)
  have "hm (cr_secret shell) (signing_input c) = hm (cr_secret shell) (signing_input i)"
    using chk assms(2,5,9) mac by (auto simp: check_confirmation_def hex_decode_ok_def Let_def split: if_splits)
  then have "signing_input c = signing_input i" using assms(6) by (simp add: mac_binds_def)
  then have ci: "c = i" using signing_input_inject issued_parts [OF assms(1,3)] assms(9) i by blast
  have "hex_encode X (blake3 X payload') = hex_encode X (blake3 X payload)"
    using chk unfolding ci i by (auto simp: check_confirmation_def issue_def Let_def split: if_splits)
  then have "payload' = payload" using assms(1,7) by (auto simp: hex_ok_def collision_free_def dest: injD)
  moreover have "now \<le> cf_expires_at i" using check_not_expired [OF chk] ci by simp
  ultimately show ?thesis using ci i by (simp add: issue_def Let_def CONFIRMATION_TTL_def)
qed

abbreviation demo_hmac :: hmac where
  "demo_hmac \<equiv> \<lambda>secret m. secret @ m"

definition demo_confirmation_of :: "string \<Rightarrow> confirmation" where
  "demo_confirmation_of origin =
     issue demo demo_hmac (confirmer_new ''k'') 100 ''n'' origin OriginLogin ''hi'' ''pay''"

lemma demo_accepts:
  "\<exists>k u. verify_confirmation demo demo_hmac 101 (demo_confirmation_of o') ''pay'' (confirmer_new ''k'') = (k, Inr u)"
  by (simp add: demo_confirmation_of_def issue_def verify_confirmation_def check_confirmation_def Let_def
      confirmer_new_def MAX_OUTSTANDING_def CONFIRMATION_TTL_def demo_hex_decode_ok [unfolded hex_decode_ok_def]
      signing_input_def signed_parts_def)

theorem confirmation_is_what_was_shown_witness:
  "\<exists>k u. verify_confirmation demo demo_hmac 101 (demo_confirmation_of ''https://a'') ''pay'' (confirmer_new ''k'') = (k, Inr u)
    \<and> (101 :: nat) \<le> 100 + 120"
proof -
  obtain k u where v: "verify_confirmation demo demo_hmac 101 (demo_confirmation_of ''https://a'') ''pay'' (confirmer_new ''k'') = (k, Inr u)"
    using demo_accepts by blast
  have "mac_binds demo_hmac s m" for s m by (simp add: mac_binds_def)
  then show ?thesis
    using confirmation_is_what_was_shown [OF demo_hex_ok demo_hex_decode_ok _ demo_confirmation_of_def refl _ demo_collision_free v refl]
      v by (auto simp: separator_free_def unit_separator_def)
qed

text \<open>
  With a clock that goes back the same confirmation is accepted twice: what was forgotten
  when it had expired can be presented again once it has not.
\<close>

lemma demo_hex_inject: "hex_encode demo a = hex_encode demo b \<longleftrightarrow> a = b"
  using demo_hex_ok by (auto simp: hex_ok_def dest: injD)

lemma clock_back_replays:
  "\<not> distinct (accepted demo demo_hmac
     [(101, demo_confirmation_of ''https://a'', ''pay''),
      (300, issue demo demo_hmac (confirmer_new ''k'') 290 ''m'' ''https://b'' OriginLogin ''hi'' ''pay'', ''pay''),
      (101, demo_confirmation_of ''https://a'', ''pay'')] (confirmer_new ''k''))"
  by (simp add: demo_confirmation_of_def issue_def verify_confirmation_def check_confirmation_def Let_def
      confirmer_new_def MAX_OUTSTANDING_def CONFIRMATION_TTL_def demo_hex_decode_ok [unfolded hex_decode_ok_def]
      signing_input_def signed_parts_def demo_hex_inject)

end
