(* ===== verification/Derive.thy ===== *)
theory Derive
  imports Externals "HOL-Library.Word"
begin

unbundle bit_operations_syntax

text \<open>
  \<open>crates/syndeo-keystore/src/derive.rs\<close> and \<open>address.rs\<close>: one key for each origin, by
  hardened SLIP-0010 steps from the master key along a path read off the BLAKE3 of the
  canonical origin. A path index is a \<open>32 word\<close>. HMAC-SHA512, Ed25519 and base58 are the
  record \<open>key_crates\<close>.
\<close>

record key_crates =
  hmac_sha512 :: "bytes \<Rightarrow> bytes \<Rightarrow> bytes"
  ed25519_public :: "bytes \<Rightarrow> bytes"
  ed25519_sign :: "bytes \<Rightarrow> bytes \<Rightarrow> bytes"
  bs58_encode :: "bytes \<Rightarrow> string"
  bs58_decode :: "string \<Rightarrow> bytes option"

subsection \<open>Keys\<close>

record extended_key =
  ek_key :: bytes
  ek_chain_code :: bytes

definition CURVE :: bytes where
  "CURVE = ''ed25519 seed''"

definition HARDENED :: "32 word" where
  "HARDENED = 0x80000000"

definition SUM_COIN_TYPE :: "32 word" where
  "SUM_COIN_TYPE = 8848"

definition PURPOSE :: "32 word" where
  "PURPOSE = 44"

definition key_of_mac :: "bytes \<Rightarrow> extended_key" where
  "key_of_mac output = \<lparr> ek_key = take 32 output, ek_chain_code = take 32 (drop 32 output) \<rparr>"

definition master_key :: "key_crates \<Rightarrow> bytes \<Rightarrow> extended_key" where
  "master_key K seed = key_of_mac (hmac_sha512 K CURVE seed)"

text \<open>\<open>u32::to_be_bytes\<close> and \<open>u32::from_be_bytes\<close>.\<close>

definition byte_of :: "32 word \<Rightarrow> nat \<Rightarrow> char" where
  "byte_of w n = char_of (unat (drop_bit n w AND 0xFF))"

definition be_bytes :: "32 word \<Rightarrow> bytes" where
  "be_bytes w = [byte_of w 24, byte_of w 16, byte_of w 8, byte_of w 0]"

definition be_word :: "char \<Rightarrow> char \<Rightarrow> char \<Rightarrow> char \<Rightarrow> 32 word" where
  "be_word a b c d =
     push_bit 24 (of_nat (of_char a)) OR push_bit 16 (of_nat (of_char b))
     OR push_bit 8 (of_nat (of_char c)) OR of_nat (of_char d)"

definition derive_hardened :: "key_crates \<Rightarrow> 32 word \<Rightarrow> extended_key \<Rightarrow> extended_key" where
  "derive_hardened K index k =
     key_of_mac (hmac_sha512 K (ek_chain_code k) ([CHR 0x00] @ ek_key k @ be_bytes (index OR HARDENED)))"

definition derive_path :: "key_crates \<Rightarrow> 32 word list \<Rightarrow> extended_key \<Rightarrow> extended_key" where
  "derive_path K path k = fold (derive_hardened K) path k"

definition key_public :: "key_crates \<Rightarrow> extended_key \<Rightarrow> bytes" where
  "key_public K k = ed25519_public K (ek_key k)"

definition key_sign :: "key_crates \<Rightarrow> extended_key \<Rightarrow> bytes \<Rightarrow> bytes" where
  "key_sign K k message = ed25519_sign K (ek_key k) message"

subsection \<open>Origins\<close>

definition split_scheme :: "string \<Rightarrow> string \<times> string" where
  "split_scheme trimmed =
     (case split_once_str ''://'' trimmed of Some (s, r) \<Rightarrow> (to_lower s, r) | None \<Rightarrow> (''https'', trimmed))"

definition authority_of :: "string \<Rightarrow> string" where
  "authority_of rest =
     (let authority = to_lower (takeWhile (\<lambda>c. c \<notin> set ''/?#'') rest)
      in case rsplit_once (CHR ''@'') authority of Some (_, a) \<Rightarrow> a | None \<Rightarrow> authority)"

definition split_port :: "string \<Rightarrow> string \<times> string option" where
  "split_port authority =
     (case rsplit_once (CHR '':'') authority of
        Some (h, p) \<Rightarrow> if p \<noteq> [] \<and> list_all is_digit p then (h, Some p) else (authority, None)
      | None \<Rightarrow> (authority, None))"

definition is_default_port :: "string \<Rightarrow> string option \<Rightarrow> bool" where
  "is_default_port scheme port \<longleftrightarrow>
     scheme = ''https'' \<and> port = Some ''443'' \<or> scheme = ''http'' \<and> port = Some ''80''"

definition canonical_origin :: "string \<Rightarrow> string" where
  "canonical_origin origin =
     (let (scheme, rest) = split_scheme (trim origin); (host, port) = split_port (authority_of rest)
      in case port of
           Some p \<Rightarrow> if is_default_port scheme port then scheme @ ''://'' @ host
                     else scheme @ ''://'' @ host @ '':'' @ p
         | None \<Rightarrow> scheme @ ''://'' @ host)"

definition path_slice :: "bytes \<Rightarrow> nat \<Rightarrow> 32 word" where
  "path_slice digest n =
     be_word (digest ! n) (digest ! (n + 1)) (digest ! (n + 2)) (digest ! (n + 3)) AND 0x7FFFFFFF"

definition origin_path :: "('h, 'u) externs \<Rightarrow> string \<Rightarrow> 32 word list" where
  "origin_path X origin =
     (let digest = blake3 X (canonical_origin origin)
      in [PURPOSE, SUM_COIN_TYPE, path_slice digest 0, path_slice digest 4, path_slice digest 8])"

definition origin_key :: "('h, 'u) externs \<Rightarrow> key_crates \<Rightarrow> extended_key \<Rightarrow> string \<Rightarrow> extended_key" where
  "origin_key X K master origin = derive_path K (origin_path X origin) master"

subsection \<open>Addresses\<close>

definition ADDRESS_SIZE :: nat where
  "ADDRESS_SIZE = 20"

definition address_of_key :: "('h, 'u) externs \<Rightarrow> bytes \<Rightarrow> bytes" where
  "address_of_key X public = take 20 (drop 12 (blake3 X public))"

definition address_checksum :: "('h, 'u) externs \<Rightarrow> bytes \<Rightarrow> bytes" where
  "address_checksum X b = take 4 (blake3 X (blake3 X b))"

definition address_to_base58 :: "('h, 'u) externs \<Rightarrow> key_crates \<Rightarrow> bytes \<Rightarrow> string" where
  "address_to_base58 X K a = bs58_encode K (a @ address_checksum X a)"

definition address_from_base58 :: "('h, 'u) externs \<Rightarrow> key_crates \<Rightarrow> string \<Rightarrow> bytes option" where
  "address_from_base58 X K s =
     (case bs58_decode K s of
        None \<Rightarrow> None
      | Some decoded \<Rightarrow>
          if length decoded \<noteq> ADDRESS_SIZE + 4 then None
          else if address_checksum X (take ADDRESS_SIZE decoded) \<noteq> drop ADDRESS_SIZE decoded then None
          else Some (take ADDRESS_SIZE decoded))"

definition key_address :: "('h, 'u) externs \<Rightarrow> key_crates \<Rightarrow> extended_key \<Rightarrow> bytes" where
  "key_address X K k = address_of_key X (key_public K k)"

end
