(* ===== verification/Seal.thy ===== *)
theory Seal
  imports Externals
begin

text \<open>
  \<open>crates/syndeo-keystore/src/seal.rs\<close>: the seed sealed under a passphrase and then under a
  key the operating system holds. Argon2id and XChaCha20-Poly1305 are the record
  \<open>seal_crates\<close>; salt and nonces, drawn at random, are arguments. The texts of errors are
  left out.
\<close>

record kdf_params =
  m_cost :: nat
  t_cost :: nat
  p_cost :: nat

definition kdf_default :: kdf_params where
  "kdf_default = \<lparr> m_cost = 64 * 1024, t_cost = 3, p_cost = 1 \<rparr>"

datatype seal_error = SealUnseal | SealVersion nat | SealMalformed | SealKdf | SealPassphraseRequired
  | SealUnexpectedPassphrase

record seal_crates =
  argon2id :: "kdf_params \<Rightarrow> bytes \<Rightarrow> bytes \<Rightarrow> bytes option"
  aead_encrypt :: "bytes \<Rightarrow> bytes \<Rightarrow> bytes \<Rightarrow> bytes \<Rightarrow> bytes option"
  aead_decrypt :: "bytes \<Rightarrow> bytes \<Rightarrow> bytes \<Rightarrow> bytes \<Rightarrow> bytes option"

definition SEAL_VERSION :: nat where
  "SEAL_VERSION = 1"

definition AAD :: bytes where
  "AAD = ''syndeo-keystore-seed-v1''"

record sealed_seed =
  ss_version :: nat
  ss_passphrase_layer :: bool
  ss_kdf :: kdf_params
  ss_kdf_salt :: string
  ss_inner_nonce :: string
  ss_outer_nonce :: string
  ss_ciphertext :: string
  ss_identity_hint :: string

definition derive_key :: "seal_crates \<Rightarrow> bytes \<Rightarrow> bytes \<Rightarrow> kdf_params \<Rightarrow> seal_error + bytes" where
  "derive_key S passphrase salt kdf = (case argon2id S kdf passphrase salt of Some k \<Rightarrow> Inr k | None \<Rightarrow> Inl SealKdf)"

definition encrypt :: "seal_crates \<Rightarrow> bytes \<Rightarrow> bytes \<Rightarrow> bytes \<Rightarrow> seal_error + bytes" where
  "encrypt S key nonce plaintext =
     (case aead_encrypt S key nonce AAD plaintext of Some c \<Rightarrow> Inr c | None \<Rightarrow> Inl SealUnseal)"

definition decrypt :: "seal_crates \<Rightarrow> bytes \<Rightarrow> bytes \<Rightarrow> bytes \<Rightarrow> seal_error + bytes" where
  "decrypt S key nonce ciphertext =
     (case aead_decrypt S key nonce AAD ciphertext of Some p \<Rightarrow> Inr p | None \<Rightarrow> Inl SealUnseal)"

definition decode_hex :: "('h, 'u) externs \<Rightarrow> string \<Rightarrow> seal_error + bytes" where
  "decode_hex X s = (case hex_decode X s of Some b \<Rightarrow> Inr b | None \<Rightarrow> Inl SealMalformed)"

definition decode_nonce :: "('h, 'u) externs \<Rightarrow> string \<Rightarrow> seal_error + bytes" where
  "decode_nonce X s =
     (case decode_hex X s of
        Inl e \<Rightarrow> Inl e
      | Inr b \<Rightarrow> if length b = 24 then Inr b else Inl SealMalformed)"

definition seal_seed ::
    "('h, 'u) externs \<Rightarrow> seal_crates \<Rightarrow> bytes \<Rightarrow> bytes \<Rightarrow> bytes \<Rightarrow> bytes \<Rightarrow> bytes \<Rightarrow> bytes option
      \<Rightarrow> kdf_params \<Rightarrow> string \<Rightarrow> seal_error + sealed_seed" where
  "seal_seed X S salt inner_nonce outer_nonce seed wrapping_key passphrase kdf hint =
     (case (case passphrase of
              Some p \<Rightarrow>
                (case derive_key S p salt kdf of Inl e \<Rightarrow> Inl e | Inr key \<Rightarrow> encrypt S key inner_nonce seed)
            | None \<Rightarrow> Inr seed) of
        Inl e \<Rightarrow> Inl e
      | Inr inner \<Rightarrow>
          (case encrypt S wrapping_key outer_nonce inner of
             Inl e \<Rightarrow> Inl e
           | Inr outer \<Rightarrow>
               Inr \<lparr> ss_version = SEAL_VERSION, ss_passphrase_layer = (passphrase \<noteq> None), ss_kdf = kdf,
                     ss_kdf_salt = hex_encode X salt, ss_inner_nonce = hex_encode X inner_nonce,
                     ss_outer_nonce = hex_encode X outer_nonce, ss_ciphertext = hex_encode X outer,
                     ss_identity_hint = hint \<rparr>))"

definition unseal_inner ::
    "('h, 'u) externs \<Rightarrow> seal_crates \<Rightarrow> sealed_seed \<Rightarrow> bytes \<Rightarrow> bytes \<Rightarrow> seal_error + bytes" where
  "unseal_inner X S sealed passphrase inner =
     (case decode_hex X (ss_kdf_salt sealed) of
        Inl e \<Rightarrow> Inl e
      | Inr salt \<Rightarrow>
          (case decode_nonce X (ss_inner_nonce sealed) of
             Inl e \<Rightarrow> Inl e
           | Inr nonce \<Rightarrow>
               (case derive_key S passphrase salt (ss_kdf sealed) of
                  Inl e \<Rightarrow> Inl e
                | Inr key \<Rightarrow> decrypt S key nonce inner)))"

definition unseal_seed ::
    "('h, 'u) externs \<Rightarrow> seal_crates \<Rightarrow> sealed_seed \<Rightarrow> bytes \<Rightarrow> bytes option \<Rightarrow> seal_error + bytes" where
  "unseal_seed X S sealed wrapping_key passphrase =
     (if ss_passphrase_layer sealed \<and> passphrase = None then Inl SealPassphraseRequired
      else if \<not> ss_passphrase_layer sealed \<and> passphrase \<noteq> None then Inl SealUnexpectedPassphrase
      else case decode_nonce X (ss_outer_nonce sealed) of
          Inl e \<Rightarrow> Inl e
        | Inr nonce \<Rightarrow>
            (case decode_hex X (ss_ciphertext sealed) of
               Inl e \<Rightarrow> Inl e
             | Inr ciphertext \<Rightarrow>
                 (case decrypt S wrapping_key nonce ciphertext of
                    Inl e \<Rightarrow> Inl e
                  | Inr inner \<Rightarrow>
                      (case passphrase of
                         Some p \<Rightarrow> unseal_inner X S sealed p inner
                       | None \<Rightarrow> Inr inner))))"

subsection \<open>Round trip\<close>

text \<open>
  An AEAD opens what it sealed, under the same key, nonce and data, and under no other key.
\<close>

definition aead_ok :: "seal_crates \<Rightarrow> bool" where
  "aead_ok S \<longleftrightarrow> (\<forall>k n a m c. aead_encrypt S k n a m = Some c \<longrightarrow>
     (\<forall>k'. aead_decrypt S k' n a c = (if k' = k then Some m else None)))"

lemma seal_opens:
  assumes "\<forall>b. hex_decode X (hex_encode X b) = Some b" and "aead_ok S"
    and "length inner_nonce = 24" and "length outer_nonce = 24"
    and s: "seal_seed X S salt inner_nonce outer_nonce seed w passphrase kdf hint = Inr sealed"
  shows "unseal_seed X S sealed w passphrase = Inr seed
    \<and> (\<forall>w' p' x. unseal_seed X S sealed w' p' = Inr x \<longrightarrow>
         x = seed \<and> w' = w \<and> (p' = None \<longleftrightarrow> passphrase = None) \<and>
         (\<forall>a b. passphrase = Some a \<longrightarrow> p' = Some b \<longrightarrow> argon2id S kdf b salt = argon2id S kdf a salt))"
proof -
  obtain inner outer where outer: "aead_encrypt S w outer_nonce AAD inner = Some outer"
    and sealed: "sealed = \<lparr> ss_version = SEAL_VERSION, ss_passphrase_layer = (passphrase \<noteq> None), ss_kdf = kdf,
        ss_kdf_salt = hex_encode X salt, ss_inner_nonce = hex_encode X inner_nonce,
        ss_outer_nonce = hex_encode X outer_nonce, ss_ciphertext = hex_encode X outer, ss_identity_hint = hint \<rparr>"
    and inner: "case passphrase of None \<Rightarrow> inner = seed
      | Some p \<Rightarrow> \<exists>key. argon2id S kdf p salt = Some key \<and> aead_encrypt S key inner_nonce AAD seed = Some inner"
    using s by (auto simp: seal_seed_def encrypt_def derive_key_def split: option.splits sum.splits)
  have open_outer: "decrypt S w' outer_nonce outer = (if w' = w then Inr inner else Inl SealUnseal)" for w'
    using assms(2) outer by (simp add: aead_ok_def decrypt_def)
  have hexes: "decode_hex X (hex_encode X b) = Inr b" for b using assms(1) by (simp add: decode_hex_def)
  show ?thesis
  proof (cases passphrase)
    case None
    then show ?thesis using inner open_outer assms(3,4)
      by (auto simp: unseal_seed_def sealed decode_nonce_def hexes split: if_splits)
  next
    case (Some p)
    then obtain key where key: "argon2id S kdf p salt = Some key" "aead_encrypt S key inner_nonce AAD seed = Some inner"
      using inner by auto
    have open_inner: "decrypt S key' inner_nonce inner = (if key' = key then Inr seed else Inl SealUnseal)" for key'
      using assms(2) key(2) by (simp add: aead_ok_def decrypt_def)
    show ?thesis using Some key open_outer open_inner assms(3,4)
      by (auto simp: unseal_seed_def unseal_inner_def sealed decode_nonce_def hexes derive_key_def
          split: if_splits option.splits sum.splits)
  qed
qed

text \<open>
  A sealed seed opens with the key and the passphrase it was sealed with, to the seed
  itself, and with nothing else: another wrapping key, a passphrase where there was none or
  none where there was one, or a passphrase whose Argon2 key differs, all give an error, and
  never other bytes.
\<close>

theorem seal_opens_only_for_its_keys:
  assumes "\<forall>b. hex_decode X (hex_encode X b) = Some b" and "aead_ok S"
    and "length inner_nonce = 24" and "length outer_nonce = 24"
    and s: "seal_seed X S salt inner_nonce outer_nonce seed w passphrase kdf hint = Inr sealed"
  shows "unseal_seed X S sealed w passphrase = Inr seed
    \<and> (\<forall>w' p' x. unseal_seed X S sealed w' p' = Inr x \<longrightarrow>
         x = seed \<and> w' = w \<and> (p' = None \<longleftrightarrow> passphrase = None) \<and>
         (\<forall>a b. passphrase = Some a \<longrightarrow> p' = Some b \<longrightarrow> argon2id S kdf b salt = argon2id S kdf a salt))"
  using seal_opens [OF assms] .

text \<open>An AEAD that writes its key, in a form no other key's begins with, before the message.\<close>

definition demo_tag :: "bytes \<Rightarrow> bytes" where
  "demo_tag k = replicate (length k) (CHR 0x01) @ CHR 0x00 # k"

definition demo_seal :: seal_crates where
  "demo_seal = \<lparr> argon2id = (\<lambda>_ p salt. Some (p @ salt)),
     aead_encrypt = (\<lambda>k n a m. Some (demo_tag k @ m)),
     aead_decrypt = (\<lambda>k n a c. strip_prefix (demo_tag k) c) \<rparr>"

lemma demo_tag_free:
  assumes "demo_tag k' @ m' = demo_tag k @ m"
  shows "k' = k"
proof -
  have w: "length (takeWhile (\<lambda>c. c = CHR 0x01) (demo_tag j @ r)) = length j" for j r
  proof -
    have "takeWhile (\<lambda>c. c = CHR 0x01) (replicate n (CHR 0x01) @ CHR 0x00 # t) = replicate n (CHR 0x01)" for n t
      by (induction n) simp_all
    then show ?thesis by (simp add: demo_tag_def)
  qed
  have "length k' = length k" using w [of k' m'] w [of k m] assms by simp
  then show ?thesis using assms by (simp add: demo_tag_def)
qed

lemma demo_aead_ok: "aead_ok demo_seal"
proof -
  have "strip_prefix (demo_tag k') (demo_tag k @ m) = (if k' = k then Some m else None)" for k k' m
  proof (cases "k' = k")
    case False
    have "take (length (demo_tag k')) (demo_tag k @ m) \<noteq> demo_tag k'"
    proof
      assume "take (length (demo_tag k')) (demo_tag k @ m) = demo_tag k'"
      then have "demo_tag k' @ drop (length (demo_tag k')) (demo_tag k @ m) = demo_tag k @ m"
        using append_take_drop_id [of "length (demo_tag k')" "demo_tag k @ m"] by simp
      then show False using demo_tag_free False by blast
    qed
    then show ?thesis using False by (simp add: strip_prefix_def starts_with_def)
  qed (simp add: strip_prefix_def starts_with_def)
  then show ?thesis by (simp add: aead_ok_def demo_seal_def)
qed

theorem seal_opens_only_for_its_keys_witness:
  "\<exists>sealed. seal_seed demo demo_seal ''salt'' (replicate 24 CHR ''i'') (replicate 24 CHR ''o'') ''seed'' ''w'' (Some ''pw'')
      kdf_default ''me'' = Inr sealed \<and> unseal_seed demo demo_seal sealed ''w'' (Some ''pw'') = Inr ''seed''
    \<and> (\<forall>x. unseal_seed demo demo_seal sealed ''w'' (Some ''px'') \<noteq> Inr x)"
proof -
  have hex: "\<forall>b. hex_decode demo (hex_encode demo b) = Some b" by (simp add: demo_def demo_unhex_hex)
  obtain sealed where s: "seal_seed demo demo_seal ''salt'' (replicate 24 CHR ''i'') (replicate 24 CHR ''o'') ''seed'' ''w''
      (Some ''pw'') kdf_default ''me'' = Inr sealed"
    by (simp add: seal_seed_def derive_key_def encrypt_def demo_seal_def)
  note t = seal_opens_only_for_its_keys [OF hex demo_aead_ok _ _ s]
  have "unseal_seed demo demo_seal sealed ''w'' (Some ''pw'') = Inr ''seed''" using t by simp
  moreover have "unseal_seed demo demo_seal sealed ''w'' (Some ''px'') \<noteq> Inr x" for x
    using t by (auto simp: demo_seal_def)
  ultimately show ?thesis using s by blast
qed

end
