(* ===== verification/Keystore.thy ===== *)
theory Keystore
  imports Confirm Derive Seal
begin

text \<open>
  The keystore process: \<open>idle.rs\<close>, \<open>presence.rs\<close>, \<open>keystore.rs\<close> and the request handler
  of \<open>service.rs\<close> in \<open>crates/syndeo-keystore/src\<close>. An operation takes the state and the
  \<open>moment\<close> it happens at - both clocks, what the system says of the screen and of user
  presence, whether the file passes its audit - and returns the new state and its result.
  The sealed file is its bytes, if there is one; the operating system's credential store is
  an error or the key it holds, if any; random bytes are arguments.
\<close>

subsection \<open>Idleness\<close>

record reading =
  r_monotonic :: nat
  r_wall :: nat

datatype reason = Idle | Slept | ScreenLocked

definition SLEEP_SLACK :: nat where
  "SLEEP_SLACK = 30"

record watch =
  w_timeout :: "nat option"
  w_last :: reading

definition watch_new :: "nat option \<Rightarrow> reading \<Rightarrow> watch" where
  "watch_new timeout now = \<lparr> w_timeout = timeout, w_last = now \<rparr>"

definition touch_watch :: "reading \<Rightarrow> watch \<Rightarrow> watch" where
  "touch_watch now w = w\<lparr>w_last := now\<rparr>"

definition idle_for :: "reading \<Rightarrow> watch \<Rightarrow> nat" where
  "idle_for now w = r_monotonic now - r_monotonic (w_last w)"

definition session_expired :: "reading \<Rightarrow> bool option \<Rightarrow> watch \<Rightarrow> reason option" where
  "session_expired now screen w =
     (let monotonic_delta = r_monotonic now - r_monotonic (w_last w);
          wall_delta = r_wall now - r_wall (w_last w)
      in if sat_add monotonic_delta SLEEP_SLACK < wall_delta then Some Slept
         else if screen = Some True then Some ScreenLocked
         else case w_timeout w of
             Some timeout \<Rightarrow> if timeout \<le> monotonic_delta then Some Idle else None
           | None \<Rightarrow> None)"

subsection \<open>Presence\<close>

record policy =
  platform_presence :: bool
  passphrase_required :: bool

definition presence_policy :: "bool \<Rightarrow> bool \<Rightarrow> policy" where
  "presence_policy platform user_set_a_passphrase =
     \<lparr> platform_presence = platform, passphrase_required = (\<not> platform \<or> user_set_a_passphrase) \<rparr>"

subsection \<open>The keystore\<close>

record 'm keystore_crates =
  json_of_seed :: "sealed_seed \<Rightarrow> bytes"
  seed_of_json :: "bytes \<Rightarrow> sealed_seed option"
  mnemonic_of_entropy :: "bytes \<Rightarrow> 'm option"
  mnemonic_parse :: "string \<Rightarrow> 'm option"
  mnemonic_text :: "'m \<Rightarrow> string"
  mnemonic_seed :: "'m \<Rightarrow> bytes"

record ('h, 'u, 'm) key_env =
  e_externs :: "('h, 'u) externs"
  e_hmac :: hmac
  e_keys :: key_crates
  e_seal :: seal_crates
  e_store :: "'m keystore_crates"

record moment =
  t_reading :: reading
  t_unix :: nat
  t_screen :: "bool option"
  t_available :: bool
  t_enforced :: bool
  t_audit :: bool

text \<open>What an enrolment draws at random, and the Argon2 cost it measures.\<close>

record draws =
  x_entropy :: bytes
  x_wrapping_key :: bytes
  x_salt :: bytes
  x_inner_nonce :: bytes
  x_outer_nonce :: bytes
  x_calibrated :: kdf_params

datatype keystore_error =
    CustodyFailed
  | SealFailed seal_error
  | WrappingFailed
  | ConfirmationRefused confirmation_error
  | KeystoreLocked
  | AlreadyInitialized
  | WrappingKeyExists
  | WrappingKeyUnknown
  | NotInitialized
  | PassphraseRequired
  | MnemonicRefused

record keystore =
  ks_vault :: "bytes option"
  ks_wrapping :: "unit + bytes option"
  ks_master :: "extended_key option"
  ks_watch :: watch

definition DEFAULT_IDLE_TIMEOUT :: nat where
  "DEFAULT_IDLE_TIMEOUT = 5 * 60"

definition keystore_open :: "bytes option \<Rightarrow> unit + bytes option \<Rightarrow> reading \<Rightarrow> keystore" where
  "keystore_open vault wrapping now =
     \<lparr> ks_vault = vault, ks_wrapping = wrapping, ks_master = None,
       ks_watch = watch_new (Some DEFAULT_IDLE_TIMEOUT) now \<rparr>"

definition lock_keystore :: "keystore \<Rightarrow> keystore" where
  "lock_keystore s = s\<lparr>ks_master := None\<rparr>"

definition lock_if_expired :: "moment \<Rightarrow> keystore \<Rightarrow> keystore \<times> reason option" where
  "lock_if_expired t s =
     (if ks_master s = None then (s, None)
      else case session_expired (t_reading t) (t_screen t) (ks_watch s) of
          None \<Rightarrow> (s, None)
        | Some r \<Rightarrow> (lock_keystore s, Some r))"

definition touch_keystore :: "moment \<Rightarrow> keystore \<Rightarrow> keystore" where
  "touch_keystore t s = s\<lparr>ks_watch := touch_watch (t_reading t) (ks_watch s)\<rparr>"

definition load_sealed :: "('h, 'u, 'm) key_env \<Rightarrow> moment \<Rightarrow> keystore \<Rightarrow> keystore_error + sealed_seed" where
  "load_sealed E t s =
     (case ks_vault s of
        None \<Rightarrow> Inl NotInitialized
      | Some file \<Rightarrow>
          if \<not> t_audit t then Inl CustodyFailed
          else case seed_of_json (e_store E) file of
              None \<Rightarrow> Inl (SealFailed SealMalformed)
            | Some sealed \<Rightarrow>
                if ss_version sealed \<noteq> SEAL_VERSION then Inl (SealFailed (SealVersion (ss_version sealed)))
                else Inr sealed)"

record keystore_status =
  st_initialized :: bool
  st_unsealed :: bool
  st_passphrase_required :: bool
  st_presence_enforced :: bool
  st_idle_timeout :: "nat option"
  st_idle_for :: nat

definition keystore_status_of :: "('h, 'u, 'm) key_env \<Rightarrow> moment \<Rightarrow> keystore \<Rightarrow> keystore_status" where
  "keystore_status_of E t s =
     (let set = (case load_sealed E t s of Inr sealed \<Rightarrow> ss_passphrase_layer sealed | Inl _ \<Rightarrow> False);
          enforced = (if ks_vault s \<noteq> None then t_enforced t else t_available t);
          p = presence_policy enforced set
      in \<lparr> st_initialized = (ks_vault s \<noteq> None), st_unsealed = (ks_master s \<noteq> None),
           st_passphrase_required = passphrase_required p, st_presence_enforced = enforced,
           st_idle_timeout = w_timeout (ks_watch s), st_idle_for = idle_for (t_reading t) (ks_watch s) \<rparr>)"

definition require_passphrase :: "moment \<Rightarrow> bytes option \<Rightarrow> keystore_error option" where
  "require_passphrase t passphrase =
     (if passphrase_required (presence_policy (t_available t) (passphrase \<noteq> None)) \<and> passphrase = None
      then Some PassphraseRequired else None)"

definition check_can_initialize :: "keystore \<Rightarrow> keystore_error option" where
  "check_can_initialize s =
     (if ks_vault s \<noteq> None then Some AlreadyInitialized
      else case ks_wrapping s of
          Inr None \<Rightarrow> None
        | Inr (Some k) \<Rightarrow> Some WrappingKeyExists
        | Inl _ \<Rightarrow> Some WrappingKeyUnknown)"

text \<open>
  \<open>seal_mnemonic\<close>: the wrapping key is stored first, then the file is written; the second
  can fail, when the file there does not pass its audit, with the first done.
\<close>

definition seal_mnemonic ::
    "('h, 'u, 'm) key_env \<Rightarrow> moment \<Rightarrow> draws \<Rightarrow> 'm \<Rightarrow> bytes option \<Rightarrow> keystore \<Rightarrow> keystore \<times> (keystore_error + bytes)" where
  "seal_mnemonic E t x mnemonic passphrase s =
     (let seed = mnemonic_seed (e_store E) mnemonic; K = e_keys E; X = e_externs E;
          master = master_key K seed;
          identity = key_address X K (derive_path K [44, SUM_COIN_TYPE, 0] master);
          kdf = (if passphrase \<noteq> None then x_calibrated x else kdf_default)
      in case seal_seed X (e_seal E) (x_salt x) (x_inner_nonce x) (x_outer_nonce x) seed (x_wrapping_key x)
                passphrase kdf (address_to_base58 X K identity) of
           Inl e \<Rightarrow> (s, Inl (SealFailed e))
         | Inr sealed \<Rightarrow>
             (case ks_wrapping s of
                Inl _ \<Rightarrow> (s, Inl WrappingFailed)
              | Inr _ \<Rightarrow>
                  let s = s\<lparr>ks_wrapping := Inr (Some (x_wrapping_key x))\<rparr>
                  in if ks_vault s \<noteq> None \<and> \<not> t_audit t then (s, Inl CustodyFailed)
                     else (touch_keystore t (s\<lparr>ks_vault := Some (json_of_seed (e_store E) sealed),
                             ks_master := Some master\<rparr>), Inr identity)))"

definition initialize ::
    "('h, 'u, 'm) key_env \<Rightarrow> moment \<Rightarrow> draws \<Rightarrow> bytes option \<Rightarrow> keystore
      \<Rightarrow> keystore \<times> (keystore_error + string \<times> bytes)" where
  "initialize E t x passphrase s =
     (case check_can_initialize s of
        Some e \<Rightarrow> (s, Inl e)
      | None \<Rightarrow>
          (case require_passphrase t passphrase of
             Some e \<Rightarrow> (s, Inl e)
           | None \<Rightarrow>
               (case mnemonic_of_entropy (e_store E) (x_entropy x) of
                  None \<Rightarrow> (s, Inl MnemonicRefused)
                | Some m \<Rightarrow>
                    (case seal_mnemonic E t x m passphrase s of
                       (s, Inl e) \<Rightarrow> (s, Inl e)
                     | (s, Inr a) \<Rightarrow> (s, Inr (mnemonic_text (e_store E) m, a))))))"

definition restore ::
    "('h, 'u, 'm) key_env \<Rightarrow> moment \<Rightarrow> draws \<Rightarrow> string \<Rightarrow> bytes option \<Rightarrow> keystore \<Rightarrow> keystore \<times> (keystore_error + bytes)" where
  "restore E t x phrase passphrase s =
     (case require_passphrase t passphrase of
        Some e \<Rightarrow> (s, Inl e)
      | None \<Rightarrow>
          (case mnemonic_parse (e_store E) (trim phrase) of
             None \<Rightarrow> (s, Inl MnemonicRefused)
           | Some m \<Rightarrow> seal_mnemonic E t x m passphrase s))"

definition unseal :: "('h, 'u, 'm) key_env \<Rightarrow> moment \<Rightarrow> bytes option \<Rightarrow> keystore \<Rightarrow> keystore \<times> (keystore_error + unit)" where
  "unseal E t passphrase s =
     (case load_sealed E t s of
        Inl e \<Rightarrow> (s, Inl e)
      | Inr sealed \<Rightarrow>
          if ss_passphrase_layer sealed \<and> passphrase = None then (s, Inl PassphraseRequired)
          else case ks_wrapping s of
              Inl _ \<Rightarrow> (s, Inl WrappingFailed)
            | Inr None \<Rightarrow> (s, Inl WrappingFailed)
            | Inr (Some key) \<Rightarrow>
                (case unseal_seed (e_externs E) (e_seal E) sealed key passphrase of
                   Inl e \<Rightarrow> (s, Inl (SealFailed e))
                 | Inr seed \<Rightarrow>
                     (touch_keystore t (s\<lparr>ks_master := Some (master_key (e_keys E) seed)\<rparr>), Inr ())))"

definition public_identity ::
    "('h, 'u, 'm) key_env \<Rightarrow> moment \<Rightarrow> string \<Rightarrow> keystore \<Rightarrow> keystore \<times> (keystore_error + string \<times> bytes)" where
  "public_identity E t origin s =
     (let s = fst (lock_if_expired t s)
      in case ks_master s of
           None \<Rightarrow> (s, Inl KeystoreLocked)
         | Some master \<Rightarrow>
             let key = origin_key (e_externs E) (e_keys E) master origin
             in (touch_keystore t s, Inr (hex_encode (e_externs E) (key_public (e_keys E) key),
                   key_address (e_externs E) (e_keys E) key)))"

record signed =
  sg_signature :: string
  sg_public_key :: string
  sg_address :: bytes
  sg_purpose :: purpose

definition sign_confirmed ::
    "('h, 'u, 'm) key_env \<Rightarrow> moment \<Rightarrow> confirmation \<Rightarrow> bytes \<Rightarrow> keystore \<times> confirmer
      \<Rightarrow> (keystore \<times> confirmer) \<times> (keystore_error + signed)" where
  "sign_confirmed E t c payload sk =
     (let s = fst (lock_if_expired t (fst sk)); X = e_externs E; K = e_keys E
      in case verify_confirmation X (e_hmac E) (t_unix t) c payload (snd sk) of
           (k, Inl e) \<Rightarrow> ((s, k), Inl (ConfirmationRefused e))
         | (k, Inr _) \<Rightarrow>
             (case ks_master s of
                None \<Rightarrow> ((s, k), Inl KeystoreLocked)
              | Some master \<Rightarrow>
                  let key = origin_key X K master (cf_origin c)
                  in ((touch_keystore t s, k),
                      Inr \<lparr> sg_signature = hex_encode X (key_sign K key payload),
                            sg_public_key = hex_encode X (key_public K key),
                            sg_address = key_address X K key, sg_purpose = cf_purpose c \<rparr>)))"

definition identity_hint :: "('h, 'u, 'm) key_env \<Rightarrow> moment \<Rightarrow> keystore \<Rightarrow> string option" where
  "identity_hint E t s = (case load_sealed E t s of Inr sealed \<Rightarrow> Some (ss_identity_hint sealed) | Inl _ \<Rightarrow> None)"

subsection \<open>The request handler\<close>

datatype keystore_request =
    RqSignConfirmed confirmation bytes
  | RqPublicIdentity string
  | RqStatus
  | RqInitialize "bytes option"
  | RqRestore bytes "bytes option"
  | RqUnseal "bytes option"
  | RqLock
  | RqSessionProtection

datatype screen_lock_report = Reported bool | NotReported

datatype keystore_response =
    RsSignature string string string
  | RsIdentity string string
  | RsStatus keystore_status
  | RsLocked
  | RsOk
  | RsError
  | RsSessionProtection bool bool "nat option" bool screen_lock_report

definition refuse :: "keystore_error \<Rightarrow> keystore_response" where
  "refuse e = (if e = KeystoreLocked then RsLocked else RsError)"

definition refuse_enrolment :: "keystore_response" where
  "refuse_enrolment = RsError"

fun handle_request ::
    "('h, 'u, 'm) key_env \<Rightarrow> moment \<Rightarrow> keystore_request \<Rightarrow> keystore \<times> confirmer
      \<Rightarrow> (keystore \<times> confirmer) \<times> keystore_response" where
  "handle_request E t (RqSignConfirmed c payload) sk =
     (case sign_confirmed E t c payload sk of
        (sk, Inr g) \<Rightarrow> (sk, RsSignature (sg_signature g) (sg_public_key g)
            (address_to_base58 (e_externs E) (e_keys E) (sg_address g)))
      | (sk, Inl e) \<Rightarrow> (sk, refuse e))"
| "handle_request E t (RqPublicIdentity origin) sk =
     (case public_identity E t origin (fst sk) of
        (s, Inr (public, a)) \<Rightarrow> ((s, snd sk), RsIdentity public (address_to_base58 (e_externs E) (e_keys E) a))
      | (s, Inl e) \<Rightarrow> ((s, snd sk), refuse e))"
| "handle_request E t RqSessionProtection sk =
     (let st = keystore_status_of E t (fst sk)
      in (sk, RsSessionProtection (st_initialized st) (st_unsealed st) (st_idle_timeout st) True
            (case t_screen t of Some locked \<Rightarrow> Reported locked | None \<Rightarrow> NotReported)))"
| "handle_request E t RqStatus sk = (sk, RsStatus (keystore_status_of E t (fst sk)))"
| "handle_request E t (RqInitialize passphrase) sk = (sk, refuse_enrolment)"
| "handle_request E t (RqRestore mnemonic passphrase) sk = (sk, refuse_enrolment)"
| "handle_request E t (RqUnseal passphrase) sk =
     (case unseal E t passphrase (fst sk) of
        (s, Inr _) \<Rightarrow> ((s, snd sk), RsOk)
      | (s, Inl e) \<Rightarrow> ((s, snd sk), refuse e))"
| "handle_request E t RqLock sk = ((lock_keystore (fst sk), snd sk), RsOk)"

text \<open>
  What happens to a running keystore: the tick of its timer every five seconds, or a request.
\<close>

definition TICK :: nat where
  "TICK = 5"

datatype keystore_event = Tick moment | Request moment keystore_request

fun event_moment :: "keystore_event \<Rightarrow> moment" where
  "event_moment (Tick t) = t"
| "event_moment (Request t r) = t"

fun keystore_step ::
    "('h, 'u, 'm) key_env \<Rightarrow> keystore_event \<Rightarrow> keystore \<times> confirmer \<Rightarrow> keystore \<times> confirmer" where
  "keystore_step E (Tick t) sk = (fst (lock_if_expired t (fst sk)), snd sk)"
| "keystore_step E (Request t r) sk = fst (handle_request E t r sk)"

fun answers ::
    "('h, 'u, 'm) key_env \<Rightarrow> keystore_event list \<Rightarrow> keystore \<times> confirmer
      \<Rightarrow> (keystore_request \<times> keystore_response) list" where
  "answers E [] sk = []"
| "answers E (Tick t # es) sk = answers E es (keystore_step E (Tick t) sk)"
| "answers E (Request t r # es) sk =
     (r, snd (handle_request E t r sk)) # answers E es (keystore_step E (Request t r) sk)"

end
