(* ===== verification/Keystore_Demo.thy ===== *)
theory Keystore_Demo
  imports Keystore
begin

text \<open>
  An instance of the crates the keystore calls, on which the witnesses of its properties are
  evaluated: a sealed seed is written as its fields, each preceded by its length in unary; a
  recovery phrase is hexadecimal; keys and signatures are concatenations.
\<close>

definition ser_nat :: "nat \<Rightarrow> bytes" where
  "ser_nat n = replicate n (CHR 0x01) @ [CHR 0x00]"

definition ser_str :: "string \<Rightarrow> bytes" where
  "ser_str s = ser_nat (length s) @ s"

definition de_nat :: "bytes \<Rightarrow> nat \<times> bytes" where
  "de_nat b = (length (takeWhile (\<lambda>c. c = CHR 0x01) b), tl (dropWhile (\<lambda>c. c = CHR 0x01) b))"

definition de_str :: "bytes \<Rightarrow> string \<times> bytes" where
  "de_str b = (let (n, r) = de_nat b in (take n r, drop n r))"

lemma de_nat_ser [simp]: "de_nat (ser_nat n @ b) = (n, b)"
proof -
  have "takeWhile (\<lambda>c. c = CHR 0x01) (replicate n (CHR 0x01) @ CHR 0x00 # t) = replicate n (CHR 0x01)"
    "dropWhile (\<lambda>c. c = CHR 0x01) (replicate n (CHR 0x01) @ CHR 0x00 # t) = CHR 0x00 # t" for t
    by (induction n) simp_all
  then show ?thesis by (simp add: de_nat_def ser_nat_def)
qed

lemma de_str_ser [simp]: "de_str (ser_str s @ b) = (s, b)"
  by (simp add: de_str_def ser_str_def)

definition demo_json :: "sealed_seed \<Rightarrow> bytes" where
  "demo_json s =
     ser_nat (ss_version s) @ ser_nat (if ss_passphrase_layer s then 1 else 0) @ ser_nat (m_cost (ss_kdf s))
     @ ser_nat (t_cost (ss_kdf s)) @ ser_nat (p_cost (ss_kdf s)) @ ser_str (ss_kdf_salt s)
     @ ser_str (ss_inner_nonce s) @ ser_str (ss_outer_nonce s) @ ser_str (ss_ciphertext s)
     @ ser_str (ss_identity_hint s)"

definition demo_unjson :: "bytes \<Rightarrow> sealed_seed option" where
  "demo_unjson b =
     (let (v, b) = de_nat b; (l, b) = de_nat b; (mc, b) = de_nat b; (tc, b) = de_nat b; (pc, b) = de_nat b;
          (salt, b) = de_str b; (i, b) = de_str b; (q, b) = de_str b; (c, b) = de_str b; (h, b) = de_str b
      in Some \<lparr> ss_version = v, ss_passphrase_layer = (l = 1), ss_kdf = \<lparr> m_cost = mc, t_cost = tc, p_cost = pc \<rparr>,
           ss_kdf_salt = salt, ss_inner_nonce = i, ss_outer_nonce = q, ss_ciphertext = c, ss_identity_hint = h \<rparr>)"

lemma demo_unjson_json: "demo_unjson (demo_json s) = Some s"
  using de_str_ser [of _ "[]"] by (simp add: demo_unjson_def demo_json_def)

definition demo_keys :: key_crates where
  "demo_keys = \<lparr> hmac_sha512 = (\<lambda>k m. take 64 (k @ m @ replicate 64 (CHR 0x00))), ed25519_public = (\<lambda>k. k),
     ed25519_sign = (\<lambda>k m. k @ m), bs58_encode = (\<lambda>b. b), bs58_decode = Some \<rparr>"

definition demo_store :: "bytes keystore_crates" where
  "demo_store = \<lparr> json_of_seed = demo_json, seed_of_json = demo_unjson, mnemonic_of_entropy = Some,
     mnemonic_parse = demo_unhex, mnemonic_text = demo_hex, mnemonic_seed = (\<lambda>m. m) \<rparr>"

definition demo_env :: "((string \<times> bytes) list, string, bytes) key_env" where
  "demo_env = \<lparr> e_externs = demo, e_hmac = demo_hmac, e_keys = demo_keys, e_seal = demo_seal, e_store = demo_store \<rparr>"

definition demo_moment :: "nat \<Rightarrow> moment" where
  "demo_moment n = \<lparr> t_reading = \<lparr> r_monotonic = n, r_wall = n \<rparr>, t_unix = n, t_screen = Some False, t_available = False,
     t_enforced = False, t_audit = True \<rparr>"

definition demo_draws :: draws where
  "demo_draws = \<lparr> x_entropy = ''entropy'', x_wrapping_key = ''wrap'', x_salt = ''salt'',
     x_inner_nonce = replicate 24 (CHR ''i''), x_outer_nonce = replicate 24 (CHR ''o''), x_calibrated = kdf_default \<rparr>"

lemma demo_env_parts [simp]:
  "e_externs demo_env = demo" "e_hmac demo_env = demo_hmac" "e_keys demo_env = demo_keys" "e_seal demo_env = demo_seal"
  "e_store demo_env = demo_store"
  by (simp_all add: demo_env_def)

lemma trim_hex: "list_all is_hexdigit s \<Longrightarrow> trim s = s"
proof -
  have ws: "is_hexdigit c \<Longrightarrow> \<not> is_ws c" for c by (auto simp: is_hexdigit_def is_ws_def is_digit_def)
  have drop: "list_all is_hexdigit s \<Longrightarrow> dropWhile is_ws s = s" for s by (cases s) (auto dest: ws)
  show "list_all is_hexdigit s \<Longrightarrow> trim s = s"
    using drop [of s] drop [of "rev s"] by (simp add: trim_def trim_start_def trim_end_def list_all_rev)
qed

lemma demo_phrase: "mnemonic_parse demo_store (trim (mnemonic_text demo_store m)) = Some m"
  by (simp add: demo_store_def trim_hex demo_hex_digits demo_unhex_hex)

end
