(* ===== verification/Keystore_Safety.thy ===== *)
theory Keystore_Safety
  imports Keystore_Demo
begin

text \<open>
  What the keystore promises: a signature needs an open session and a confirmation for just
  this payload, each confirmation makes at most one, a session nobody uses ends, and every
  request is answered in kind.
\<close>

subsection \<open>What a request changes\<close>

lemma lock_if_expired_cases:
  "fst (lock_if_expired t s) = s \<or> fst (lock_if_expired t s) = s\<lparr>ks_master := None\<rparr>"
  by (auto simp: lock_if_expired_def lock_keystore_def split: option.splits)

lemma lock_if_expired_keeps [simp]:
  "ks_vault (fst (lock_if_expired t s)) = ks_vault s" "ks_wrapping (fst (lock_if_expired t s)) = ks_wrapping s"
  "ks_watch (fst (lock_if_expired t s)) = ks_watch s"
  using lock_if_expired_cases [of t s] by auto

lemma lock_if_expired_master:
  "ks_master (fst (lock_if_expired t s)) = Some m \<longleftrightarrow>
     ks_master s = Some m \<and> session_expired (t_reading t) (t_screen t) (ks_watch s) = None"
  by (auto simp: lock_if_expired_def lock_keystore_def split: option.splits)

lemma verify_confirmation_check:
  "verify_confirmation X hm now c payload k = (k', Inr u) \<Longrightarrow> check_confirmation X hm k now c payload = None"
  by (simp add: verify_accepts)

lemma signature_needs:
  assumes "handle_request E t r (s, k) = ((s', k'), RsSignature signature public address)"
  shows "\<exists>c payload master. r = RqSignConfirmed c payload
    \<and> check_confirmation (e_externs E) (e_hmac E) k (t_unix t) c payload = None
    \<and> (cf_nonce c, cf_expires_at c) \<notin> set (cr_consumed k)
    \<and> (cf_nonce c, cf_expires_at c) \<in> set (cr_consumed k')
    \<and> ks_master s = Some master \<and> session_expired (t_reading t) (t_screen t) (ks_watch s) = None
    \<and> signature = hex_encode (e_externs E)
        (key_sign (e_keys E) (origin_key (e_externs E) (e_keys E) master (cf_origin c)) payload)"
proof -
  obtain c payload where r: "r = RqSignConfirmed c payload"
    using assms by (cases r) (auto simp: refuse_def refuse_enrolment_def Let_def split: prod.splits sum.splits if_splits)
  obtain g where sc: "sign_confirmed E t c payload (s, k) = ((s', k'), Inr g)" and sig: "signature = sg_signature g"
    using assms unfolding r by (auto simp: refuse_def split: prod.splits sum.splits if_splits)
  obtain k1 u where v: "verify_confirmation (e_externs E) (e_hmac E) (t_unix t) c payload k = (k1, Inr u)"
    using sc by (auto simp: sign_confirmed_def Let_def split: prod.splits sum.splits)
  obtain master where m: "ks_master (fst (lock_if_expired t s)) = Some master"
    using sc v by (auto simp: sign_confirmed_def Let_def split: option.splits)
  have "k' = k1" "sg_signature g = hex_encode (e_externs E)
        (key_sign (e_keys E) (origin_key (e_externs E) (e_keys E) master (cf_origin c)) payload)"
    using sc v m by (auto simp: sign_confirmed_def Let_def)
  moreover note m [unfolded lock_if_expired_master]
  moreover have chk: "check_confirmation (e_externs E) (e_hmac E) k (t_unix t) c payload = None"
    by (rule verify_confirmation_check [OF v])
  moreover have "(cf_nonce c, cf_expires_at c) \<notin> set (cr_consumed k)"
    using v check_not_expired [OF chk] by (force simp: verify_accepts)
  moreover have "(cf_nonce c, cf_expires_at c) \<in> set (cr_consumed k1)" using v by (auto simp: verify_accepts)
  ultimately show ?thesis using r sig by auto
qed

text \<open>
  C21: The keystore signs only what was confirmed, and only in an open session. When a request
  is answered with a signature, it asked for one with a confirmation that passes every check
  against the keystore's secret for exactly this payload at this moment and was not used
  before; the session was open and had not ended, by idleness, sleep or a locked screen; the
  signature is over the payload with the key of the origin the confirmation names, and no
  other; and the confirmation is used up.
\<close>

theorem signature_needs_confirmation_and_session:
  assumes "handle_request E t r (s, k) = ((s', k'), RsSignature signature public address)"
  shows "\<exists>c payload master. r = RqSignConfirmed c payload
    \<and> check_confirmation (e_externs E) (e_hmac E) k (t_unix t) c payload = None
    \<and> (cf_nonce c, cf_expires_at c) \<notin> set (cr_consumed k)
    \<and> (cf_nonce c, cf_expires_at c) \<in> set (cr_consumed k')
    \<and> ks_master s = Some master \<and> session_expired (t_reading t) (t_screen t) (ks_watch s) = None
    \<and> signature = hex_encode (e_externs E)
        (key_sign (e_keys E) (origin_key (e_externs E) (e_keys E) master (cf_origin c)) payload)"
  by (rule signature_needs [OF assms])

subsection \<open>A session nobody uses ends\<close>

text \<open>Whatever happens to the keystore, its last use is not later than now.\<close>

definition used_by :: "nat \<Rightarrow> keystore \<Rightarrow> bool" where
  "used_by now s \<longleftrightarrow> r_monotonic (w_last (ks_watch s)) \<le> now"

lemma touched [simp]: "ks_watch (touch_keystore t s) = (ks_watch s)\<lparr>w_last := t_reading t\<rparr>"
  "ks_master (touch_keystore t s) = ks_master s"
  by (simp_all add: touch_keystore_def touch_watch_def)

lemma unseal_watch:
  "unseal E t p s = (s', r) \<Longrightarrow> ks_watch s' = ks_watch s \<or> ks_watch s' = (ks_watch s)\<lparr>w_last := t_reading t\<rparr>"
  by (auto simp: unseal_def split: sum.splits option.splits if_splits)

lemma step_watch:
  "ks_watch (fst (keystore_step E e sk)) = ks_watch (fst sk)
   \<or> ks_watch (fst (keystore_step E e sk)) = (ks_watch (fst sk))\<lparr>w_last := t_reading (event_moment e)\<rparr>"
proof (cases e)
  case (Request t r)
  show ?thesis
  proof (cases r)
    case (RqSignConfirmed c payload)
    then show ?thesis using Request
      by (auto simp: sign_confirmed_def Let_def split: prod.splits sum.splits option.splits)
  next
    case (RqPublicIdentity origin)
    then show ?thesis using Request
      by (auto simp: public_identity_def Let_def split: prod.splits sum.splits option.splits)
  next
    case (RqUnseal p)
    obtain s' q where u: "unseal E t p (fst sk) = (s', q)" by fastforce
    show ?thesis using RqUnseal Request u unseal_watch [OF u] by (auto split: sum.splits)
  qed (use Request in \<open>auto simp: Let_def lock_keystore_def\<close>)
qed simp

lemma step_used: "used_by now (fst sk) \<Longrightarrow> r_monotonic (t_reading (event_moment e)) \<le> now \<Longrightarrow> used_by now (fst (keystore_step E e sk))"
  using step_watch [of E e sk] by (auto simp: used_by_def)

lemma steps_watch: 
  "used_by now (fst sk) \<Longrightarrow> \<forall>e\<in>set es. r_monotonic (t_reading (event_moment e)) \<le> now \<Longrightarrow>
   used_by now (fst (fold (keystore_step E) es sk)) \<and>
   w_timeout (ks_watch (fst (fold (keystore_step E) es sk))) = w_timeout (ks_watch (fst sk))"
proof (induction es arbitrary: sk)
  case (Cons e es)
  have "w_timeout (ks_watch (fst (keystore_step E e sk))) = w_timeout (ks_watch (fst sk))"
    using step_watch [of E e sk] by auto
  then show ?case using Cons step_used [of now sk e E] by simp
qed simp

lemma ticks_keep:
  "ks_watch (fst (fold (keystore_step E) (map Tick ts) sk)) = ks_watch (fst sk)"
  "ks_master (fst sk) = None \<Longrightarrow> ks_master (fst (fold (keystore_step E) (map Tick ts) sk)) = None"
proof (induction ts arbitrary: sk)
  case (Cons t ts)
  {
    case 1
    show ?case using Cons(1) by simp
  next
    case 2
    then show ?case using Cons(2) by (simp add: lock_if_expired_def)
  }
qed simp_all

lemma expired_after_timeout:
  "w_timeout w = Some timeout \<Longrightarrow> r_monotonic (w_last w) + timeout \<le> r_monotonic now \<Longrightarrow> session_expired now screen w \<noteq> None"
  by (auto simp: session_expired_def Let_def)


subsection \<open>Enrolment stays off the socket\<close>

text \<open>What each request may be answered with, besides a refusal.\<close>

fun answers_in_kind :: "keystore_request \<Rightarrow> keystore_response \<Rightarrow> bool" where
  "answers_in_kind (RqSignConfirmed c p) (RsSignature _ _ _) = True"
| "answers_in_kind (RqPublicIdentity site) (RsIdentity _ _) = True"
| "answers_in_kind RqStatus (RsStatus _) = True"
| "answers_in_kind (RqUnseal p) RsOk = True"
| "answers_in_kind RqLock RsOk = True"
| "answers_in_kind RqSessionProtection (RsSessionProtection _ _ _ _ _) = True"
| "answers_in_kind (RqSignConfirmed c p) RsLocked = True"
| "answers_in_kind (RqPublicIdentity site) RsLocked = True"
| "answers_in_kind (RqSignConfirmed c p) RsError = True"
| "answers_in_kind (RqUnseal p) RsError = True"
| "answers_in_kind (RqInitialize p) RsError = True"
| "answers_in_kind (RqRestore m p) RsError = True"
| "answers_in_kind _ _ = False"

lemma unseal_keeps:
  "unseal E t p s = (s', r) \<Longrightarrow> ks_vault s' = ks_vault s \<and> ks_wrapping s' = ks_wrapping s \<and> r \<noteq> Inl KeystoreLocked
     \<and> (r = Inr () \<or> ks_master s' = ks_master s)"
  by (auto simp: unseal_def touch_keystore_def load_sealed_def split: sum.splits option.splits if_splits)

lemma step_keeps_files:
  "ks_vault (fst (keystore_step E e sk)) = ks_vault (fst sk) \<and> ks_wrapping (fst (keystore_step E e sk)) = ks_wrapping (fst sk)"
proof (cases e)
  case (Request t r)
  show ?thesis
  proof (cases r)
    case (RqUnseal p)
    obtain s' q where u: "unseal E t p (fst sk) = (s', q)" by fastforce
    show ?thesis using RqUnseal Request u unseal_keeps [OF u] by (auto split: sum.splits)
  next
    case (RqSignConfirmed c payload)
    then show ?thesis using Request
      by (auto simp: sign_confirmed_def touch_keystore_def Let_def split: prod.splits sum.splits option.splits)
  next
    case (RqPublicIdentity origin)
    then show ?thesis using Request
      by (auto simp: public_identity_def touch_keystore_def Let_def split: prod.splits sum.splits option.splits)
  qed (use Request in \<open>auto simp: Let_def lock_keystore_def\<close>)
qed simp

lemma run_keeps_files:
  "ks_vault (fst (fold (keystore_step E) es sk)) = ks_vault (fst sk) \<and>
   ks_wrapping (fst (fold (keystore_step E) es sk)) = ks_wrapping (fst sk)"
  by (induction es arbitrary: sk) (simp_all add: step_keeps_files)

lemma answer_in_kind: "answers_in_kind r (snd (handle_request E t r sk))"
proof (cases r)
  case (RqUnseal p)
  obtain s' q where u: "unseal E t p (fst sk) = (s', q)" by fastforce
  show ?thesis using RqUnseal u unseal_keeps [OF u] by (auto simp: refuse_def split: sum.splits)
next
  case (RqSignConfirmed c payload)
  then show ?thesis by (auto simp: refuse_def split: prod.splits sum.splits)
next
  case (RqPublicIdentity origin)
  then show ?thesis by (auto simp: public_identity_def refuse_def Let_def split: prod.splits sum.splits option.splits)
qed (simp_all add: refuse_enrolment_def Let_def)

text \<open>
  C26: Nothing sent over the keystore's socket enrols. Whatever requests and ticks a running
  keystore sees, the sealed seed on disk and the wrapping key in the credential store stay
  as they were; and each request is answered by the variant that belongs to it or refused:
  a request to initialize or restore always with an error, and only a request to sign ever
  with a signature.
\<close>

theorem socket_never_enrols:
  "ks_vault (fst (fold (keystore_step E) es sk)) = ks_vault (fst sk)
    \<and> ks_wrapping (fst (fold (keystore_step E) es sk)) = ks_wrapping (fst sk)
    \<and> list_all (\<lambda>(r, a). answers_in_kind r a) (answers E es sk)"
proof -
  have "list_all (\<lambda>(r, a). answers_in_kind r a) (answers E es sk)"
  proof (induction es arbitrary: sk)
    case (Cons e es)
    then show ?case by (cases e) (simp_all add: answer_in_kind)
  qed simp
  then show ?thesis using run_keeps_files [of E es sk] by simp
qed


subsection \<open>Enrolment\<close>

text \<open>Writing a sealed seed as JSON and reading it back gives it again.\<close>

definition json_ok :: "'m keystore_crates \<Rightarrow> bool" where
  "json_ok B \<longleftrightarrow> (\<forall>s. seed_of_json B (json_of_seed B s) = Some s)"

lemma seal_mnemonic_unseals:
  assumes "json_ok (e_store E)" and "hex_decode_ok (e_externs E)" and "aead_ok (e_seal E)"
    and "length (x_inner_nonce x) = 24" and "length (x_outer_nonce x) = 24"
    and "seal_mnemonic E t x m p s = (s', Inr a)" and "t_audit t'"
  shows "\<exists>master. ks_master s' = Some master \<and> a = key_address (e_externs E) (e_keys E)
      (derive_path (e_keys E) [44, SUM_COIN_TYPE, 0] master)
    \<and> master = master_key (e_keys E) (mnemonic_seed (e_store E) m)
    \<and> (\<forall>now. \<exists>s2. unseal E t' p (keystore_open (ks_vault s') (ks_wrapping s') now) = (s2, Inr ()) \<and> ks_master s2 = Some master)"
proof -
  let ?B = "e_store E" let ?X = "e_externs E" let ?seed = "mnemonic_seed ?B m"
  let ?kdf = "if p \<noteq> None then x_calibrated x else kdf_default"
  let ?master = "master_key (e_keys E) ?seed"
  let ?id = "key_address ?X (e_keys E) (derive_path (e_keys E) [44, SUM_COIN_TYPE, 0] ?master)"
  obtain sealed where sl: "seal_seed ?X (e_seal E) (x_salt x) (x_inner_nonce x) (x_outer_nonce x) ?seed (x_wrapping_key x)
      p ?kdf (address_to_base58 ?X (e_keys E) ?id) = Inr sealed"
    using assms(6) by (auto simp: seal_mnemonic_def Let_def split: sum.splits)
  then have s': "ks_vault s' = Some (json_of_seed ?B sealed)" "ks_wrapping s' = Inr (Some (x_wrapping_key x))"
    "ks_master s' = Some ?master" "a = ?id"
    using assms(6) by (auto simp: seal_mnemonic_def Let_def touch_keystore_def split: sum.splits if_splits)
  have shape: "ss_version sealed = SEAL_VERSION" "ss_passphrase_layer sealed = (p \<noteq> None)"
    using sl by (auto simp: seal_seed_def split: option.splits sum.splits)
  have "unseal_seed ?X (e_seal E) sealed (x_wrapping_key x) p = Inr ?seed"
    using seal_opens [OF _ assms(3,4,5) sl] assms(2) by (simp add: hex_decode_ok_def)
  then show ?thesis using s' shape assms(1,7)
    by (auto simp: unseal_def load_sealed_def keystore_open_def json_ok_def touch_keystore_def)
qed

text \<open>
  C25: What enrolment sealed, a later process opens. After a successful \<open>initialize\<close> the
  keystore opened anew on the same file and credential store unseals with the same
  passphrase to the same master key; and the recovery phrase it returned, which is written
  nowhere, restores the same key and the same address on any other machine.
\<close>

theorem enrolment_round_trip:
  assumes "json_ok (e_store E)" and "hex_decode_ok (e_externs E)" and "aead_ok (e_seal E)"
    and "length (x_inner_nonce x) = 24" and "length (x_outer_nonce x) = 24"
    and "length (x_inner_nonce y) = 24" and "length (x_outer_nonce y) = 24"
    and "\<forall>m. mnemonic_parse (e_store E) (trim (mnemonic_text (e_store E) m)) = Some m"
    and i: "initialize E t x p s = (s1, Inr (phrase, a))" and "t_audit t'"
    and r: "restore E t2 y phrase q other = (s2, Inr b)"
  shows "\<exists>master. ks_master s1 = Some master \<and> ks_master s2 = Some master \<and> b = a
    \<and> (\<forall>now. \<exists>s3. unseal E t' p (keystore_open (ks_vault s1) (ks_wrapping s1) now) = (s3, Inr ()) \<and> ks_master s3 = Some master)"
proof -
  obtain m where m: "seal_mnemonic E t x m p s = (s1, Inr a)" "phrase = mnemonic_text (e_store E) m"
    using i by (auto simp: initialize_def split: option.splits prod.splits sum.splits)
  have "seal_mnemonic E t2 y m q other = (s2, Inr b)"
    using r m(2) assms(8) by (auto simp: restore_def split: option.splits)
  from seal_mnemonic_unseals [OF assms(1,2,3,6,7) this assms(10)]
    seal_mnemonic_unseals [OF assms(1,2,3,4,5) m(1) assms(10)]
  show ?thesis by blast
qed


subsection \<open>A confirmation shown to a locked keystore\<close>

text \<open>
  A confirmation presented to a locked keystore is used up. The keystore checks the
  confirmation, and remembers it as used, before it finds it has no key: the request is
  answered as locked, and the same confirmation presented again once the keystore is unsealed
  is refused as a replay. So the shell, which answers \<open>Locked\<close> by asking for the passphrase
  and sending the same request again, can never get that signature.
\<close>

theorem locked_keystore_uses_up_confirmation:
  assumes "ks_master s = None"
    and v: "verify_confirmation (e_externs E) (e_hmac E) (t_unix t) c payload k = (k', Inr u)"
  shows "handle_request E t (RqSignConfirmed c payload) (s, k) = ((s, k'), RsLocked)
    \<and> (\<forall>t' s' payload'. t_unix t \<le> t_unix t' \<longrightarrow>
         snd (handle_request E t' (RqSignConfirmed c payload') (s', k')) = RsError)"
proof -
  have "handle_request E t (RqSignConfirmed c payload) (s, k) = ((s, k'), RsLocked)"
    using assms by (simp add: sign_confirmed_def lock_if_expired_def refuse_def Let_def)
  moreover have "snd (handle_request E t' (RqSignConfirmed c payload') (s', k')) = RsError"
    if later: "t_unix t \<le> t_unix t'" for t' s' payload'
  proof -
    have old: "remembers (t_unix t) k' c" using v by (auto simp: verify_accepts remembers_def)
    obtain k2 q where v2: "verify_confirmation (e_externs E) (e_hmac E) (t_unix t') c payload' k' = (k2, q)" by fastforce
    then obtain e where "q = Inl e" using remembered_not_accepted [OF old later] by (cases q) auto
    then show ?thesis using v2 by (simp add: sign_confirmed_def refuse_def Let_def)
  qed
  ultimately show ?thesis by blast
qed

text \<open>
  Restoring over a keystore replaces the wrapping key before it writes the file. When the
  write then fails, the file that was there can no longer be opened with its passphrase.
\<close>

lemma failed_restore_locks_out:
  assumes "aead_ok (e_seal E)" and "hex_decode_ok (e_externs E)" and "json_ok (e_store E)"
    and "length inner = 24" and "length outer = 24"
    and "seal_seed (e_externs E) (e_seal E) salt inner outer seed w p kdf hint = Inr sealed"
    and "ks_vault s = Some (json_of_seed (e_store E) sealed)" and "x_wrapping_key x \<noteq> w"
    and "seal_mnemonic E t x m q s = (s', Inl CustodyFailed)" and "t_audit t'"
  shows "snd (unseal E t' p s') \<noteq> Inr ()"
proof -
  have v: "ks_vault s' = ks_vault s" "ks_wrapping s' = Inr (Some (x_wrapping_key x))"
    using assms(9) by (auto simp: seal_mnemonic_def Let_def split: sum.splits if_splits)
  have "unseal_seed (e_externs E) (e_seal E) sealed (x_wrapping_key x) p \<noteq> Inr y" for y
    using seal_opens [OF _ assms(1,4,5,6)] assms(2,8) by (auto simp: hex_decode_ok_def)
  then show ?thesis using v assms(3,7,10) unfolding unseal_def load_sealed_def json_ok_def
    by (auto split: sum.splits if_splits option.splits)
qed

subsection \<open>On the instance\<close>

definition demo_open :: keystore where
  "demo_open = (keystore_open None (Inr None) \<lparr> r_monotonic = 90, r_wall = 90 \<rparr>)
     \<lparr>ks_master := Some \<lparr> ek_key = ''key'', ek_chain_code = ''chain'' \<rparr>\<rparr>"

lemma demo_signs:
  "\<exists>s k signature public a. handle_request demo_env (demo_moment 101)
      (RqSignConfirmed (demo_confirmation_of ''https://a'') ''pay'') (demo_open, confirmer_new ''k'')
    = ((s, k), RsSignature signature public a)"
proof -
  obtain k u where "verify_confirmation demo demo_hmac 101 (demo_confirmation_of ''https://a'') ''pay'' (confirmer_new ''k'') = (k, Inr u)"
    using demo_accepts by blast
  then show ?thesis
    by (simp add: sign_confirmed_def lock_if_expired_def session_expired_def demo_open_def keystore_open_def watch_new_def
        demo_moment_def DEFAULT_IDLE_TIMEOUT_def sat_add_def u64_max_def SLEEP_SLACK_def Let_def)
qed

theorem signature_needs_confirmation_and_session_witness:
  "\<exists>s k signature public a. handle_request demo_env (demo_moment 101)
      (RqSignConfirmed (demo_confirmation_of ''https://a'') ''pay'') (demo_open, confirmer_new ''k'')
    = ((s, k), RsSignature signature public a)
    \<and> session_expired (t_reading (demo_moment 101)) (Some False) (ks_watch demo_open) = None"
proof -
  obtain s k signature public a where h: "handle_request demo_env (demo_moment 101)
      (RqSignConfirmed (demo_confirmation_of ''https://a'') ''pay'') (demo_open, confirmer_new ''k'')
    = ((s, k), RsSignature signature public a)" using demo_signs by blast
  have "t_screen (demo_moment 101) = Some False" by (simp add: demo_moment_def)
  then show ?thesis using signature_needs_confirmation_and_session [OF h] h by auto
qed


theorem locked_keystore_uses_up_confirmation_witness:
  "\<exists>k. handle_request demo_env (demo_moment 101) (RqSignConfirmed (demo_confirmation_of ''https://a'') ''pay'')
      (demo_open\<lparr>ks_master := None\<rparr>, confirmer_new ''k'') = ((demo_open\<lparr>ks_master := None\<rparr>, k), RsLocked)
    \<and> snd (handle_request demo_env (demo_moment 102) (RqSignConfirmed (demo_confirmation_of ''https://a'') ''pay'')
        (demo_open, k)) = RsError"
proof -
  obtain k u where v: "verify_confirmation demo demo_hmac 101 (demo_confirmation_of ''https://a'') ''pay'' (confirmer_new ''k'') = (k, Inr u)"
    using demo_accepts by blast
  have "t_unix (demo_moment 101) = 101" "t_unix (demo_moment 102) = 102" by (simp_all add: demo_moment_def)
  then show ?thesis
    using locked_keystore_uses_up_confirmation [of "demo_open\<lparr>ks_master := None\<rparr>" demo_env "demo_moment 101"] v by simp
qed

theorem enrolment_round_trip_witness:
  "\<exists>s1 phrase a s2. initialize demo_env (demo_moment 5) demo_draws (Some ''pw'') (keystore_open None (Inr None) (t_reading (demo_moment 5)))
      = (s1, Inr (phrase, a))
    \<and> restore demo_env (demo_moment 6) demo_draws phrase (Some ''px'') (keystore_open None (Inr None) (t_reading (demo_moment 6))) = (s2, Inr a)"
proof -
  have json: "json_ok demo_store" by (simp add: json_ok_def demo_store_def demo_unjson_json)
  obtain s1 phrase a where i: "initialize demo_env (demo_moment 5) demo_draws (Some ''pw'')
      (keystore_open None (Inr None) (t_reading (demo_moment 5))) = (s1, Inr (phrase, a))"
    by (simp add: initialize_def check_can_initialize_def keystore_open_def require_passphrase_def presence_policy_def
        demo_store_def seal_mnemonic_def seal_seed_def derive_key_def encrypt_def demo_seal_def Let_def)
  have phrase: "phrase = mnemonic_text demo_store ''entropy''" using i
    by (auto simp: initialize_def demo_store_def demo_draws_def split: option.splits prod.splits sum.splits)
  obtain s2 b where r: "restore demo_env (demo_moment 6) demo_draws phrase (Some ''px'')
      (keystore_open None (Inr None) (t_reading (demo_moment 6))) = (s2, Inr b)"
    unfolding phrase
    by (simp add: restore_def demo_phrase require_passphrase_def presence_policy_def keystore_open_def seal_mnemonic_def seal_seed_def derive_key_def encrypt_def demo_seal_def Let_def)
  have "b = a"
    using enrolment_round_trip [of demo_env demo_draws demo_draws, OF _ _ _ _ _ _ _ _ i _ r, of "demo_moment 7"]
      json demo_hex_decode_ok demo_aead_ok demo_phrase by (auto simp: demo_draws_def demo_moment_def)
  then show ?thesis using i r by blast
qed

end
