(* ===== verification/Utf8.thy ===== *)
theory Utf8
  imports Prelude
begin

text \<open>
  The scalar values of a UTF-8 string: \<open>std::str::from_utf8\<close> and \<open>str::chars\<close>. A \<open>&str\<close> is
  its bytes, a text its scalar values; decoding refuses overlong forms, surrogates and values
  past U+10FFFF, and so is undone by encoding.
\<close>

definition octet :: "char \<Rightarrow> nat" where
  "octet c = of_char c"

definition is_continuation :: "char \<Rightarrow> bool" where
  "is_continuation c \<longleftrightarrow> 0x80 \<le> octet c \<and> octet c < 0xC0"

definition low_bits :: "char \<Rightarrow> nat" where
  "low_bits c = octet c - 0x80"

text \<open>The second byte of a three-byte and of a four-byte form, after its first.\<close>

definition second_of_three :: "char \<Rightarrow> char \<Rightarrow> bool" where
  "second_of_three a b \<longleftrightarrow> is_continuation b
     \<and> (octet a = 0xE0 \<longrightarrow> 0xA0 \<le> octet b) \<and> (octet a = 0xED \<longrightarrow> octet b < 0xA0)"

definition second_of_four :: "char \<Rightarrow> char \<Rightarrow> bool" where
  "second_of_four a b \<longleftrightarrow> is_continuation b
     \<and> (octet a = 0xF0 \<longrightarrow> 0x90 \<le> octet b) \<and> (octet a = 0xF4 \<longrightarrow> octet b < 0x90)"

definition code2 :: "char \<Rightarrow> char \<Rightarrow> nat" where
  "code2 a b = (octet a - 0xC0) * 64 + low_bits b"

definition code3 :: "char \<Rightarrow> char \<Rightarrow> char \<Rightarrow> nat" where
  "code3 a b c = ((octet a - 0xE0) * 64 + low_bits b) * 64 + low_bits c"

definition code4 :: "char \<Rightarrow> char \<Rightarrow> char \<Rightarrow> char \<Rightarrow> nat" where
  "code4 a b c d = (((octet a - 0xF0) * 64 + low_bits b) * 64 + low_bits c) * 64 + low_bits d"

fun utf8_chars :: "bytes \<Rightarrow> nat list option" where
  "utf8_chars [] = Some []"
| "utf8_chars (a # s) =
     (if octet a < 0x80 then map_option ((#) (octet a)) (utf8_chars s)
      else if octet a < 0xC2 then None
      else if octet a < 0xE0 then
        (case s of
           b # s \<Rightarrow>
             if is_continuation b
             then map_option ((#) (code2 a b)) (utf8_chars s) else None
         | [] \<Rightarrow> None)
      else if octet a < 0xF0 then
        (case s of
           b # c # s \<Rightarrow>
             if second_of_three a b \<and> is_continuation c
             then map_option ((#) (code3 a b c)) (utf8_chars s)
             else None
         | _ \<Rightarrow> None)
      else if octet a < 0xF5 then
        (case s of
           b # c # d # s \<Rightarrow>
             if second_of_four a b \<and> is_continuation c \<and> is_continuation d
             then map_option ((#) (code4 a b c d)) (utf8_chars s)
             else None
         | _ \<Rightarrow> None)
      else None)"

definition utf8_of :: "nat \<Rightarrow> bytes" where
  "utf8_of n =
     (if n < 0x80 then [char_of n]
      else if n < 0x800 then [char_of (0xC0 + n div 64), char_of (0x80 + n mod 64)]
      else if n < 0x10000 then
        [char_of (0xE0 + n div 4096), char_of (0x80 + n div 64 mod 64), char_of (0x80 + n mod 64)]
      else [char_of (0xF0 + n div 262144), char_of (0x80 + n div 4096 mod 64), char_of (0x80 + n div 64 mod 64),
            char_of (0x80 + n mod 64)])"

definition utf8 :: "nat list \<Rightarrow> bytes" where
  "utf8 cs = concat (map utf8_of cs)"

lemma utf8_simps [simp]: "utf8 [] = []" "utf8 (c # cs) = utf8_of c @ utf8 cs"
  by (simp_all add: utf8_def)

lemma octet_less [simp]: "octet c < 256"
  by (simp add: octet_def)

lemma char_of_octet [simp]: "char_of (octet c) = c"
  by (simp add: octet_def)

lemma continuation_char [simp]: "is_continuation b \<Longrightarrow> char_of (0x80 + low_bits b) = b"
  by (simp add: is_continuation_def low_bits_def)

lemma low_bits_less: "is_continuation b \<Longrightarrow> low_bits b < 64"
  by (auto simp: is_continuation_def low_bits_def)

lemma octet_inject: "octet a = octet b \<longleftrightarrow> a = b"
  by (metis char_of_octet)

lemma low_digit: "l < 64 \<Longrightarrow> (m * 64 + l) div 64 = m" "l < 64 \<Longrightarrow> (m * 64 + l) mod 64 = (l :: nat)"
  by simp_all

lemma two_bytes:
  assumes "0xC2 \<le> octet a" "octet a < 0xE0" "is_continuation b"
  shows "utf8_of (code2 a b) = [a, b]"
proof -
  have low: "low_bits b < 64" using low_bits_less assms(3) by auto
  have "code2 a b div 64 = octet a - 0xC0" "code2 a b mod 64 = low_bits b"
    unfolding code2_def by (intro low_digit low)+
  moreover have "0x80 \<le> code2 a b" "code2 a b < 0x800" using low assms(1,2) by (auto simp: code2_def)
  ultimately show ?thesis using assms by (simp add: utf8_of_def)
qed

lemma three_bytes:
  assumes "0xE0 \<le> octet a" "octet a < 0xF0" "second_of_three a b" "is_continuation c"
  shows "utf8_of (code3 a b c) = [a, b, c]"
proof -
  define m where "m = (octet a - 0xE0) * 64 + low_bits b"
  have b: "is_continuation b" using assms(3) by (simp add: second_of_three_def)
  have low: "low_bits b < 64" "low_bits c < 64" using low_bits_less b assms(4) by auto
  have n: "code3 a b c div 64 = m" "code3 a b c mod 64 = low_bits c"
    unfolding code3_def m_def by (intro low_digit low)+
  have m: "m div 64 = octet a - 0xE0" "m mod 64 = low_bits b" unfolding m_def by (intro low_digit low)+
  have "code3 a b c div 4096 = code3 a b c div 64 div 64" by (simp add: div_mult2_eq [symmetric])
  then have e: "code3 a b c div 4096 = octet a - 0xE0" using n m by simp
  have "32 \<le> m" using assms(1,3) by (cases "octet a = 0xE0") (auto simp: second_of_three_def low_bits_def m_def)
  then have "0x800 \<le> code3 a b c" by (simp add: code3_def m_def)
  moreover have "code3 a b c < 0x10000" using low assms(2) by (auto simp: code3_def)
  ultimately show ?thesis using assms b n(2) e m(2) n(1) by (simp add: utf8_of_def)
qed

lemma four_bytes:
  assumes "0xF0 \<le> octet a" "octet a < 0xF5" "second_of_four a b" "is_continuation c" "is_continuation d"
  shows "utf8_of (code4 a b c d) = [a, b, c, d]"
proof -
  define k where "k = (octet a - 0xF0) * 64 + low_bits b"
  define m where "m = k * 64 + low_bits c"
  have b: "is_continuation b" using assms(3) by (simp add: second_of_four_def)
  have low: "low_bits b < 64" "low_bits c < 64" "low_bits d < 64" using low_bits_less b assms(4,5) by auto
  have n: "code4 a b c d div 64 = m" "code4 a b c d mod 64 = low_bits d"
    unfolding code4_def m_def k_def by (intro low_digit low)+
  have m: "m div 64 = k" "m mod 64 = low_bits c" unfolding m_def by (intro low_digit low)+
  have k: "k div 64 = octet a - 0xF0" "k mod 64 = low_bits b" unfolding k_def by (intro low_digit low)+
  have "code4 a b c d div 4096 = code4 a b c d div 64 div 64"
    "code4 a b c d div 262144 = code4 a b c d div 64 div 64 div 64" by (simp_all add: div_mult2_eq [symmetric])
  then have e: "code4 a b c d div 4096 = k" "code4 a b c d div 262144 = octet a - 0xF0" using n m k by simp_all
  have "16 \<le> k" using assms(1,3) by (cases "octet a = 0xF0") (auto simp: second_of_four_def low_bits_def k_def)
  then have "0x10000 \<le> code4 a b c d" by (simp add: code4_def k_def)
  then show ?thesis using assms b n m k e by (simp add: utf8_of_def)
qed

lemma utf8_chars_encode: "utf8_chars s = Some cs \<Longrightarrow> utf8 cs = s"
proof (induction s arbitrary: cs rule: utf8_chars.induct)
  case (2 a s)
  consider "octet a < 0x80" | "0xC2 \<le> octet a" "octet a < 0xE0" | "0xE0 \<le> octet a" "octet a < 0xF0"
    | "0xF0 \<le> octet a" "octet a < 0xF5"
    using "2.prems" by (force split: if_splits)
  then show ?case
  proof cases
    case 1
    then show ?thesis using "2.IH"(1) "2.prems" by (auto simp: utf8_of_def)
  next
    case 2
    then show ?thesis using "2.IH"(2) "2.prems" by (auto simp: two_bytes split: if_splits list.splits)
  next
    case 3
    then show ?thesis using "2.IH"(3) "2.prems" by (auto simp: three_bytes split: if_splits list.splits)
  next
    case 4
    then show ?thesis using "2.IH"(4) "2.prems" by (auto simp: four_bytes split: if_splits list.splits)
  qed
qed simp

lemma utf8_chars_inject: "utf8_chars s = Some cs \<Longrightarrow> utf8_chars t = Some cs \<Longrightarrow> s = t"
  by (metis utf8_chars_encode)

lemma utf8_chars_ascii: "list_all (\<lambda>c. octet c < 0x80) s \<Longrightarrow> utf8_chars s = Some (map octet s)"
  by (induction s) auto

end
