(* ===== verification/Prompt.thy ===== *)
theory Prompt
  imports Derive Confirm Utf8
begin

text \<open>
  What a signing request must be before anyone is asked about it, and what the person is
  shown: \<open>crates/syndeo-shell/src/prompt.rs\<close>. A \<open>&str\<close> is its UTF-8 bytes; a line on screen is
  its scalar values. The \<open>url\<close> crate and the Unicode general categories are the parameter \<open>G\<close>.
\<close>

record 'u shell_crates =
  ou_parse :: "string \<Rightarrow> bool + 'u"
  ou_scheme :: "'u \<Rightarrow> string"
  ou_host :: "'u \<Rightarrow> string option"
  ou_username :: "'u \<Rightarrow> string"
  ou_password :: "'u \<Rightarrow> string option"
  ou_query :: "'u \<Rightarrow> string option"
  ou_fragment :: "'u \<Rightarrow> string option"
  ou_path :: "'u \<Rightarrow> string"
  ou_port :: "'u \<Rightarrow> nat option"
  category_control :: "nat \<Rightarrow> bool"
  category_format :: "nat \<Rightarrow> bool"

text \<open>
  \<open>ou_parse\<close> is \<open>Url::parse\<close>; an error is \<open>EmptyHost\<close> (\<open>True\<close>) or any other.
\<close>

definition chars_of :: "string \<Rightarrow> nat list" where
  "chars_of s = (case utf8_chars s of Some cs \<Rightarrow> cs | None \<Rightarrow> [])"

definition MAX_ORIGIN_BYTES :: nat where
  "MAX_ORIGIN_BYTES = 256"

definition MAX_DESCRIPTION_CHARS :: nat where
  "MAX_DESCRIPTION_CHARS = 200"

definition MAX_TEXT_PAYLOAD_BYTES :: nat where
  "MAX_TEXT_PAYLOAD_BYTES = 4 * 1024"

definition MAX_TEXT_PAYLOAD_LINES :: nat where
  "MAX_TEXT_PAYLOAD_LINES = 64"

definition WRAP_WIDTH :: nat where
  "WRAP_WIDTH = 100"

definition MAX_HEX_PAYLOAD_BYTES :: nat where
  "MAX_HEX_PAYLOAD_BYTES = 512"

definition HEX_BYTES_PER_LINE :: nat where
  "HEX_BYTES_PER_LINE = 24"

datatype refusal =
    OriginNotAUrl
  | OriginScheme
  | OriginWithoutHost
  | OriginCredentials
  | OriginQuery
  | OriginFragment
  | OriginPath
  | OriginNotCanonical
  | OriginTooLong
  | OriginCharacter nat
  | DescriptionCharacter nat
  | DescriptionTooLong
  | TextPayloadTooLarge
  | TextPayloadTooManyLines
  | HexPayloadTooLarge

definition is_unshowable :: "'u shell_crates \<Rightarrow> nat \<Rightarrow> bool" where
  "is_unshowable G c \<longleftrightarrow> category_control G c \<or> category_format G c \<or> c = 0x2028 \<or> c = 0x2029"

subsection \<open>The origin\<close>

definition default_port_of :: "string \<Rightarrow> string option" where
  "default_port_of scheme =
     (if scheme = ''https'' then Some ''443'' else if scheme = ''http'' then Some ''80'' else None)"

text \<open>The port as typed against the port the parser read: absent, kept, or not the same.\<close>

definition agreed_port :: "string \<Rightarrow> string option \<Rightarrow> nat option \<Rightarrow> nat option option" where
  "agreed_port default_port typed parsed =
     (case (typed, parsed) of
        (None, None) \<Rightarrow> Some None
      | (Some t, None) \<Rightarrow> if t = default_port then Some None else None
      | (Some t, Some p) \<Rightarrow> if t = show_nat p then Some (Some p) else None
      | (None, Some p) \<Rightarrow> None)"

definition write_origin :: "string \<Rightarrow> string \<Rightarrow> nat option \<Rightarrow> string" where
  "write_origin scheme host port =
     (case port of
        Some p \<Rightarrow> scheme @ ''://'' @ host @ '':'' @ show_nat p
      | None \<Rightarrow> scheme @ ''://'' @ host)"

definition origin_of_url :: "'u shell_crates \<Rightarrow> string \<Rightarrow> string \<Rightarrow> 'u \<Rightarrow> string \<Rightarrow> refusal + string" where
  "origin_of_url G default_port rest url host =
     (let authority = takeWhile (\<lambda>c. c \<notin> set ''/?#'') rest; tail = dropWhile (\<lambda>c. c \<notin> set ''/?#'') rest
      in if ou_username G url \<noteq> [] \<or> ou_password G url \<noteq> None \<or> CHR ''@'' \<in> set authority
         then Inl OriginCredentials
         else if ou_query G url \<noteq> None then Inl OriginQuery
         else if ou_fragment G url \<noteq> None then Inl OriginFragment
         else if ou_path G url \<noteq> ''/'' then Inl OriginPath
         else if tail \<noteq> [] \<and> tail \<noteq> ''/'' then Inl OriginNotCanonical
         else let (typed_host, typed_port) = split_port authority
              in if to_lower typed_host \<noteq> host then Inl OriginNotCanonical
                 else case agreed_port default_port typed_port (ou_port G url) of
                     None \<Rightarrow> Inl OriginNotCanonical
                   | Some port \<Rightarrow>
                       let canonical = write_origin (ou_scheme G url) host port
                       in if MAX_ORIGIN_BYTES < length canonical then Inl OriginTooLong else Inr canonical)"

definition validated_origin :: "'u shell_crates \<Rightarrow> string \<Rightarrow> refusal + string" where
  "validated_origin G raw =
     (case find (is_unshowable G) (chars_of raw) of
        Some c \<Rightarrow> Inl (OriginCharacter c)
      | None \<Rightarrow>
          (case split_once_str ''://'' raw of
             None \<Rightarrow> Inl OriginNotAUrl
           | Some (scheme, rest) \<Rightarrow>
               (case default_port_of (to_lower scheme) of
                  None \<Rightarrow> Inl OriginScheme
                | Some default_port \<Rightarrow>
                    (case ou_parse G raw of
                       Inl empty_host \<Rightarrow> Inl (if empty_host then OriginWithoutHost else OriginNotAUrl)
                     | Inr url \<Rightarrow>
                         (case ou_host G url of
                            None \<Rightarrow> Inl OriginWithoutHost
                          | Some host \<Rightarrow> origin_of_url G default_port rest url host)))))"

subsection \<open>The description and the payload\<close>

definition check_description :: "'u shell_crates \<Rightarrow> string \<Rightarrow> refusal option" where
  "check_description G description =
     (case find (is_unshowable G) (chars_of description) of
        Some c \<Rightarrow> Some (DescriptionCharacter c)
      | None \<Rightarrow>
          if MAX_DESCRIPTION_CHARS < length (chars_of description) then Some DescriptionTooLong else None)"

definition payload_text :: "'u shell_crates \<Rightarrow> bytes \<Rightarrow> nat list option" where
  "payload_text G payload =
     (case utf8_chars payload of
        None \<Rightarrow> None
      | Some text \<Rightarrow>
          if list_all (\<lambda>c. c = 0x0A \<or> c = 0x09 \<or> \<not> is_unshowable G c) text then Some text else None)"

fun chunks :: "nat \<Rightarrow> 'a list \<Rightarrow> 'a list list" where
  "chunks n [] = []"
| "chunks n (x # xs) = (x # take (n - 1) xs) # chunks n (drop (n - 1) xs)"

fun split_lines :: "nat list \<Rightarrow> nat list list" where
  "split_lines [] = [[]]"
| "split_lines (c # cs) =
     (if c = 0x0A then [] # split_lines cs
      else (case split_lines cs of [] \<Rightarrow> [[c]] | l # ls \<Rightarrow> (c # l) # ls))"

definition wrap_line :: "nat list \<Rightarrow> nat list list" where
  "wrap_line l = (if l = [] then [[]] else chunks WRAP_WIDTH l)"

definition wrap_text :: "nat list \<Rightarrow> nat list list" where
  "wrap_text text = concat (map wrap_line (split_lines text))"

definition hex_digit_of :: "nat \<Rightarrow> char" where
  "hex_digit_of n = (if n < 10 then char_of (48 + n) else char_of (87 + n))"

definition hex_byte :: "char \<Rightarrow> string" where
  "hex_byte b = [hex_digit_of (octet b div 16), hex_digit_of (octet b mod 16)]"

definition hex_lines :: "bytes \<Rightarrow> string list" where
  "hex_lines payload = map (\<lambda>chunk. join '' '' (map hex_byte chunk)) (chunks HEX_BYTES_PER_LINE payload)"

definition check_payload :: "'u shell_crates \<Rightarrow> bytes \<Rightarrow> refusal option" where
  "check_payload G payload =
     (case payload_text G payload of
        Some text \<Rightarrow>
          if MAX_TEXT_PAYLOAD_BYTES < length payload then Some TextPayloadTooLarge
          else if MAX_TEXT_PAYLOAD_LINES < length (wrap_text text) then Some TextPayloadTooManyLines
          else None
      | None \<Rightarrow> if MAX_HEX_PAYLOAD_BYTES < length payload then Some HexPayloadTooLarge else None)"

subsection \<open>A request, and the lines it is shown as\<close>

record signature_request =
  sr_origin :: string
  sr_purpose :: purpose
  sr_description :: string
  sr_payload :: bytes

definition request_new ::
    "'u shell_crates \<Rightarrow> string \<Rightarrow> purpose \<Rightarrow> string \<Rightarrow> bytes \<Rightarrow> refusal + signature_request" where
  "request_new G origin purpose description payload =
     (case validated_origin G origin of
        Inl e \<Rightarrow> Inl e
      | Inr origin \<Rightarrow>
          (case check_description G description of
             Some e \<Rightarrow> Inl e
           | None \<Rightarrow>
               (case check_payload G payload of
                  Some e \<Rightarrow> Inl e
                | None \<Rightarrow> Inr \<lparr> sr_origin = origin, sr_purpose = purpose, sr_description = description,
                                 sr_payload = payload \<rparr>)))"

definition request_digest :: "('h, 'v) externs \<Rightarrow> signature_request \<Rightarrow> string" where
  "request_digest X r = hex_encode X (blake3 X (sr_payload r))"

definition rendered_payload :: "'u shell_crates \<Rightarrow> signature_request \<Rightarrow> nat list list" where
  "rendered_payload G r =
     (case payload_text G (sr_payload r) of
        Some text \<Rightarrow> wrap_text text
      | None \<Rightarrow> map (map octet) (hex_lines (sr_payload r)))"

definition prompt_lines :: "('h, 'v) externs \<Rightarrow> 'u shell_crates \<Rightarrow> signature_request \<Rightarrow> nat list list" where
  "prompt_lines X G r =
     (let form = (if payload_text G (sr_payload r) \<noteq> None then ''text'' else ''hex'')
      in [chars_of (''origin   '' @ sr_origin r),
          chars_of (''purpose  '' @ purpose_str (sr_purpose r)),
          chars_of (''says     '' @ sr_description r),
          [],
          chars_of (''payload  '' @ show_nat (length (sr_payload r)) @ '' bytes, shown as '' @ form)]
         @ rendered_payload G r
         @ [[], chars_of (''digest   '' @ request_digest X r)])"

subsection \<open>The shell and the keystore read an origin alike\<close>

text \<open>
  What the \<open>url\<close> crate documents of a URL that starts with \<open>http://\<close> or \<open>https://\<close>: the
  scheme is in lower case; \<open>port\<close> is \<open>None\<close> for the scheme's default; the host is a domain
  or an IPv4 address in printable ASCII, or an IPv6 address in brackets.
\<close>

definition url_ok :: "'u shell_crates \<Rightarrow> bool" where
  "url_ok G \<longleftrightarrow>
     (\<forall>raw url scheme rest d. ou_parse G raw = Inr url \<longrightarrow> split_once_str ''://'' raw = Some (scheme, rest) \<longrightarrow>
        default_port_of (to_lower scheme) = Some d \<longrightarrow>
        ou_scheme G url = to_lower scheme
        \<and> (\<forall>p. ou_port G url = Some p \<longrightarrow> show_nat p \<noteq> d)
        \<and> (\<forall>host. ou_host G url = Some host \<longrightarrow> host \<noteq> []
             \<and> list_all (\<lambda>c. 0x20 < octet c \<and> octet c < 0x7F) host
             \<and> (CHR '':'' \<in> set host \<longrightarrow> last host = CHR '']'')))"

lemma rsplit_once_None: "c \<notin> set s \<Longrightarrow> rsplit_once c s = None"
proof -
  have "c \<notin> set s \<Longrightarrow> split_once c s = None" for s by (induction s) auto
  then show "c \<notin> set s \<Longrightarrow> rsplit_once c s = None" by (simp add: rsplit_once_def)
qed

lemma rsplit_once_at: "c \<notin> set b \<Longrightarrow> rsplit_once c (a @ c # b) = Some (a, b)"
proof -
  have "c \<notin> set b \<Longrightarrow> split_once c (b @ c # a) = Some (b, a)" for a b by (induction b) auto
  then show "c \<notin> set b \<Longrightarrow> rsplit_once c (a @ c # b) = Some (a, b)" by (simp add: rsplit_once_def)
qed

lemma rsplit_cases: "rsplit_once c s = None \<and> c \<notin> set s \<or> (\<exists>a b. s = a @ c # b \<and> c \<notin> set b \<and> rsplit_once c s = Some (a, b))"
  using split_list_last [of c s] rsplit_once_None [of c s] rsplit_once_at [of c] by fastforce

lemma lower_char_plain: "lower_char c = d \<Longrightarrow> \<not> is_lower d \<Longrightarrow> c = d"
  by (auto simp: lower_char_def is_lower_def is_upper_def of_char_of split: if_splits)

lemma lower_char_upper: "is_upper c \<Longrightarrow> is_lower (lower_char c)"
  by (simp add: lower_char_def is_lower_def is_upper_def of_char_of)

lemma lower_char_iff: "\<not> is_lower d \<Longrightarrow> \<not> is_upper d \<Longrightarrow> lower_char c = d \<longleftrightarrow> c = d"
  using lower_char_plain [of c d] by (auto simp: lower_char_def)

lemma lower_set: "\<not> is_lower d \<Longrightarrow> \<not> is_upper d \<Longrightarrow> d \<in> set (to_lower s) \<longleftrightarrow> d \<in> set s"
  using lower_char_iff [of d] by (force simp: to_lower_def)

lemma digit_lower: "is_digit (lower_char c) = is_digit c"
  by (auto simp: is_digit_def lower_char_def is_upper_def of_char_of)

lemma digits_lower: "list_all is_digit (to_lower p) = list_all is_digit p"
  by (simp add: to_lower_def list_all_iff digit_lower)

lemma digits_to_lower: "list_all is_digit p \<Longrightarrow> to_lower p = p"
  by (induction p) (auto simp: to_lower_def lower_char_def is_digit_def is_upper_def)

lemma split_port_lower: "split_port (to_lower a) = map_prod to_lower (\<lambda>p. p) (split_port a)"
proof (rule disjE [OF rsplit_cases [of "CHR '':''" a]])
  assume "rsplit_once (CHR '':'') a = None \<and> CHR '':'' \<notin> set a"
  then show ?thesis using rsplit_once_None [of "CHR '':''" "to_lower a"]
    by (simp add: split_port_def lower_set is_lower_def is_upper_def)
next
  assume "\<exists>h p. a = h @ CHR '':'' # p \<and> CHR '':'' \<notin> set p \<and> rsplit_once (CHR '':'') a = Some (h, p)"
  then obtain h p where a: "a = h @ CHR '':'' # p" "CHR '':'' \<notin> set p" "rsplit_once (CHR '':'') a = Some (h, p)" by auto
  have "to_lower a = to_lower h @ CHR '':'' # to_lower p" by (simp add: a(1) to_lower_def lower_char_def is_upper_def)
  moreover have "CHR '':'' \<notin> set (to_lower p)" using a(2) by (simp add: lower_set is_lower_def is_upper_def)
  ultimately have "rsplit_once (CHR '':'') (to_lower a) = Some (to_lower h, to_lower p)" by (simp add: rsplit_once_at)
  moreover have "to_lower p = [] \<longleftrightarrow> p = []" by (simp add: to_lower_def)
  ultimately show ?thesis using a(3) by (auto simp: split_port_def digits_lower digits_to_lower)
qed

lemma trim_id: "s \<noteq> [] \<Longrightarrow> \<not> is_ws (hd s) \<Longrightarrow> \<not> is_ws (last s) \<Longrightarrow> trim s = s"
proof -
  assume a: "s \<noteq> []" "\<not> is_ws (hd s)" "\<not> is_ws (last s)"
  have "dropWhile is_ws s = s" using a(1,2) by (cases s) auto
  moreover have "dropWhile is_ws (rev s) = rev s" using a(1,3) by (cases s rule: rev_cases) auto
  ultimately show "trim s = s" by (simp add: trim_def trim_start_def trim_end_def)
qed

text \<open>How the keystore reads a scheme, an authority and an optional slash.\<close>

lemma canonical_origin_written:
  assumes "to_lower scheme = ''https'' \<or> to_lower scheme = ''http''"
    and "split_once_str ''://'' raw = Some (scheme, authority @ tail)"
    and "\<forall>c\<in>set authority. c \<notin> set ''/?#@''" and "tail = [] \<or> tail = ''/''"
    and "authority = [] \<or> \<not> is_ws (last authority)"
    and "split_port authority = (host, port)"
  shows "canonical_origin raw =
    (case port of
       Some p \<Rightarrow> if is_default_port (to_lower scheme) port then to_lower scheme @ ''://'' @ to_lower host
                 else to_lower scheme @ ''://'' @ to_lower host @ '':'' @ p
     | None \<Rightarrow> to_lower scheme @ ''://'' @ to_lower host)"
proof -
  have raw: "raw = scheme @ ''://'' @ authority @ tail" using split_once_str_Some [OF assms(2)] by simp
  have "scheme \<noteq> []" "\<not> is_ws (hd scheme)"
    using assms(1) by (auto simp: to_lower_def map_eq_Cons_conv is_ws_def lower_char_def is_upper_def)
  moreover have "\<not> is_ws (last raw)" using assms(4,5) by (auto simp: raw is_ws_def)
  ultimately have "trim raw = raw" using raw by (intro trim_id) auto
  then have "split_scheme (trim raw) = (to_lower scheme, authority @ tail)" using assms(2) by (simp add: split_scheme_def)
  moreover have "authority_of (authority @ tail) = to_lower authority"
  proof -
    have "takeWhile (\<lambda>c. c \<notin> set ''/?#'') (authority @ tail) = authority"
    proof (subst takeWhile_append2)
      show "x \<notin> set ''/?#''" if "x \<in> set authority" for x using assms(3) that by auto
      show "authority @ takeWhile (\<lambda>c. c \<notin> set ''/?#'') tail = authority" using assms(4) by auto
    qed
    moreover have "rsplit_once (CHR ''@'') (to_lower authority) = None"
      using assms(3) lower_set [of "CHR ''@''" authority] by (intro rsplit_once_None) (auto simp: is_lower_def is_upper_def)
    ultimately show ?thesis by (simp add: authority_of_def Let_def)
  qed
  ultimately show ?thesis using assms(6)
    by (simp add: canonical_origin_def split_port_lower)
qed

text \<open>A validated origin, taken apart.\<close>

lemma validated_origin_parts:
  assumes "validated_origin G raw = Inr c"
  obtains scheme authority tail d url typed_host typed_port port where
    "split_once_str ''://'' raw = Some (scheme, authority @ tail)" "default_port_of (to_lower scheme) = Some d"
    "ou_parse G raw = Inr url" "ou_host G url = Some (to_lower typed_host)"
    "\<forall>x\<in>set authority. x \<notin> set ''/?#@''" "tail = [] \<or> tail = ''/''"
    "split_port authority = (typed_host, typed_port)"
    "agreed_port d typed_port (ou_port G url) = Some port"
    "c = write_origin (ou_scheme G url) (to_lower typed_host) port" "length c \<le> MAX_ORIGIN_BYTES"
proof -
  obtain scheme rest d url host where a: "split_once_str ''://'' raw = Some (scheme, rest)"
      "default_port_of (to_lower scheme) = Some d" "ou_parse G raw = Inr url" "ou_host G url = Some host"
      "origin_of_url G d rest url host = Inr c"
    using assms by (auto simp: validated_origin_def split: option.splits sum.splits if_splits)
  define authority where "authority = takeWhile (\<lambda>x. x \<notin> set ''/?#'') rest"
  define tail where "tail = dropWhile (\<lambda>x. x \<notin> set ''/?#'') rest"
  obtain typed_host typed_port where s: "split_port authority = (typed_host, typed_port)" by fastforce
  have f: "origin_of_url G d rest url host = Inr c \<Longrightarrow>
      CHR ''@'' \<notin> set authority \<and> (tail = [] \<or> tail = ''/'') \<and> host = to_lower typed_host \<and>
      (\<exists>port. agreed_port d typed_port (ou_port G url) = Some port
         \<and> c = write_origin (ou_scheme G url) host port \<and> length c \<le> MAX_ORIGIN_BYTES)"
    unfolding origin_of_url_def Let_def authority_def [symmetric] tail_def [symmetric] s prod.case
    by (auto split: option.splits if_splits)
  obtain port where o: "agreed_port d typed_port (ou_port G url) = Some port"
      "c = write_origin (ou_scheme G url) host port" "length c \<le> MAX_ORIGIN_BYTES" using f a(5) by blast
  have "x \<notin> set ''/?#@''" if "x \<in> set authority" for x
    using f a(5) that set_takeWhileD [of x _ rest] unfolding authority_def by auto
  moreover have "rest = authority @ tail" by (simp add: authority_def tail_def)
  moreover have "tail = [] \<or> tail = ''/''" "host = to_lower typed_host" using f a(5) by blast+
  ultimately show ?thesis
    using that [of scheme authority tail d url typed_host typed_port port] a(1-4) s o by blast
qed

lemma split_once_str_scheme:
  "scheme = ''https'' \<or> scheme = ''http'' \<Longrightarrow> split_once_str ''://'' (scheme @ ''://'' @ rest) = Some (scheme, rest)"
  by (auto simp: starts_with_def)

lemma default_port_of_Some: "default_port_of scheme = Some d \<Longrightarrow>
  scheme = ''https'' \<and> d = ''443'' \<or> scheme = ''http'' \<and> d = ''80''"
  by (auto simp: default_port_of_def split: if_splits)

lemma split_port_parts:
  "split_port a = (h, p) \<Longrightarrow> case p of None \<Rightarrow> a = h | Some q \<Rightarrow> a = h @ '':'' @ q \<and> q \<noteq> [] \<and> list_all is_digit q"
  using rsplit_cases [of "CHR '':''" a] by (auto simp: split_port_def split: if_splits)

lemma digit_not_ws: "is_digit c \<Longrightarrow> \<not> is_ws c"
  by (auto simp: is_digit_def is_ws_def)

lemma ws_lower: "is_ws c \<Longrightarrow> lower_char c = c"
  by (auto simp: is_ws_def lower_char_def is_upper_def)

lemma show_nat_no_colon: "CHR '':'' \<notin> set (show_nat n)"
  using show_nat_digits [of n] by (auto simp: list_all_iff is_digit_def)

lemma split_port_shown: "split_port (host @ '':'' @ show_nat p) = (host, Some (show_nat p))"
  using rsplit_once_at [OF show_nat_no_colon, of host p] show_nat_digits [of p] by (simp add: split_port_def)

lemma split_port_bare:
  assumes "CHR '':'' \<in> set host \<longrightarrow> last host = CHR '']''"
  shows "split_port host = (host, None)"
proof (rule disjE [OF rsplit_cases [of "CHR '':''" host]])
  assume "\<exists>h p. host = h @ CHR '':'' # p \<and> CHR '':'' \<notin> set p \<and> rsplit_once (CHR '':'') host = Some (h, p)"
  then obtain h p where p: "host = h @ CHR '':'' # p" "rsplit_once (CHR '':'') host = Some (h, p)" by auto
  have "p = [] \<or> \<not> list_all is_digit p"
    using assms p(1) by (cases p rule: rev_cases) (auto simp: is_digit_def)
  then show ?thesis using p(2) by (auto simp: split_port_def)
qed (simp add: split_port_def)

lemma printable_not_ws: "0x20 < octet c \<Longrightarrow> \<not> is_ws c"
  by (auto simp: is_ws_def octet_def)

lemma agreed_port_cases:
  "agreed_port d typed parsed = Some port \<Longrightarrow>
     parsed = port \<and> (case port of Some p \<Rightarrow> typed = Some (show_nat p) | None \<Rightarrow> typed = None \<or> typed = Some d)"
  by (auto simp: agreed_port_def split: option.splits if_splits)

lemma canonical_of_validated:
  assumes "url_ok G" and "validated_origin G raw = Inr c"
  shows "canonical_origin raw = c \<and> canonical_origin c = c \<and> length c \<le> MAX_ORIGIN_BYTES"
proof -
  obtain scheme authority tail d url typed_host typed_port port where v:
    "split_once_str ''://'' raw = Some (scheme, authority @ tail)" "default_port_of (to_lower scheme) = Some d"
    "ou_parse G raw = Inr url" "ou_host G url = Some (to_lower typed_host)"
    "\<forall>x\<in>set authority. x \<notin> set ''/?#@''" "tail = [] \<or> tail = ''/''"
    "split_port authority = (typed_host, typed_port)" "agreed_port d typed_port (ou_port G url) = Some port"
    "c = write_origin (ou_scheme G url) (to_lower typed_host) port" "length c \<le> MAX_ORIGIN_BYTES"
    by (rule validated_origin_parts [OF assms(2)])
  note a = agreed_port_cases [OF v(8)] and s = default_port_of_Some [OF v(2)]
  have u: "ou_scheme G url = to_lower scheme" "\<And>p. ou_port G url = Some p \<Longrightarrow> show_nat p \<noteq> d"
    "to_lower typed_host \<noteq> []" "list_all (\<lambda>c. 0x20 < octet c \<and> octet c < 0x7F) (to_lower typed_host)"
    "CHR '':'' \<in> set (to_lower typed_host) \<longrightarrow> last (to_lower typed_host) = CHR '']''"
    using assms(1) v(1-4) unfolding url_ok_def by blast+
  have c: "c = write_origin (to_lower scheme) (to_lower typed_host) port" using v(9) u(1) by simp
  have scheme: "to_lower scheme = ''https'' \<or> to_lower scheme = ''http''" using s by auto
  have not_default: "\<not> is_default_port (to_lower scheme) (Some (show_nat p))" if "port = Some p" for p
    using u(2) [of p] a s that by (auto simp: is_default_port_def)
  have is_default: "is_default_port (to_lower scheme) (Some d)" using s by (auto simp: is_default_port_def)
  have host_end: "\<not> is_ws (last typed_host)"
  proof -
    have "typed_host \<noteq> []" using u(3) by (simp add: to_lower_def)
    then have "0x20 < octet (lower_char (last typed_host))"
      using u(4) by (auto simp: list_all_iff to_lower_def)
    then show ?thesis using ws_lower [of "last typed_host"] printable_not_ws by fastforce
  qed
  have "authority = [] \<or> \<not> is_ws (last authority)"
    using split_port_parts [OF v(7)] host_end by (auto split: option.splits simp: list_all_iff digit_not_ws)
  from canonical_origin_written [OF scheme v(1,5,6) this v(7)]
  have one: "canonical_origin raw = c"
    using a not_default is_default by (cases port) (auto simp: c write_origin_def split: option.splits)
  have free: "x \<notin> set ''/?#@''" if "x \<in> set (to_lower typed_host)" for x
  proof
    assume x: "x \<in> set ''/?#@''"
    then have "x \<in> set typed_host" using that lower_set [of x typed_host] by (auto simp: is_lower_def is_upper_def)
    then show False using x v(5) split_port_parts [OF v(7)] by (auto split: option.splits)
  qed
  have bare: "split_port (to_lower typed_host) = (to_lower typed_host, None)" by (rule split_port_bare [OF u(5)])
  have host_end': "\<not> is_ws (last (to_lower typed_host))"
    using u(3,4) by (auto simp: list_all_iff printable_not_ws)
  have lower2: "to_lower (to_lower scheme) = ''https'' \<or> to_lower (to_lower scheme) = ''http''" using scheme by (simp add: to_lower_idem)
  have two: "canonical_origin c = c"
  proof (cases port)
    case None
    have "split_once_str ''://'' c = Some (to_lower scheme, to_lower typed_host @ [])"
      using split_once_str_scheme [OF scheme, of "to_lower typed_host"] None by (simp add: c write_origin_def)
    from canonical_origin_written [OF lower2 this _ _ _ bare] show ?thesis
      using free host_end' None by (simp add: c write_origin_def to_lower_idem)
  next
    case (Some p)
    let ?a = "to_lower typed_host @ '':'' @ show_nat p"
    have "split_once_str ''://'' c = Some (to_lower scheme, ?a @ [])"
      using split_once_str_scheme [OF scheme, of ?a] Some by (simp add: c write_origin_def)
    moreover have "\<forall>x\<in>set ?a. x \<notin> set ''/?#@''"
      using free show_nat_digits [of p] by (auto simp: list_all_iff is_digit_def)
    moreover have "?a = [] \<or> \<not> is_ws (last ?a)"
      using show_nat_digits [of p] by (simp add: list_all_iff digit_not_ws)
    ultimately show ?thesis
      using canonical_origin_written [OF lower2 _ _ _ _ split_port_shown, of c "to_lower typed_host" p "[]"]
        not_default [OF Some] Some by (simp add: c write_origin_def to_lower_idem)
  qed
  show ?thesis using one two v(10) by simp
qed

text \<open>
  C18: An origin the shell accepts is the origin the keystore reads. The canonical form the
  shell shows, and mints the confirmation over, is what the keystore makes of what was typed;
  the keystore reads that form back as itself, so the key that signs is the key of the origin
  on screen; and it is at most 256 bytes long.
\<close>

theorem accepted_origin_is_the_keystores:
  assumes "url_ok G" and "validated_origin G raw = Inr c"
  shows "canonical_origin raw = c \<and> canonical_origin c = c
    \<and> origin_key X K master raw = origin_key X K master c \<and> length c \<le> 256"
  using canonical_of_validated [OF assms] by (simp add: origin_key_def origin_path_def MAX_ORIGIN_BYTES_def)

definition demo_shell :: "(string \<times> string \<times> nat option) shell_crates" where
  "demo_shell = \<lparr>
     ou_parse = (\<lambda>raw. case split_once_str ''://'' raw of
          None \<Rightarrow> Inl False
        | Some (scheme, rest) \<Rightarrow>
            let (host, port) = split_port (takeWhile (\<lambda>c. c \<notin> set ''/?#'') rest)
            in if host = [] \<or> CHR '':'' \<in> set host \<or> \<not> list_all (\<lambda>c. 0x20 < octet c \<and> octet c < 0x7F) host then Inl True
               else Inr (to_lower scheme, to_lower host,
                 case port of None \<Rightarrow> None
                 | Some q \<Rightarrow> if default_port_of (to_lower scheme) = Some (show_nat (num_of_digits q)) then None
                            else Some (num_of_digits q))),
     ou_scheme = fst, ou_host = (\<lambda>u. Some (fst (snd u))), ou_username = (\<lambda>_. []), ou_password = (\<lambda>_. None),
     ou_query = (\<lambda>_. None), ou_fragment = (\<lambda>_. None), ou_path = (\<lambda>_. ''/''), ou_port = (\<lambda>u. snd (snd u)),
     category_control = (\<lambda>c. c < 0x20 \<or> 0x7F \<le> c \<and> c < 0xA0), category_format = (\<lambda>c. c = 0x200B) \<rparr>"

lemma printable_lower: "0x20 < octet c \<and> octet c < 0x7F \<Longrightarrow> 0x20 < octet (lower_char c) \<and> octet (lower_char c) < 0x7F"
  by (auto simp: octet_def lower_char_def is_upper_def of_char_of)

lemma demo_url_ok: "url_ok demo_shell"
  using lower_set [of "CHR '':''"] printable_lower
  by (auto simp: url_ok_def demo_shell_def list_all_iff to_lower_def Let_def is_lower_def is_upper_def
      split: option.splits prod.splits if_splits)

lemma demo_validates: "validated_origin demo_shell ''HTTP://A:80/'' = Inr ''http://a''"
  by (simp add: validated_origin_def chars_of_def octet_def is_unshowable_def demo_shell_def starts_with_def
      default_port_of_def to_lower_def lower_char_def is_upper_def split_port_def rsplit_once_def is_digit_def
      origin_of_url_def agreed_port_def write_origin_def MAX_ORIGIN_BYTES_def num_of_digits_def digit_val_def
      show_nat.simps)
    (simp add: char_of_def bit_0)

theorem accepted_origin_is_the_keystores_witness:
  "canonical_origin ''HTTP://A:80/'' = ''http://a''"
  using accepted_origin_is_the_keystores [OF demo_url_ok demo_validates] by blast

subsection \<open>What the person is shown\<close>

lemma concat_chunks [simp]: "concat (chunks n xs) = xs"
  by (induction n xs rule: chunks.induct) simp_all

lemma chunks_width: "0 < n \<Longrightarrow> c \<in> set (chunks n xs) \<Longrightarrow> length c \<le> n \<and> c \<noteq> []"
  by (induction n xs rule: chunks.induct) auto

lemma chunks_count: "0 < n \<Longrightarrow> length (chunks n xs) * n < length xs + n"
proof (induction n xs rule: chunks.induct)
  case (2 n x xs)
  then have "length (chunks n (drop (n - 1) xs)) * n < length xs - (n - 1) + n" by simp
  moreover have "drop (n - 1) xs = [] \<Longrightarrow> length (chunks n (drop (n - 1) xs)) = 0" by simp
  ultimately show ?case by (cases "length xs \<le> n - 1") auto
qed simp

lemma concat_split_lines: "concat (split_lines t) = filter (\<lambda>c. c \<noteq> 0x0A) t"
  by (induction t rule: split_lines.induct) (auto split: list.splits)

lemma concat_wrap_text: "concat (wrap_text t) = filter (\<lambda>c. c \<noteq> 0x0A) t"
proof -
  have "concat (concat (map wrap_line ls)) = concat ls" for ls
    by (induction ls) (auto simp: wrap_line_def)
  then show ?thesis by (simp add: wrap_text_def concat_split_lines)
qed

lemma octet_nibble [simp]: "octet c div 16 < 16"
  using octet_less [of c] by (intro less_mult_imp_div_less) simp

lemma hex_digit_inject:
  assumes "m < 16" "n < 16" "hex_digit_of m = hex_digit_of n"
  shows "m = n"
proof -
  have v: "(of_char (hex_digit_of n) :: nat) = (if n < 10 then 48 + n else 87 + n)" if "n < 16" for n
    using that by (simp add: hex_digit_of_def of_char_of)
  have "(if m < 10 then 48 + m else 87 + m) = (if n < 10 then 48 + n else 87 + n)"
    using v [OF assms(1)] v [OF assms(2)] assms(3) by metis
  then show ?thesis using assms(1,2) by (simp split: if_splits)
qed

lemma hex_byte_inject: "hex_byte a = hex_byte b \<Longrightarrow> a = b"
proof -
  assume "hex_byte a = hex_byte b"
  then have "octet a div 16 = octet b div 16" "octet a mod 16 = octet b mod 16"
    by (auto simp: hex_byte_def intro: hex_digit_inject)
  then have "octet a = octet b" by (metis div_mult_mod_eq)
  then show "a = b" by (simp add: octet_inject)
qed

lemma hex_bytes_inject: "concat (map hex_byte a) = concat (map hex_byte b) \<Longrightarrow> a = b"
proof (induction a arbitrary: b)
  case (Cons x a)
  then show ?case by (cases b) (auto simp: hex_byte_def intro: hex_byte_inject)
next
  case Nil
  then show ?case by (cases b) (auto simp: hex_byte_def)
qed

lemma hex_digit_printable: "n < 16 \<Longrightarrow> 0x20 < octet (hex_digit_of n) \<and> octet (hex_digit_of n) < 0x7F"
  by (simp add: hex_digit_of_def octet_def of_char_of)

lemma hex_byte_printable: "c \<in> set (hex_byte b) \<Longrightarrow> 0x20 < octet c \<and> octet c < 0x7F"
  using hex_digit_printable [of "octet b div 16"] hex_digit_printable [of "octet b mod 16"]
  by (auto simp: hex_byte_def)

lemma join_Cons: "join sep (x # xs) = x @ (if xs = [] then [] else sep @ join sep xs)"
  by (cases xs) auto

lemma hex_line_bytes: "filter (\<lambda>c. c \<noteq> CHR '' '') (join '' '' (map hex_byte b)) = concat (map hex_byte b)"
proof -
  have "filter (\<lambda>c. c \<noteq> CHR '' '') (hex_byte x) = hex_byte x" for x
    using hex_byte_printable [of "CHR '' ''" x] by (auto simp: filter_id_conv octet_def)
  then show ?thesis by (induction b) (auto simp: join_Cons)
qed

lemma hex_lines_bytes: "concat (map (filter (\<lambda>c. c \<noteq> CHR '' '')) (hex_lines b)) = concat (map hex_byte b)"
proof -
  have "concat (map (\<lambda>c. concat (map hex_byte c)) cs) = concat (map hex_byte (concat cs))" for cs
    by (induction cs) simp_all
  then show ?thesis by (simp add: hex_lines_def comp_def hex_line_bytes)
qed

lemma hex_lines_inject: "hex_lines a = hex_lines b \<Longrightarrow> a = b"
  by (metis hex_bytes_inject hex_lines_bytes)

definition printable :: "string \<Rightarrow> bool" where
  "printable s \<longleftrightarrow> list_all (\<lambda>c. 0x20 \<le> octet c \<and> octet c < 0x7F) s"

lemma printable_append [simp]: "printable (s @ t) \<longleftrightarrow> printable s \<and> printable t"
  by (simp add: printable_def)

lemma printable_shown [simp]: "printable (show_nat n)"
  using show_nat_digits [of n] by (auto simp: printable_def list_all_iff is_digit_def octet_def)

lemma printable_purpose [simp]: "printable (purpose_str p)"
  by (cases p) (simp_all add: printable_def octet_def)

lemma printable_labels [simp]:
  "printable ''origin   ''" "printable ''purpose  ''" "printable ''says     ''" "printable ''payload  ''"
  "printable '' bytes, shown as ''" "printable ''digest   ''" "printable ''text''" "printable ''hex''"
  by (simp_all add: printable_def octet_def)

lemma utf8_chars_printable: "printable a \<Longrightarrow> utf8_chars (a @ s) = map_option ((@) (map octet a)) (utf8_chars s)"
proof (cases "utf8_chars s")
  case None
  then show "printable a \<Longrightarrow> ?thesis" by (induction a) (auto simp: printable_def)
next
  case (Some cs)
  then show "printable a \<Longrightarrow> ?thesis" by (induction a) (auto simp: printable_def)
qed

lemma chars_of_printable: "printable a \<Longrightarrow> utf8_chars s \<noteq> None \<Longrightarrow> chars_of (a @ s) = map octet a @ chars_of s"
  by (auto simp: chars_of_def utf8_chars_printable)

lemma chars_of_all_printable: "printable a \<Longrightarrow> chars_of a = map octet a"
  using chars_of_printable [of a "[]"] by (simp add: chars_of_def)

lemma chars_of_inject: "utf8_chars s \<noteq> None \<Longrightarrow> utf8_chars t \<noteq> None \<Longrightarrow> chars_of s = chars_of t \<Longrightarrow> s = t"
  by (auto simp: chars_of_def intro: utf8_chars_inject)

lemma octets_inject: "map octet s = map octet t \<Longrightarrow> s = t"
  by (metis char_of_octet list.inj_map_strong)

lemma validated_origin_printable:
  assumes "url_ok G" and "validated_origin G raw = Inr c"
  shows "printable c"
proof -
  obtain scheme authority tail d url typed_host typed_port port where v:
    "split_once_str ''://'' raw = Some (scheme, authority @ tail)" "default_port_of (to_lower scheme) = Some d"
    "ou_parse G raw = Inr url" "ou_host G url = Some (to_lower typed_host)"
    "c = write_origin (ou_scheme G url) (to_lower typed_host) port"
    using validated_origin_parts [OF assms(2)] by metis
  have "ou_scheme G url = to_lower scheme" "list_all (\<lambda>c. 0x20 < octet c \<and> octet c < 0x7F) (to_lower typed_host)"
    using assms(1) v(1-4) unfolding url_ok_def by blast+
  then show ?thesis using default_port_of_Some [OF v(2)] printable_shown
    by (auto simp: v(5) write_origin_def printable_def list_all_iff octet_def split: option.splits)
qed

lemma request_new_parts:
  "request_new G raw p d b = Inr r \<Longrightarrow> validated_origin G raw = Inr (sr_origin r) \<and> sr_purpose r = p
     \<and> sr_description r = d \<and> sr_payload r = b \<and> check_description G d = None \<and> check_payload G b = None"
  by (auto simp: request_new_def split: sum.splits option.splits)

lemma hex_printable: "hex_ok X \<Longrightarrow> printable (hex_encode X b)"
proof -
  assume "hex_ok X"
  then have "list_all is_hexdigit (hex_encode X b)" by (simp add: hex_ok_def)
  then show ?thesis
    unfolding printable_def by (rule list.pred_mono_strong) (auto simp: is_hexdigit_def is_digit_def octet_def)
qed

text \<open>The lines of a request, as labels and the characters they are followed by.\<close>

lemma prompt_lines_written:
  assumes "url_ok G" "hex_ok X" "request_new G raw p d b = Inr r" "utf8_chars d \<noteq> None"
  shows "prompt_lines X G r =
    [map octet (''origin   '' @ sr_origin r), map octet (''purpose  '' @ purpose_str p),
     map octet ''says     '' @ chars_of d, [],
     map octet (''payload  '' @ show_nat (length b) @ '' bytes, shown as '' @ (if payload_text G b \<noteq> None then ''text'' else ''hex''))]
    @ rendered_payload G r @ [[], map octet (''digest   '' @ hex_encode X (blake3 X b))]"
proof -
  note q = request_new_parts [OF assms(3)]
  have o: "printable (sr_origin r)" using validated_origin_printable [OF assms(1)] q by blast
  have h: "printable (hex_encode X (blake3 X b))" by (rule hex_printable [OF assms(2)])
  have c: "chars_of (a @ s) = map octet (a @ s)" if "printable a" "printable s" for a s
    using that by (intro chars_of_all_printable) simp
  have f: "printable (show_nat n @ '' bytes, shown as '' @ (if x then ''text'' else ''hex''))" for n x
    by (simp only: printable_append printable_shown printable_labels split: if_split) simp
  have parts: "sr_purpose r = p" "sr_description r = d" "sr_payload r = b" using q by auto
  show ?thesis unfolding prompt_lines_def request_digest_def Let_def parts
    by (simp only: c [OF printable_labels(1) o] c [OF printable_labels(2) printable_purpose]
        chars_of_printable [OF printable_labels(3) assms(4)] c [OF printable_labels(4) f] c [OF printable_labels(6) h])
qed

lemma framed_inject:
  "[a, b, c, d, e] @ m @ [f, g] = [a', b', c', d', e'] @ m' @ [f', g'] \<Longrightarrow>
     a = a' \<and> b = b' \<and> c = c' \<and> e = e' \<and> m = m' \<and> g = g'"
  by simp

lemma framed_all:
  "(\<forall>l\<in>set ([a, b, c, d, e] @ m @ [f, g]). P l) \<longleftrightarrow>
     P a \<and> P b \<and> P c \<and> P d \<and> P e \<and> (\<forall>l\<in>set m. P l) \<and> P f \<and> P g"
  by auto

lemma framed_length: "length ([a, b, c, d, e] @ m @ [f, g]) = length m + 7"
  by simp

lemma shown_count_inject:
  assumes "show_nat m @ '' bytes, shown as '' @ f = show_nat n @ '' bytes, shown as '' @ g"
  shows "m = n \<and> f = g"
proof -
  have t: "takeWhile is_digit (show_nat k @ '' bytes, shown as '' @ h) = show_nat k" for k h
    using show_nat_digits [of k] by (simp add: takeWhile_append list_all_iff is_digit_def)
  have "show_nat m = show_nat n" using t [of m f] t [of n g] assms by simp
  then have "m = n" by (metis num_of_digits_show_nat)
  then show ?thesis using assms by simp
qed

text \<open>
  C19: The prompt identifies the request. Two requests whose prompts read the same have the
  same origin, purpose and description and as many bytes of payload; they are the same
  request, or two different texts that differ only in where their lines end and that the
  digest does not tell apart. A payload shown as hex is always exactly the one on screen.
\<close>

theorem prompt_identifies_the_request:
  assumes "url_ok G" and "hex_ok X" and "utf8_chars d \<noteq> None" and "utf8_chars e \<noteq> None"
    and "request_new G raw p d b = Inr r" and "request_new G raw' q e c = Inr s"
    and "prompt_lines X G r = prompt_lines X G s"
  shows "r = s
    \<or> sr_origin r = sr_origin s \<and> p = q \<and> d = e \<and> length b = length c
      \<and> b \<noteq> c \<and> blake3 X b = blake3 X c
      \<and> (\<exists>t u. payload_text G b = Some t \<and> payload_text G c = Some u
           \<and> filter (\<lambda>x. x \<noteq> 0x0A) t = filter (\<lambda>x. x \<noteq> 0x0A) u)"
proof -
  note r = request_new_parts [OF assms(5)] and s = request_new_parts [OF assms(6)]
  note l = assms(7) [unfolded prompt_lines_written [OF assms(1,2,5,3)] prompt_lines_written [OF assms(1,2,6,4)]]
  note l = framed_inject [OF l]
  have "map octet (''origin   '' @ sr_origin r) = map octet (''origin   '' @ sr_origin s)"
    "map octet (''purpose  '' @ purpose_str p) = map octet (''purpose  '' @ purpose_str q)"
    "map octet ''says     '' @ chars_of d = map octet ''says     '' @ chars_of e" using l by blast+
  then have same: "sr_origin r = sr_origin s" "p = q" "d = e"
    using octets_inject purpose_str_inject chars_of_inject [OF assms(3,4)] unfolding same_append_eq by blast+
  have "''payload  '' @ show_nat (length b) @ '' bytes, shown as '' @ (if payload_text G b \<noteq> None then ''text'' else ''hex'')
      = ''payload  '' @ show_nat (length c) @ '' bytes, shown as '' @ (if payload_text G c \<noteq> None then ''text'' else ''hex'')"
    using l by (intro octets_inject) blast
  from shown_count_inject [OF this [unfolded same_append_eq]]
  have form: "length b = length c" "payload_text G b = None \<longleftrightarrow> payload_text G c = None"
    by (auto split: if_splits)
  have shown: "rendered_payload G r = rendered_payload G s" using l by blast
  have "map octet (''digest   '' @ hex_encode X (blake3 X b)) = map octet (''digest   '' @ hex_encode X (blake3 X c))"
    using l by blast
  then have digest: "hex_encode X (blake3 X b) = hex_encode X (blake3 X c)"
    using octets_inject unfolding same_append_eq by blast
  have blake: "blake3 X b = blake3 X c"
    using digest assms(2) by (auto simp: hex_ok_def dest: injD)
  show ?thesis
  proof (cases "b = c")
    case True
    then have "r = s" using same r s by (cases r; cases s) auto
    then show ?thesis ..
  next
    case False
    have "payload_text G b \<noteq> None"
    proof
      assume "payload_text G b = None"
      then have "map (map octet) (hex_lines b) = map (map octet) (hex_lines c)"
        using shown form r s by (simp add: rendered_payload_def)
      then have "hex_lines b = hex_lines c" by (metis octets_inject list.inj_map_strong)
      then show False using False hex_lines_inject by blast
    qed
    then obtain t u where t: "payload_text G b = Some t" "payload_text G c = Some u" using form by auto
    then have "wrap_text t = wrap_text u" using shown r s by (simp add: rendered_payload_def)
    then have "filter (\<lambda>x. x \<noteq> 0x0A) t = filter (\<lambda>x. x \<noteq> 0x0A) u" by (metis concat_wrap_text)
    then show ?thesis using same form blake False t by blast
  qed
qed

text \<open>Printable ASCII is in neither category.\<close>

definition categories_ok :: "'u shell_crates \<Rightarrow> bool" where
  "categories_ok G \<longleftrightarrow> (\<forall>c. 0x20 \<le> c \<and> c < 0x7F \<longrightarrow> \<not> category_control G c \<and> \<not> category_format G c)"

lemma printable_showable: "categories_ok G \<Longrightarrow> printable s \<Longrightarrow> c \<in> set (map octet s) \<Longrightarrow> \<not> is_unshowable G c"
  by (auto simp: categories_ok_def printable_def list_all_iff is_unshowable_def)

lemma set_join: "c \<in> set (join sep xs) \<Longrightarrow> c \<in> set sep \<or> (\<exists>x\<in>set xs. c \<in> set x)"
  by (induction sep xs rule: join.induct) auto

lemma hex_lines_printable: "l \<in> set (hex_lines b) \<Longrightarrow> printable l"
  by (force simp: hex_lines_def printable_def list_all_iff octet_def [of "CHR '' ''"] dest!: set_join hex_byte_printable)

lemma hex_lines_width: "l \<in> set (hex_lines b) \<Longrightarrow> length l \<le> WRAP_WIDTH"
proof -
  have w: "length (join '' '' (map hex_byte c)) \<le> 3 * length c" for c
    by (induction c) (auto simp: join_Cons hex_byte_def)
  assume "l \<in> set (hex_lines b)"
  then obtain c where "c \<in> set (chunks HEX_BYTES_PER_LINE b)" "l = join '' '' (map hex_byte c)" by (auto simp: hex_lines_def)
  then show ?thesis using w [of c] chunks_width [of HEX_BYTES_PER_LINE c b] by (auto simp: HEX_BYTES_PER_LINE_def WRAP_WIDTH_def)
qed

lemma wrap_text_width: "l \<in> set (wrap_text t) \<Longrightarrow> length l \<le> WRAP_WIDTH"
  by (auto simp: wrap_text_def wrap_line_def WRAP_WIDTH_def split: if_splits dest!: chunks_width [rotated])

lemma wrap_text_chars: "l \<in> set (wrap_text t) \<Longrightarrow> c \<in> set l \<Longrightarrow> c \<in> set t \<and> c \<noteq> 0x0A"
proof -
  assume "l \<in> set (wrap_text t)" "c \<in> set l"
  then have "c \<in> set (concat (wrap_text t))" by auto
  then show ?thesis by (simp add: concat_wrap_text)
qed

lemma rendered_payload_fits:
  assumes "categories_ok G" "check_payload G (sr_payload r) = None"
  shows "length (rendered_payload G r) \<le> 64"
    and "l \<in> set (rendered_payload G r) \<Longrightarrow> length l \<le> WRAP_WIDTH \<and> (\<forall>c\<in>set l. c = 0x09 \<or> \<not> is_unshowable G c)"
proof -
  show "length (rendered_payload G r) \<le> 64"
  proof (cases "payload_text G (sr_payload r)")
    case None
    then show ?thesis using assms(2) chunks_count [of HEX_BYTES_PER_LINE "sr_payload r"]
      by (auto simp: rendered_payload_def hex_lines_def check_payload_def MAX_HEX_PAYLOAD_BYTES_def HEX_BYTES_PER_LINE_def
          split: if_splits)
  qed (use assms(2) in \<open>auto simp: rendered_payload_def check_payload_def MAX_TEXT_PAYLOAD_LINES_def split: if_splits\<close>)
  assume l: "l \<in> set (rendered_payload G r)"
  show "length l \<le> WRAP_WIDTH \<and> (\<forall>c\<in>set l. c = 0x09 \<or> \<not> is_unshowable G c)"
  proof (cases "payload_text G (sr_payload r)")
    case None
    then obtain h where h: "h \<in> set (hex_lines (sr_payload r))" "l = map octet h" using l by (auto simp: rendered_payload_def)
    then show ?thesis
      using hex_lines_width [OF h(1)] printable_showable [OF assms(1) hex_lines_printable [OF h(1)]] by auto
  next
    case (Some t)
    then have "l \<in> set (wrap_text t)" using l by (simp add: rendered_payload_def)
    moreover have "\<forall>c\<in>set t. c = 0x0A \<or> c = 0x09 \<or> \<not> is_unshowable G c"
      using Some by (auto simp: payload_text_def list_all_iff split: option.splits if_splits)
    ultimately show ?thesis using wrap_text_width wrap_text_chars [of l t] by blast
  qed
qed

text \<open>
  A prompt can always be shown in full and shows nothing but text. It has at most 71
  lines; no line of the payload is longer than 100 characters; and no character on any line,
  tabs apart, is a control, a format character, or a line or paragraph separator, so nothing
  the requester wrote can move, hide or reorder what is read.
\<close>

theorem prompt_fits_the_screen:
  assumes "url_ok G" and "hex_ok X" and "categories_ok G" and "utf8_chars d \<noteq> None"
    and "request_new G raw p d b = Inr r"
  shows "length (prompt_lines X G r) \<le> 71
    \<and> (\<forall>l\<in>set (rendered_payload G r). length l \<le> 100)
    \<and> (\<forall>l\<in>set (prompt_lines X G r). \<forall>c\<in>set l. c = 0x09 \<or> \<not> is_unshowable G c)"
proof -
  note q = request_new_parts [OF assms(5)] and shown = printable_showable [OF assms(3)]
  have check: "check_payload G (sr_payload r) = None" using q by simp
  note pl = rendered_payload_fits [OF assms(3) check]
  have plain: "\<forall>c\<in>set (map octet s). c = 0x09 \<or> \<not> is_unshowable G c" if "printable s" for s
    using shown [OF that] by blast
  have "printable (sr_origin r)" using validated_origin_printable [OF assms(1)] q by blast
  then have h: "printable (''origin   '' @ sr_origin r)" "printable (''purpose  '' @ purpose_str p)"
      "printable (''digest   '' @ hex_encode X (blake3 X b))"
      "printable (''payload  '' @ show_nat (length b) @ '' bytes, shown as '' @ f)" if "f = ''text'' \<or> f = ''hex''" for f
    using hex_printable [OF assms(2)] that unfolding printable_append
    by (auto simp only: printable_shown printable_labels printable_purpose)
  have "\<forall>c\<in>set (chars_of d). \<not> is_unshowable G c"
    using q by (auto simp: check_description_def find_None_iff split: option.splits)
  then have d: "\<forall>c\<in>set (map octet ''says     '' @ chars_of d). c = 0x09 \<or> \<not> is_unshowable G c"
    using plain [OF printable_labels(3)] unfolding set_append by blast
  have f: "(if payload_text G b \<noteq> None then ''text'' else ''hex'') = ''text'' \<or>
      (if payload_text G b \<noteq> None then ''text'' else ''hex'') = ''hex''" by simp
  have "\<forall>l\<in>set (rendered_payload G r). \<forall>c\<in>set l. c = 0x09 \<or> \<not> is_unshowable G c"
    "\<forall>l\<in>set (rendered_payload G r). length l \<le> 100" using pl(2) by (auto simp: WRAP_WIDTH_def)
  then show ?thesis
    unfolding prompt_lines_written [OF assms(1,2,5,4)] framed_all framed_length
    using pl(1) d h [OF f, THEN plain] by (intro conjI) (simp_all only: empty_iff list.set, simp_all)
qed

text \<open>
  Texts that differ only in where a line ends are shown alike when the lines wrap, so beside
  the digest nothing on screen tells them apart.
\<close>

lemma chunks_append: "length xs = n \<Longrightarrow> 0 < n \<Longrightarrow> chunks n (xs @ ys) = xs # chunks n ys"
  by (cases xs) auto

lemma split_lines_two: "0x0A \<notin> set a \<Longrightarrow> 0x0A \<notin> set b \<Longrightarrow> split_lines (a @ 0x0A # b) = [a, b]"
proof -
  have "0x0A \<notin> set b \<Longrightarrow> split_lines b = [b]" for b by (induction b) auto
  then show "0x0A \<notin> set a \<Longrightarrow> 0x0A \<notin> set b \<Longrightarrow> split_lines (a @ 0x0A # b) = [a, b]" by (induction a) auto
qed

lemma wrapped_texts_look_alike:
  assumes "length a = WRAP_WIDTH" "length b = WRAP_WIDTH" "c \<noteq> []" "0x0A \<notin> set (a @ b @ c)"
  shows "wrap_text ((a @ b) @ 0x0A # c) = wrap_text (a @ 0x0A # b @ c)"
proof -
  have w: "WRAP_WIDTH > 0" by (simp add: WRAP_WIDTH_def)
  have "chunks WRAP_WIDTH (x @ y) = x # chunks WRAP_WIDTH y" if "length x = WRAP_WIDTH" for x y :: "nat list"
    by (rule chunks_append [OF that w])
  moreover have "chunks WRAP_WIDTH x = [x]" if "length x = WRAP_WIDTH" for x :: "nat list"
    using chunks_append [OF that w, of "[]"] by simp
  ultimately show ?thesis using assms w split_lines_two [of "a @ b" c] split_lines_two [of a "b @ c"]
    by (auto simp: wrap_text_def wrap_line_def)
qed

subsection \<open>On the instance\<close>

definition demo_request :: signature_request where
  "demo_request = \<lparr> sr_origin = ''http://a'', sr_purpose = Attestation, sr_description = ''hi'', sr_payload = ''pay'' \<rparr>"

lemma demo_requested: "request_new demo_shell ''HTTP://A:80/'' Attestation ''hi'' ''pay'' = Inr demo_request"
proof -
  have "utf8_chars ''hi'' = Some [104, 105]" "utf8_chars ''pay'' = Some [112, 97, 121]" by (simp_all add: octet_def)
  then show ?thesis unfolding request_new_def demo_validates
    by (simp add: check_description_def chars_of_def is_unshowable_def demo_shell_def MAX_DESCRIPTION_CHARS_def
        check_payload_def payload_text_def MAX_TEXT_PAYLOAD_BYTES_def wrap_text_def wrap_line_def WRAP_WIDTH_def
        MAX_TEXT_PAYLOAD_LINES_def demo_request_def)
qed

lemma demo_categories_ok: "categories_ok demo_shell"
  by (simp add: categories_ok_def demo_shell_def)

lemma demo_description: "utf8_chars ''hi'' \<noteq> None"
  by (simp add: octet_def)

theorem prompt_identifies_the_request_witness:
  "prompt_lines demo demo_shell demo_request = prompt_lines demo demo_shell demo_request \<and> sr_payload demo_request = ''pay''"
  using prompt_identifies_the_request [OF demo_url_ok demo_hex_ok demo_description demo_description demo_requested
      demo_requested refl] by (simp add: demo_request_def)

theorem prompt_fits_the_screen_witness:
  "length (prompt_lines demo demo_shell demo_request) \<le> 71"
  using prompt_fits_the_screen [OF demo_url_ok demo_hex_ok demo_categories_ok demo_description demo_requested] by blast

end
