(* ===== verification/Shell.thy ===== *)
theory Shell
  imports Prompt Keystore_Safety
begin

text \<open>
  The shell's side of the agent boundary, \<open>crates/syndeo-shell/src/service.rs\<close> and
  \<open>signing.rs\<close>, calling the keystore of theory \<open>Keystore\<close>. The world is the keystore process
  (with its own confirmer) and how many calls have been made; the \<open>n\<close>-th call happens at
  \<open>sh_clock n\<close> and \<open>sh_link n\<close> says whether it reached the keystore and was answered. How the
  person answers, and the passphrase they give, are the prompter's.
\<close>

record prompter =
  pr_interactive :: bool
  pr_sign :: "signature_request \<Rightarrow> bool"
  pr_ask :: "string \<Rightarrow> string \<Rightarrow> bool"
  pr_passphrase :: "bytes option"

datatype link = Delivered | Unreached | ReplyLost

record ('h, 'v, 'm, 'u) shell =
  sh_env :: "('h, 'v, 'm) key_env"
  sh_crates :: "'u shell_crates"
  sh_confirmer :: confirmer
  sh_prompter :: prompter
  sh_clock :: "nat \<Rightarrow> moment"
  sh_link :: "nat \<Rightarrow> link"
  sh_nonce :: bytes

type_synonym world = "(keystore \<times> confirmer) \<times> nat"

datatype shell_request =
    RequestSignature string purpose string bytes
  | IdentityFor string
  | AskUser string string
  | Ping

datatype shell_response =
    ShSigned string string string
  | ShDeclined
  | ShIdentity string string
  | ShConfirmed bool
  | ShPong
  | ShError

subsection \<open>Calling the keystore\<close>

definition call_once ::
    "('h, 'v, 'm, 'u) shell \<Rightarrow> keystore_request \<Rightarrow> world \<Rightarrow> world \<times> (unit + keystore_response)" where
  "call_once V rq w =
     (let n = snd w; (sk, response) = handle_request (sh_env V) (sh_clock V n) rq (fst w)
      in case sh_link V n of
           Delivered \<Rightarrow> ((sk, n + 1), Inr response)
         | ReplyLost \<Rightarrow> ((sk, n + 1), Inl ())
         | Unreached \<Rightarrow> ((fst w, n + 1), Inl ()))"

definition send_passphrase ::
    "('h, 'v, 'm, 'u) shell \<Rightarrow> bytes option \<Rightarrow> world \<Rightarrow> world \<times> (unit + unit)" where
  "send_passphrase V passphrase w =
     (case call_once V (RqUnseal passphrase) w of
        (w, Inr RsOk) \<Rightarrow> (w, Inr ())
      | (w, _) \<Rightarrow> (w, Inl ()))"

definition unseal_now :: "('h, 'v, 'm, 'u) shell \<Rightarrow> world \<Rightarrow> world \<times> (unit + unit)" where
  "unseal_now V w =
     (case call_once V RqStatus w of
        (w, Inr (RsStatus st)) \<Rightarrow>
          if st_passphrase_required st
          then (case pr_passphrase (sh_prompter V) of
                  None \<Rightarrow> (w, Inl ())
                | Some p \<Rightarrow> send_passphrase V (Some p) w)
          else send_passphrase V None w
      | (w, _) \<Rightarrow> (w, Inl ()))"

definition keystore_call ::
    "('h, 'v, 'm, 'u) shell \<Rightarrow> keystore_request \<Rightarrow> world \<Rightarrow> world \<times> (unit + keystore_response)" where
  "keystore_call V rq w =
     (case call_once V rq w of
        (w, Inr RsLocked) \<Rightarrow>
          if \<not> pr_interactive (sh_prompter V) then (w, Inr RsError)
          else (case unseal_now V w of
                  (w, Inl _) \<Rightarrow> (w, Inl ())
                | (w, Inr _) \<Rightarrow>
                    (case call_once V rq w of
                       (w, Inr RsLocked) \<Rightarrow> (w, Inr RsError)
                     | r \<Rightarrow> r))
      | r \<Rightarrow> r)"

subsection \<open>Signing\<close>

definition mint :: "('h, 'v, 'm, 'u) shell \<Rightarrow> signature_request \<Rightarrow> world \<Rightarrow> confirmation" where
  "mint V r w =
     issue (e_externs (sh_env V)) (e_hmac (sh_env V)) (sh_confirmer V) (t_unix (sh_clock V (snd w))) (sh_nonce V)
       (sr_origin r) (sr_purpose r) (sr_description r) (sr_payload r)"

definition shell_sign_confirmed ::
    "('h, 'v, 'm, 'u) shell \<Rightarrow> signature_request \<Rightarrow> world \<Rightarrow> world \<times> shell_response" where
  "shell_sign_confirmed V r w =
     (case keystore_call V (RqSignConfirmed (mint V r w) (sr_payload r)) w of
        (w, Inr (RsSignature signature public address)) \<Rightarrow> (w, ShSigned signature public address)
      | (w, _) \<Rightarrow> (w, ShError))"

definition sign_request ::
    "('h, 'v, 'm, 'u) shell \<Rightarrow> signature_request \<Rightarrow> world \<Rightarrow> world \<times> shell_response" where
  "sign_request V r w =
     (if \<not> pr_interactive (sh_prompter V) then (w, ShDeclined)
      else if \<not> pr_sign (sh_prompter V) r then (w, ShDeclined)
      else shell_sign_confirmed V r w)"

definition shell_sign ::
    "('h, 'v, 'm, 'u) shell \<Rightarrow> string \<Rightarrow> purpose \<Rightarrow> string \<Rightarrow> bytes \<Rightarrow> world \<Rightarrow> world \<times> shell_response" where
  "shell_sign V origin p description payload w =
     (case request_new (sh_crates V) origin p description payload of
        Inl _ \<Rightarrow> (w, ShDeclined)
      | Inr r \<Rightarrow> sign_request V r w)"

definition IDENTITY_TITLE :: string where
  "IDENTITY_TITLE = ''Reveal your identity for this site to the agent?''"

definition identity_detail :: "string \<Rightarrow> string" where
  "identity_detail origin =
     ''The agent is asking for your public key and address at '' @ origin @
     ''. Anything it is given can be matched against what it collects for other sites.''"

definition identity_for :: "('h, 'v, 'm, 'u) shell \<Rightarrow> string \<Rightarrow> world \<Rightarrow> world \<times> shell_response" where
  "identity_for V origin w =
     (case validated_origin (sh_crates V) origin of
        Inl _ \<Rightarrow> (w, ShError)
      | Inr origin \<Rightarrow>
          if \<not> pr_interactive (sh_prompter V) then (w, ShDeclined)
          else if \<not> pr_ask (sh_prompter V) IDENTITY_TITLE (identity_detail origin) then (w, ShDeclined)
          else (case keystore_call V (RqPublicIdentity origin) w of
                  (w, Inr (RsIdentity public address)) \<Rightarrow> (w, ShIdentity public address)
                | (w, _) \<Rightarrow> (w, ShError)))"

fun shell_handle :: "('h, 'v, 'm, 'u) shell \<Rightarrow> shell_request \<Rightarrow> world \<Rightarrow> world \<times> shell_response" where
  "shell_handle V (RequestSignature origin p description payload) w = shell_sign V origin p description payload w"
| "shell_handle V (IdentityFor origin) w = identity_for V origin w"
| "shell_handle V (AskUser title detail) w =
     (if \<not> pr_interactive (sh_prompter V) then (w, ShDeclined)
      else (w, ShConfirmed (pr_ask (sh_prompter V) title detail)))"
| "shell_handle V Ping w = (w, ShPong)"

text \<open>
  The terminal's answer, \<open>read_yes_no\<close> of \<open>prompt.rs\<close>: the lines typed are read until one is
  an answer; the end of input, an error, or no terminal is a no.
\<close>

fun read_yes_no :: "string option list \<Rightarrow> bool" where
  "read_yes_no [] = False"
| "read_yes_no (None # ls) = False"
| "read_yes_no (Some l # ls) =
     (let a = to_lower (trim l)
      in if a = ''y'' \<or> a = ''yes'' then True
         else if a = [] \<or> a = ''n'' \<or> a = ''no'' then False
         else read_yes_no ls)"

definition terminal_asks :: "bool \<Rightarrow> string option list \<Rightarrow> bool" where
  "terminal_asks is_terminal ls \<longleftrightarrow> is_terminal \<and> read_yes_no ls"

definition non_interactive :: prompter where
  "non_interactive = \<lparr> pr_interactive = False, pr_sign = (\<lambda>_. False), pr_ask = (\<lambda>_ _. False), pr_passphrase = None \<rparr>"

subsection \<open>\<open>syndeo sign\<close>\<close>

datatype consent = Prompted | Typed

datatype session_event = Started | Stopped

definition unseal_session :: "('h, 'v, 'm, 'u) shell \<Rightarrow> world \<Rightarrow> world \<times> (unit + unit)" where
  "unseal_session V w =
     (case call_once V RqStatus w of
        (w, Inr (RsStatus st)) \<Rightarrow>
          if \<not> st_initialized st then (w, Inl ())
          else if st_passphrase_required st
          then (case pr_passphrase (sh_prompter V) of
                  None \<Rightarrow> (w, Inl ())
                | Some p \<Rightarrow> send_passphrase V (Some p) w)
          else send_passphrase V None w
      | (w, _) \<Rightarrow> (w, Inl ()))"

text \<open>
  Opening a session starts a keystore, which may fail, and unseals it; when either fails, what
  was started is stopped before the error is returned.
\<close>

definition open_session ::
    "('h, 'v, 'm, 'u) shell \<Rightarrow> bool \<Rightarrow> world \<Rightarrow> (world \<times> session_event list) \<times> bool" where
  "open_session V starts w =
     (if \<not> starts then ((w, [Stopped]), False)
      else case unseal_session V w of
          (w, Inl _) \<Rightarrow> ((w, [Started, Stopped]), False)
        | (w, Inr _) \<Rightarrow> ((w, [Started]), True))"

record signed_message =
  sm_origin :: string
  sm_address :: string
  sm_public_key :: string
  sm_signature :: string

definition sign_with ::
    "('h, 'v, 'm, 'u) shell \<Rightarrow> string \<Rightarrow> string \<Rightarrow> purpose \<Rightarrow> consent \<Rightarrow> bool \<Rightarrow> world
      \<Rightarrow> (world \<times> session_event list) \<times> signed_message option" where
  "sign_with V origin message p consent starts w =
     (case request_new (sh_crates V) origin p message message of
        Inl _ \<Rightarrow> ((w, []), None)
      | Inr r \<Rightarrow>
          (case open_session V starts w of
             ((w, es), False) \<Rightarrow> ((w, es), None)
           | ((w, es), True) \<Rightarrow>
               (case (case consent of Prompted \<Rightarrow> sign_request V r w | Typed \<Rightarrow> shell_sign_confirmed V r w) of
                  (w, response) \<Rightarrow>
                    ((w, es @ [Stopped]),
                     (case response of
                        ShSigned signature public address \<Rightarrow>
                          Some \<lparr> sm_origin = sr_origin r, sm_address = address, sm_public_key = public,
                                 sm_signature = signature \<rparr>
                      | _ \<Rightarrow> None)))))"

fun parse_purpose :: "string \<Rightarrow> purpose option" where
  "parse_purpose s =
     (if s = ''login'' then Some OriginLogin
      else if s = ''transaction'' then Some ChainTransaction
      else if s = ''attestation'' then Some Attestation
      else None)"

subsection \<open>What a call changes\<close>

lemma call_once_answer:
  "call_once V rq (sk, n) = (w', Inr response) \<Longrightarrow>
     handle_request (sh_env V) (sh_clock V n) rq sk = (fst w', response) \<and> snd w' = n + 1"
  by (auto simp: call_once_def Let_def split: prod.splits link.splits)

lemma call_once_confirmer:
  "rq = RqStatus \<or> rq = RqUnseal p \<Longrightarrow> call_once V rq w = (w', r) \<Longrightarrow> snd (fst w') = snd (fst w) \<and> snd w' = snd w + 1"
  by (auto simp: call_once_def Let_def split: prod.splits link.splits sum.splits)

lemma send_passphrase_confirmer:
  "send_passphrase V p w = (w', r) \<Longrightarrow> snd (fst w') = snd (fst w) \<and> snd w \<le> snd w'"
  using call_once_confirmer [of "RqUnseal p" p V w]
  by (auto simp: send_passphrase_def split: prod.splits sum.splits keystore_response.splits)

lemma unseal_now_confirmer:
  assumes "unseal_now V w = (w', r)"
  shows "snd (fst w') = snd (fst w) \<and> snd w \<le> snd w'"
proof -
  obtain w1 r1 where c: "call_once V RqStatus w = (w1, r1)" by fastforce
  have "snd (fst w1) = snd (fst w)" "snd w1 = snd w + 1" using call_once_confirmer [OF _ c] by auto
  then show ?thesis using assms c send_passphrase_confirmer [of V _ w1 w' r]
    by (auto simp: unseal_now_def split: sum.splits keystore_response.splits if_splits option.splits) fastforce+
qed

text \<open>A clock that does not go back from one call to the next.\<close>

definition clock_ok :: "('h, 'v, 'm, 'u) shell \<Rightarrow> bool" where
  "clock_ok V \<longleftrightarrow> (\<forall>i j. i \<le> j \<longrightarrow> t_unix (sh_clock V i) \<le> t_unix (sh_clock V j))"

lemma locked_remembers:
  "handle_request E t (RqSignConfirmed c b) sk = (sk', RsLocked) \<Longrightarrow> remembers (t_unix t) (snd sk') c"
  by (auto simp: sign_confirmed_def refuse_def Let_def verify_accepts remembers_def
      split: prod.splits sum.splits option.splits if_splits)

lemma remembered_refused:
  assumes "remembers t (snd sk) c" "t \<le> t_unix t'"
  shows "snd (handle_request E t' (RqSignConfirmed c b) sk) = RsError"
proof -
  obtain k2 q where v: "verify_confirmation (e_externs E) (e_hmac E) (t_unix t') c b (snd sk) = (k2, q)" by fastforce
  then obtain e where "q = Inl e" using remembered_not_accepted [OF assms] by (cases q) auto
  then show ?thesis using v by (simp add: sign_confirmed_def refuse_def Let_def)
qed

text \<open>A signature the keystore gives, it gives to the first call.\<close>

lemma keystore_call_signs:
  assumes "clock_ok V" and "keystore_call V (RqSignConfirmed c b) (sk, n) = (w', Inr (RsSignature x y z))"
  shows "handle_request (sh_env V) (sh_clock V n) (RqSignConfirmed c b) sk = (fst w', RsSignature x y z)"
proof -
  obtain w1 r1 where c1: "call_once V (RqSignConfirmed c b) (sk, n) = (w1, r1)" by fastforce
  show ?thesis
  proof (cases "r1 = Inr RsLocked")
    case True
    then have h: "handle_request (sh_env V) (sh_clock V n) (RqSignConfirmed c b) sk = (fst w1, RsLocked)" "snd w1 = n + 1"
      using call_once_answer [OF c1 [unfolded True]] by simp_all
    obtain w2 r2 where u: "unseal_now V w1 = (w2, r2)" by fastforce
    obtain w3 r3 where c3: "call_once V (RqSignConfirmed c b) w2 = (w3, r3)" by fastforce
    have "remembers (t_unix (sh_clock V n)) (snd (fst w2)) c"
      using locked_remembers [OF h(1)] unseal_now_confirmer [OF u] by simp
    moreover have "t_unix (sh_clock V n) \<le> t_unix (sh_clock V (snd w2))"
      using assms(1) unseal_now_confirmer [OF u] h(2) by (simp add: clock_ok_def)
    ultimately have "snd (handle_request (sh_env V) (sh_clock V (snd w2)) (RqSignConfirmed c b) (fst w2)) = RsError"
      by (rule remembered_refused)
    then have "r3 \<noteq> Inr (RsSignature x y z)" using c3 by (auto simp: call_once_def Let_def split: prod.splits link.splits)
    then show ?thesis using assms(2) c1 True u c3
      by (auto simp: keystore_call_def split: if_splits sum.splits keystore_response.splits)
  next
    case False
    then have "w1 = w'" "r1 = Inr (RsSignature x y z)" using assms(2) c1
      by (auto simp: keystore_call_def split: sum.splits keystore_response.splits)
    then show ?thesis using call_once_answer [of V _ sk n w'] c1 by blast
  qed
qed

lemma mint_fields [simp]:
  "cf_origin (mint V r w) = sr_origin r" "cf_purpose (mint V r w) = sr_purpose r"
  by (simp_all add: mint_def issue_def Let_def)

lemma shell_signs:
  assumes "clock_ok V" and "shell_sign_confirmed V r ((s, k), n) = (w', ShSigned signature public address)"
  shows "\<exists>master. ks_master s = Some master
    \<and> session_expired (t_reading (sh_clock V n)) (t_screen (sh_clock V n)) (ks_watch s) = None
    \<and> signature = hex_encode (e_externs (sh_env V)) (key_sign (e_keys (sh_env V))
        (origin_key (e_externs (sh_env V)) (e_keys (sh_env V)) master (sr_origin r)) (sr_payload r))"
proof -
  have "keystore_call V (RqSignConfirmed (mint V r ((s, k), n)) (sr_payload r)) ((s, k), n) = (w', Inr (RsSignature signature public address))"
    using assms(2) by (auto simp: shell_sign_confirmed_def split: prod.splits sum.splits keystore_response.splits)
  from keystore_call_signs [OF assms(1) this]
  have h: "handle_request (sh_env V) (sh_clock V n) (RqSignConfirmed (mint V r ((s, k), n)) (sr_payload r)) (s, k)
      = ((fst (fst w'), snd (fst w')), RsSignature signature public address)" by simp
  show ?thesis using signature_needs [OF h] by auto
qed

subsection \<open>What the person agreed to\<close>

text \<open>
  C14: The agent gets a signature only of what a person saw and agreed to. When its request is
  answered with a signature, the request passed every check, a person was there and approved
  exactly this request, and the signature is the keystore's, in a session that was open, over
  exactly the payload sent, with the key of the origin on screen - which is the key of the
  origin as the agent wrote it.
\<close>

theorem agent_signature_is_consented:
  assumes "url_ok (sh_crates V)" and "clock_ok V"
    and "shell_handle V (RequestSignature origin p description payload) ((s, k), n) = (w', ShSigned signature public address)"
  shows "\<exists>r master. request_new (sh_crates V) origin p description payload = Inr r
    \<and> pr_interactive (sh_prompter V) \<and> pr_sign (sh_prompter V) r
    \<and> ks_master s = Some master
    \<and> session_expired (t_reading (sh_clock V n)) (t_screen (sh_clock V n)) (ks_watch s) = None
    \<and> signature = hex_encode (e_externs (sh_env V)) (key_sign (e_keys (sh_env V))
        (origin_key (e_externs (sh_env V)) (e_keys (sh_env V)) master (sr_origin r)) payload)
    \<and> sr_origin r = canonical_origin origin"
proof -
  obtain r where r: "request_new (sh_crates V) origin p description payload = Inr r"
      "pr_interactive (sh_prompter V)" "pr_sign (sh_prompter V) r"
      "shell_sign_confirmed V r ((s, k), n) = (w', ShSigned signature public address)"
    using assms(3) by (auto simp: shell_sign_def sign_request_def split: sum.splits if_splits)
  have "sr_payload r = payload" "validated_origin (sh_crates V) origin = Inr (sr_origin r)"
    using request_new_parts [OF r(1)] by auto
  then show ?thesis using r shell_signs [OF assms(2) r(4)] canonical_of_validated [OF assms(1)] by auto
qed

text \<open>
  C15: Without consent the keystore is not touched. A request that fails the checks, a run with
  nobody to ask, and a person who says no are answered without a signature, or without an
  identity, and the keystore hears nothing of it.
\<close>

theorem without_consent_keystore_untouched:
  "((\<nexists>r. request_new (sh_crates V) origin p description payload = Inr r
        \<and> pr_interactive (sh_prompter V) \<and> pr_sign (sh_prompter V) r) \<longrightarrow>
      shell_handle V (RequestSignature origin p description payload) w = (w, ShDeclined))
   \<and> ((\<nexists>c. validated_origin (sh_crates V) origin = Inr c
        \<and> pr_interactive (sh_prompter V) \<and> pr_ask (sh_prompter V) IDENTITY_TITLE (identity_detail c)) \<longrightarrow>
      fst (shell_handle V (IdentityFor origin) w) = w
      \<and> snd (shell_handle V (IdentityFor origin) w) \<in> {ShError, ShDeclined})"
  by (auto simp: shell_sign_def sign_request_def identity_for_def split: sum.splits)


text \<open>A confirmation the shell mints, the keystore with the same secret takes for two minutes.\<close>

lemma issue_accepted:
  assumes "hex_decode_ok X" "cr_secret k = cr_secret k'" "now \<le> now'" "now' \<le> now + CONFIRMATION_TTL"
  shows "check_confirmation X hm k' now' (issue X hm k now nonce origin p description payload) payload = None"
  using assms by (simp add: check_confirmation_def issue_def signing_input_def signed_parts_def hex_decode_ok_def Let_def)

lemma approved_signs:
  assumes "hex_decode_ok (e_externs (sh_env V))"
    and r: "request_new (sh_crates V) origin p description payload = Inr r"
    and "pr_interactive (sh_prompter V)" and "pr_sign (sh_prompter V) r"
    and "ks_master s = Some master"
    and "session_expired (t_reading (sh_clock V n)) (t_screen (sh_clock V n)) (ks_watch s) = None"
    and "sh_link V n = Delivered" and "cr_secret (sh_confirmer V) = cr_secret k"
    and "hex_encode (e_externs (sh_env V)) (sh_nonce V) \<notin> fst ` set (cr_consumed k)"
    and "length (cr_consumed k) < cr_capacity k"
  shows "snd (shell_handle V (RequestSignature origin p description payload) ((s, k), n)) =
    (let X = e_externs (sh_env V); K = e_keys (sh_env V); key = origin_key X K master (sr_origin r)
     in ShSigned (hex_encode X (key_sign K key payload)) (hex_encode X (key_public K key))
          (address_to_base58 X K (key_address X K key)))"
proof -
  let ?X = "e_externs (sh_env V)" let ?t = "sh_clock V n" let ?c = "mint V r ((s, k), n)"
  let ?kept = "filter (\<lambda>x. t_unix ?t \<le> snd x) (cr_consumed k)"
  have payload: "sr_payload r = payload" using request_new_parts [OF r] by simp
  have "check_confirmation ?X (e_hmac (sh_env V)) k (t_unix ?t) ?c payload = None"
    using issue_accepted [OF assms(1,8), of "t_unix ?t" "t_unix ?t"] by (simp add: mint_def payload)
  moreover have "cf_nonce ?c = hex_encode ?X (sh_nonce V)" by (simp add: mint_def issue_def Let_def)
  moreover have "length ?kept < cr_capacity k" using assms(10) by (meson length_filter_le less_le_trans not_le)
  ultimately have v: "verify_confirmation ?X (e_hmac (sh_env V)) (t_unix ?t) ?c payload k
      = (k\<lparr>cr_consumed := (cf_nonce ?c, cf_expires_at ?c) # ?kept\<rparr>, Inr ())"
    using assms(9) by (auto simp: verify_accepts)
  have l: "lock_if_expired ?t s = (s, None)" using assms(5,6) by (simp add: lock_if_expired_def)
  show ?thesis using r assms(3,4,5,7) v l
    by (simp add: shell_sign_def sign_request_def shell_sign_confirmed_def keystore_call_def call_once_def payload
        sign_confirmed_def Let_def)
qed

text \<open>
  C16: An approved request is signed. When a valid request is approved by a person, the
  keystore is unsealed and its session has not ended, the call gets through, the shell and the
  keystore share the session's secret, the nonce is fresh and the keystore is not holding too
  many used confirmations, the agent is answered with the signature, the public key and the
  address of the origin's key.
\<close>

theorem approved_request_is_signed:
  assumes "hex_decode_ok (e_externs (sh_env V))"
    and r: "request_new (sh_crates V) origin p description payload = Inr r"
    and "pr_interactive (sh_prompter V)" and "pr_sign (sh_prompter V) r"
    and "ks_master s = Some master"
    and "session_expired (t_reading (sh_clock V n)) (t_screen (sh_clock V n)) (ks_watch s) = None"
    and "sh_link V n = Delivered" and "cr_secret (sh_confirmer V) = cr_secret k"
    and "hex_encode (e_externs (sh_env V)) (sh_nonce V) \<notin> fst ` set (cr_consumed k)"
    and "length (cr_consumed k) < cr_capacity k"
  shows "snd (shell_handle V (RequestSignature origin p description payload) ((s, k), n)) =
    (let X = e_externs (sh_env V); K = e_keys (sh_env V); key = origin_key X K master (sr_origin r)
     in ShSigned (hex_encode X (key_sign K key payload)) (hex_encode X (key_public K key))
          (address_to_base58 X K (key_address X K key)))"
  by (rule approved_signs [OF assms])

text \<open>
  \<open>syndeo sign\<close> starts nothing for a request that does not pass, stops what it starts on every
  way out, and gives a signature only of a request that was approved or typed.
\<close>

lemma sign_with_stops:
  assumes "sign_with V origin message p consent starts w = ((w', es), result)"
  shows "es = (case request_new (sh_crates V) origin p message message of
      Inl _ \<Rightarrow> [] | Inr _ \<Rightarrow> if starts then [Started, Stopped] else [Stopped])"
    and "result = Some m \<Longrightarrow> \<exists>r. request_new (sh_crates V) origin p message message = Inr r \<and> sm_origin m = sr_origin r
      \<and> (consent = Typed \<or> pr_interactive (sh_prompter V) \<and> pr_sign (sh_prompter V) r)"
  using assms by (auto simp: sign_with_def open_session_def sign_request_def
      split: sum.splits prod.splits if_splits bool.splits consent.splits shell_response.splits)

text \<open>
  Nobody is asked without a terminal, and an answer is a yes only when a line that says so
  comes before any line that says no.
\<close>

lemma terminal_asks_yes:
  "terminal_asks is_terminal ls \<longleftrightarrow>
     is_terminal \<and> (\<exists>a l b. ls = a @ Some l # b \<and> to_lower (trim l) \<in> {''y'', ''yes''}
       \<and> (\<forall>x\<in>set a. \<exists>y. x = Some y \<and> to_lower (trim y) \<notin> {''y'', ''yes'', [], ''n'', ''no''}))"
proof -
  have "read_yes_no ls \<longleftrightarrow> (\<exists>a l b. ls = a @ Some l # b \<and> to_lower (trim l) \<in> {''y'', ''yes''}
       \<and> (\<forall>x\<in>set a. \<exists>y. x = Some y \<and> to_lower (trim y) \<notin> {''y'', ''yes'', [], ''n'', ''no''}))" (is "_ = (\<exists>a l b. ?P ls a l b)")
  proof (induction ls rule: read_yes_no.induct)
    case (3 l ls)
    show ?case (is "?lhs = ?rhs")
    proof
      assume ?lhs
      show ?rhs
      proof (cases "to_lower (trim l) \<in> {''y'', ''yes''}")
        case True
        then have "?P (Some l # ls) [] l ls" by simp
        then show ?thesis by blast
      next
        case False
        then have n: "to_lower (trim l) \<notin> {''y'', ''yes'', [], ''n'', ''no''}" "read_yes_no ls"
          using \<open>?lhs\<close> by (auto simp: Let_def split: if_splits)
        then obtain a m b where "?P ls a m b" using 3 by (auto simp: Let_def)
        then have "?P (Some l # ls) (Some l # a) m b" using n by auto
        then show ?thesis by blast
      qed
    next
      assume ?rhs
      then obtain a m b where p: "?P (Some l # ls) a m b" by blast
      then show ?lhs
      proof (cases a)
        case (Cons x a')
        then have "?P ls a' m b" "to_lower (trim l) \<notin> {''y'', ''yes'', [], ''n'', ''no''}" using p by auto
        then show ?thesis using 3 by (auto simp: Let_def)
      qed (auto simp: Let_def)
    qed
  qed (auto simp: Cons_eq_append_conv)
  then show ?thesis by (simp add: terminal_asks_def)
qed

subsection \<open>On the instance\<close>

definition demo_prompter :: prompter where
  "demo_prompter = \<lparr> pr_interactive = True, pr_sign = (\<lambda>_. True), pr_ask = (\<lambda>_ _. True), pr_passphrase = Some ''pw'' \<rparr>"

definition demo_sh :: "((string \<times> bytes) list, string, bytes, string \<times> string \<times> nat option) shell" where
  "demo_sh = \<lparr> sh_env = demo_env, sh_crates = demo_shell, sh_confirmer = confirmer_new ''k'', sh_prompter = demo_prompter,
     sh_clock = (\<lambda>n. demo_moment (101 + n)), sh_link = (\<lambda>_. Delivered), sh_nonce = ''n'' \<rparr>"

lemma demo_sh_parts [simp]:
  "sh_env demo_sh = demo_env" "sh_crates demo_sh = demo_shell" "sh_confirmer demo_sh = confirmer_new ''k''"
  "sh_prompter demo_sh = demo_prompter" "sh_clock demo_sh n = demo_moment (101 + n)" "sh_link demo_sh n = Delivered"
  "sh_nonce demo_sh = ''n''" "pr_interactive demo_prompter" "pr_sign demo_prompter r"
  by (simp_all add: demo_sh_def demo_prompter_def)

lemma demo_clock_ok: "clock_ok demo_sh"
  by (simp add: clock_ok_def demo_moment_def)

lemma demo_session_open: "session_expired (t_reading (demo_moment 101)) (t_screen (demo_moment 101)) (ks_watch demo_open) = None"
  by (simp add: session_expired_def demo_open_def keystore_open_def watch_new_def demo_moment_def DEFAULT_IDLE_TIMEOUT_def
      sat_add_def u64_max_def SLEEP_SLACK_def Let_def)

lemma demo_master: "ks_master demo_open = Some \<lparr> ek_key = ''key'', ek_chain_code = ''chain'' \<rparr>"
  by (simp add: demo_open_def)

lemma demo_signed:
  "\<exists>x y z. snd (shell_handle demo_sh (RequestSignature ''HTTP://A:80/'' Attestation ''hi'' ''pay'')
      ((demo_open, confirmer_new ''k''), 0)) = ShSigned x y z"
  using approved_signs [of demo_sh "''HTTP://A:80/''" Attestation "''hi''" "''pay''" demo_request demo_open _ 0 "confirmer_new ''k''"]
    demo_hex_decode_ok demo_requested demo_master demo_session_open
  by (simp add: confirmer_new_def MAX_OUTSTANDING_def Let_def)

theorem approved_request_is_signed_witness:
  "\<exists>x y z. snd (shell_handle demo_sh (RequestSignature ''HTTP://A:80/'' Attestation ''hi'' ''pay'')
      ((demo_open, confirmer_new ''k''), 0)) = ShSigned x y z"
  using approved_request_is_signed [of demo_sh "''HTTP://A:80/''" Attestation "''hi''" "''pay''" demo_request demo_open _ 0 "confirmer_new ''k''"]
    demo_hex_decode_ok demo_requested demo_master demo_session_open
  by (simp add: confirmer_new_def MAX_OUTSTANDING_def Let_def)

theorem agent_signature_is_consented_witness:
  "\<exists>w x y z r. shell_handle demo_sh (RequestSignature ''HTTP://A:80/'' Attestation ''hi'' ''pay'')
      ((demo_open, confirmer_new ''k''), 0) = (w, ShSigned x y z)
    \<and> request_new demo_shell ''HTTP://A:80/'' Attestation ''hi'' ''pay'' = Inr r
    \<and> sr_origin r = canonical_origin ''HTTP://A:80/''"
proof -
  obtain w x y z where h: "shell_handle demo_sh (RequestSignature ''HTTP://A:80/'' Attestation ''hi'' ''pay'')
      ((demo_open, confirmer_new ''k''), 0) = (w, ShSigned x y z)"
    using demo_signed by (metis prod.collapse)
  show ?thesis using agent_signature_is_consented [OF _ demo_clock_ok h] h demo_url_ok by auto
qed

theorem without_consent_keystore_untouched_witness:
  "shell_handle (demo_sh\<lparr>sh_prompter := non_interactive\<rparr>) (RequestSignature ''HTTP://A:80/'' Attestation ''hi'' ''pay'') ((demo_open, confirmer_new ''k''), 0) =
      (((demo_open, confirmer_new ''k''), 0), ShDeclined)"
  using without_consent_keystore_untouched [of "demo_sh\<lparr>sh_prompter := non_interactive\<rparr>" "''HTTP://A:80/''" Attestation "''hi''" "''pay''"
    "((demo_open, confirmer_new ''k''), 0)"]
  by (simp add: non_interactive_def)


end
