(* ===== verification/Reach.thy ===== *)
theory Reach
  imports Prelude "HOL-Library.Word"
begin

unbundle bit_operations_syntax

text \<open>
  Whether an address is on the public internet: \<open>crates/syndeo-net/src/reach.rs\<close>. An IPv4
  address is its 32 bits, an IPv6 address its 128.
\<close>

datatype ip_addr = V4 "32 word" | V6 "128 word"

definition v4_of :: "nat \<Rightarrow> nat \<Rightarrow> nat \<Rightarrow> nat \<Rightarrow> 32 word" where
  "v4_of a b c d = of_nat (((a * 256 + b) * 256 + c) * 256 + d)"

definition v6_of :: "nat list \<Rightarrow> 128 word" where
  "v6_of segments = of_nat (foldl (\<lambda>n s. n * 65536 + s) 0 segments)"

definition NOT_PUBLIC_V4 :: "(32 word \<times> nat) list" where
  "NOT_PUBLIC_V4 =
     [(v4_of 0 0 0 0, 8), (v4_of 10 0 0 0, 8), (v4_of 100 64 0 0, 10), (v4_of 127 0 0 0, 8),
      (v4_of 169 254 0 0, 16), (v4_of 172 16 0 0, 12), (v4_of 192 0 0 0, 24), (v4_of 192 0 2 0, 24),
      (v4_of 192 88 99 0, 24), (v4_of 192 168 0 0, 16), (v4_of 198 18 0 0, 15), (v4_of 198 51 100 0, 24),
      (v4_of 203 0 113 0, 24), (v4_of 224 0 0 0, 4), (v4_of 240 0 0 0, 4), (v4_of 255 255 255 255, 32)]"

text \<open>\<open>checked_shl\<close> is \<open>None\<close> for a shift by the width or more; a shift drops the high bits.\<close>

definition prefix_mask :: "nat \<Rightarrow> 'w::len word" where
  "prefix_mask bits = (let by = LENGTH('w) - bits in if by < LENGTH('w) then push_bit by (- 1) else 0)"

definition in_v4 :: "32 word \<Rightarrow> 32 word \<times> nat \<Rightarrow> bool" where
  "in_v4 ip block \<longleftrightarrow> ip AND prefix_mask (snd block) = fst block AND prefix_mask (snd block)"

definition is_public_v4 :: "32 word \<Rightarrow> bool" where
  "is_public_v4 ip \<longleftrightarrow> \<not> (\<exists>block\<in>set NOT_PUBLIC_V4. in_v4 ip block)"

definition in_v6 :: "128 word \<Rightarrow> 128 word \<Rightarrow> nat \<Rightarrow> bool" where
  "in_v6 ip network bits \<longleftrightarrow> ip AND prefix_mask bits = network AND prefix_mask bits"

definition NOT_PUBLIC_IN_GLOBAL_V6 :: "(128 word \<times> nat) list" where
  "NOT_PUBLIC_IN_GLOBAL_V6 =
     [(v6_of [0x2001, 0, 0, 0, 0, 0, 0, 0], 23), (v6_of [0x2001, 0xdb8, 0, 0, 0, 0, 0, 0], 32),
      (v6_of [0x2002, 0, 0, 0, 0, 0, 0, 0], 16), (v6_of [0x3fff, 0, 0, 0, 0, 0, 0, 0], 20)]"

text \<open>The last four octets of the address: its low 32 bits.\<close>

definition embedded_v4 :: "128 word \<Rightarrow> 32 word" where
  "embedded_v4 ip = ucast ip"

definition is_public_v6 :: "128 word \<Rightarrow> bool" where
  "is_public_v6 ip \<longleftrightarrow>
     (if in_v6 ip (v6_of [0, 0, 0, 0, 0, 0xffff, 0, 0]) 96 \<or> in_v6 ip (v6_of [0x64, 0xff9b, 0, 0, 0, 0, 0, 0]) 96
      then is_public_v4 (embedded_v4 ip)
      else in_v6 ip (v6_of [0x2000, 0, 0, 0, 0, 0, 0, 0]) 3
        \<and> \<not> (\<exists>block\<in>set NOT_PUBLIC_IN_GLOBAL_V6. in_v6 ip (fst block) (snd block)))"

fun is_public :: "ip_addr \<Rightarrow> bool" where
  "is_public (V4 ip) = is_public_v4 ip"
| "is_public (V6 ip) = is_public_v6 ip"

subsection \<open>Blocks as intervals\<close>

lemma prefix_mask_mask: "bits \<le> LENGTH('w::len) \<Longrightarrow> 0 < bits \<Longrightarrow> (prefix_mask bits :: 'w word) = NOT (mask (LENGTH('w) - bits))"
  by (auto simp: prefix_mask_def Let_def bit_simps intro!: bit_word_eqI)

lemma and_not_mask: "(a AND NOT (mask n) = b AND NOT (mask n)) \<longleftrightarrow> drop_bit n a = drop_bit n (b :: 'w::len word)"
proof
  assume "a AND NOT (mask n) = b AND NOT (mask n)"
  then have "drop_bit n (a AND NOT (mask n)) = drop_bit n (b AND NOT (mask n))" by simp
  then show "drop_bit n a = drop_bit n b" by (auto simp: bit_eq_iff bit_simps dest: bit_imp_le_length)
next
  assume "drop_bit n a = drop_bit n b"
  then have e: "bit (drop_bit n a) i = bit (drop_bit n b) i" for i by simp
  show "a AND NOT (mask n) = b AND NOT (mask n)"
  proof (rule bit_word_eqI)
    fix i show "bit (a AND NOT (mask n)) i = bit (b AND NOT (mask n)) i"
      using e [of "i - n"] by (cases "i < n") (auto simp: bit_simps)
  qed
qed

lemma in_block:
  assumes "0 < bits" "bits \<le> LENGTH('w::len)"
  shows "(ip AND prefix_mask bits = net AND prefix_mask bits) \<longleftrightarrow>
    unat (ip :: 'w word) div 2 ^ (LENGTH('w) - bits) = unat net div 2 ^ (LENGTH('w) - bits)"
proof -
  have "(ip AND prefix_mask bits = net AND prefix_mask bits) \<longleftrightarrow>
      drop_bit (LENGTH('w) - bits) ip = drop_bit (LENGTH('w) - bits) net"
    using assms by (simp add: prefix_mask_mask and_not_mask)
  also have "\<dots> \<longleftrightarrow> unat (drop_bit (LENGTH('w) - bits) ip) = unat (drop_bit (LENGTH('w) - bits) net)"
    by (rule word_unat_eq_iff)
  finally show ?thesis unfolding unat_drop_bit_eq drop_bit_eq_div [where 'a = nat] .
qed

lemma unat_v4_of:
  assumes "a < 256" "b < 256" "c < 256" "d < 256"
  shows "unat (v4_of a b c d) = ((a * 256 + b) * 256 + c) * 256 + d"
  unfolding v4_of_def unat_of_nat using assms by (intro mod_less) simp

text \<open>The octets of an address, read off its number.\<close>

lemma octets_div:
  assumes "b < 256" "c < 256" "d < 256"
  shows "(((a * 256 + b) * 256 + c) * 256 + d) div 2 ^ 24 = (a :: nat)"
    "(((a * 256 + b) * 256 + c) * 256 + d) div 2 ^ 16 = a * 256 + b"
    "(((a * 256 + b) * 256 + c) * 256 + d) div 2 ^ 8 = (a * 256 + b) * 256 + c"
    "(((a * 256 + b) * 256 + c) * 256 + d) div 2 ^ 22 = (a * 256 + b) div 64"
    "(((a * 256 + b) * 256 + c) * 256 + d) div 2 ^ 20 = (a * 256 + b) div 16"
    "(((a * 256 + b) * 256 + c) * 256 + d) div 2 ^ 17 = (a * 256 + b) div 2"
    "(((a * 256 + b) * 256 + c) * 256 + d) div 2 ^ 28 = a div 16"
proof -
  have s: "(x * 256 + y) div (256 * k) = x div k" if "y < 256" for x y k :: nat
    using that by (simp add: div_mult2_eq)
  have n8: "(((a * 256 + b) * 256 + c) * 256 + d) div (256 * k) = ((a * 256 + b) * 256 + c) div k" for k by (rule s [OF assms(3)])
  have n16: "(((a * 256 + b) * 256 + c) * 256 + d) div (256 * (256 * k)) = (a * 256 + b) div k" for k
    by (simp only: n8 s [OF assms(2)])
  have n24: "(((a * 256 + b) * 256 + c) * 256 + d) div (256 * (256 * (256 * k))) = a div k" for k
    by (simp only: n16 s [OF assms(1)])
  show "(((a * 256 + b) * 256 + c) * 256 + d) div 2 ^ 24 = a" using n24 [of 1] by simp
  show "(((a * 256 + b) * 256 + c) * 256 + d) div 2 ^ 16 = a * 256 + b" using n16 [of 1] by simp
  show "(((a * 256 + b) * 256 + c) * 256 + d) div 2 ^ 8 = (a * 256 + b) * 256 + c" using n8 [of 1] by simp
  show "(((a * 256 + b) * 256 + c) * 256 + d) div 2 ^ 22 = (a * 256 + b) div 64" using n16 [of 64] by simp
  show "(((a * 256 + b) * 256 + c) * 256 + d) div 2 ^ 20 = (a * 256 + b) div 16" using n16 [of 16] by simp
  show "(((a * 256 + b) * 256 + c) * 256 + d) div 2 ^ 17 = (a * 256 + b) div 2" using n16 [of 2] by simp
  show "(((a * 256 + b) * 256 + c) * 256 + d) div 2 ^ 28 = a div 16" using n24 [of 16] by simp
qed

lemma pair_inject: "y < m \<Longrightarrow> y' < m \<Longrightarrow> x * m + y = x' * m + y' \<longleftrightarrow> x = x' \<and> y = (y' :: nat)"
proof -
  assume "y < m" "y' < m"
  then have "(x * m + y) div m = x" "(x * m + y) mod m = y" "(x' * m + y') div m = x'" "(x' * m + y') mod m = y'" by simp_all
  then show ?thesis by metis
qed

lemmas pair256 = pair_inject [where m = 256]

lemma pair_div_base:
  assumes "y < base" "y' < base" "base = m * k" "0 < k"
  shows "(x * base + y) div k = (x' * base + y') div k \<longleftrightarrow> x = x' \<and> y div k = (y' div k :: nat)"
proof -
  have "(x * (m * k) + y) div k = x * m + y div k" for x y
  proof -
    have "x * (m * k) + y = y + (x * m) * k" by simp
    then show ?thesis using assms(4) by (simp only: div_mult_self1 [of k y "x * m"])
  qed
  moreover have "y div k < m" "y' div k < m" using assms by (auto simp: less_mult_imp_div_less)
  ultimately show ?thesis using pair_inject [of "y div k" m "y' div k" x x'] assms(3) by simp
qed

lemmas pair_div = pair_div_base [where base = 256]

lemma div_between: "n div numeral k = q \<longleftrightarrow> q * numeral k \<le> n \<and> n < (q + 1) * numeral k" for n q :: nat
proof
  assume "n div numeral k = q"
  then show "q * numeral k \<le> n \<and> n < (q + 1) * numeral k"
    using dividend_less_div_times [of "numeral k" n] by auto
qed (auto intro!: div_nat_eqI simp: mult.commute)

lemma in_v4_octets:
  assumes "a < 256" "b < 256" "c < 256" "d < 256" "a' < 256" "b' < 256" "c' < 256" "d' < 256" "0 < bits" "bits \<le> 32"
  shows "in_v4 (v4_of a b c d) (v4_of a' b' c' d', bits) \<longleftrightarrow>
    (((a * 256 + b) * 256 + c) * 256 + d) div 2 ^ (32 - bits) = (((a' * 256 + b') * 256 + c') * 256 + d') div 2 ^ (32 - bits)"
  using in_block [where 'w = 32, of bits "v4_of a b c d" "v4_of a' b' c' d'"] assms by (simp add: in_v4_def unat_v4_of)

lemma in_v4_prefix:
  assumes "a < 256" "b < 256" "c < 256" "d < 256" "a' < 256" "b' < 256" "c' < 256" "d' < 256"
  shows "in_v4 (v4_of a b c d) (v4_of a' b' c' d', 4) \<longleftrightarrow> a div 16 = a' div 16"
    "in_v4 (v4_of a b c d) (v4_of a' b' c' d', 8) \<longleftrightarrow> a = a'"
    "in_v4 (v4_of a b c d) (v4_of a' b' c' d', 10) \<longleftrightarrow> a = a' \<and> b div 64 = b' div 64"
    "in_v4 (v4_of a b c d) (v4_of a' b' c' d', 12) \<longleftrightarrow> a = a' \<and> b div 16 = b' div 16"
    "in_v4 (v4_of a b c d) (v4_of a' b' c' d', 15) \<longleftrightarrow> a = a' \<and> b div 2 = b' div 2"
    "in_v4 (v4_of a b c d) (v4_of a' b' c' d', 16) \<longleftrightarrow> a = a' \<and> b = b'"
    "in_v4 (v4_of a b c d) (v4_of a' b' c' d', 24) \<longleftrightarrow> a = a' \<and> b = b' \<and> c = c'"
    "in_v4 (v4_of a b c d) (v4_of a' b' c' d', 32) \<longleftrightarrow> a = a' \<and> b = b' \<and> c = c' \<and> d = d'"
proof -
  note m = in_v4_octets [OF assms] and o = octets_div [OF assms(2-4), of a] octets_div [OF assms(6-8), of a']
  have e: "32 - 4 = (28 :: nat)" "32 - 8 = (24 :: nat)" "32 - 10 = (22 :: nat)" "32 - 12 = (20 :: nat)" "32 - 15 = (17 :: nat)"
    "32 - 16 = (16 :: nat)" "32 - 24 = (8 :: nat)" "32 - 32 = (0 :: nat)" by simp_all
  show "in_v4 (v4_of a b c d) (v4_of a' b' c' d', 4) \<longleftrightarrow> a div 16 = a' div 16"
    using m [of 4] unfolding e o by simp
  show "in_v4 (v4_of a b c d) (v4_of a' b' c' d', 8) \<longleftrightarrow> a = a'" using m [of 8] unfolding e o by simp
  show "in_v4 (v4_of a b c d) (v4_of a' b' c' d', 10) \<longleftrightarrow> a = a' \<and> b div 64 = b' div 64"
    using m [of 10] pair_div [OF assms(2,6), of 4 64 a a'] unfolding e o by simp
  show "in_v4 (v4_of a b c d) (v4_of a' b' c' d', 12) \<longleftrightarrow> a = a' \<and> b div 16 = b' div 16"
    using m [of 12] pair_div [OF assms(2,6), of 16 16 a a'] unfolding e o by simp
  show "in_v4 (v4_of a b c d) (v4_of a' b' c' d', 15) \<longleftrightarrow> a = a' \<and> b div 2 = b' div 2"
    using m [of 15] pair_div [OF assms(2,6), of 128 2 a a'] unfolding e o by simp
  have two: "a * 256 + b = a' * 256 + b' \<longleftrightarrow> a = a' \<and> b = b'" by (rule pair256 [OF assms(2,6)])
  then show "in_v4 (v4_of a b c d) (v4_of a' b' c' d', 16) \<longleftrightarrow> a = a' \<and> b = b'" using m [of 16] unfolding e o by simp
  have three: "(a * 256 + b) * 256 + c = (a' * 256 + b') * 256 + c' \<longleftrightarrow> a = a' \<and> b = b' \<and> c = c'"
    unfolding pair256 [OF assms(3,7)] two by blast
  then show "in_v4 (v4_of a b c d) (v4_of a' b' c' d', 24) \<longleftrightarrow> a = a' \<and> b = b' \<and> c = c'" using m [of 24] unfolding e o by simp
  have "((a * 256 + b) * 256 + c) * 256 + d = ((a' * 256 + b') * 256 + c') * 256 + d' \<longleftrightarrow> a = a' \<and> b = b' \<and> c = c' \<and> d = d'"
    unfolding pair256 [OF assms(4,8)] three by blast
  then show "in_v4 (v4_of a b c d) (v4_of a' b' c' d', 32) \<longleftrightarrow> a = a' \<and> b = b' \<and> c = c' \<and> d = d'" using m [of 32] unfolding e by simp
qed

text \<open>
  An IPv4 address is public exactly when it lies outside the reserved blocks: by its
  octets, not 0, 10, 127 or 224 and above; not in 100.64/10, 169.254/16, 172.16/12, 192.0.0/24,
  192.0.2/24, 192.88.99/24, 192.168/16, 198.18/15, 198.51.100/24 or 203.0.113/24.
\<close>

lemma public_v4_by_octets:
  assumes "a < 256" "b < 256" "c < 256" "d < 256"
  shows "is_public (V4 (v4_of a b c d)) \<longleftrightarrow> \<not>
    (a = 0 \<or> a = 10 \<or> a = 127 \<or> 224 \<le> a
     \<or> a = 100 \<and> 64 \<le> b \<and> b < 128 \<or> a = 169 \<and> b = 254 \<or> a = 172 \<and> 16 \<le> b \<and> b < 32
     \<or> a = 192 \<and> b = 0 \<and> (c = 0 \<or> c = 2) \<or> a = 192 \<and> b = 88 \<and> c = 99 \<or> a = 192 \<and> b = 168
     \<or> a = 198 \<and> (b = 18 \<or> b = 19) \<or> a = 198 \<and> b = 51 \<and> c = 100 \<or> a = 203 \<and> b = 0 \<and> c = 113)"
proof -
  have r: "b div 64 = 1 \<longleftrightarrow> 64 \<le> b \<and> b < 128" "b div 16 = 1 \<longleftrightarrow> 16 \<le> b \<and> b < 32"
    "b div 2 = 9 \<longleftrightarrow> b = 18 \<or> b = 19" "a div 16 = 14 \<or> a div 16 = 15 \<longleftrightarrow> 224 \<le> a"
    using assms(1) by (auto simp: div_between)
  have l: "in_v4 (v4_of a b c d) (v4_of 255 255 255 255, 32) \<longrightarrow> 224 \<le> a" by (simp add: in_v4_prefix assms)
  have q: "a div 16 = 14 \<or> a div 16 = 15 \<or> in_v4 (v4_of a b c d) (v4_of 255 255 255 255, 32) \<longleftrightarrow> 224 \<le> a"
    using r(4) l by satx
  note p = in_v4_prefix [OF assms]
  have e: "in_v4 (v4_of a b c d) (v4_of 0 0 0 0, 8) \<longleftrightarrow> a = 0" "in_v4 (v4_of a b c d) (v4_of 10 0 0 0, 8) \<longleftrightarrow> a = 10"
    "in_v4 (v4_of a b c d) (v4_of 100 64 0 0, 10) \<longleftrightarrow> a = 100 \<and> b div 64 = 1"
    "in_v4 (v4_of a b c d) (v4_of 127 0 0 0, 8) \<longleftrightarrow> a = 127"
    "in_v4 (v4_of a b c d) (v4_of 169 254 0 0, 16) \<longleftrightarrow> a = 169 \<and> b = 254"
    "in_v4 (v4_of a b c d) (v4_of 172 16 0 0, 12) \<longleftrightarrow> a = 172 \<and> b div 16 = 1"
    "in_v4 (v4_of a b c d) (v4_of 192 0 0 0, 24) \<longleftrightarrow> a = 192 \<and> b = 0 \<and> c = 0"
    "in_v4 (v4_of a b c d) (v4_of 192 0 2 0, 24) \<longleftrightarrow> a = 192 \<and> b = 0 \<and> c = 2"
    "in_v4 (v4_of a b c d) (v4_of 192 88 99 0, 24) \<longleftrightarrow> a = 192 \<and> b = 88 \<and> c = 99"
    "in_v4 (v4_of a b c d) (v4_of 192 168 0 0, 16) \<longleftrightarrow> a = 192 \<and> b = 168"
    "in_v4 (v4_of a b c d) (v4_of 198 18 0 0, 15) \<longleftrightarrow> a = 198 \<and> b div 2 = 9"
    "in_v4 (v4_of a b c d) (v4_of 198 51 100 0, 24) \<longleftrightarrow> a = 198 \<and> b = 51 \<and> c = 100"
    "in_v4 (v4_of a b c d) (v4_of 203 0 113 0, 24) \<longleftrightarrow> a = 203 \<and> b = 0 \<and> c = 113"
    "in_v4 (v4_of a b c d) (v4_of 224 0 0 0, 4) \<longleftrightarrow> a div 16 = 14"
    "in_v4 (v4_of a b c d) (v4_of 240 0 0 0, 4) \<longleftrightarrow> a div 16 = 15"
    by (simp_all add: p)
  show ?thesis
    unfolding is_public.simps is_public_v4_def NOT_PUBLIC_V4_def list.set bex_simps e r(1-3) q simp_thms by satx
qed

subsection \<open>IPv6\<close>

definition from_segments :: "nat list \<Rightarrow> nat" where
  "from_segments ss = foldl (\<lambda>n s. n * 65536 + s) 0 ss"

lemma from_segments_div:
  "\<forall>x\<in>set t. x < 65536 \<Longrightarrow> from_segments (s @ t) div 65536 ^ length t = from_segments s"
proof (induction t rule: rev_induct)
  case (snoc x t)
  have "from_segments (s @ t @ [x]) = from_segments (s @ t) * 65536 + x" by (simp add: from_segments_def)
  then have "from_segments (s @ t @ [x]) div 65536 = from_segments (s @ t)" using snoc.prems by simp
  moreover have "from_segments (s @ t @ [x]) div 65536 ^ length (t @ [x]) = from_segments (s @ t @ [x]) div 65536 div 65536 ^ length t"
    by (simp add: div_mult2_eq)
  ultimately show ?case using snoc by simp
qed simp

lemma from_segments_less: "\<forall>x\<in>set t. x < 65536 \<Longrightarrow> from_segments t < 65536 ^ length t"
proof (induction t rule: rev_induct)
  case (snoc x t)
  then have "from_segments t + 1 \<le> 65536 ^ length t" by simp
  then have "(from_segments t + 1) * 65536 \<le> 65536 ^ length t * 65536" by (rule mult_le_mono1)
  moreover have "from_segments (t @ [x]) = from_segments t * 65536 + x" by (simp add: from_segments_def)
  ultimately show ?case using snoc.prems by simp
qed (simp add: from_segments_def)

lemma unat_v6_of: "length ss = 8 \<Longrightarrow> \<forall>x\<in>set ss. x < 65536 \<Longrightarrow> unat (v6_of ss) = from_segments ss"
proof -
  assume "length ss = 8" "\<forall>x\<in>set ss. x < 65536"
  then have "from_segments ss < 2 ^ 128" using from_segments_less [of ss] by simp
  then show ?thesis unfolding v6_of_def from_segments_def [symmetric] unat_of_nat by simp
qed

lemma in_v6_div:
  assumes "length ss = 8" "\<forall>x\<in>set ss. x < 65536" "length ts = 8" "\<forall>x\<in>set ts. x < 65536" "0 < bits" "bits \<le> 128"
  shows "in_v6 (v6_of ss) (v6_of ts) bits \<longleftrightarrow>
    from_segments ss div 2 ^ (128 - bits) = from_segments ts div 2 ^ (128 - bits)"
  using in_block [where 'w = 128, of bits "v6_of ss" "v6_of ts"] assms by (simp add: in_v6_def unat_v6_of)

lemma from_segments_inject:
  "length s = length t \<Longrightarrow> \<forall>x\<in>set s. x < 65536 \<Longrightarrow> \<forall>x\<in>set t. x < 65536 \<Longrightarrow>
     from_segments s = from_segments t \<longleftrightarrow> s = t"
proof (induction s t rule: rev_induct2)
  case (4 x xs y ys)
  then show ?case
    using pair_inject [of x 65536 y "from_segments xs" "from_segments ys"] by (auto simp: from_segments_def)
qed auto

text \<open>A block within the first \<open>k\<close> segments, or ending inside the segment after them.\<close>

lemma in_v6_segments:
  assumes "length s + length t = 8" "\<forall>x\<in>set (s @ t). x < 65536" "length s' = length s" "length t' = length t"
    "\<forall>x\<in>set (s' @ t'). x < 65536" "0 < length s"
  shows "in_v6 (v6_of (s @ t)) (v6_of (s' @ t')) (16 * length s) \<longleftrightarrow> s = s'"
proof -
  have e: "2 ^ (128 - 16 * length s) = (65536 :: nat) ^ length t"
  proof -
    have "128 - 16 * length s = 16 * length t" using assms(1) by simp
    then show ?thesis by (simp add: power_mult)
  qed
  have "in_v6 (v6_of (s @ t)) (v6_of (s' @ t')) (16 * length s) \<longleftrightarrow> from_segments s = from_segments s'"
    using in_v6_div [of "s @ t" "s' @ t'" "16 * length s"] assms from_segments_div [of t s] from_segments_div [of t' s']
    by (simp add: e)
  then show ?thesis using from_segments_inject [of s s'] assms by simp
qed

lemma in_v6_partial:
  assumes "length s + length t = 7" "\<forall>y\<in>set (s @ x # t). y < 65536" "length s' = length s" "length t' = length t"
    "\<forall>y\<in>set (s' @ x' # t'). y < 65536" "j < 16" "0 < j"
  shows "in_v6 (v6_of (s @ x # t)) (v6_of (s' @ x' # t')) (16 * length s + j) \<longleftrightarrow> s = s' \<and> x div 2 ^ (16 - j) = x' div 2 ^ (16 - j)"
proof -
  have "128 - (16 * length s + j) = 16 * length t + (16 - j)" using assms(1,6) by simp
  then have e: "2 ^ (128 - (16 * length s + j)) = (65536 :: nat) ^ length t * 2 ^ (16 - j)" by (simp add: power_add power_mult)
  have d: "from_segments (u @ z # v) div (65536 ^ length v * 2 ^ (16 - j)) = (from_segments u * 65536 + z) div 2 ^ (16 - j)"
    if "\<forall>y\<in>set v. y < 65536" for u z v
    using from_segments_div [OF that, of "u @ [z]"] by (simp add: div_mult2_eq) (simp add: from_segments_def)
  have b: "(65536 :: nat) = 2 ^ j * 2 ^ (16 - j)" using assms(6) by (simp flip: power_add)
  have "in_v6 (v6_of (s @ x # t)) (v6_of (s' @ x' # t')) (16 * length s + j) \<longleftrightarrow>
      (from_segments s * 65536 + x) div 2 ^ (16 - j) = (from_segments s' * 65536 + x') div 2 ^ (16 - j)"
    using in_v6_div [of "s @ x # t" "s' @ x' # t'" "16 * length s + j"] assms d [of t s x] d [of t' s' x'] by (simp add: e)
  also have "\<dots> \<longleftrightarrow> from_segments s = from_segments s' \<and> x div 2 ^ (16 - j) = x' div 2 ^ (16 - j)"
    using assms by (intro pair_div_base [OF _ _ b]) auto
  finally show ?thesis using from_segments_inject [of s s'] assms by simp
qed

text \<open>
  C20: An address is public exactly when it lies outside the reserved blocks. An IPv4 address,
  by its octets, is not in 0/8, 10/8, 127/8, 224/3, 100.64/10, 169.254/16, 172.16/12, 192.0.0/24,
  192.0.2/24, 192.88.99/24, 192.168/16, 198.18/15, 198.51.100/24 or 203.0.113/24. An IPv6
  address, by its segments, is the mapping or translation of a public IPv4 address, or it is in
  2000::/3 and not in 2001::/23, 2001:db8::/32, 2002::/16 or 3fff::/20.
\<close>

theorem public_by_blocks:
  assumes "a < 256" "b < 256" "c < 256" "d < 256" and "\<forall>x\<in>set [s0, s1, s2, s3, s4, s5, s6, s7]. x < 65536"
  shows "(is_public (V4 (v4_of a b c d)) \<longleftrightarrow> \<not>
      (a = 0 \<or> a = 10 \<or> a = 127 \<or> 224 \<le> a
       \<or> a = 100 \<and> 64 \<le> b \<and> b < 128 \<or> a = 169 \<and> b = 254 \<or> a = 172 \<and> 16 \<le> b \<and> b < 32
       \<or> a = 192 \<and> b = 0 \<and> (c = 0 \<or> c = 2) \<or> a = 192 \<and> b = 88 \<and> c = 99 \<or> a = 192 \<and> b = 168
       \<or> a = 198 \<and> (b = 18 \<or> b = 19) \<or> a = 198 \<and> b = 51 \<and> c = 100 \<or> a = 203 \<and> b = 0 \<and> c = 113))
    \<and> (is_public (V6 (v6_of [s0, s1, s2, s3, s4, s5, s6, s7])) \<longleftrightarrow>
       (if [s0, s1, s2, s3, s4, s5] = [0, 0, 0, 0, 0, 0xffff] \<or> [s0, s1, s2, s3, s4, s5] = [0x64, 0xff9b, 0, 0, 0, 0]
        then is_public (V4 (of_nat (s6 * 65536 + s7)))
        else 0x2000 \<le> s0 \<and> s0 < 0x4000 \<and> \<not> (s0 = 0x2001 \<and> (s1 < 0x200 \<or> s1 = 0xdb8)) \<and> s0 \<noteq> 0x2002
          \<and> \<not> (s0 = 0x3fff \<and> s1 < 0x1000)))"
proof -
  let ?ss = "[s0, s1, s2, s3, s4, s5, s6, s7]"
  have e: "in_v6 (v6_of ?ss) (v6_of [0, 0, 0, 0, 0, 0xffff, 0, 0]) 96 \<longleftrightarrow> [s0, s1, s2, s3, s4, s5] = [0, 0, 0, 0, 0, 0xffff]"
    "in_v6 (v6_of ?ss) (v6_of [0x64, 0xff9b, 0, 0, 0, 0, 0, 0]) 96 \<longleftrightarrow> [s0, s1, s2, s3, s4, s5] = [0x64, 0xff9b, 0, 0, 0, 0]"
    "in_v6 (v6_of ?ss) (v6_of [0x2001, 0xdb8, 0, 0, 0, 0, 0, 0]) 32 \<longleftrightarrow> [s0, s1] = [0x2001, 0xdb8]"
    "in_v6 (v6_of ?ss) (v6_of [0x2002, 0, 0, 0, 0, 0, 0, 0]) 16 \<longleftrightarrow> [s0] = [0x2002]"
    using in_v6_segments [of "[s0, s1, s2, s3, s4, s5]" "[s6, s7]" "[0, 0, 0, 0, 0, 0xffff]" "[0, 0]"]
      in_v6_segments [of "[s0, s1, s2, s3, s4, s5]" "[s6, s7]" "[0x64, 0xff9b, 0, 0, 0, 0]" "[0, 0]"]
      in_v6_segments [of "[s0, s1]" "[s2, s3, s4, s5, s6, s7]" "[0x2001, 0xdb8]" "[0, 0, 0, 0, 0, 0]"]
      in_v6_segments [of "[s0]" "[s1, s2, s3, s4, s5, s6, s7]" "[0x2002]" "[0, 0, 0, 0, 0, 0, 0]"] assms(5) by simp_all
  have p: "in_v6 (v6_of ?ss) (v6_of [0x2000, 0, 0, 0, 0, 0, 0, 0]) 3 \<longleftrightarrow> 0x2000 \<le> s0 \<and> s0 < 0x4000"
    "in_v6 (v6_of ?ss) (v6_of [0x2001, 0, 0, 0, 0, 0, 0, 0]) 23 \<longleftrightarrow> s0 = 0x2001 \<and> s1 < 0x200"
    "in_v6 (v6_of ?ss) (v6_of [0x3fff, 0, 0, 0, 0, 0, 0, 0]) 20 \<longleftrightarrow> s0 = 0x3fff \<and> s1 < 0x1000"
    using in_v6_partial [of "[]" "[s1, s2, s3, s4, s5, s6, s7]" s0 "[]" "[0, 0, 0, 0, 0, 0, 0]" "0x2000" 3]
      in_v6_partial [of "[s0]" "[s2, s3, s4, s5, s6, s7]" s1 "[0x2001]" "[0, 0, 0, 0, 0, 0]" 0 7]
      in_v6_partial [of "[s0]" "[s2, s3, s4, s5, s6, s7]" s1 "[0x3fff]" "[0, 0, 0, 0, 0, 0]" 0 4] assms(5)
    by (simp_all add: div_between)
  have "embedded_v4 (v6_of ?ss) = of_nat (s6 * 65536 + s7)"
  proof -
    have "unat (v6_of ?ss) = from_segments [s0, s1, s2, s3, s4, s5] * 2 ^ 32 + (s6 * 65536 + s7)"
      using assms(5) by (simp add: unat_v6_of) (simp add: from_segments_def)
    moreover have "s6 * 65536 + s7 < 2 ^ 32" using assms(5) by simp
    ultimately have "unat (v6_of ?ss) mod 2 ^ 32 = s6 * 65536 + s7" by (simp only: mod_mult_self3 mod_less)
    then show ?thesis
      unfolding embedded_v4_def word_unat_eq_iff unat_of_nat unsigned_ucast_eq take_bit_eq_mod by simp
  qed
  then show ?thesis using public_v4_by_octets [OF assms(1-4)]
    unfolding is_public.simps is_public_v6_def NOT_PUBLIC_IN_GLOBAL_V6_def list.set bex_simps fst_conv snd_conv e p
    by simp blast
qed

theorem public_by_blocks_witness:
  "is_public (V4 (v4_of 8 8 8 8)) \<and> \<not> is_public (V6 (v6_of [0xfe80, 0, 0, 0, 0, 0, 0, 1]))"
  using public_by_blocks [of 8 8 8 8 "0xfe80" 0 0 0 0 0 0 1] by simp

end
