(* ===== verification/Wire.thy ===== *)
theory Wire
  imports Prompt
begin

unbundle bit_operations_syntax

text \<open>
  How messages travel between the processes: bytes as base64 (\<open>base64_bytes\<close> in
  \<open>crates/syndeo-ipc/src/protocol.rs\<close>), frames and the reassembly of a fetch
  (\<open>crates/syndeo-ipc/src/frame.rs\<close>). A \<open>u32\<close> is a 32-bit word. A stream is the bytes that are
  still to come before the peer closes it.
\<close>

subsection \<open>Base64\<close>

definition ALPHABET :: string where
  "ALPHABET = ''ABCDEFGHIJKLMNOPQRSTUVWXYZabcdefghijklmnopqrstuvwxyz0123456789+/''"

definition word_of :: "char \<Rightarrow> 32 word" where
  "word_of c = of_nat (octet c)"

text \<open>\<open>as u8\<close> keeps the low eight bits.\<close>

definition as_u8 :: "32 word \<Rightarrow> char" where
  "as_u8 w = char_of (unat (w AND 0xFF))"

definition sextets :: "32 word \<Rightarrow> 32 word list" where
  "sextets n = [drop_bit 18 n AND 63, drop_bit 12 n AND 63, drop_bit 6 n AND 63, n AND 63]"

definition letter :: "32 word \<Rightarrow> char" where
  "letter w = ALPHABET ! unat w"

definition encode_chunk :: "bytes \<Rightarrow> string" where
  "encode_chunk chunk =
     (let n = be_word (CHR 0x00) (chunk ! 0) (if 1 < length chunk then chunk ! 1 else CHR 0x00)
                (if 2 < length chunk then chunk ! 2 else CHR 0x00)
      in map (\<lambda>(i, w). if i \<le> length chunk then letter w else CHR ''='') (enumerate 0 (sextets n)))"

fun base64_encode :: "bytes \<Rightarrow> string" where
  "base64_encode [] = []"
| "base64_encode (a # s) = encode_chunk (a # take 2 s) @ base64_encode (drop 2 s)"

fun position :: "'a \<Rightarrow> 'a list \<Rightarrow> nat option" where
  "position x [] = None"
| "position x (y # ys) = (if x = y then Some 0 else map_option Suc (position x ys))"

definition is_ascii_whitespace :: "char \<Rightarrow> bool" where
  "is_ascii_whitespace c \<longleftrightarrow> c \<in> {CHR 0x20, CHR 0x09, CHR 0x0A, CHR 0x0C, CHR 0x0D}"

fun decode_from :: "32 word \<Rightarrow> nat \<Rightarrow> string \<Rightarrow> bytes option" where
  "decode_from acc bits [] = Some []"
| "decode_from acc bits (ch # s) =
     (if ch = CHR ''='' then Some []
      else case position ch ALPHABET of
          None \<Rightarrow> if is_ascii_whitespace ch then decode_from acc bits s else None
        | Some v \<Rightarrow>
            let acc = push_bit 6 acc OR of_nat v
            in if 8 \<le> bits + 6
               then map_option ((#) (as_u8 (drop_bit (bits + 6 - 8) acc))) (decode_from acc (bits + 6 - 8) s)
               else decode_from acc (bits + 6) s)"

definition base64_decode :: "string \<Rightarrow> bytes option" where
  "base64_decode text = decode_from 0 0 text"

lemma position_nth: "distinct xs \<Longrightarrow> i < length xs \<Longrightarrow> position (xs ! i) xs = Some i"
proof (induction xs arbitrary: i)
  case (Cons x xs)
  then show ?case by (cases i) auto
qed simp

lemma alphabet: "length ALPHABET = 64" "distinct ALPHABET" "CHR ''='' \<notin> set ALPHABET"
  by (simp_all add: ALPHABET_def)

lemma and_63: "w AND 63 = take_bit 6 (w :: 32 word)"
  by (simp add: take_bit_eq_mask mask_eq_exp_minus_1)

lemma and_255: "w AND 0xFF = take_bit 8 (w :: 32 word)"
  by (simp add: take_bit_eq_mask mask_eq_exp_minus_1)

lemma unat_take_bit: "unat (take_bit k (w :: 32 word)) = unat w mod 2 ^ k"
  unfolding unsigned_take_bit_eq by (rule take_bit_eq_mod)

lemma letter_read: "letter (take_bit 6 w) \<noteq> CHR ''=''" "position (letter (take_bit 6 w)) ALPHABET = Some (unat (take_bit 6 w))"
proof -
  have "unat w mod 2 ^ 6 < 2 ^ 6" by (rule mod_less_divisor) simp
  then have "unat (take_bit 6 w) < 64" unfolding unat_take_bit by simp
  then show "letter (take_bit 6 w) \<noteq> CHR ''=''" "position (letter (take_bit 6 w)) ALPHABET = Some (unat (take_bit 6 w))"
    using alphabet position_nth [of ALPHABET "unat (take_bit 6 w)"] nth_mem [of "unat (take_bit 6 w)" ALPHABET]
    by (auto simp: letter_def simp del: nth_mem)
qed

lemma decode_letter:
  "decode_from acc bits (letter (take_bit 6 w) # s) =
    (if 8 \<le> bits + 6
     then map_option ((#) (as_u8 (drop_bit (bits + 6 - 8) (push_bit 6 acc OR take_bit 6 w))))
            (decode_from (push_bit 6 acc OR take_bit 6 w) (bits + 6 - 8) s)
     else decode_from (push_bit 6 acc OR take_bit 6 w) (bits + 6) s)"
  using letter_read [of w] by (simp add: Let_def)

lemma decode_letters:
  "decode_from acc 0 (letter (take_bit 6 w) # s) = decode_from (push_bit 6 acc OR take_bit 6 w) 6 s"
  "decode_from acc 6 (letter (take_bit 6 w) # s) =
     map_option ((#) (as_u8 (drop_bit 4 (push_bit 6 acc OR take_bit 6 w)))) (decode_from (push_bit 6 acc OR take_bit 6 w) 4 s)"
  "decode_from acc 4 (letter (take_bit 6 w) # s) =
     map_option ((#) (as_u8 (drop_bit 2 (push_bit 6 acc OR take_bit 6 w)))) (decode_from (push_bit 6 acc OR take_bit 6 w) 2 s)"
  "decode_from acc 2 (letter (take_bit 6 w) # s) =
     map_option ((#) (as_u8 (push_bit 6 acc OR take_bit 6 w))) (decode_from (push_bit 6 acc OR take_bit 6 w) 0 s)"
  "decode_from acc bits (CHR ''='' # s) = Some []"
  unfolding decode_letter by simp_all

text \<open>The bits of a byte, and a byte from its bits.\<close>

lemma unat_word_of: "unat (word_of c) = octet c"
proof -
  have "octet c < 2 ^ LENGTH(32)" using less_trans [OF octet_less [of c], of "2 ^ LENGTH(32)"] by simp
  then show ?thesis unfolding word_of_def unat_of_nat by (rule mod_less)
qed

lemma word_of_take: "take_bit 8 (word_of c) = word_of c"
  unfolding word_unat_eq_iff unat_take_bit unat_word_of using octet_less [of c] by (intro mod_less) simp

lemma bit_word_of: "bit (word_of c) i \<Longrightarrow> i < 8"
  by (metis bit_take_bit_iff word_of_take)

lemma as_u8_word_of: "(\<And>i. i < 8 \<Longrightarrow> bit w i = bit (word_of c) i) \<Longrightarrow> as_u8 w = c"
proof -
  assume a: "\<And>i. i < 8 \<Longrightarrow> bit w i = bit (word_of c) i"
  have "take_bit 8 w = word_of c"
  proof (rule bit_word_eqI)
    fix i show "bit (take_bit 8 w) i = bit (word_of c) i"
      using a [of i] bit_word_of [of c i] by (auto simp: bit_take_bit_iff)
  qed
  then show "as_u8 w = c" by (simp add: as_u8_def and_255 unat_word_of)
qed

lemma be_word_bit:
  "bit (be_word (CHR 0x00) a b c) i \<longleftrightarrow>
     bit (word_of c) i \<or> 8 \<le> i \<and> bit (word_of b) (i - 8) \<or> 16 \<le> i \<and> bit (word_of a) (i - 16)"
  using bit_word_of [of a "i - 16"] bit_word_of [of b "i - 8"]
  by (auto simp: be_word_def word_of_def octet_def bit_simps possible_bit_def)

text \<open>What the reader holds after each letter, when it held nothing before the first.\<close>

lemma decode_chunk:
  fixes a b c :: char
  defines "n \<equiv> be_word (CHR 0x00) a b c"
  shows "as_u8 (drop_bit 4 (push_bit 6 (push_bit 6 acc OR take_bit 6 (drop_bit 18 n)) OR take_bit 6 (drop_bit 12 n))) = a"
    and "as_u8 (drop_bit 2 (push_bit 6 (push_bit 6 acc OR take_bit 6 (drop_bit 12 n)) OR take_bit 6 (drop_bit 6 n))) = b"
    and "as_u8 (push_bit 6 (push_bit 6 acc OR take_bit 6 (drop_bit 6 n)) OR take_bit 6 n) = c"
proof -
  have cases: "i < 8 \<Longrightarrow> i = 0 \<or> i = 1 \<or> i = 2 \<or> i = 3 \<or> i = 4 \<or> i = 5 \<or> i = 6 \<or> i = 7" for i :: nat by arith
  note small = bit_word_of [of a] bit_word_of [of b] bit_word_of [of c]
  show "as_u8 (drop_bit 4 (push_bit 6 (push_bit 6 acc OR take_bit 6 (drop_bit 18 n)) OR take_bit 6 (drop_bit 12 n))) = a"
    by (rule as_u8_word_of) (drule cases, auto simp: n_def bit_or_iff bit_push_bit_iff bit_take_bit_iff bit_drop_bit_eq be_word_bit dest: small, (simp_all add: eval_nat_numeral)?)
  show "as_u8 (drop_bit 2 (push_bit 6 (push_bit 6 acc OR take_bit 6 (drop_bit 12 n)) OR take_bit 6 (drop_bit 6 n))) = b"
    by (rule as_u8_word_of) (drule cases, auto simp: n_def bit_or_iff bit_push_bit_iff bit_take_bit_iff bit_drop_bit_eq be_word_bit dest: small, (simp_all add: eval_nat_numeral)?)
  show "as_u8 (push_bit 6 (push_bit 6 acc OR take_bit 6 (drop_bit 6 n)) OR take_bit 6 n) = c"
    by (rule as_u8_word_of) (drule cases, auto simp: n_def bit_or_iff bit_push_bit_iff bit_take_bit_iff bit_drop_bit_eq be_word_bit dest: small, (simp_all add: eval_nat_numeral)?)
qed

lemma encode_chunk_one: "encode_chunk [a] = (let n = be_word (CHR 0x00) a (CHR 0x00) (CHR 0x00)
    in [letter (take_bit 6 (drop_bit 18 n)), letter (take_bit 6 (drop_bit 12 n)), CHR ''='', CHR ''=''])"
  by (simp add: encode_chunk_def sextets_def and_63 Let_def)

lemma encode_chunk_two: "encode_chunk [a, b] = (let n = be_word (CHR 0x00) a b (CHR 0x00)
    in [letter (take_bit 6 (drop_bit 18 n)), letter (take_bit 6 (drop_bit 12 n)), letter (take_bit 6 (drop_bit 6 n)), CHR ''=''])"
  by (simp add: encode_chunk_def sextets_def and_63 Let_def)

lemma encode_chunk_three: "encode_chunk [a, b, c] = (let n = be_word (CHR 0x00) a b c
    in [letter (take_bit 6 (drop_bit 18 n)), letter (take_bit 6 (drop_bit 12 n)), letter (take_bit 6 (drop_bit 6 n)),
        letter (take_bit 6 n)])"
  by (simp add: encode_chunk_def sextets_def and_63 Let_def)

lemma decode_encoded: "decode_from acc 0 (base64_encode s) = Some s"
proof (induction s arbitrary: acc rule: base64_encode.induct)
  case (2 a s)
  show ?case
  proof (cases s)
    case Nil
    then show ?thesis by (simp only: base64_encode.simps take_Nil encode_chunk_one Let_def append.simps decode_letters decode_chunk option.map)
  next
    case s: (Cons b t)
    have two: "take 2 [b] = [b]" "take 2 (b # c # u) = [b, c]" "drop 2 (b # c # u) = u" for c u by simp_all
    show ?thesis
    proof (cases t)
      case Nil
      then show ?thesis using s
        by (simp only: base64_encode.simps two encode_chunk_two Let_def append.simps decode_letters decode_chunk option.map)
    next
      case (Cons c u)
      then show ?thesis using s 2
        by (simp only: base64_encode.simps two encode_chunk_three Let_def append.simps decode_letters decode_chunk option.map)
    qed
  qed
qed simp

text \<open>
  Bytes travel as they are. What the sender writes as base64 the receiver reads back as
  the same bytes, whatever their number.
\<close>

theorem base64_round_trip: "base64_decode (base64_encode s) = Some s"
  by (simp add: base64_decode_def decode_encoded)

subsection \<open>Frames\<close>

definition MAX_FRAME :: nat where
  "MAX_FRAME = 16 * 1024 * 1024"

definition MAX_WHOLE_BODY :: nat where
  "MAX_WHOLE_BODY = 64 * 1024 * 1024"

datatype frame_error =
    FrameIo
  | FrameTooLarge nat
  | FrameCodec
  | FrameClosed
  | FrameRefused string
  | FrameUnexpected
  | FrameBodyTooLarge nat

definition send_frame :: "('m \<Rightarrow> bytes) \<Rightarrow> 'm \<Rightarrow> frame_error + bytes" where
  "send_frame E message =
     (let body = E message
      in if MAX_FRAME < length body then Inl (FrameTooLarge (length body mod 2 ^ 32))
         else Inr (be_bytes (of_nat (length body)) @ body))"

definition recv_frame :: "(bytes \<Rightarrow> 'm option) \<Rightarrow> bytes \<Rightarrow> bytes \<times> (frame_error + 'm)" where
  "recv_frame D stream =
     (if length stream < 4 then ([], Inl FrameClosed)
      else let n = unat (be_word (stream ! 0) (stream ! 1) (stream ! 2) (stream ! 3)); rest = drop 4 stream
           in if MAX_FRAME < n then (rest, Inl (FrameTooLarge n))
              else if length rest < n then ([], Inl FrameIo)
              else (drop n rest, case D (take n rest) of Some m \<Rightarrow> Inr m | None \<Rightarrow> Inl FrameCodec))"

lemma recv_frame_shrinks: "recv_frame D stream = (s, Inr m) \<Longrightarrow> length s < length stream"
  by (auto simp: recv_frame_def Let_def split: if_splits)

lemma word_of_char: "of_nat (of_char c) = word_of c"
  by (simp add: word_of_def octet_def)

lemma be_round_trip: "be_word (byte_of w 24) (byte_of w 16) (byte_of w 8) (byte_of w 0) = w"
proof -
  have b: "word_of (byte_of w k) = take_bit 8 (drop_bit k w)" for k
  proof -
    have "unat (take_bit 8 (drop_bit k w)) < 2 ^ 8" unfolding unat_take_bit by (rule mod_less_divisor) simp
    then have "octet (byte_of w k) = unat (take_bit 8 (drop_bit k w))"
      unfolding octet_def byte_of_def and_255 by (simp add: of_char_of)
    then show ?thesis unfolding word_of_def by simp
  qed
  show ?thesis
  proof (rule bit_word_eqI)
    fix i assume "i < LENGTH(32)"
    then show "bit (be_word (byte_of w 24) (byte_of w 16) (byte_of w 8) (byte_of w 0)) i = bit w i"
      unfolding be_word_def word_of_char b
      by (cases "i < 8"; cases "i < 16"; cases "i < 24") (auto simp: bit_or_iff bit_push_bit_iff bit_take_bit_iff bit_drop_bit_eq)
  qed
qed

text \<open>The messages that can be read from a stream, up to the first that cannot.\<close>

function received :: "(bytes \<Rightarrow> 'm option) \<Rightarrow> bytes \<Rightarrow> 'm list" where
  "received D stream =
     (case recv_frame D stream of
        (s, Inr m) \<Rightarrow> m # received D s
      | (s, Inl _) \<Rightarrow> [])"
  by pat_completeness auto
termination by (relation "measure (\<lambda>(D, s). length s)") (auto dest: recv_frame_shrinks [OF sym])

declare received.simps [simp del]

lemma recv_sent:
  assumes "send_frame E m = Inr f" and "D (E m) = Some m"
  shows "recv_frame D (f @ rest) = (rest, Inr m)"
proof -
  have n: "length (E m) \<le> MAX_FRAME" "f = be_bytes (of_nat (length (E m))) @ E m"
    using assms(1) by (auto simp: send_frame_def Let_def split: if_splits)
  have "length (E m) < 2 ^ LENGTH(32)" using n(1) by (simp add: MAX_FRAME_def)
  then have u: "unat (of_nat (length (E m)) :: 32 word) = length (E m)" unfolding unat_of_nat by (rule mod_less)
  show ?thesis using n assms(2) be_round_trip [of "of_nat (length (E m))"] u
    by (simp add: recv_frame_def be_bytes_def Let_def nth_append numeral_2_eq_2 numeral_3_eq_3)
qed

lemma received_sent:
  assumes "send_frame E m = Inr f" and "D (E m) = Some m"
  shows "received D (f @ rest) = m # received D rest"
  by (subst received.simps) (simp add: recv_sent [where D = D, OF assms])

lemma received_fails: "recv_frame D stream = (s, Inl e) \<Longrightarrow> received D stream = []"
  by (subst received.simps) simp

text \<open>A frame that has not wholly arrived is not read.\<close>

lemma recv_cut:
  assumes "send_frame E m = Inr f" and "k < length f"
  shows "\<exists>s e. recv_frame D (take k f) = (s, Inl e)"
proof -
  have n: "length (E m) \<le> MAX_FRAME" "f = be_bytes (of_nat (length (E m))) @ E m"
    using assms(1) by (auto simp: send_frame_def Let_def split: if_splits)
  have "length (E m) < 2 ^ LENGTH(32)" using n(1) by (simp add: MAX_FRAME_def)
  then have u: "unat (of_nat (length (E m)) :: 32 word) = length (E m)" unfolding unat_of_nat by (rule mod_less)
  show ?thesis
  proof (cases "k < 4")
    case False
    then obtain j where j: "k = Suc (Suc (Suc (Suc j)))" using less_iff_Suc_add [of 3 k] by (auto simp: eval_nat_numeral)
    then show ?thesis using n assms(2) be_round_trip [of "of_nat (length (E m))"] u
      by (simp add: recv_frame_def be_bytes_def Let_def nth_append numeral_2_eq_2 numeral_3_eq_3)
  qed (simp add: recv_frame_def min_def)
qed

fun frames :: "('m \<Rightarrow> bytes) \<Rightarrow> 'm list \<Rightarrow> bytes option" where
  "frames E [] = Some []"
| "frames E (m # ms) =
     (case send_frame E m of
        Inl _ \<Rightarrow> None
      | Inr f \<Rightarrow> map_option ((@) f) (frames E ms))"

text \<open>
  What is sent is what is received. The messages a sender writes, each within the ceiling
  and readable by the receiver, are read back as sent, in order; and when the connection is cut
  anywhere, the receiver has read the first of them, whole, and nothing else.
\<close>

theorem frames_round_trip:
  assumes "\<forall>m\<in>set ms. D (E m) = Some m" and "frames E ms = Some stream"
  shows "received D stream = ms \<and> (\<exists>n. received D (take k stream) = take n ms)"
  using assms
proof (induction ms arbitrary: stream k)
  case Nil
  have "received D [] = []" by (rule received_fails) (simp add: recv_frame_def)
  then show ?case using Nil by simp
next
  case (Cons m ms)
  obtain f s where f: "send_frame E m = Inr f" "frames E ms = Some s" "stream = f @ s"
    using Cons.prems(2) by (auto split: sum.splits)
  have d: "D (E m) = Some m" "\<forall>m\<in>set ms. D (E m) = Some m" using Cons.prems(1) by auto
  note IH = Cons.IH [OF d(2) f(2)]
  have "\<exists>n. received D (take k stream) = take n (m # ms)"
  proof (cases "k < length f")
    case True
    then have "received D (take k stream) = take 0 (m # ms)"
      using recv_cut [OF f(1) True, of D] f(3) True by (auto dest: received_fails)
    then show ?thesis by blast
  next
    case False
    then have "received D (take k stream) = m # received D (take (k - length f) s)"
      using received_sent [where D = D, OF f(1) d(1)] f(3) by simp
    moreover obtain n where "received D (take (k - length f) s) = take n ms" using IH by blast
    ultimately have "received D (take k stream) = take (Suc n) (m # ms)" by simp
    then show ?thesis by blast
  qed
  then show ?case using received_sent [where D = D, OF f(1) d(1)] f(3) IH by simp
qed

lemma frames_round_trip_witness:
  "received Some ([CHR 0x00, CHR 0x00, CHR 0x00, CHR 0x02] @ ''ok'' @ [CHR 0x00, CHR 0x00, CHR 0x00, CHR 0x00])
     = [''ok'', []]"
proof -
  have sizes: "byte_of 2 24 = CHR 0x00" "byte_of 2 16 = CHR 0x00" "byte_of 2 8 = CHR 0x00" "byte_of 2 0 = CHR 0x02"
    "byte_of 0 24 = CHR 0x00" "byte_of 0 16 = CHR 0x00" "byte_of 0 8 = CHR 0x00" "byte_of 0 0 = CHR 0x00"
    by (simp_all add: byte_of_def) (simp_all add: char_of_def bit_0)
  have "frames (\<lambda>m. m) [''ok'', []]
      = Some ([CHR 0x00, CHR 0x00, CHR 0x00, CHR 0x02] @ ''ok'' @ [CHR 0x00, CHR 0x00, CHR 0x00, CHR 0x00])"
    by (simp add: send_frame_def MAX_FRAME_def be_bytes_def sizes)
  from frames_round_trip [where D = Some, OF _ this] show ?thesis by simp
qed

subsection \<open>A fetch reassembled\<close>

datatype net_request =
    Fetch string string "(string \<times> string) list" bytes "string option" "string option"
  | NetStats
  | NetPeerStatus
  | NetPing

datatype net_response =
    FetchBegin nat "(string \<times> string) list" string string nat
  | FetchChunk bytes
  | FetchEnd "string option"
  | StatsReply string
  | PeerStatusReply string
  | Pong
  | NetError string

record fetched =
  fd_status :: nat
  fd_headers :: "(string \<times> string) list"
  fd_body :: bytes
  fd_source :: string
  fd_protocol :: string
  fd_elapsed :: nat
  fd_content :: "string option"

definition fetched_header :: "fetched \<Rightarrow> string \<Rightarrow> string option" where
  "fetched_header f name = map_option snd (find (\<lambda>p. eq_ic (fst p) name) (fd_headers f))"

definition has_body :: "net_request \<Rightarrow> bool" where
  "has_body request = (case request of Fetch m _ _ _ _ _ \<Rightarrow> \<not> eq_ic m ''HEAD'' | _ \<Rightarrow> True)"

definition declared_length :: "(string \<times> string) list \<Rightarrow> nat option" where
  "declared_length headers =
     (case find (\<lambda>p. eq_ic (fst p) ''content-length'') headers of
        Some (_, v) \<Rightarrow> parse_u64 (trim v)
      | None \<Rightarrow> None)"

definition refuse_declared :: "net_request \<Rightarrow> (string \<times> string) list \<Rightarrow> nat \<Rightarrow> bool" where
  "refuse_declared request headers limit \<longleftrightarrow>
     has_body request \<and> (case declared_length headers of Some n \<Rightarrow> limit < n | None \<Rightarrow> False)"

text \<open>The loop: the body so far, until the end, an error, or a chunk that crosses the limit.\<close>

function collect :: "(bytes \<Rightarrow> net_response option) \<Rightarrow> nat \<Rightarrow> bytes \<Rightarrow> bytes \<Rightarrow> frame_error + bytes \<times> string option" where
  "collect D limit body stream =
     (case recv_frame D stream of
        (s, Inl e) \<Rightarrow> Inl e
      | (s, Inr m) \<Rightarrow>
          (case m of
             FetchChunk b \<Rightarrow>
               if limit < length body + length b then Inl (FrameBodyTooLarge limit)
               else collect D limit (body @ b) s
           | FetchEnd content \<Rightarrow> Inr (body, content)
           | NetError e \<Rightarrow> Inl (FrameRefused e)
           | _ \<Rightarrow> Inl FrameUnexpected))"
  by pat_completeness auto
termination by (relation "measure (\<lambda>(D, l, b, s). length s)") (auto dest: recv_frame_shrinks [OF sym])

declare collect.simps [simp del]

definition fetch_within ::
    "(net_request \<Rightarrow> bytes) \<Rightarrow> (bytes \<Rightarrow> net_response option) \<Rightarrow> net_request \<Rightarrow> nat \<Rightarrow> bytes \<Rightarrow> frame_error + fetched" where
  "fetch_within E D request limit stream =
     (case send_frame E request of
        Inl e \<Rightarrow> Inl e
      | Inr _ \<Rightarrow>
          (case recv_frame D stream of
             (s, Inl e) \<Rightarrow> Inl e
           | (s, Inr m) \<Rightarrow>
               (case m of
                  FetchBegin status headers source protocol elapsed \<Rightarrow>
                    if refuse_declared request headers limit then Inl (FrameBodyTooLarge limit)
                    else (case collect D limit [] s of
                            Inl e \<Rightarrow> Inl e
                          | Inr (body, content) \<Rightarrow>
                              Inr \<lparr> fd_status = status, fd_headers = headers, fd_body = body, fd_source = source,
                                    fd_protocol = protocol, fd_elapsed = elapsed, fd_content = content \<rparr>)
                | NetError e \<Rightarrow> Inl (FrameRefused e)
                | _ \<Rightarrow> Inl FrameUnexpected)))"

definition fetch_whole ::
    "(net_request \<Rightarrow> bytes) \<Rightarrow> (bytes \<Rightarrow> net_response option) \<Rightarrow> net_request \<Rightarrow> bytes \<Rightarrow> frame_error + fetched" where
  "fetch_whole E D request stream = fetch_within E D request MAX_WHOLE_BODY stream"

lemma received_recv: "received D stream = m # ms \<longleftrightarrow> (\<exists>s. recv_frame D stream = (s, Inr m) \<and> received D s = ms)"
  by (subst received.simps) (auto split: prod.splits sum.splits)

lemma collect_step:
  "recv_frame D stream = (s, Inr m) \<Longrightarrow> collect D limit body stream =
     (case m of
        FetchChunk b \<Rightarrow>
          if limit < length body + length b then Inl (FrameBodyTooLarge limit) else collect D limit (body @ b) s
      | FetchEnd content \<Rightarrow> Inr (body, content)
      | NetError e \<Rightarrow> Inl (FrameRefused e)
      | _ \<Rightarrow> Inl FrameUnexpected)"
  by (subst collect.simps) simp

text \<open>The messages a completed body was made of.\<close>

lemma collect_exact:
  "collect D limit body stream = Inr (whole, content) \<longleftrightarrow>
     (\<exists>bs rest. received D stream = map FetchChunk bs @ FetchEnd content # rest \<and> whole = body @ concat bs
        \<and> (bs \<noteq> [] \<longrightarrow> length whole \<le> limit))"
proof (induction D limit body stream rule: collect.induct)
  case (1 D limit body stream)
  show ?case
  proof (cases "recv_frame D stream")
    case (Pair s r)
    show ?thesis
    proof (cases r)
      case (Inl e)
      then have "received D stream = []" using Pair received_fails by auto
      then show ?thesis using Pair Inl by (subst collect.simps) simp
    next
      case (Inr m)
      then have m: "received D stream = m # received D s" using Pair by (auto simp: received_recv)
      show ?thesis
      proof (cases m)
        case (FetchChunk b)
        let ?rhs = "\<exists>bs rest. received D stream = map FetchChunk bs @ FetchEnd content # rest \<and> whole = body @ concat bs
          \<and> (bs \<noteq> [] \<longrightarrow> length whole \<le> limit)"
        have r: "?rhs \<longleftrightarrow> (\<exists>bs rest. received D s = map FetchChunk bs @ FetchEnd content # rest
            \<and> whole = (body @ b) @ concat bs \<and> length whole \<le> limit)" (is "_ = ?rest")
        proof
          assume ?rhs
          then obtain bs rest where "m # received D s = map FetchChunk bs @ FetchEnd content # rest"
              "whole = body @ concat bs" "bs \<noteq> [] \<longrightarrow> length whole \<le> limit" unfolding m by blast
          then show ?rest using FetchChunk by (cases bs) auto
        next
          assume ?rest
          then obtain bs rest where "received D s = map FetchChunk bs @ FetchEnd content # rest"
              "whole = (body @ b) @ concat bs" "length whole \<le> limit" by blast
          then have "received D stream = map FetchChunk (b # bs) @ FetchEnd content # rest \<and> whole = body @ concat (b # bs)
              \<and> (b # bs \<noteq> [] \<longrightarrow> length whole \<le> limit)" using m FetchChunk by simp
          then show ?rhs by blast
        qed
        show ?thesis
        proof (cases "limit < length body + length b")
          case True
          then show ?thesis unfolding r using Pair Inr FetchChunk by (subst collect.simps) auto
        next
          case False
          then have "collect D limit body stream = collect D limit (body @ b) s"
            using Pair Inr FetchChunk by (subst collect.simps) simp
          then show ?thesis unfolding r using 1 [OF Pair [symmetric] Inr FetchChunk False] False by auto
        qed
      qed (use collect_step [OF Pair [unfolded Inr], of limit body] m in \<open>auto simp: Cons_eq_append_conv Cons_eq_map_conv\<close>)
    qed
  qed
qed

text \<open>
  A fetch gives the whole body and no more than the caller accepts. It succeeds exactly
  when what arrives is a beginning, the chunks and an end, the length it declared, if it has a
  body, is within the limit, and so is what arrived; the body it gives is then those chunks in
  order. A body cut short, by an error or a closed connection, is never given as a body.
\<close>

theorem fetch_gives_the_whole_body:
  "fetch_within E D request limit stream = Inr f \<longleftrightarrow>
     length (E request) \<le> MAX_FRAME
     \<and> (\<exists>bs rest. received D stream =
          FetchBegin (fd_status f) (fd_headers f) (fd_source f) (fd_protocol f) (fd_elapsed f)
          # map FetchChunk bs @ FetchEnd (fd_content f) # rest
        \<and> \<not> refuse_declared request (fd_headers f) limit
        \<and> fd_body f = concat bs \<and> length (fd_body f) \<le> limit)"
proof -
  have sent: "(\<exists>x. send_frame E request = Inr x) \<longleftrightarrow> length (E request) \<le> MAX_FRAME"
    by (auto simp: send_frame_def Let_def)
  have c: "collect D limit [] s = Inr (whole, content) \<longleftrightarrow>
      (\<exists>bs rest. received D s = map FetchChunk bs @ FetchEnd content # rest \<and> whole = concat bs \<and> length whole \<le> limit)" for s whole content
    unfolding collect_exact by (metis append_Nil concat.simps(1) le0 list.size(3))
  obtain s r where rv: "recv_frame D stream = (s, r)" by fastforce
  show ?thesis
  proof (cases "\<exists>a h src p el. r = Inr (FetchBegin a h src p el)")
    case True
    then obtain a h src p el where "r = Inr (FetchBegin a h src p el)" by blast
    then have rv: "recv_frame D stream = (s, Inr (FetchBegin a h src p el))" "received D stream = FetchBegin a h src p el # received D s"
      using rv by (auto simp: received_recv)
    have "fetch_within E D request limit stream = Inr f \<longleftrightarrow> length (E request) \<le> MAX_FRAME \<and> \<not> refuse_declared request h limit
        \<and> collect D limit [] s = Inr (fd_body f, fd_content f)
        \<and> fd_status f = a \<and> fd_headers f = h \<and> fd_source f = src \<and> fd_protocol f = p \<and> fd_elapsed f = el"
      using sent rv(1) by (cases f) (auto simp: fetch_within_def split: sum.splits)
    then show ?thesis unfolding c rv(2) by auto
  next
    case False
    then have "fetch_within E D request limit stream \<noteq> Inr f"
      using rv by (auto simp: fetch_within_def split: sum.splits net_response.splits)
    moreover have "received D stream \<noteq> FetchBegin (fd_status f) (fd_headers f) (fd_source f) (fd_protocol f) (fd_elapsed f) # xs" for xs
      using False rv by (auto simp: received_recv)
    ultimately show ?thesis by simp
  qed
qed

subsection \<open>The cache partition of a document\<close>

definition partition_for :: "'u shell_crates \<Rightarrow> string \<Rightarrow> string option" where
  "partition_for G raw =
     (case ou_parse G raw of
        Inl _ \<Rightarrow> None
      | Inr url \<Rightarrow>
          (case ou_host G url of
             Some host \<Rightarrow> Some (write_origin (ou_scheme G url) host (ou_port G url))
           | None \<Rightarrow> Some (ou_scheme G url @ '':'')))"

text \<open>The partition of an origin the user is asked about is that origin, as it is shown.\<close>

lemma partition_is_the_shown_origin:
  assumes "validated_origin G raw = Inr c"
  shows "partition_for G raw = Some c"
proof -
  obtain scheme authority tail d url typed_host typed_port port where
    "split_once_str ''://'' raw = Some (scheme, authority @ tail)" "default_port_of (to_lower scheme) = Some d"
    "ou_parse G raw = Inr url" "ou_host G url = Some (to_lower typed_host)"
    "\<forall>x\<in>set authority. x \<notin> set ''/?#@''" "tail = [] \<or> tail = ''/''"
    "split_port authority = (typed_host, typed_port)" "agreed_port d typed_port (ou_port G url) = Some port"
    "c = write_origin (ou_scheme G url) (to_lower typed_host) port" "length c \<le> MAX_ORIGIN_BYTES"
    using validated_origin_parts [OF assms] by metis
  moreover have "port = ou_port G url"
    using calculation(8) by (auto simp: agreed_port_def split: option.splits if_splits)
  ultimately show ?thesis by (simp add: partition_for_def)
qed

end
