(* ===== verification/Fetch.thy ===== *)
theory Fetch
  imports Cache_Write Reach
begin

text \<open>
  What a fetch is made of, and the decisions that need no network: \<open>crates/syndeo-net/src/fetch.rs\<close>
  (the free functions), \<open>error.rs\<close>, \<open>config.rs\<close> and \<open>crates/syndeo-cache/src/redact.rs\<close>. A method
  is its text. The \<open>url\<close> and \<open>http\<close> crates' addresses are the parameters of \<open>net_crates\<close>: joining a
  reference to a base, and an address's host, its port where that is not the scheme's own, and
  what \<open>Uri\<close> reads in it.
\<close>

record uri =
  ur_https :: bool
  ur_authority :: "string option"
  ur_host :: "string option"

record 'u net_crates =
  nu_join :: "'u \<Rightarrow> string \<Rightarrow> 'u option"
  nu_host :: "'u \<Rightarrow> string option"
  nu_port :: "'u \<Rightarrow> nat option"
  nu_uri :: "string \<Rightarrow> uri option"

subsection \<open>Addresses in messages\<close>

definition redacted :: "('h, 'u) externs \<Rightarrow> 'u net_crates \<Rightarrow> string \<Rightarrow> string" where
  "redacted X N url =
     (case url_parse X url of
        None \<Rightarrow> ''<url>''
      | Some u \<Rightarrow>
          (case nu_host N u of
             Some host \<Rightarrow>
               if host \<noteq> [] then url_scheme X u @ ''://'' @ host
                 @ (case nu_port N u of Some p \<Rightarrow> '':'' @ show_nat p | None \<Rightarrow> [])
               else url_scheme X u @ '':<redacted>''
           | None \<Rightarrow> url_scheme X u @ '':<redacted>''))"

datatype net_error =
    NetCache cache_error
  | NetHttp
  | NetTransport string
  | NetInvalidUrl string
  | NetDns string
  | NetBodyTooLarge nat
  | NetTooManyRedirects nat
  | NetRedirectLoop string
  | NetLostBody string
  | NetIntegrity string

text \<open>What an error says of itself; \<open>other\<close> is the text of a library's own error.\<close>

fun cache_error_text :: "string \<Rightarrow> cache_error \<Rightarrow> string" where
  "cache_error_text other Io = ''io: '' @ other"
| "cache_error_text other (Index e) = ''index: '' @ e"
| "cache_error_text other (Codec e) = ''codec: '' @ e"
| "cache_error_text other (MissingBlob b) = ''blob '' @ b @ '' is missing from the store''"
| "cache_error_text other (Integrity expected actual) =
     ''integrity check failed: expected '' @ expected @ '', computed '' @ actual"
| "cache_error_text other (BadIntegrity e) = ''malformed integrity metadata: '' @ e"
| "cache_error_text other (SchemaMismatch found expected) =
     ''the cache index was written under schema ''
     @ (case found of Some v \<Rightarrow> show_nat v | None \<Rightarrow> ''an unversioned layout'')
     @ '' but this build understands '' @ show_nat expected"
| "cache_error_text other AlreadyOpen = ''the cache index is already open elsewhere''"

fun net_error_text :: "('h, 'u) externs \<Rightarrow> 'u net_crates \<Rightarrow> string \<Rightarrow> net_error \<Rightarrow> string" where
  "net_error_text X N other (NetCache e) = ''cache: '' @ cache_error_text other e"
| "net_error_text X N other NetHttp = ''http: '' @ other"
| "net_error_text X N other (NetTransport e) = ''transport: '' @ e"
| "net_error_text X N other (NetInvalidUrl url) = ''invalid url '' @ redacted X N url"
| "net_error_text X N other (NetDns e) = ''dns: '' @ e"
| "net_error_text X N other (NetBodyTooLarge limit) = ''body exceeds the '' @ show_nat limit @ '' byte ceiling''"
| "net_error_text X N other (NetTooManyRedirects limit) = ''more than '' @ show_nat limit @ '' redirects''"
| "net_error_text X N other (NetRedirectLoop url) = ''redirect loop back to '' @ redacted X N url"
| "net_error_text X N other (NetLostBody url) =
     ''the stored body of '' @ redacted X N url @ '' was lost, and the origin would not send it again''"
| "net_error_text X N other (NetIntegrity e) = ''integrity: '' @ e"

subsection \<open>Where bytes came from\<close>

datatype source =
    FromCache
  | FromCacheStale
  | FromRevalidated
  | FromOrigin
  | FromStaleOnError
  | FromPeer
  | FromPassThrough

fun source_str :: "source \<Rightarrow> string" where
  "source_str FromCache = ''cache''"
| "source_str FromCacheStale = ''cache-stale''"
| "source_str FromRevalidated = ''revalidated''"
| "source_str FromOrigin = ''origin''"
| "source_str FromStaleOnError = ''stale-on-error''"
| "source_str FromPeer = ''peer''"
| "source_str FromPassThrough = ''pass-through''"

definition avoided_transfer :: "source \<Rightarrow> bool" where
  "avoided_transfer s \<longleftrightarrow> s \<in> {FromCache, FromCacheStale, FromRevalidated, FromStaleOnError, FromPeer}"

datatype protocol = NoProtocol | Http1 | Http2 | Http3

fun protocol_str :: "protocol \<Rightarrow> string" where
  "protocol_str NoProtocol = ''-''"
| "protocol_str Http1 = ''http/1.1''"
| "protocol_str Http2 = ''h2''"
| "protocol_str Http3 = ''h3''"

datatype http_version = HTTP_09 | HTTP_10 | HTTP_11 | HTTP_2 | HTTP_3

definition from_version :: "http_version \<Rightarrow> protocol" where
  "from_version v = (case v of HTTP_2 \<Rightarrow> Http2 | HTTP_3 \<Rightarrow> Http3 | _ \<Rightarrow> Http1)"

subsection \<open>Requests\<close>

datatype redirect_mode = Follow | Manual

record 'h fetch_request =
  fq_method :: string
  fq_url :: string
  fq_headers :: 'h
  fq_body :: bytes
  fq_integrity :: "integrity option"
  fq_partition :: "string option"
  fq_redirect :: redirect_mode

record net_config =
  nc_partition_cache :: bool
  nc_max_body_bytes :: nat
  nc_user_agent :: string
  nc_honour_stale_if_error :: bool
  nc_max_redirects :: nat
  nc_public_only :: bool
  nc_forward_accept_encoding :: bool

definition fetch_get :: "('h, 'u) externs \<Rightarrow> string \<Rightarrow> 'h fetch_request" where
  "fetch_get X url = \<lparr>fq_method = ''GET'', fq_url = url, fq_headers = hm_empty X, fq_body = [],
     fq_integrity = None, fq_partition = None, fq_redirect = Follow\<rparr>"

definition add_header :: "('h, 'u) externs \<Rightarrow> string \<Rightarrow> string \<Rightarrow> 'h fetch_request \<Rightarrow> 'h fetch_request" where
  "add_header X name value q =
     (case (name_from_bytes X name, value_from_str X value) of
        (Some n, Some v) \<Rightarrow> q\<lparr>fq_headers := hm_append X n v (fq_headers q)\<rparr>
      | _ \<Rightarrow> q)"

text \<open>An integrity declaration that constrains nothing, or that describes another thing, is refused.\<close>

definition refuse_unusable_integrity ::
    "('h, 'u) externs \<Rightarrow> 'u net_crates \<Rightarrow> 'h fetch_request \<Rightarrow> net_error + unit" where
  "refuse_unusable_integrity X N q =
     (case fq_integrity q of
        None \<Rightarrow> Inr ()
      | Some i \<Rightarrow>
          if i = [] then Inl (NetIntegrity (redacted X N (fq_url q) @ '': no usable hash was declared''))
          else if fq_method q \<noteq> ''GET''
          then Inl (NetIntegrity (redacted X N (fq_url q) @ '': declared integrity applies only to a GET''))
          else if hm_contains X (fq_headers q) ''range''
          then Inl (NetIntegrity (redacted X N (fq_url q)
            @ '': declared integrity describes a whole body, and this asked for a range''))
          else Inr ())"

definition asks_for_encoding :: "net_config \<Rightarrow> 'h fetch_request \<Rightarrow> bool" where
  "asks_for_encoding cfg q \<longleftrightarrow> nc_forward_accept_encoding cfg \<and> fq_integrity q = None"

subsection \<open>Redirects\<close>

definition REDIRECTS :: "nat list" where
  "REDIRECTS = [301, 302, 303, 307, 308]"

definition location_of :: "('h, 'u) externs \<Rightarrow> 'h \<Rightarrow> string option" where
  "location_of X headers =
     (case header_text X headers ''location'' of
        Some s \<Rightarrow> if trim s \<noteq> [] then Some (trim s) else None
      | None \<Rightarrow> None)"

definition is_hop :: "('h, 'u) externs \<Rightarrow> 'h fetch_request \<Rightarrow> nat \<Rightarrow> 'h \<Rightarrow> bool" where
  "is_hop X q status headers \<longleftrightarrow>
     fq_redirect q = Follow \<and> status \<in> set REDIRECTS \<and> location_of X headers \<noteq> None"

definition redirect_target :: "('h, 'u) externs \<Rightarrow> nat \<Rightarrow> 'h \<Rightarrow> string option" where
  "redirect_target X status headers = (if status \<in> set REDIRECTS then location_of X headers else None)"

definition same_origin :: "('h, 'u) externs \<Rightarrow> 'u net_crates \<Rightarrow> string \<Rightarrow> string \<Rightarrow> bool" where
  "same_origin X N a b \<longleftrightarrow>
     (case (url_parse X a, url_parse X b) of
        (Some a, Some b) \<Rightarrow> url_scheme X a = url_scheme X b \<and> nu_host N a = nu_host N b
          \<and> url_port_or_default X a = url_port_or_default X b
      | _ \<Rightarrow> False)"

definition SENSITIVE :: "string list" where
  "SENSITIVE = [''authorization'', ''cookie'', ''proxy-authorization'']"

definition OF_THE_TARGET :: "string list" where
  "OF_THE_TARGET = [''host'', ''content-length'', ''content-type'']"

definition forwardable_headers :: "('h, 'u) externs \<Rightarrow> 'u net_crates \<Rightarrow> 'h \<Rightarrow> string \<Rightarrow> string \<Rightarrow> 'h" where
  "forwardable_headers X N headers from to =
     fold (\<lambda>(name, value) out.
         if name \<in> set SENSITIVE \<and> \<not> same_origin X N from to then out
         else if name \<in> set OF_THE_TARGET then out
         else hm_append X name value out)
       (hm_iter X headers) (hm_empty X)"

text \<open>The request a redirect leads to.\<close>

definition redirected ::
    "('h, 'u) externs \<Rightarrow> 'u net_crates \<Rightarrow> 'h fetch_request \<Rightarrow> nat \<Rightarrow> string \<Rightarrow> 'h fetch_request" where
  "redirected X N q status next_url =
     (let preserve = (status = 307 \<or> status = 308)
      in \<lparr>fq_method = (if preserve then fq_method q else ''GET''),
          fq_url = next_url,
          fq_headers = forwardable_headers X N (fq_headers q) (fq_url q) next_url,
          fq_body = (if preserve then fq_body q else []),
          fq_integrity = fq_integrity q,
          fq_partition = fq_partition q,
          fq_redirect = fq_redirect q\<rparr>)"

text \<open>The cookies a 304 sets, added to what is served.\<close>

definition with_cookies_of :: "('h, 'u) externs \<Rightarrow> 'h \<Rightarrow> 'h \<Rightarrow> 'h" where
  "with_cookies_of X served not_modified =
     fold (\<lambda>name h. fold (hm_append X name) (hm_get_all X not_modified name) h) NEVER_STORED served"

subsection \<open>Bodies and types\<close>

definition matching_strongest :: "('h, 'u) externs \<Rightarrow> integrity \<Rightarrow> bytes \<Rightarrow> hash list" where
  "matching_strongest X i body =
     (case strongest i of
        None \<Rightarrow> []
      | Some s \<Rightarrow> filter (\<lambda>h. algorithm h = s \<and> hash_matches X h body) i)"

definition extension_type :: "string \<Rightarrow> string option" where
  "extension_type e =
     (if e \<in> {''js'', ''mjs''} then Some ''text/javascript; charset=utf-8''
      else if e = ''css'' then Some ''text/css; charset=utf-8''
      else if e = ''json'' then Some ''application/json''
      else if e = ''wasm'' then Some ''application/wasm''
      else if e = ''svg'' then Some ''image/svg+xml''
      else if e = ''png'' then Some ''image/png''
      else if e \<in> {''jpg'', ''jpeg''} then Some ''image/jpeg''
      else if e = ''webp'' then Some ''image/webp''
      else if e = ''avif'' then Some ''image/avif''
      else if e = ''gif'' then Some ''image/gif''
      else if e = ''woff2'' then Some ''font/woff2''
      else if e = ''woff'' then Some ''font/woff''
      else if e \<in> {''html'', ''htm''} then Some ''text/html; charset=utf-8''
      else None)"

definition infer_content_type :: "string \<Rightarrow> string option" where
  "infer_content_type url =
     (let path = takeWhile (\<lambda>c. c \<noteq> CHR ''?'' \<and> c \<noteq> CHR ''#'') url
      in case rsplit_once (CHR ''.'') path of
           None \<Rightarrow> None
         | Some (_, extension) \<Rightarrow> extension_type (to_lower extension))"

end
