(* ===== verification/Http3.thy ===== *)
theory Http3
  imports Fetch
begin

text \<open>
  Which origins speak HTTP/3, and what a request over it or over TCP carries:
  \<open>crates/syndeo-net/src/h3.rs\<close> and \<open>origin_headers\<close> of \<open>fetch.rs\<close>. An instant is its
  nanoseconds, and \<open>limit\<close> the last one the platform can hold. Opening connections and the
  transport itself are left to the environment of theory \<open>Net\<close>.
\<close>

subsection \<open>What an origin has told us\<close>

definition seconds :: "nat \<Rightarrow> nat" where
  "seconds n = n * 10 ^ 9"

definition DEFAULT_ALT_SVC_LIFETIME :: nat where
  "DEFAULT_ALT_SVC_LIFETIME = seconds (24 * 60 * 60)"

definition MAX_ALT_SVC_LIFETIME :: nat where
  "MAX_ALT_SVC_LIFETIME = seconds (30 * 24 * 60 * 60)"

definition FAILURE_COOLDOWN :: nat where
  "FAILURE_COOLDOWN = seconds (10 * 60)"

datatype advertisement = Available nat | FailedUntil nat

type_synonym alt_svc = "(string \<times> advertisement) list"

definition checked_add :: "nat \<Rightarrow> nat \<Rightarrow> nat \<Rightarrow> nat option" where
  "checked_add limit now by = (if now + by \<le> limit then Some (now + by) else None)"

definition trim_matches :: "char \<Rightarrow> string \<Rightarrow> string" where
  "trim_matches c s = rev (dropWhile (\<lambda>x. x = c) (rev (dropWhile (\<lambda>x. x = c) s)))"

text \<open>The lifetime an advertisement's parameters give it: the last readable \<open>ma\<close>, bounded.\<close>

definition lifetime_step :: "string \<Rightarrow> nat \<Rightarrow> nat" where
  "lifetime_step parameter lifetime =
     (case split_once (CHR ''='') (trim parameter) of
        Some (name, value) \<Rightarrow>
          if trim name = ''ma''
          then (case parse_u64 (trim_matches (CHR 0x22) (trim value)) of
                  Some secs \<Rightarrow> min (seconds secs) MAX_ALT_SVC_LIFETIME
                | None \<Rightarrow> lifetime)
          else lifetime
      | None \<Rightarrow> lifetime)"

fun h3_alternative :: "string list \<Rightarrow> nat option" where
  "h3_alternative [] = None"
| "h3_alternative (alternative # rest) =
     (let parts = split_on (CHR '';'') alternative
      in case split_once (CHR ''='') (trim (hd parts)) of
           None \<Rightarrow> h3_alternative rest
         | Some (name, _) \<Rightarrow>
             if trim name \<noteq> ''h3'' then h3_alternative rest
             else Some (fold lifetime_step (tl parts) DEFAULT_ALT_SVC_LIFETIME))"

definition parse_h3_advertisement :: "string \<Rightarrow> nat option" where
  "parse_h3_advertisement value = h3_alternative (split_on (CHR '','') value)"

definition observe :: "('h, 'u) externs \<Rightarrow> nat \<Rightarrow> nat \<Rightarrow> string \<Rightarrow> 'h \<Rightarrow> alt_svc \<Rightarrow> alt_svc" where
  "observe X limit now authority headers known =
     (case header_text X headers ''alt-svc'' of
        None \<Rightarrow> known
      | Some value \<Rightarrow>
          if eq_ic (trim value) ''clear'' then AList.delete authority known
          else (case parse_h3_advertisement value of
                  None \<Rightarrow> known
                | Some lifetime \<Rightarrow>
                    (case checked_add limit now lifetime of
                       None \<Rightarrow> known
                     | Some until \<Rightarrow> AList.update authority (Available until) known)))"

definition should_try :: "nat \<Rightarrow> string \<Rightarrow> alt_svc \<Rightarrow> alt_svc \<times> bool" where
  "should_try now authority known =
     (case map_of known authority of
        Some (Available until) \<Rightarrow>
          if now < until then (known, True) else (AList.delete authority known, False)
      | Some (FailedUntil until) \<Rightarrow>
          if now < until then (known, False) else (AList.delete authority known, False)
      | None \<Rightarrow> (known, False))"

definition attempt_failed :: "nat \<Rightarrow> nat \<Rightarrow> string \<Rightarrow> alt_svc \<Rightarrow> alt_svc" where
  "attempt_failed limit now authority known =
     (let until = (case checked_add limit now FAILURE_COOLDOWN of Some t \<Rightarrow> t | None \<Rightarrow> now)
      in AList.update authority (FailedUntil until) known)"

subsection \<open>Requests as they are sent\<close>

datatype reached = ReachedNothing | ReachedRequest

definition may_retry_over_tcp :: "string \<Rightarrow> reached \<Rightarrow> bool" where
  "may_retry_over_tcp meth reached \<longleftrightarrow>
     reached = ReachedNothing
     \<or> meth \<in> {''GET'', ''HEAD'', ''OPTIONS'', ''TRACE'', ''PUT'', ''DELETE''}"

definition with_extra :: "('h, 'u) externs \<Rightarrow> (string \<times> string) list \<Rightarrow> 'h \<Rightarrow> 'h" where
  "with_extra X extra headers =
     fold (\<lambda>(name, value) h. case value_from_str X value of Some v \<Rightarrow> hm_insert X name v h | None \<Rightarrow> h) extra headers"

text \<open>Over TCP: no hop-by-hop field, ours unless the caller named itself, and no coding unasked.\<close>

definition forwarded :: "('h, 'u) externs \<Rightarrow> string list \<Rightarrow> 'h \<Rightarrow> 'h" where
  "forwarded X tokens headers =
     fold (\<lambda>(name, value) h. if is_hop_by_hop name tokens then h else hm_append X name value h)
       (hm_iter X headers) (hm_empty X)"

definition tcp_headers ::
    "('h, 'u) externs \<Rightarrow> net_config \<Rightarrow> 'h fetch_request \<Rightarrow> (string \<times> string) list \<Rightarrow> 'h" where
  "tcp_headers X cfg q extra =
     (let h1 = with_extra X extra (forwarded X (connection_tokens X (fq_headers q)) (fq_headers q));
          h2 = (if \<not> hm_contains X h1 ''user-agent''
                then (case value_from_str X (nc_user_agent cfg) of
                        Some v \<Rightarrow> hm_insert X ''user-agent'' v h1 | None \<Rightarrow> h1)
                else h1)
      in if \<not> asks_for_encoding cfg q then hm_remove X ''accept-encoding'' h2 else h2)"

text \<open>Over QUIC: the same fields, with the extras, less those HTTP/3 rejects and the host.\<close>

definition quic_headers ::
    "('h, 'u) externs \<Rightarrow> net_config \<Rightarrow> 'h fetch_request \<Rightarrow> (string \<times> string) list \<Rightarrow> 'h" where
  "quic_headers X cfg q extra =
     (let h1 = with_extra X extra (fq_headers q);
          h2 = (if \<not> asks_for_encoding cfg q then hm_remove X ''accept-encoding'' h1 else h1)
      in fold (\<lambda>(name, value) h.
             if is_hop_by_hop name [] then h else if name = ''host'' then h else hm_append X name value h)
           (hm_iter X h2) (hm_empty X))"

end
