(* ===== verification/Net.thy ===== *)
theory Net
  imports Http3
begin

text \<open>
  The fetcher: \<open>Net\<close> of \<open>crates/syndeo-net/src/fetch.rs\<close>, with \<open>Tee\<close> and \<open>FetchBody\<close> of
  \<open>body.rs\<close>. A fetch takes the state shared by every task and its own log of what it handed to
  the network, and returns them with its result. The environment holds the configuration, the
  network (what answers the \<open>n\<close>th request this fetch makes), the swarm, and what the other
  tasks do to the shared state while this one waits for the \<open>n\<close>th time (\<open>ev_meanwhile\<close>): a
  property that holds for every environment holds however tasks interleave. A body that has
  arrived is kept as the list of what its stream still holds.
\<close>

subsection \<open>State\<close>

datatype frame = FrameData bytes | FrameTrailers | FrameBroken string

record 'h arrival =
  av_status :: nat
  av_headers :: 'h
  av_frames :: "frame list"
  av_version :: http_version
  av_from :: "ip_addr option"

datatype transport = OverTcp | OverQuic

record 'h outgoing =
  og_transport :: transport
  og_method :: string
  og_url :: string
  og_headers :: 'h
  og_body :: bytes

record keep =
  kp_since :: nat
  kp_public_only :: bool

record 'h teed =
  te_writer :: "blob_writer option"
  te_over_budget :: bool
  te_limit :: nat
  te_request :: "'h fetch_request"
  te_status :: nat
  te_headers :: 'h
  te_request_time :: nat
  te_keep :: keep
  te_from :: "ip_addr option"

record 'h arriving =
  ar_chunks :: "(net_error + bytes) list"
  ar_tee :: "'h teed option"

datatype 'h fetch_body = Buffered bytes | Arriving "'h arriving"

record 'h fetch_response =
  fr_status :: nat
  fr_headers :: 'h
  fr_body :: "'h fetch_body"
  fr_source :: source
  fr_elapsed_ms :: nat
  fr_content :: "content_id option"
  fr_final_url :: string
  fr_redirects :: nat
  fr_protocol :: protocol

record 'h answered =
  an_status :: nat
  an_headers :: 'h
  an_body :: bytes
  an_from :: "ip_addr option"

text \<open>An entry still being written, and a refresh that has been started.\<close>

record 'h landing =
  la_address :: string
  la_tee :: "'h teed"
  la_writer :: blob_writer

record 'h refresh_task =
  rt_key :: string
  rt_request :: "'h fetch_request"
  rt_conditional :: "(string \<times> string) list"
  rt_keep :: keep

record 'h net =
  nt_cache :: cache
  nt_cleared :: nat
  nt_alt_svc :: alt_svc
  nt_refreshing :: "string list"
  nt_tasks :: "'h refresh_task list"
  nt_announced :: nat
  nt_landing :: "'h landing list"
  nt_now :: nat
  nt_instant :: nat
  nt_serial :: nat

record 'h run =
  ru_net :: "'h net"
  ru_sent :: "'h outgoing list"
  ru_waits :: nat

record ('h, 'u) net_env =
  ev_externs :: "('h, 'u) externs"
  ev_crates :: "'u net_crates"
  ev_config :: net_config
  ev_instant_max :: nat
  ev_tcp :: "'h outgoing \<Rightarrow> nat \<Rightarrow> net_error + 'h arrival"
  ev_quic :: "('h outgoing \<Rightarrow> nat \<Rightarrow> reached \<times> net_error + 'h arrival) option"
  ev_peers :: "(hash \<Rightarrow> nat \<Rightarrow> net_error + bytes) option"
  ev_meanwhile :: "nat \<Rightarrow> 'h net \<Rightarrow> 'h net"
  ev_unique :: "nat \<Rightarrow> string"

definition and_net ::
    "'h run \<times> (net_error + 'a) \<Rightarrow> ('a \<Rightarrow> 'h run \<Rightarrow> 'h run \<times> (net_error + 'b)) \<Rightarrow> 'h run \<times> (net_error + 'b)" where
  "and_net m f = (case m of (r, Inl e) \<Rightarrow> (r, Inl e) | (r, Inr a) \<Rightarrow> f a r)"

definition waited :: "('h, 'u) net_env \<Rightarrow> 'h run \<Rightarrow> 'h run" where
  "waited E r = r\<lparr>ru_net := ev_meanwhile E (ru_waits r) (ru_net r), ru_waits := Suc (ru_waits r)\<rparr>"

definition on_net :: "('h net \<Rightarrow> 'h net) \<Rightarrow> 'h run \<Rightarrow> 'h run" where
  "on_net f r = r\<lparr>ru_net := f (ru_net r)\<rparr>"

definition with_cache :: "(cache \<Rightarrow> cache) \<Rightarrow> 'h net \<Rightarrow> 'h net" where
  "with_cache f n = n\<lparr>nt_cache := f (nt_cache n)\<rparr>"

subsection \<open>What may be stored\<close>

definition keep_now :: "net_config \<Rightarrow> 'h net \<Rightarrow> keep" where
  "keep_now cfg n = \<lparr>kp_since = nt_cleared n, kp_public_only = nc_public_only cfg\<rparr>"

definition admits :: "keep \<Rightarrow> nat \<Rightarrow> ip_addr option \<Rightarrow> bool" where
  "admits k cleared from \<longleftrightarrow>
     (if kp_public_only k \<and> \<not> (case from of Some ip \<Rightarrow> is_public ip | None \<Rightarrow> False) then False
      else cleared = kp_since k)"

definition clear_net :: "'h net \<Rightarrow> 'h net \<times> nat" where
  "clear_net n =
     (let (c, dropped) = clear_cache (nt_cache n)
      in (n\<lparr>nt_cleared := nt_cleared n + 1, nt_cache := c\<rparr>, dropped))"

definition exchange_of :: "'h fetch_request \<Rightarrow> nat \<Rightarrow> 'h \<Rightarrow> nat \<Rightarrow> nat \<Rightarrow> 'h exchange" where
  "exchange_of q status headers asked answered_at =
     \<lparr>x_partition = fq_partition q, x_method = fq_method q, x_url = fq_url q, x_request = fq_headers q,
      x_status = status, x_response = headers, x_request_time = asked, x_response_time = answered_at,
      x_provenance = Origin\<rparr>"

definition net_store ::
    "('h, 'u) net_env \<Rightarrow> 'h fetch_request \<Rightarrow> 'h answered \<Rightarrow> keep \<Rightarrow> 'h net \<Rightarrow> 'h net \<times> content_id option" where
  "net_store E q a k n =
     (if \<not> admits k (nt_cleared n) (an_from a) then (n, None)
      else let (c, outcome) = store_with_provenance (ev_externs E) (ev_unique E (nt_serial n))
                 (exchange_of q (an_status a) (an_headers a) (nt_now n) (nt_now n)) (an_body a) (nt_now n) (nt_cache n)
           in (n\<lparr>nt_cache := c, nt_serial := Suc (nt_serial n)\<rparr>,
               case outcome of Inr (Stored content _) \<Rightarrow> Some content | _ \<Rightarrow> None))"

subsection \<open>Bodies that arrive\<close>

definition body_cut_short :: "string \<Rightarrow> net_error" where
  "body_cut_short reason = NetTransport (''the body was cut short: '' @ reason)"

fun tcp_chunks :: "frame list \<Rightarrow> (net_error + bytes) list" where
  "tcp_chunks [] = []"
| "tcp_chunks (FrameData b # rest) = Inr b # tcp_chunks rest"
| "tcp_chunks (FrameTrailers # rest) = tcp_chunks rest"
| "tcp_chunks (FrameBroken reason # rest) = Inl (body_cut_short reason) # tcp_chunks rest"

fun quic_chunks :: "frame list \<Rightarrow> (net_error + bytes) list" where
  "quic_chunks [] = []"
| "quic_chunks (FrameData b # rest) = Inr b # quic_chunks rest"
| "quic_chunks (FrameTrailers # rest) = []"
| "quic_chunks (FrameBroken reason # rest) = [Inl (body_cut_short (''h3: '' @ reason))]"

fun collect_body :: "nat \<Rightarrow> bytes \<Rightarrow> (net_error + bytes) list \<Rightarrow> net_error + bytes" where
  "collect_body limit out [] = Inr out"
| "collect_body limit out (Inl e # rest) = Inl e"
| "collect_body limit out (Inr chunk # rest) =
     (if limit < length out + length chunk then Inl (NetBodyTooLarge limit)
      else collect_body limit (out @ chunk) rest)"

text \<open>The tee: a chunk goes to the writer as long as there is one and the limit is not passed.\<close>

definition abandoned :: "blob_writer \<Rightarrow> 'h net \<Rightarrow> 'h net" where
  "abandoned w n = with_cache (\<lambda>c. c\<lparr>files := writer_abandon w (files c)\<rparr>) n"

definition tee_observe :: "bytes \<Rightarrow> 'h teed \<Rightarrow> 'h net \<Rightarrow> 'h net \<times> 'h teed" where
  "tee_observe chunk t n =
     (case te_writer t of
        None \<Rightarrow> (n, t)
      | Some w \<Rightarrow>
          if te_limit t < bw_len w + length chunk
          then (abandoned w n, t\<lparr>te_over_budget := True, te_writer := None\<rparr>)
          else (case writer_write chunk w (files (nt_cache n)) of
                  (fs, Inr w') \<Rightarrow> (with_cache (\<lambda>c. c\<lparr>files := fs\<rparr>) n, t\<lparr>te_writer := Some w'\<rparr>)
                | (fs, Inl _) \<Rightarrow> (abandoned w (with_cache (\<lambda>c. c\<lparr>files := fs\<rparr>) n), t\<lparr>te_writer := None\<rparr>)))"

definition tee_discard :: "'h teed \<Rightarrow> 'h net \<Rightarrow> 'h net" where
  "tee_discard t n = (case te_writer t of Some w \<Rightarrow> abandoned w n | None \<Rightarrow> n)"

definition landing_address :: "('h, 'u) externs \<Rightarrow> string option \<Rightarrow> string \<Rightarrow> string" where
  "landing_address X part url =
     (case part of Some p \<Rightarrow> p | None \<Rightarrow> []) @ [CHR 0x0A] @ normalize_url X url"

definition land :: "('h, 'u) externs \<Rightarrow> 'h teed \<Rightarrow> 'h net \<Rightarrow> 'h net" where
  "land X t n =
     (case te_writer t of
        None \<Rightarrow> n
      | Some w \<Rightarrow> n\<lparr>nt_landing := nt_landing n
          @ [\<lparr>la_address = landing_address X (fq_partition (te_request t)) (fq_url (te_request t)),
              la_tee = t, la_writer = w\<rparr>]\<rparr>)"

text \<open>The next chunk, its end, or its failure, as the caller asks for it.\<close>

definition pull :: "('h, 'u) net_env \<Rightarrow> 'h arriving \<Rightarrow> 'h net \<Rightarrow> 'h net \<times> 'h arriving \<times> (net_error + bytes) option" where
  "pull E a n =
     (case ar_tee a of
        None \<Rightarrow>
          (case ar_chunks a of
             [] \<Rightarrow> (n, a, None)
           | x # rest \<Rightarrow> (n, a\<lparr>ar_chunks := rest\<rparr>, Some x))
      | Some t \<Rightarrow>
          (case ar_chunks a of
             [] \<Rightarrow> (land (ev_externs E) t n, a\<lparr>ar_tee := None\<rparr>, None)
           | Inr chunk # rest \<Rightarrow>
               (let (n', t') = tee_observe chunk t n in (n', \<lparr>ar_chunks = rest, ar_tee = Some t'\<rparr>, Some (Inr chunk)))
           | Inl e # rest \<Rightarrow> (tee_discard t n, \<lparr>ar_chunks = [], ar_tee = None\<rparr>, Some (Inl e))))"

text \<open>A body let go of before its end.\<close>

definition drop_body :: "'h fetch_body \<Rightarrow> 'h net \<Rightarrow> 'h net" where
  "drop_body b n =
     (case b of
        Buffered _ \<Rightarrow> n
      | Arriving a \<Rightarrow> (case ar_tee a of Some t \<Rightarrow> tee_discard t n | None \<Rightarrow> n))"

lemma pull_shrinks: "pull E a n = (n', a', Some x) \<Longrightarrow> length (ar_chunks a') < length (ar_chunks a)"
  by (auto simp: pull_def split: option.splits list.splits sum.splits prod.splits)

text \<open>The whole of a body: \<open>FetchBody::collect\<close>. The caller waits for each chunk.\<close>

function collect_arriving :: "('h, 'u) net_env \<Rightarrow> bytes \<Rightarrow> 'h arriving \<Rightarrow> 'h run \<Rightarrow> 'h run \<times> (net_error + bytes)" where
  "collect_arriving E out a r =
     (let r = waited E r
      in case pull E a (ru_net r) of
           (n, a', None) \<Rightarrow> (r\<lparr>ru_net := n\<rparr>, Inr out)
         | (n, a', Some (Inl e)) \<Rightarrow> (r\<lparr>ru_net := drop_body (Arriving a') n\<rparr>, Inl e)
         | (n, a', Some (Inr chunk)) \<Rightarrow> collect_arriving E (out @ chunk) a' (r\<lparr>ru_net := n\<rparr>))"
  by pat_completeness auto
termination by (relation "measure (\<lambda>(E, out, a, r). length (ar_chunks a))") (auto dest: pull_shrinks [OF sym])

declare collect_arriving.simps [simp del]

definition collect_fetched :: "('h, 'u) net_env \<Rightarrow> 'h fetch_body \<Rightarrow> 'h run \<Rightarrow> 'h run \<times> (net_error + bytes)" where
  "collect_fetched E b r = (case b of Buffered bs \<Rightarrow> (r, Inr bs) | Arriving a \<Rightarrow> collect_arriving E [] a r)"

subsection \<open>Asking the origin\<close>

definition send_request ::
    "('h, 'u) net_env \<Rightarrow> 'h outgoing \<Rightarrow> 'h run \<Rightarrow> 'h run \<times> nat" where
  "send_request E out r = (waited E (r\<lparr>ru_sent := ru_sent r @ [out]\<rparr>), length (ru_sent r))"

definition origin_headers ::
    "('h, 'u) net_env \<Rightarrow> 'h fetch_request \<Rightarrow> (string \<times> string) list \<Rightarrow> 'h run \<Rightarrow> 'h run \<times> (net_error + 'h arrival)" where
  "origin_headers E q extra r =
     (case nu_uri (ev_crates E) (fq_url q) of
        None \<Rightarrow> (r, Inl (NetInvalidUrl (fq_url q)))
      | Some u \<Rightarrow>
          if ur_host u = None then (r, Inl (NetInvalidUrl (fq_url q)))
          else let out = \<lparr>og_transport = OverTcp, og_method = fq_method q, og_url = fq_url q,
                     og_headers = tcp_headers (ev_externs E) (ev_config E) q extra, og_body = fq_body q\<rparr>;
                   (r', n) = send_request E out r
               in (r', ev_tcp E out n))"

definition origin_request ::
    "('h, 'u) net_env \<Rightarrow> 'h fetch_request \<Rightarrow> (string \<times> string) list \<Rightarrow> 'h run \<Rightarrow> 'h run \<times> (net_error + 'h answered)" where
  "origin_request E q extra r =
     and_net (origin_headers E q extra r) (\<lambda>a r.
       (waited E r,
        case collect_body (nc_max_body_bytes (ev_config E)) [] (tcp_chunks (av_frames a)) of
          Inl e \<Rightarrow> Inl e
        | Inr body \<Rightarrow> Inr \<lparr>an_status = av_status a, an_headers = av_headers a, an_body = body, an_from = av_from a\<rparr>))"

text \<open>What an origin answered over either transport, its body not yet read.\<close>

record 'h incoming =
  in_status :: nat
  in_headers :: 'h
  in_chunks :: "(net_error + bytes) list"
  in_protocol :: protocol
  in_from :: "ip_addr option"

definition over_tcp ::
    "('h, 'u) net_env \<Rightarrow> string \<Rightarrow> 'h fetch_request \<Rightarrow> (string \<times> string) list \<Rightarrow> 'h run \<Rightarrow> 'h run \<times> (net_error + 'h incoming)" where
  "over_tcp E authority q extra r =
     and_net (origin_headers E q extra r) (\<lambda>a r.
       ((if authority \<noteq> []
         then on_net (\<lambda>n. n\<lparr>nt_alt_svc := observe (ev_externs E) (ev_instant_max E) (nt_instant n) authority
                (av_headers a) (nt_alt_svc n)\<rparr>) r
         else r),
        Inr \<lparr>in_status = av_status a, in_headers = av_headers a, in_chunks = tcp_chunks (av_frames a),
             in_protocol = from_version (av_version a), in_from = av_from a\<rparr>))"

definition over_quic ::
    "('h, 'u) net_env \<Rightarrow> ('h outgoing \<Rightarrow> nat \<Rightarrow> reached \<times> net_error + 'h arrival) \<Rightarrow> 'h fetch_request
      \<Rightarrow> (string \<times> string) list \<Rightarrow> 'h run \<Rightarrow> 'h run \<times> (reached \<times> net_error + 'h incoming)" where
  "over_quic E quic q extra r =
     (let out = \<lparr>og_transport = OverQuic, og_method = fq_method q, og_url = fq_url q,
            og_headers = quic_headers (ev_externs E) (ev_config E) q extra, og_body = fq_body q\<rparr>;
          (r', n) = send_request E out r
      in (r', case quic out n of
           Inl failed \<Rightarrow> Inl failed
         | Inr a \<Rightarrow> Inr \<lparr>in_status = av_status a,
               in_headers = hm_remove (ev_externs E) ''transfer-encoding'' (av_headers a),
               in_chunks = quic_chunks (av_frames a), in_protocol = Http3, in_from = av_from a\<rparr>))"

definition origin_any ::
    "('h, 'u) net_env \<Rightarrow> 'h fetch_request \<Rightarrow> (string \<times> string) list \<Rightarrow> 'h run \<Rightarrow> 'h run \<times> (net_error + 'h incoming)" where
  "origin_any E q extra r =
     (case nu_uri (ev_crates E) (fq_url q) of
        None \<Rightarrow> (r, Inl (NetInvalidUrl (fq_url q)))
      | Some u \<Rightarrow>
          let authority = (case ur_authority u of Some a \<Rightarrow> a | None \<Rightarrow> []);
              n = ru_net r; (known, try) = should_try (nt_instant n) authority (nt_alt_svc n)
          in if \<not> ur_https u then over_tcp E authority q extra r
             else let r = on_net (nt_alt_svc_update (\<lambda>_. known)) r
             in case (try, ev_quic E) of
                  (True, Some quic) \<Rightarrow>
                    (case over_quic E quic q extra r of
                       (r, Inr a) \<Rightarrow> (r, Inr a)
                     | (r, Inl (reached, e)) \<Rightarrow>
                         let r = on_net (\<lambda>n. n\<lparr>nt_alt_svc :=
                                   attempt_failed (ev_instant_max E) (nt_instant n) authority (nt_alt_svc n)\<rparr>) r
                         in if \<not> may_retry_over_tcp (fq_method q) reached then (r, Inl e)
                            else over_tcp E authority q extra r)
                | _ \<Rightarrow> over_tcp E authority q extra r)"

subsection \<open>Declared integrity, and what is shared because of it\<close>

definition announce :: "('h, 'u) net_env \<Rightarrow> hash list \<Rightarrow> 'h net \<Rightarrow> 'h net" where
  "announce E hashes n =
     (if ev_peers E = None \<or> hashes = [] then n
      else n\<lparr>nt_announced := wrap64 (nt_announced n + length hashes)\<rparr>)"

definition grant_and_announce :: "('h, 'u) net_env \<Rightarrow> content_id \<Rightarrow> integrity \<Rightarrow> 'h net \<Rightarrow> 'h net" where
  "grant_and_announce E content i n =
     (let (c, res) = grant_peer_eligibility (ev_externs E) content i (nt_cache n); n' = n\<lparr>nt_cache := c\<rparr>
      in case res of Inr granted \<Rightarrow> announce E granted n' | Inl _ \<Rightarrow> n')"

definition share_verified ::
    "('h, 'u) net_env \<Rightarrow> content_id \<Rightarrow> integrity \<Rightarrow> hash list \<Rightarrow> 'h net \<Rightarrow> 'h net" where
  "share_verified E content i matching n =
     (if list_all (\<lambda>h. h \<in> set (peer_eligibility content (nt_cache n))) matching then n
      else grant_and_announce E content i n)"

definition stored_satisfies ::
    "('h, 'u) net_env \<Rightarrow> 'h fetch_request \<Rightarrow> 'h stored_response \<Rightarrow> 'h net \<Rightarrow> 'h net \<times> bool" where
  "stored_satisfies E q stored n =
     (case fq_integrity q of
        None \<Rightarrow> (n, True)
      | Some i \<Rightarrow>
          if is_hop (ev_externs E) q (r_status stored) (r_headers stored) then (n, True)
          else let matching = matching_strongest (ev_externs E) i (r_body stored)
          in if matching \<noteq> []
             then ((case r_content stored of Some content \<Rightarrow> share_verified E content i matching n | None \<Rightarrow> n), True)
             else ((case r_content stored of
                      Some content \<Rightarrow> with_cache (\<lambda>c. fst (discard_representation (ev_externs E) (r_key stored) content c)) n
                    | None \<Rightarrow> n), False))"

definition finish ::
    "'h net \<Rightarrow> nat \<Rightarrow> 'h \<Rightarrow> 'h fetch_body \<Rightarrow> source \<Rightarrow> content_id option \<Rightarrow> nat \<Rightarrow> protocol \<Rightarrow> 'h fetch_response" where
  "finish n status headers body src content started proto =
     \<lparr>fr_status = status, fr_headers = headers, fr_body = body, fr_source = src,
      fr_elapsed_ms = (nt_instant n - started) div 10 ^ 6, fr_content = content, fr_final_url = [],
      fr_redirects = 0, fr_protocol = proto\<rparr>"

definition accept_declared ::
    "('h, 'u) net_env \<Rightarrow> 'h fetch_request \<Rightarrow> integrity \<Rightarrow> 'h answered \<Rightarrow> nat \<Rightarrow> protocol \<Rightarrow> keep \<Rightarrow> 'h run
      \<Rightarrow> 'h run \<times> (net_error + 'h fetch_response)" where
  "accept_declared E q i a started proto k r =
     (let hop = is_hop (ev_externs E) q (an_status a) (an_headers a)
      in case (if hop then Inr () else check_integrity (ev_externs E) i (an_body a)) of
           Inl e \<Rightarrow> (r, Inl (NetIntegrity (redacted (ev_externs E) (ev_crates E) (fq_url q) @ '': '' @ cache_error_text [] e)))
         | Inr _ \<Rightarrow>
             (let (n, content) = net_store E q a k (ru_net r);
                  n = (case content of
                         Some cid \<Rightarrow> if hop then n else grant_and_announce E cid i n
                       | None \<Rightarrow> n)
              in (r\<lparr>ru_net := n\<rparr>,
                  Inr (finish n (an_status a) (an_headers a) (Buffered (an_body a))
                    (if content \<noteq> None then FromOrigin else FromPassThrough) content started proto))))"

subsection \<open>Streaming into the cache\<close>

definition stream_body ::
    "('h, 'u) net_env \<Rightarrow> 'h fetch_request \<Rightarrow> 'h incoming \<Rightarrow> keep \<Rightarrow> 'h net \<Rightarrow> 'h net \<times> 'h fetch_body" where
  "stream_body E q a k n =
     (if \<not> admits k (nt_cleared n) (in_from a) then (n, Arriving \<lparr>ar_chunks = in_chunks a, ar_tee = None\<rparr>)
      else let (fs, w) = writer (ev_unique E (nt_serial n)) (files (nt_cache n))
           in ((with_cache (\<lambda>c. c\<lparr>files := fs\<rparr>) n)\<lparr>nt_serial := Suc (nt_serial n)\<rparr>,
               Arriving \<lparr>ar_chunks = in_chunks a,
                 ar_tee = Some \<lparr>te_writer = Some w, te_over_budget = False,
                   te_limit = nc_max_body_bytes (ev_config E), te_request = q, te_status = in_status a,
                   te_headers = in_headers a, te_request_time = nt_now n, te_keep = k, te_from = in_from a\<rparr>\<rparr>))"

text \<open>The entry of a body that arrived whole, written behind it.\<close>

definition write_streamed :: "('h, 'u) net_env \<Rightarrow> 'h landing \<Rightarrow> 'h net \<Rightarrow> 'h net" where
  "write_streamed E l n =
     (let t = la_tee l; w = la_writer l
      in if \<not> admits (te_keep t) (nt_cleared n) (te_from t) then abandoned w n
         else n\<lparr>nt_cache := fst (finish_streamed (ev_externs E) (ev_unique E (nt_serial n))
                  (exchange_of (te_request t) (te_status t) (te_headers t) (te_request_time t) (nt_now n))
                  w (nt_now n) (nt_cache n)),
                nt_serial := Suc (nt_serial n)\<rparr>)"

definition landed_at :: "string option \<Rightarrow> 'h landing \<Rightarrow> bool" where
  "landed_at address l \<longleftrightarrow> (case address of Some a \<Rightarrow> la_address l = a | None \<Rightarrow> True)"

definition settled :: "('h, 'u) net_env \<Rightarrow> string option \<Rightarrow> 'h net \<Rightarrow> 'h net" where
  "settled E address n =
     fold (write_streamed E) (filter (landed_at address) (nt_landing n))
       (n\<lparr>nt_landing := filter (\<lambda>l. \<not> landed_at address l) (nt_landing n)\<rparr>)"

definition fetch_from_origin ::
    "('h, 'u) net_env \<Rightarrow> 'h fetch_request \<Rightarrow> (string \<times> string) list \<Rightarrow> nat \<Rightarrow> keep \<Rightarrow> 'h run
      \<Rightarrow> 'h run \<times> (net_error + 'h fetch_response)" where
  "fetch_from_origin E q extra started k r =
     and_net (origin_any E q extra r) (\<lambda>a r.
       case fq_integrity q of
         Some i \<Rightarrow>
           (let r = waited E r
            in case collect_body (nc_max_body_bytes (ev_config E)) [] (in_chunks a) of
                 Inl e \<Rightarrow> (r, Inl e)
               | Inr body \<Rightarrow>
                   accept_declared E q i \<lparr>an_status = in_status a, an_headers = in_headers a, an_body = body,
                     an_from = in_from a\<rparr> started (in_protocol a) k r)
       | None \<Rightarrow>
           (let (n, body) = stream_body E q a k (ru_net r)
            in (r\<lparr>ru_net := n\<rparr>,
                Inr (finish n (in_status a) (in_headers a) body FromOrigin None started (in_protocol a)))))"

subsection \<open>Peers\<close>

definition peer_headers :: "('h, 'u) externs \<Rightarrow> string \<Rightarrow> bytes \<Rightarrow> 'h" where
  "peer_headers X url body =
     (let h1 = (case infer_content_type url of
                  Some t \<Rightarrow> (case value_from_str X t of
                      Some v \<Rightarrow> hm_insert X ''content-type'' v (hm_empty X) | None \<Rightarrow> hm_empty X)
                | None \<Rightarrow> hm_empty X)
      in case value_from_str X (show_nat (length body)) of
           Some v \<Rightarrow> hm_insert X ''content-length'' v h1 | None \<Rightarrow> h1)"

definition try_peers ::
    "('h, 'u) net_env \<Rightarrow> 'h fetch_request \<Rightarrow> nat \<Rightarrow> 'h run \<Rightarrow> 'h run \<times> 'h fetch_response option" where
  "try_peers E q started r =
     (case (ev_peers E, fq_integrity q, Option.bind (fq_integrity q) strongest_hash) of
        (Some peers, Some i, Some h) \<Rightarrow>
          (let r' = waited E r
           in case peers h (ru_waits r) of
                Inl _ \<Rightarrow> (r', None)
              | Inr body \<Rightarrow>
                  (case accept_peer_body (ev_externs E) (ProofIntegrity i) body (nt_cache (ru_net r')) of
                     (c, Inl _) \<Rightarrow> (on_net (with_cache (\<lambda>_. c)) r', None)
                   | (c, Inr _) \<Rightarrow>
                       (on_net (with_cache (\<lambda>_. c)) r',
                        Some (finish (ru_net r') 200 (peer_headers (ev_externs E) (fq_url q) body) (Buffered body)
                          FromPeer (Some (content_of (ev_externs E) body)) started NoProtocol))))
      | _ \<Rightarrow> (r, None))"

subsection \<open>One hop\<close>

definition spawn_refresh ::
    "string \<Rightarrow> 'h fetch_request \<Rightarrow> (string \<times> string) list \<Rightarrow> keep \<Rightarrow> 'h net \<Rightarrow> 'h net" where
  "spawn_refresh key q conditional k n =
     (if key \<in> set (nt_refreshing n) then n
      else n\<lparr>nt_refreshing := key # nt_refreshing n,
             nt_tasks := nt_tasks n @ [\<lparr>rt_key = key, rt_request = q, rt_conditional = conditional, rt_keep = k\<rparr>]\<rparr>)"

definition refetch_lost ::
    "('h, 'u) net_env \<Rightarrow> 'h fetch_request \<Rightarrow> nat \<Rightarrow> keep \<Rightarrow> 'h run \<Rightarrow> 'h run \<times> (net_error + 'h fetch_response)" where
  "refetch_lost E q started k r =
     and_net (fetch_from_origin E q [] started k r) (\<lambda>resp r.
       if fr_status resp = 304 then (on_net (drop_body (fr_body resp)) r, Inl (NetLostBody (fq_url q)))
       else (r, Inr resp))"

definition served ::
    "'h run \<Rightarrow> 'h stored_response \<Rightarrow> 'h \<Rightarrow> source \<Rightarrow> nat \<Rightarrow> 'h run \<times> (net_error + 'h fetch_response)" where
  "served r s headers src started =
     (r, Inr (finish (ru_net r) (r_status s) headers (Buffered (r_body s)) src (r_content s) started NoProtocol))"

text \<open>A stored response, if it satisfies what the request declared, or else the origin's.\<close>

definition if_satisfied ::
    "('h, 'u) net_env \<Rightarrow> 'h fetch_request \<Rightarrow> 'h stored_response \<Rightarrow> nat \<Rightarrow> keep
      \<Rightarrow> ('h run \<Rightarrow> 'h run \<times> (net_error + 'h fetch_response)) \<Rightarrow> 'h run \<Rightarrow> 'h run \<times> (net_error + 'h fetch_response)" where
  "if_satisfied E q s started k serve r =
     (let (n, ok) = stored_satisfies E q s (ru_net r); r = r\<lparr>ru_net := n\<rparr>
      in if \<not> ok then fetch_from_origin E q [] started k r else serve r)"

definition confirmed ::
    "('h, 'u) net_env \<Rightarrow> 'h fetch_request \<Rightarrow> 'h stored_response \<Rightarrow> 'h answered \<Rightarrow> nat \<Rightarrow> keep \<Rightarrow> 'h run
      \<Rightarrow> 'h run \<times> (net_error + 'h fetch_response)" where
  "confirmed E q s a started k r =
     (let X = ev_externs E; now = nt_now (ru_net r)
      in if \<not> admits k (nt_cleared (ru_net r)) (an_from a)
         then served r s (with_cookies_of X (r_headers s) (an_headers a)) FromRevalidated started
         else let (c, recorded) = record_not_modified X (r_key s) (an_headers a) now now now (nt_cache (ru_net r));
                  r = on_net (with_cache (\<lambda>_. c)) r
              in case recorded of
                   Inr (Some refreshed) \<Rightarrow>
                     if_satisfied E q refreshed started k
                       (\<lambda>r. served r refreshed (with_cookies_of X (r_headers refreshed) (an_headers a)) FromRevalidated started) r
                 | Inr None \<Rightarrow> served r s (with_cookies_of X (r_headers s) (an_headers a)) FromCacheStale started
                 | Inl e \<Rightarrow> if is_lost_body e then refetch_lost E q started k r else (r, Inl (NetCache e)))"

definition revalidated ::
    "('h, 'u) net_env \<Rightarrow> 'h fetch_request \<Rightarrow> 'h stored_response \<Rightarrow> (string \<times> string) list \<Rightarrow> nat option
      \<Rightarrow> nat \<Rightarrow> keep \<Rightarrow> 'h run \<Rightarrow> 'h run \<times> (net_error + 'h fetch_response)" where
  "revalidated E q s conditional window started k r =
     (case origin_request E q conditional r of
        (r, Inr a) \<Rightarrow>
          if an_status a = 304 then confirmed E q s a started k r
          else (case fq_integrity q of
                  Some i \<Rightarrow> accept_declared E q i a started NoProtocol k r
                | None \<Rightarrow>
                    (let (n, content) = net_store E q a k (ru_net r)
                     in (r\<lparr>ru_net := n\<rparr>,
                         Inr (finish n (an_status a) (an_headers a) (Buffered (an_body a)) FromOrigin content started NoProtocol))))
      | (r, Inl e) \<Rightarrow>
          if nc_honour_stale_if_error (ev_config E) \<and> window \<noteq> None
          then served r s (r_headers s) FromStaleOnError started
          else (r, Inl e))"

definition fetch_unsafe ::
    "('h, 'u) net_env \<Rightarrow> 'h fetch_request \<Rightarrow> nat \<Rightarrow> 'h run \<Rightarrow> 'h run \<times> (net_error + 'h fetch_response)" where
  "fetch_unsafe E q started r =
     and_net (origin_request E q [] (on_net (with_cache (\<lambda>c.
         fst (invalidate_cache (ev_externs E) (fq_partition q) (fq_method q) (fq_url q) c))) r)) (\<lambda>a r.
       (r, Inr (finish (ru_net r) (an_status a) (an_headers a) (Buffered (an_body a)) FromPassThrough None started NoProtocol)))"

text \<open>A request that may be answered from the store, once what it may keep is settled.\<close>

definition fetch_asked ::
    "('h, 'u) net_env \<Rightarrow> 'h fetch_request \<Rightarrow> nat \<Rightarrow> keep \<Rightarrow> 'h run \<Rightarrow> 'h run \<times> (net_error + 'h fetch_response)" where
  "fetch_asked E q started k r =
     (let X = ev_externs E;
          (c, found) = lookup X (fq_partition q) (fq_method q) (fq_url q) (fq_headers q) (nt_now (ru_net r))
            (nt_cache (ru_net r));
          r = on_net (with_cache (\<lambda>_. c)) r
      in case found of
           Inl e \<Rightarrow> (r, Inl (NetCache e))
         | Inr (FreshHit s) \<Rightarrow>
             if_satisfied E q s started k (\<lambda>r. served r s (r_headers s) FromCache started) r
         | Inr (StaleHit s refresh _) \<Rightarrow>
             if_satisfied E q s started k (\<lambda>r.
               served (if refresh then on_net (spawn_refresh (r_key s) q (conditional_headers X (r_meta s)) k) r else r)
                 s (r_headers s) FromCacheStale started) r
         | Inr (RevalidateHit s conditional window _) \<Rightarrow>
             if_satisfied E q s started k (revalidated E q s conditional window started k) r
         | Inr (Miss _) \<Rightarrow>
             (case try_peers E q started r of
                (r, Some resp) \<Rightarrow> (r, Inr resp)
              | (r, None) \<Rightarrow> fetch_from_origin E q [] started k r))"

definition fetch_once ::
    "('h, 'u) net_env \<Rightarrow> 'h fetch_request \<Rightarrow> 'h run \<Rightarrow> 'h run \<times> (net_error + 'h fetch_response)" where
  "fetch_once E q r =
     (let started = nt_instant (ru_net r);
          r = waited E (on_net (settled E (Some (landing_address (ev_externs E) (fq_partition q) (fq_url q)))) r);
          k = keep_now (ev_config E) (ru_net r)
      in if invalidates (fq_method q) then fetch_unsafe E q started r else fetch_asked E q started k r)"

subsection \<open>Redirects\<close>

definition final_redirect :: "'h fetch_request \<Rightarrow> 'h fetch_response \<Rightarrow> net_error + 'h fetch_response" where
  "final_redirect q resp =
     (if fq_integrity q \<noteq> None
      then Inl (NetIntegrity (fq_url q @ '': a redirect that cannot be followed does not satisfy the declared integrity''))
      else Inr resp)"

function fetch_loop ::
    "('h, 'u) net_env \<Rightarrow> 'h fetch_request \<Rightarrow> nat \<Rightarrow> string list \<Rightarrow> 'h run \<Rightarrow> 'h run \<times> (net_error + 'h fetch_response)" where
  "fetch_loop E q redirects visited r =
     (case fetch_once E q r of
        (r, Inl e) \<Rightarrow> (r, Inl e)
      | (r, Inr resp) \<Rightarrow>
          let X = ev_externs E; N = ev_crates E; resp = resp\<lparr>fr_final_url := fq_url q, fr_redirects := redirects\<rparr>
          in if fq_redirect q = Manual then (r, Inr resp)
             else (case redirect_target X (fr_status resp) (fr_headers resp) of
                     None \<Rightarrow> (r, Inr resp)
                   | Some location \<Rightarrow>
                       let r = on_net (drop_body (fr_body resp)) r; resp = resp\<lparr>fr_body := Buffered []\<rparr>
                       in if nc_max_redirects (ev_config E) \<le> redirects
                          then (r, Inl (NetTooManyRedirects (nc_max_redirects (ev_config E))))
                          else (case Option.bind (url_parse X (fq_url q)) (\<lambda>base. nu_join N base location) of
                                  None \<Rightarrow> (r, final_redirect q resp)
                                | Some next_url \<Rightarrow>
                                    if url_scheme X next_url \<notin> {''http'', ''https''} then (r, final_redirect q resp)
                                    else let normalized = normalize_url X (url_to_string X next_url)
                                         in if normalized \<in> set visited then (r, Inl (NetRedirectLoop normalized))
                                            else fetch_loop E (redirected X N q (fr_status resp) (url_to_string X next_url))
                                                   (redirects + 1) (visited @ [normalized]) r)))"
  by pat_completeness auto
termination by (relation "measure (\<lambda>(E, q, redirects, visited, r). nc_max_redirects (ev_config E) - redirects)") auto

declare fetch_loop.simps [simp del]

definition fetch ::
    "('h, 'u) net_env \<Rightarrow> 'h fetch_request \<Rightarrow> 'h run \<Rightarrow> 'h run \<times> (net_error + 'h fetch_response)" where
  "fetch E q r =
     (case refuse_unusable_integrity (ev_externs E) (ev_crates E) q of
        Inl e \<Rightarrow> (r, Inl e)
      | Inr _ \<Rightarrow> fetch_loop E q 0 [normalize_url (ev_externs E) (fq_url q)] r)"

subsection \<open>Background refreshes\<close>

datatype refreshed = RefreshStored "hash list" | RefreshNotStored

definition refresh_answered ::
    "('h, 'u) net_env \<Rightarrow> 'h refresh_task \<Rightarrow> 'h answered \<Rightarrow> 'h net \<Rightarrow> 'h net \<times> (net_error + refreshed)" where
  "refresh_answered E t a n =
     (let X = ev_externs E; q = rt_request t; now = nt_now n
      in if \<not> admits (rt_keep t) (nt_cleared n) (an_from a) then (n, Inr RefreshNotStored)
         else if an_status a = 304
         then (let (c, recorded) = record_not_modified X (rt_key t) (an_headers a) now now now (nt_cache n)
               in (with_cache (\<lambda>_. c) n,
                   case recorded of
                     Inl e \<Rightarrow> Inl (NetCache e)
                   | Inr (Some _) \<Rightarrow> Inr (RefreshStored [])
                   | Inr None \<Rightarrow> Inr RefreshNotStored))
         else let hop = is_hop X q (an_status a) (an_headers a);
                  declared = (if hop then None else fq_integrity q)
              in if (case declared of Some i \<Rightarrow> \<not> verify X i (an_body a) | None \<Rightarrow> False) then (n, Inr RefreshNotStored)
                 else let (c, outcome) = store_with_provenance X (ev_unique E (nt_serial n))
                            (exchange_of q (an_status a) (an_headers a) now now) (an_body a) now (nt_cache n);
                          n = n\<lparr>nt_cache := c, nt_serial := Suc (nt_serial n)\<rparr>
                      in case outcome of
                           Inl e \<Rightarrow> (n, Inl (NetCache e))
                         | Inr (Stored content _) \<Rightarrow>
                             (case declared of
                                None \<Rightarrow> (n, Inr (RefreshStored []))
                              | Some i \<Rightarrow>
                                  (let (c, res) = grant_peer_eligibility X content i (nt_cache n)
                                   in (n\<lparr>nt_cache := c\<rparr>,
                                       case res of Inl e \<Rightarrow> Inl (NetCache e) | Inr hashes \<Rightarrow> Inr (RefreshStored hashes))))
                         | Inr (StoredPartial _ _) \<Rightarrow> (n, Inr (RefreshStored []))
                         | Inr (NotStored _) \<Rightarrow> (n, Inr RefreshNotStored))"

definition refresh_entry_of ::
    "('h, 'u) net_env \<Rightarrow> 'h refresh_task \<Rightarrow> 'h run \<Rightarrow> 'h run \<times> (net_error + refreshed)" where
  "refresh_entry_of E t r =
     and_net (origin_request E (rt_request t) (rt_conditional t) r) (\<lambda>a r.
       let (n, res) = refresh_answered E t a (ru_net r) in (r\<lparr>ru_net := n\<rparr>, res))"

definition run_refresh :: "('h, 'u) net_env \<Rightarrow> 'h refresh_task \<Rightarrow> 'h run \<Rightarrow> 'h run" where
  "run_refresh E t r =
     (let (r, res) = refresh_entry_of E t r;
          r = (case res of Inr (RefreshStored hashes) \<Rightarrow> on_net (announce E hashes) r | _ \<Rightarrow> r)
      in on_net (\<lambda>n. n\<lparr>nt_refreshing := removeAll (rt_key t) (nt_refreshing n)\<rparr>) r)"

end
