(* ===== verification/Net_Integrity.thy ===== *)
theory Net_Integrity
  imports Net
begin

text \<open>
  A declared integrity guards every body a fetch returns, whatever produced it: the store, a
  peer, the origin, a revalidation, or any of them after redirects.
\<close>

lemma matching_verify: "matching_strongest X i b \<noteq> [] \<Longrightarrow> verify X i b"
  by (auto simp: matching_strongest_def verify_def list_ex_iff filter_empty_conv split: option.splits)

lemma and_net_Inr: "and_net m f = (r', Inr b) \<longleftrightarrow> (\<exists>r a. m = (r, Inr a) \<and> f a r = (r', Inr b))"
  by (auto simp: and_net_def split: prod.splits sum.splits)

subsection \<open>Cookies do not move a redirect\<close>

definition header_laws :: "('h, 'u) externs \<Rightarrow> bool" where
  "header_laws X \<longleftrightarrow> header_map_ok X \<and> header_name_ok X"

lemma known_header: "header_laws X \<Longrightarrow> n \<noteq> [] \<Longrightarrow> length n \<le> 64 \<Longrightarrow> list_all name_char n \<Longrightarrow> to_lower n = n \<Longrightarrow> is_name X n"
  unfolding header_laws_def header_name_ok_def is_name_def by metis

lemma known_headers:
  assumes "header_laws X"
  shows "is_name X ''location''" "is_name X ''set-cookie''" "is_name X ''set-cookie2''" "is_name X ''content-type''"
    "is_name X ''authorization''" "is_name X ''cookie''" "is_name X ''proxy-authorization''"
    "is_name X ''user-agent''" "is_name X ''accept-encoding''" "is_name X ''if-none-match''" "is_name X ''if-modified-since''"
  by (rule known_header [OF assms]; simp add: name_char_def is_alpha_def is_lower_def is_upper_def is_digit_def to_lower_def lower_char_def)+

lemma header_appended:
  assumes "header_laws X" "is_name X n" "is_name X m"
  shows "hm_get_all X (fold (hm_append X n) vs h) m = hm_get_all X h m @ (if m = n then vs else [])"
  using assms(2,3) by (induction vs arbitrary: h) (use assms(1) in \<open>auto simp: header_laws_def header_map_ok_def\<close>)

lemma cookies_added:
  assumes "header_laws X" "is_name X m"
  shows "hm_get_all X (with_cookies_of X h not_modified) m =
     hm_get_all X h m @ (if m \<in> set NEVER_STORED then hm_get_all X not_modified m else [])"
  using known_headers(2,3) [OF assms(1)]
  by (auto simp: with_cookies_of_def NEVER_STORED_def header_appended [OF assms(1) _ assms(2)])

lemma location_cookies:
  assumes "header_laws X"
  shows "location_of X (with_cookies_of X h not_modified) = location_of X h"
proof -
  have "hm_get_all X (with_cookies_of X h not_modified) ''location'' = hm_get_all X h ''location''"
    by (simp add: cookies_added [OF assms known_headers(1) [OF assms]] NEVER_STORED_def)
  then have "hm_get X (with_cookies_of X h not_modified) ''location'' = hm_get X h ''location''"
    using assms by (simp add: header_laws_def header_map_ok_def)
  then show ?thesis by (simp add: location_of_def header_text_def)
qed

subsection \<open>One hop\<close>

text \<open>A response that is a redirect to be followed, or a body that satisfies the declaration.\<close>

definition guarded :: "('h, 'u) net_env \<Rightarrow> 'h fetch_request \<Rightarrow> integrity \<Rightarrow> 'h fetch_response \<Rightarrow> bool" where
  "guarded E q i resp \<longleftrightarrow>
     is_hop (ev_externs E) q (fr_status resp) (fr_headers resp)
     \<or> (\<exists>b. fr_body resp = Buffered b \<and> verify (ev_externs E) i b)"

lemma guarded_finish:
  "guarded E q i (finish n status headers (Buffered b) src content started proto) \<longleftrightarrow>
     is_hop (ev_externs E) q status headers \<or> verify (ev_externs E) i b"
  by (simp add: guarded_def finish_def)

definition stored_ok :: "('h, 'u) net_env \<Rightarrow> 'h fetch_request \<Rightarrow> integrity \<Rightarrow> 'h stored_response \<Rightarrow> bool" where
  "stored_ok E q i s \<longleftrightarrow>
     is_hop (ev_externs E) q (r_status s) (r_headers s) \<or> verify (ev_externs E) i (r_body s)"

lemma stored_satisfies_ok:
  "fq_integrity q = Some i \<Longrightarrow> stored_satisfies E q s n = (n', True) \<Longrightarrow> stored_ok E q i s"
  by (auto simp: stored_satisfies_def stored_ok_def Let_def intro: matching_verify split: if_splits)

lemma served_guarded:
  "stored_ok E q i s \<Longrightarrow> served r s (r_headers s) src started = (r', Inr resp) \<Longrightarrow> guarded E q i resp"
  by (auto simp: served_def guarded_finish stored_ok_def)

lemma served_with_cookies_guarded:
  "header_laws (ev_externs E) \<Longrightarrow> stored_ok E q i s \<Longrightarrow>
   served r s (with_cookies_of (ev_externs E) (r_headers s) nm) src started = (r', Inr resp) \<Longrightarrow> guarded E q i resp"
  by (auto simp: served_def guarded_finish stored_ok_def is_hop_def location_cookies)

lemma accept_declared_guarded:
  "accept_declared E q i a started proto k r = (r', Inr resp) \<Longrightarrow> guarded E q i resp"
  by (auto simp: accept_declared_def check_integrity_def guarded_finish Let_def split: if_splits prod.splits sum.splits)

lemma fetch_from_origin_guarded:
  assumes "fq_integrity q = Some i" "fetch_from_origin E q extra started k r = (r', Inr resp)"
  shows "guarded E q i resp"
proof -
  obtain a ra where "origin_any E q extra r = (ra, Inr a)" and a: "(let ra = waited E ra
      in case collect_body (nc_max_body_bytes (ev_config E)) [] (in_chunks a) of
           Inl e \<Rightarrow> (ra, Inl e)
         | Inr body \<Rightarrow> accept_declared E q i \<lparr>an_status = in_status a, an_headers = in_headers a, an_body = body,
             an_from = in_from a\<rparr> started (in_protocol a) k ra) = (r', Inr resp)"
    using assms(2) unfolding fetch_from_origin_def and_net_Inr assms(1) option.case by blast
  then show ?thesis
    by (cases "collect_body (nc_max_body_bytes (ev_config E)) [] (in_chunks a)")
      (auto intro: accept_declared_guarded)
qed

lemma if_satisfied_guarded:
  assumes "fq_integrity q = Some i" "if_satisfied E q s started k serve r = (r', Inr resp)"
    and "\<And>r r' resp. stored_ok E q i s \<Longrightarrow> serve r = (r', Inr resp) \<Longrightarrow> guarded E q i resp"
  shows "guarded E q i resp"
proof -
  obtain n ok where n: "stored_satisfies E q s (ru_net r) = (n, ok)" by fastforce
  show ?thesis
  proof (cases ok)
    case True
    then have "serve (r\<lparr>ru_net := n\<rparr>) = (r', Inr resp)" using assms(2) n by (simp add: if_satisfied_def)
    moreover have "stored_ok E q i s" by (rule stored_satisfies_ok [OF assms(1)]) (use n True in simp)
    ultimately show ?thesis using assms(3) by blast
  next
    case False
    then show ?thesis using assms(2) n fetch_from_origin_guarded [OF assms(1)] by (simp add: if_satisfied_def)
  qed
qed

lemma refetch_lost_guarded:
  assumes "fq_integrity q = Some i" "refetch_lost E q started k r = (r', Inr resp)"
  shows "guarded E q i resp"
  using assms fetch_from_origin_guarded [OF assms(1)]
  by (auto simp: refetch_lost_def and_net_Inr split: if_splits)

lemma confirmed_guarded:
  assumes "header_laws (ev_externs E)" "fq_integrity q = Some i" "stored_ok E q i s"
    and "confirmed E q s a started k r = (r', Inr resp)"
  shows "guarded E q i resp"
proof -
  obtain c recorded where rec: "record_not_modified (ev_externs E) (r_key s) (an_headers a) (nt_now (ru_net r))
      (nt_now (ru_net r)) (nt_now (ru_net r)) (nt_cache (ru_net r)) = (c, recorded)" by fastforce
  note s = served_with_cookies_guarded [OF assms(1)]
  show ?thesis
  proof (cases "admits k (nt_cleared (ru_net r)) (an_from a)")
    case False
    then show ?thesis using assms(4) s [OF assms(3)] by (simp add: confirmed_def Let_def)
  next
    case True
    note c = assms(4) [unfolded confirmed_def Let_def rec prod.case]
    show ?thesis
    proof (cases recorded)
      case (Inl e)
      then show ?thesis using c True refetch_lost_guarded [OF assms(2)] by (auto split: if_splits)
    next
      case (Inr found)
      show ?thesis
      proof (cases found)
        case None
        then show ?thesis using c True Inr s [OF assms(3)] by auto
      next
        case (Some refreshed)
        then have "if_satisfied E q refreshed started k
            (\<lambda>r. served r refreshed (with_cookies_of (ev_externs E) (r_headers refreshed) (an_headers a)) FromRevalidated started)
            (on_net (with_cache (\<lambda>_. c)) r) = (r', Inr resp)" using c True Inr by simp
        then show ?thesis using s by (rule if_satisfied_guarded [OF assms(2)]) blast+
      qed
    qed
  qed
qed

lemma revalidated_guarded:
  assumes "header_laws (ev_externs E)" "fq_integrity q = Some i" "stored_ok E q i s"
    and "revalidated E q s conditional window started k r = (r', Inr resp)"
  shows "guarded E q i resp"
  using assms(2,4) confirmed_guarded [OF assms(1-3)] accept_declared_guarded
    served_guarded [OF assms(3)]
  by (auto simp: revalidated_def split: prod.splits sum.splits if_splits)

lemma try_peers_guarded:
  assumes "fq_integrity q = Some i" "try_peers E q started r = (r', Some resp)"
  shows "guarded E q i resp"
  using assms
  by (auto simp: try_peers_def accept_peer_body_def guarded_finish Let_def
      split: option.splits sum.splits prod.splits if_splits)

lemma fetch_asked_guarded:
  assumes "header_laws (ev_externs E)" "fq_integrity q = Some i"
    and "fetch_asked E q started k r = (r', Inr resp)"
  shows "guarded E q i resp"
proof -
  obtain c found where l: "lookup (ev_externs E) (fq_partition q) (fq_method q) (fq_url q) (fq_headers q)
      (nt_now (ru_net r)) (nt_cache (ru_net r)) = (c, found)" by fastforce
  note f = assms(3) [unfolded fetch_asked_def Let_def l prod.case]
  note s = served_guarded
  show ?thesis
  proof (cases found)
    case (Inr h)
    show ?thesis
    proof (cases h)
      case (Miss reason)
      then show ?thesis using f Inr try_peers_guarded [OF assms(2)] fetch_from_origin_guarded [OF assms(2)]
        by (auto split: prod.splits option.splits)
    next
      case (FreshHit x)
      show ?thesis by (rule if_satisfied_guarded [OF assms(2) f [unfolded Inr FreshHit sum.case lookup.case]]) (use s in blast)
    next
      case (StaleHit x b reason)
      show ?thesis by (rule if_satisfied_guarded [OF assms(2) f [unfolded Inr StaleHit sum.case lookup.case]]) (use s in blast)
    next
      case (RevalidateHit x conditional window reason)
      show ?thesis
        by (rule if_satisfied_guarded [OF assms(2) f [unfolded Inr RevalidateHit sum.case lookup.case]])
          (use revalidated_guarded [OF assms(1,2)] in blast)
    qed
  qed (use f in simp)
qed

subsection \<open>Every hop\<close>

lemma final_redirect_integrity: "fq_integrity q = Some i \<Longrightarrow> final_redirect q resp \<noteq> Inr x"
  by (simp add: final_redirect_def)

lemma fetch_once_get: "fq_method q = ''GET'' \<Longrightarrow> fetch_once E q r = (r', res) \<Longrightarrow>
  \<exists>started k r0. fetch_asked E q started k r0 = (r', res)"
  by (auto simp: fetch_once_def Let_def invalidates_def to_upper_def upper_char_def is_lower_def)

lemma redirected_keeps:
  "fq_integrity (redirected X N q status url) = fq_integrity q"
  "fq_method q = ''GET'' \<Longrightarrow> fq_method (redirected X N q status url) = ''GET''"
  "fq_redirect (redirected X N q status url) = fq_redirect q"
  "fq_partition (redirected X N q status url) = fq_partition q"
  "fq_url (redirected X N q status url) = url"
  by (simp_all add: redirected_def Let_def)

lemma not_a_hop: "redirect_target X status headers = None \<Longrightarrow> \<not> is_hop X q status headers"
  by (auto simp: redirect_target_def is_hop_def split: if_splits)

text \<open>What a turn of the loop can end in: this hop's own answer, an error, or the next turn.\<close>

lemma fetch_loop_cases:
  assumes "fetch_loop E q redirects visited r = (r', Inr resp)"
  obtains (answered) x r1 where "fetch_once E q r = (r1, Inr x)"
      "fq_redirect q = Manual \<or> redirect_target (ev_externs E) (fr_status x) (fr_headers x) = None"
      "resp = x\<lparr>fr_final_url := fq_url q, fr_redirects := redirects\<rparr>" "r' = r1"
    | (final) x r1 y where "fetch_once E q r = (r1, Inr x)" "final_redirect q y = Inr resp"
        "y = x\<lparr>fr_final_url := fq_url q, fr_redirects := redirects, fr_body := Buffered []\<rparr>"
        "r' = on_net (drop_body (fr_body x)) r1"
    | (followed) x r1 location base u normalized where "fetch_once E q r = (r1, Inr x)" "redirects < nc_max_redirects (ev_config E)"
        "redirect_target (ev_externs E) (fr_status x) (fr_headers x) = Some location"
        "url_parse (ev_externs E) (fq_url q) = Some base" "nu_join (ev_crates E) base location = Some u"
        "normalized = normalize_url (ev_externs E) (url_to_string (ev_externs E) u)" "normalized \<notin> set visited"
        "fetch_loop E (redirected (ev_externs E) (ev_crates E) q (fr_status x) (url_to_string (ev_externs E) u))
           (redirects + 1) (visited @ [normalized]) (on_net (drop_body (fr_body x)) r1) = (r', Inr resp)"
proof -
  obtain r1 res where o: "fetch_once E q r = (r1, res)" by fastforce
  note l = assms [unfolded fetch_loop.simps [of E q] o prod.case Let_def]
  obtain x where x: "res = Inr x" using l by (cases res) auto
  show ?thesis
  proof (cases "fq_redirect q = Manual \<or> redirect_target (ev_externs E) (fr_status x) (fr_headers x) = None")
    case True
    then show ?thesis using l x answered [OF o [unfolded x]] by (auto split: if_splits)
  next
    case False
    then obtain location where t: "redirect_target (ev_externs E) (fr_status x) (fr_headers x) = Some location" by auto
    show ?thesis
    proof (cases "nc_max_redirects (ev_config E) \<le> redirects")
      case False
      show ?thesis
      proof (cases "Option.bind (url_parse (ev_externs E) (fq_url q)) (\<lambda>base. nu_join (ev_crates E) base location)")
        case None
        then show ?thesis using l x t \<open>\<not> (fq_redirect q = Manual \<or> _)\<close> False final [OF o [unfolded x]] by auto
      next
        case (Some u)
        then obtain base where "url_parse (ev_externs E) (fq_url q) = Some base" "nu_join (ev_crates E) base location = Some u"
          by (auto simp: bind_eq_Some_conv)
        then show ?thesis
          using l x t \<open>\<not> (fq_redirect q = Manual \<or> _)\<close> False final [OF o [unfolded x]]
            followed [OF o [unfolded x] _ t] by (auto split: if_splits)
      qed
    qed (use l x t \<open>\<not> (fq_redirect q = Manual \<or> _)\<close> in auto)
  qed
qed

lemma fetch_loop_guarded:
  assumes "header_laws (ev_externs E)" "fq_integrity q = Some i" "fq_method q = ''GET''"
    and "fetch_loop E q redirects visited r = (r', Inr resp)"
  shows "\<exists>b. fr_body resp = Buffered b \<and> verify (ev_externs E) i b"
  using assms(2-)
proof (induction "nc_max_redirects (ev_config E) - redirects" arbitrary: q redirects visited r rule: less_induct)
  case less
  from less.prems(3) show ?case
  proof (cases rule: fetch_loop_cases)
    case (answered x r1)
    obtain started k r0 where "fetch_asked E q started k r0 = (r1, Inr x)"
      using fetch_once_get [OF less.prems(2) answered(1)] by blast
    then have "guarded E q i x" by (rule fetch_asked_guarded [OF assms(1) less.prems(1)])
    moreover have "\<not> is_hop (ev_externs E) q (fr_status x) (fr_headers x)"
      using answered(2) not_a_hop [of "ev_externs E" "fr_status x" "fr_headers x" q] by (auto simp: is_hop_def)
    ultimately show ?thesis using answered(3) by (simp add: guarded_def)
  next
    case (final x r1 y)
    then show ?thesis using final_redirect_integrity [OF less.prems(1)] by simp
  next
    case (followed x r1 location base u normalized)
    have "nc_max_redirects (ev_config E) - (redirects + 1) < nc_max_redirects (ev_config E) - redirects"
      using followed(2) by simp
    from less.hyps [OF this _ _ followed(8)] show ?thesis
      using less.prems(1,2) by (simp add: redirected_keeps)
  qed
qed

text \<open>
  C1: A declared integrity guards every body. When a caller declares what the bytes must hash
  to and a fetch answers, the whole body is in hand and satisfies the declaration, which names
  at least one hash: whether it came from the store, a peer, a 304, a stale entry, the origin,
  or through redirects, and whatever other tasks do meanwhile. Nothing else is ever returned.
\<close>

theorem declared_integrity_guards_every_body:
  assumes "header_laws (ev_externs E)" and "fq_integrity q = Some i"
    and "fetch E q r = (r', Inr resp)"
  shows "i \<noteq> [] \<and> (\<exists>b. fr_body resp = Buffered b \<and> verify (ev_externs E) i b)"
proof -
  have u: "refuse_unusable_integrity (ev_externs E) (ev_crates E) q = Inr ()"
    using assms(3) by (auto simp: fetch_def split: sum.splits)
  then have "i \<noteq> []" "fq_method q = ''GET''" using assms(2)
    by (auto simp: refuse_unusable_integrity_def split: if_splits)
  moreover have "fetch_loop E q 0 [normalize_url (ev_externs E) (fq_url q)] r = (r', Inr resp)"
    using assms(3) u by (simp add: fetch_def)
  ultimately show ?thesis using fetch_loop_guarded [OF assms(1,2)] by blast
qed

subsection \<open>An instance\<close>

text \<open>One peer, which answers with a body; an origin that is not there; nothing else running.\<close>

definition demo_crates :: "string net_crates" where
  "demo_crates = \<lparr>nu_join = (\<lambda>base r. Some r), nu_host = (\<lambda>u. Some ''a.test''), nu_port = (\<lambda>u. None),
     nu_uri = (\<lambda>s. Some \<lparr>ur_https = False, ur_authority = Some ''a.test'', ur_host = Some ''a.test''\<rparr>)\<rparr>"

definition demo_config :: net_config where
  "demo_config = \<lparr>nc_partition_cache = True, nc_max_body_bytes = 64, nc_user_agent = ''Syndeo'',
     nc_honour_stale_if_error = True, nc_max_redirects = 10, nc_public_only = False,
     nc_forward_accept_encoding = False\<rparr>"

definition demo_net_env :: "bytes \<Rightarrow> ((string \<times> bytes) list, string) net_env" where
  "demo_net_env body = \<lparr>ev_externs = demo, ev_crates = demo_crates, ev_config = demo_config,
     ev_instant_max = 0, ev_tcp = (\<lambda>out n. Inl (NetTransport ''refused'')), ev_quic = None,
     ev_peers = Some (\<lambda>h n. Inr body), ev_meanwhile = (\<lambda>j n. n), ev_unique = show_nat\<rparr>"

definition empty_net :: "'h net" where
  "empty_net = \<lparr>nt_cache = \<lparr>index_of = empty_index, files = [], options = default_options\<rparr>, nt_cleared = 0,
     nt_alt_svc = [], nt_refreshing = [], nt_tasks = [], nt_announced = 0, nt_landing = [], nt_now = 0,
     nt_instant = 0, nt_serial = 0\<rparr>"

definition demo_run :: "'h run" where
  "demo_run = \<lparr>ru_net = empty_net, ru_sent = [], ru_waits = 0\<rparr>"

definition demo_declared :: "(string \<times> bytes) list fetch_request" where
  "demo_declared = (fetch_get demo ''https://a.test/x'')
     \<lparr>fq_integrity := Some [compute_hash demo Sha256 ''body'']\<rparr>"

lemma demo_header_laws: "header_laws demo"
  by (simp add: header_laws_def demo_header_map_ok demo_header_name_ok)

lemma demo_externs: "ev_externs (demo_net_env b) = demo" "ev_crates (demo_net_env b) = demo_crates"
    "ev_config (demo_net_env b) = demo_config"
  by (simp_all add: demo_net_env_def)

lemma empty_lookup:
  "\<exists>c. lookup demo part ''GET'' url hs now (nt_cache empty_net) = (c, Inr (Miss ''no stored variant''))"
  by (simp add: lookup_def empty_net_def select_for_def select_variant_def variant_keys_def empty_index_def
      is_cacheable_method_def to_upper_def upper_char_def is_lower_def miss_def Let_def)

lemma demo_verifies: "verify demo [compute_hash demo Sha256 b] b"
  by (simp add: verify_def strongest_def hash_matches_def compute_hash_def constant_time_eq_iff)

lemma demo_fetched:
  "\<exists>r' resp. fetch (demo_net_env ''body'') demo_declared demo_run = (r', Inr resp)
     \<and> fr_source resp = FromPeer \<and> fr_body resp = Buffered ''body''"
proof -
  let ?E = "demo_net_env ''body''"
  have q: "fq_method demo_declared = ''GET''" "fq_url demo_declared = ''https://a.test/x''" "fq_headers demo_declared = []"
    "fq_integrity demo_declared = Some [compute_hash demo Sha256 ''body'']" "fq_redirect demo_declared = Follow"
    by (simp_all add: demo_declared_def fetch_get_def demo_def)
  have u: "refuse_unusable_integrity demo demo_crates demo_declared = Inr ()"
    by (simp add: refuse_unusable_integrity_def q demo_def)
  obtain c where l: "lookup demo (fq_partition demo_declared) ''GET'' ''https://a.test/x'' [] 0 (nt_cache empty_net)
      = (c, Inr (Miss ''no stored variant''))" using empty_lookup by blast
  have s: "strongest_hash [compute_hash demo Sha256 ''body''] = Some (compute_hash demo Sha256 ''body'')"
    by (simp add: strongest_hash_def strongest_def compute_hash_def)
  have inv: "\<not> invalidates ''GET''" by (simp add: invalidates_def to_upper_def upper_char_def is_lower_def)
  have once: "\<exists>r1 x. fetch_once ?E demo_declared demo_run = (r1, Inr x) \<and> fr_source x = FromPeer
      \<and> fr_body x = Buffered ''body'' \<and> fr_status x = 200"
    using l by (simp add: fetch_once_def Let_def q inv fetch_asked_def demo_externs settled_def demo_run_def empty_net_def
        waited_def demo_net_env_def on_net_def with_cache_def try_peers_def s accept_peer_body_def demo_verifies finish_def)
  then show ?thesis
    by (auto simp: fetch_def demo_externs u fetch_loop.simps redirect_target_def REDIRECTS_def q)
qed

theorem declared_integrity_guards_every_body_witness:
  "\<exists>r' resp. fetch (demo_net_env ''body'') demo_declared demo_run = (r', Inr resp)
     \<and> (\<exists>b. fr_body resp = Buffered b \<and> verify demo [compute_hash demo Sha256 ''body''] b)"
proof -
  obtain r' resp where f: "fetch (demo_net_env ''body'') demo_declared demo_run = (r', Inr resp)"
    using demo_fetched by blast
  have i: "fq_integrity demo_declared = Some [compute_hash demo Sha256 ''body'']" by (simp add: demo_declared_def)
  show ?thesis
    using declared_integrity_guards_every_body [OF _ i f] f by (simp add: demo_externs demo_header_laws)
qed

end
