(* ===== verification/Net_Redirects.thy ===== *)
theory Net_Redirects
  imports Net_Integrity
begin

text \<open>
  What a fetch sends, over every redirect: credentials stay with their origin, and the number of
  requests is bounded.
\<close>

subsection \<open>Header fields that are copied\<close>

lemma get_all_laws:
  assumes "header_laws X" "is_name X n"
  shows "is_name X m \<Longrightarrow> hm_get_all X (hm_append X m v h) n = hm_get_all X h n @ (if n = m then [v] else [])"
    "is_name X m \<Longrightarrow> hm_get_all X (hm_insert X m v h) n = (if n = m then [v] else hm_get_all X h n)"
    "is_name X m \<Longrightarrow> hm_get_all X (hm_remove X m h) n = (if n = m then [] else hm_get_all X h n)"
    "hm_get_all X (hm_empty X) n = []"
  using assms by (auto simp: header_laws_def header_map_ok_def)

lemma header_items:
  assumes "header_laws X" "is_name X n"
  shows "map snd (filter (\<lambda>p. fst p = n) (hm_iter X h)) = hm_get_all X h n"
    "\<forall>p\<in>set (hm_iter X h). is_name X (fst p)"
proof -
  have "header_map_ok X" using assms(1) by (simp add: header_laws_def)
  then show "map snd (filter (\<lambda>p. fst p = n) (hm_iter X h)) = hm_get_all X h n" "\<forall>p\<in>set (hm_iter X h). is_name X (fst p)"
    using assms(2) unfolding header_map_ok_def by blast+
qed

text \<open>Copying the fields a test lets through keeps exactly those, with their values in order.\<close>

lemma copied_items:
  assumes "header_laws X" "is_name X n" "\<forall>p\<in>set ps. is_name X (fst p)"
  shows "hm_get_all X (fold (\<lambda>(name, value) out. if skip name then out else hm_append X name value out) ps h) n
     = hm_get_all X h n @ (if skip n then [] else map snd (filter (\<lambda>p. fst p = n) ps))"
  using assms(3)
proof (induction ps arbitrary: h)
  case (Cons p ps)
  then show ?case by (cases p) (auto simp: get_all_laws [OF assms(1,2)])
qed simp

lemma copied:
  assumes "header_laws X" "is_name X n"
  shows "hm_get_all X (fold (\<lambda>(name, value) out. if skip name then out else hm_append X name value out)
      (hm_iter X headers) (hm_empty X)) n = (if skip n then [] else hm_get_all X headers n)"
  using copied_items [OF assms header_items(2) [OF assms], of skip headers "hm_empty X"]
  by (simp add: header_items(1) [OF assms] get_all_laws(4) [OF assms])

lemma forwardable_exact:
  assumes "header_laws X" "is_name X n"
  shows "hm_get_all X (forwardable_headers X N headers from to) n =
     (if n \<in> set OF_THE_TARGET \<or> (n \<in> set SENSITIVE \<and> \<not> same_origin X N from to) then [] else hm_get_all X headers n)"
proof -
  let ?skip = "\<lambda>name. (name \<in> set SENSITIVE \<and> \<not> same_origin X N from to) \<or> name \<in> set OF_THE_TARGET"
  have "forwardable_headers X N headers from to = fold (\<lambda>(name, value) out.
      if ?skip name then out else hm_append X name value out) (hm_iter X headers) (hm_empty X)"
    unfolding forwardable_headers_def by (intro fold_cong refl) (auto split: prod.splits)
  then show ?thesis using copied [OF assms, of ?skip headers] by auto
qed

lemma with_extra_other:
  assumes "header_laws X" "is_name X n" "\<forall>p\<in>set extra. is_name X (fst p) \<and> fst p \<noteq> n"
  shows "hm_get_all X (with_extra X extra h) n = hm_get_all X h n"
  using assms(3)
proof (induction extra arbitrary: h)
  case (Cons p extra)
  then show ?case
    by (cases p; cases "value_from_str X (snd p)") (auto simp: with_extra_def get_all_laws [OF assms(1,2)])
qed (simp add: with_extra_def)

definition conditional_only :: "(string \<times> string) list \<Rightarrow> bool" where
  "conditional_only extra \<longleftrightarrow> set (map fst extra) \<subseteq> {''if-none-match'', ''if-modified-since''}"

lemma conditional_names:
  assumes "header_laws X" "conditional_only extra" "n \<in> set SENSITIVE"
  shows "\<forall>p\<in>set extra. is_name X (fst p) \<and> fst p \<noteq> n"
  using assms(2,3) known_headers(10,11) [OF assms(1)]
  by (force simp: conditional_only_def SENSITIVE_def)

lemma sensitive_names: "header_laws X \<Longrightarrow> n \<in> set SENSITIVE \<Longrightarrow> is_name X n"
  using known_headers by (auto simp: SENSITIVE_def)

lemma tcp_headers_sensitive:
  assumes "header_laws X" "conditional_only extra" "n \<in> set SENSITIVE" "hm_get_all X (tcp_headers X cfg q extra) n \<noteq> []"
  shows "hm_get_all X (fq_headers q) n \<noteq> []"
proof -
  note n = sensitive_names [OF assms(1,3)] and e = conditional_names [OF assms(1-3)]
  have "n \<noteq> ''user-agent''" "n \<noteq> ''accept-encoding''" using assms(3) by (auto simp: SENSITIVE_def)
  then have "hm_get_all X (tcp_headers X cfg q extra) n =
      hm_get_all X (with_extra X extra (forwarded X (connection_tokens X (fq_headers q)) (fq_headers q))) n"
    using known_headers(8,9) [OF assms(1)] get_all_laws [OF assms(1) n]
    by (auto simp: tcp_headers_def Let_def split: option.splits)
  then show ?thesis
    using assms(4) copied [OF assms(1) n, of "\<lambda>name. is_hop_by_hop name (connection_tokens X (fq_headers q))" "fq_headers q"]
    by (auto simp: with_extra_other [OF assms(1) n e] forwarded_def split: if_splits)
qed

lemma quic_headers_sensitive:
  assumes "header_laws X" "conditional_only extra" "n \<in> set SENSITIVE" "hm_get_all X (quic_headers X cfg q extra) n \<noteq> []"
  shows "hm_get_all X (fq_headers q) n \<noteq> []"
proof -
  note n = sensitive_names [OF assms(1,3)] and e = conditional_names [OF assms(1-3)]
  let ?skip = "\<lambda>name. is_hop_by_hop name [] \<or> name = ''host''"
  let ?h = "\<lambda>h. fold (\<lambda>(name, value) h. if is_hop_by_hop name [] then h else if name = ''host'' then h
      else hm_append X name value h) (hm_iter X h) (hm_empty X)"
  have "?h h = fold (\<lambda>(name, value) out. if ?skip name then out else hm_append X name value out) (hm_iter X h) (hm_empty X)" for h
    by (intro fold_cong refl) (auto split: prod.splits)
  then have c: "hm_get_all X (?h h) n = (if ?skip n then [] else hm_get_all X h n)" for h
    using copied [OF assms(1) n, of ?skip h] by simp
  have "n \<noteq> ''accept-encoding''" using assms(3) by (auto simp: SENSITIVE_def)
  then show ?thesis
    using assms(4) known_headers(9) [OF assms(1)] get_all_laws [OF assms(1) n]
    unfolding quic_headers_def Let_def c by (auto simp: with_extra_other [OF assms(1) n e] split: if_splits)
qed

subsection \<open>What one hop sends\<close>

definition sent_for :: "('h, 'u) net_env \<Rightarrow> 'h fetch_request \<Rightarrow> 'h outgoing \<Rightarrow> bool" where
  "sent_for E q o' \<longleftrightarrow> og_url o' = fq_url q \<and> og_method o' = fq_method q \<and> og_body o' = fq_body q
     \<and> (\<exists>extra. conditional_only extra
          \<and> og_headers o' = (case og_transport o' of
               OverTcp \<Rightarrow> tcp_headers (ev_externs E) (ev_config E) q extra
             | OverQuic \<Rightarrow> quic_headers (ev_externs E) (ev_config E) q extra))"

lemma sent_for_sensitive:
  assumes "header_laws (ev_externs E)" "sent_for E q o'" "n \<in> set SENSITIVE"
    and "hm_get_all (ev_externs E) (og_headers o') n \<noteq> []"
  shows "hm_get_all (ev_externs E) (fq_headers q) n \<noteq> []"
  using assms tcp_headers_sensitive [OF assms(1)] quic_headers_sensitive [OF assms(1)]
  by (cases "og_transport o'") (auto simp: sent_for_def)

text \<open>From one state of a fetch to another, at most \<open>m\<close> requests were sent, each for the hop.\<close>

definition sends :: "('h, 'u) net_env \<Rightarrow> 'h fetch_request \<Rightarrow> nat \<Rightarrow> 'h run \<Rightarrow> 'h run \<Rightarrow> bool" where
  "sends E q m r r' \<longleftrightarrow>
     (\<exists>outs. ru_sent r' = ru_sent r @ outs \<and> length outs \<le> m \<and> (\<forall>o'\<in>set outs. sent_for E q o'))"

lemma sends_same: "ru_sent r' = ru_sent r \<Longrightarrow> sends E q m r r'"
  by (simp add: sends_def)

lemma sends_trans: "sends E q m r r1 \<Longrightarrow> sends E q k r1 r2 \<Longrightarrow> sends E q (m + k) r r2"
  unfolding sends_def by (elim exE, rule_tac x = "outs @ outsa" in exI) auto

lemma sends_weaken: "sends E q m r r1 \<Longrightarrow> m \<le> k \<Longrightarrow> sends E q k r r1"
  unfolding sends_def by (meson le_trans)

lemma sends_from: "ru_sent r0 = ru_sent r \<Longrightarrow> sends E q m r0 r1 \<Longrightarrow> sends E q m r r1"
  by (simp add: sends_def)

lemma sent_unchanged [simp]:
  "ru_sent (waited E r) = ru_sent r" "ru_sent (on_net f r) = ru_sent r" "ru_sent (r\<lparr>ru_net := n\<rparr>) = ru_sent r"
  by (simp_all add: waited_def on_net_def)

lemma send_request_sends:
  "send_request E out r = (r', i) \<Longrightarrow> sent_for E q out \<Longrightarrow> sends E q (Suc 0) r r'"
  by (auto simp: send_request_def sends_def)

lemma origin_headers_sends:
  assumes "header_laws (ev_externs E)" "conditional_only extra" "origin_headers E q extra r = (r', res)"
  shows "sends E q (Suc 0) r r'"
proof -
  have "sent_for E q \<lparr>og_transport = OverTcp, og_method = fq_method q, og_url = fq_url q,
      og_headers = tcp_headers (ev_externs E) (ev_config E) q extra, og_body = fq_body q\<rparr>"
    using assms(2) by (auto simp: sent_for_def)
  from send_request_sends [OF _ this] show ?thesis using assms(3)
    by (auto simp: origin_headers_def sends_same Let_def split: option.splits if_splits prod.splits)
qed

lemma over_quic_sends:
  assumes "header_laws (ev_externs E)" "conditional_only extra" "over_quic E quic q extra r = (r', res)"
  shows "sends E q (Suc 0) r r'"
proof -
  have "sent_for E q \<lparr>og_transport = OverQuic, og_method = fq_method q, og_url = fq_url q,
      og_headers = quic_headers (ev_externs E) (ev_config E) q extra, og_body = fq_body q\<rparr>"
    using assms(2) by (auto simp: sent_for_def)
  from send_request_sends [OF _ this] show ?thesis using assms(3)
    by (auto simp: over_quic_def Let_def split: prod.splits)
qed

text \<open>After a step that sends, one that does not.\<close>

lemma and_net_sends:
  assumes "and_net m f = (r', res)" "\<And>r1 x. m = (r1, x) \<Longrightarrow> sends E q k r r1"
    and "\<And>r1 a r' res. f a r1 = (r', res) \<Longrightarrow> sends E q j r1 r'"
  shows "sends E q (k + j) r r'"
proof -
  obtain r1 x where m: "m = (r1, x)" by fastforce
  show ?thesis
  proof (cases x)
    case (Inl e)
    then show ?thesis using assms(1) assms(2) [OF m] m by (auto simp: and_net_def intro: sends_weaken)
  next
    case (Inr a)
    then have "f a r1 = (r', res)" using assms(1) m by (simp add: and_net_def)
    then show ?thesis using sends_trans [OF assms(2) [OF m] assms(3)] by blast
  qed
qed

lemma origin_request_sends:
  assumes "header_laws (ev_externs E)" "conditional_only extra" "origin_request E q extra r = (r', res)"
  shows "sends E q (Suc 0) r r'"
  using and_net_sends [OF assms(3) [unfolded origin_request_def], of E q "Suc 0" r 0]
    origin_headers_sends [OF assms(1,2)] by (auto simp: sends_same)

lemma over_tcp_sends:
  assumes "header_laws (ev_externs E)" "conditional_only extra" "over_tcp E authority q extra r = (r', res)"
  shows "sends E q (Suc 0) r r'"
  using and_net_sends [OF assms(3) [unfolded over_tcp_def], of E q "Suc 0" r 0]
    origin_headers_sends [OF assms(1,2)] by (auto simp: sends_same split: if_splits)

lemma origin_any_sends:
  assumes "header_laws (ev_externs E)" "conditional_only extra" "origin_any E q extra r = (r', res)"
  shows "sends E q 2 r r'"
proof (cases "nu_uri (ev_crates E) (fq_url q)")
  case (Some u)
  define authority where "authority = (case ur_authority u of Some a \<Rightarrow> a | None \<Rightarrow> [])"
  obtain known tries where t: "should_try (nt_instant (ru_net r)) authority (nt_alt_svc (ru_net r)) = (known, tries)" by fastforce
  define r0 where "r0 = on_net (nt_alt_svc_update (\<lambda>_. known)) r"
  have same: "ru_sent r0 = ru_sent r" by (simp add: r0_def)
  note tcp = over_tcp_sends [OF assms(1,2)] and quic = over_quic_sends [OF assms(1,2)]
  have tcp_only: "sends E q 2 r r'" if "over_tcp E authority q extra x = (r', res)" "ru_sent x = ru_sent r" for x
    using sends_from [OF that(2) tcp [OF that(1)]] by (rule sends_weaken) simp
  note a = assms(3) [unfolded origin_any_def Some option.case authority_def [symmetric] Let_def t prod.case r0_def [symmetric]]
  show ?thesis
  proof (cases "ur_https u \<and> tries \<and> (\<exists>q. ev_quic E = Some q)")
    case False
    then show ?thesis using a tcp_only same by (auto split: if_splits option.splits bool.splits)
  next
    case True
    then obtain via where v: "ev_quic E = Some via" by blast
    obtain r1 x where x: "over_quic E via q extra r0 = (r1, x)" by fastforce
    have s1: "sends E q (Suc 0) r r1" by (rule sends_from [OF same quic [OF x]])
    show ?thesis
    proof (cases x)
      case (Inr y)
      then show ?thesis using a True v x s1 by (auto intro: sends_weaken)
    next
      case (Inl failed)
      obtain reached e where f: "failed = (reached, e)" by fastforce
      define r2 where "r2 = on_net (\<lambda>n. n\<lparr>nt_alt_svc := attempt_failed (ev_instant_max E) (nt_instant n) authority (nt_alt_svc n)\<rparr>) r1"
      have s2: "sends E q (Suc 0) r r2" using s1 by (simp add: sends_def r2_def)
      have "(if \<not> may_retry_over_tcp (fq_method q) reached then (r2, Inl e) else over_tcp E authority q extra r2) = (r', res)"
        using a True v x Inl f by (auto simp: r2_def split: if_splits)
      then show ?thesis using sends_trans [OF s2 tcp] s2 by (auto simp: numeral_2_eq_2 intro: sends_weaken split: if_splits)
    qed
  qed
qed (use assms(3) in \<open>simp add: origin_any_def sends_same\<close>)

lemma accept_declared_sends: "accept_declared E q i a started proto k r = (r', res) \<Longrightarrow> sends E q 0 r r'"
  by (auto simp: accept_declared_def Let_def sends_same split: sum.splits prod.splits if_splits)

lemma fetch_from_origin_sends:
  assumes "header_laws (ev_externs E)" "conditional_only extra" "fetch_from_origin E q extra started k r = (r', res)"
  shows "sends E q 2 r r'"
proof -
  have after: "sends E q 0 r1 r2" if "(case fq_integrity q of
         Some i \<Rightarrow>
           (let r = waited E r1
            in case collect_body (nc_max_body_bytes (ev_config E)) [] (in_chunks a) of
                 Inl e \<Rightarrow> (r, Inl e)
               | Inr body \<Rightarrow>
                   accept_declared E q i \<lparr>an_status = in_status a, an_headers = in_headers a, an_body = body,
                     an_from = in_from a\<rparr> started (in_protocol a) k r)
       | None \<Rightarrow>
           (let (n, body) = stream_body E q a k (ru_net r1)
            in (r1\<lparr>ru_net := n\<rparr>,
                Inr (finish n (in_status a) (in_headers a) body FromOrigin None started (in_protocol a))))) = (r2, x)"
    for a r1 r2 x
    using that accept_declared_sends
    by (auto simp: Let_def sends_same split: option.splits sum.splits prod.splits dest!: accept_declared_sends)
      (auto simp: sends_def)
  from and_net_sends [OF assms(3) [unfolded fetch_from_origin_def], of E q 2 r 0, OF origin_any_sends [OF assms(1,2)] after]
  show ?thesis by simp
qed

lemma refetch_lost_sends:
  assumes "header_laws (ev_externs E)" "refetch_lost E q started k r = (r', res)"
  shows "sends E q 2 r r'"
proof -
  have none: "conditional_only []" by (simp add: conditional_only_def)
  have "sends E q (2 + 0) r r'"
    by (rule and_net_sends [OF assms(2) [unfolded refetch_lost_def]])
      (auto simp: sends_same intro: fetch_from_origin_sends [OF assms(1) none] split: if_splits)
  then show ?thesis by simp
qed

lemma if_satisfied_sends:
  assumes "header_laws (ev_externs E)" "if_satisfied E q s started k serve r = (r', res)"
    and "\<And>r r' res. serve r = (r', res) \<Longrightarrow> sends E q m r r'" "2 \<le> m"
  shows "sends E q m r r'"
proof -
  have none: "conditional_only []" by (simp add: conditional_only_def)
  obtain n ok where n: "stored_satisfies E q s (ru_net r) = (n, ok)" by fastforce
  have "sends E q m (r\<lparr>ru_net := n\<rparr>) r'"
    using assms(2) n assms(3) fetch_from_origin_sends [OF assms(1) none, THEN sends_weaken, OF _ assms(4)]
    by (auto simp: if_satisfied_def Let_def split: if_splits)
  then show ?thesis by (rule sends_from [rotated]) simp
qed

lemma served_sends: "served r s headers src started = (r', res) \<Longrightarrow> sends E q m r r'"
  by (auto simp: served_def sends_same)

lemma confirmed_sends:
  assumes "header_laws (ev_externs E)" "confirmed E q s a started k r = (r', res)"
  shows "sends E q 2 r r'"
proof -
  obtain c recorded where rec: "record_not_modified (ev_externs E) (r_key s) (an_headers a) (nt_now (ru_net r))
      (nt_now (ru_net r)) (nt_now (ru_net r)) (nt_cache (ru_net r)) = (c, recorded)" by fastforce
  note d = assms(2) [unfolded confirmed_def Let_def rec prod.case]
  define r0 where "r0 = on_net (with_cache (\<lambda>_. c)) r"
  have same: "ru_sent r0 = ru_sent r" by (simp add: r0_def)
  show ?thesis
  proof (cases "admits k (nt_cleared (ru_net r)) (an_from a)")
    case True
    then have d: "(case recorded of
        Inl e \<Rightarrow> if is_lost_body e then refetch_lost E q started k r0 else (r0, Inl (NetCache e))
      | Inr None \<Rightarrow> served r0 s (with_cookies_of (ev_externs E) (r_headers s) (an_headers a)) FromCacheStale started
      | Inr (Some refreshed) \<Rightarrow> if_satisfied E q refreshed started k
          (\<lambda>r. served r refreshed (with_cookies_of (ev_externs E) (r_headers refreshed) (an_headers a)) FromRevalidated started) r0)
      = (r', res)" using d unfolding r0_def by simp
    have "sends E q 2 r0 r'"
    proof (cases recorded)
      case (Inl e)
      then show ?thesis using d refetch_lost_sends [OF assms(1)] by (auto simp: sends_same split: if_splits)
    next
      case (Inr found)
      show ?thesis
      proof (cases found)
        case None
        then show ?thesis using d Inr by (auto intro: served_sends)
      next
        case (Some refreshed)
        show ?thesis by (rule if_satisfied_sends [OF assms(1) d [unfolded Inr Some sum.case option.case]]) (auto intro: served_sends)
      qed
    qed
    then show ?thesis by (rule sends_from [OF same])
  qed (use d in \<open>auto intro: served_sends\<close>)
qed

lemma revalidated_sends:
  assumes "header_laws (ev_externs E)" "conditional_only conditional"
    and "revalidated E q s conditional window started k r = (r', res)"
  shows "sends E q 3 r r'"
proof -
  obtain r1 x where o: "origin_request E q conditional r = (r1, x)" by fastforce
  have s1: "sends E q (Suc 0) r r1" by (rule origin_request_sends [OF assms(1,2) o])
  have "sends E q 2 r1 r'"
    using assms(3) o confirmed_sends [OF assms(1)] accept_declared_sends [THEN sends_weaken]
    by (auto simp: revalidated_def sends_same split: sum.splits prod.splits if_splits option.splits intro: served_sends)
  from sends_trans [OF s1 this] show ?thesis by (simp add: numeral_3_eq_3 numeral_2_eq_2)
qed

lemma lookup_conditional:
  "lookup X part meth url req now c = (c', Inr (RevalidateHit s conditional window reason)) \<Longrightarrow> conditional_only conditional"
  by (auto simp: lookup_def answer_def with_body_def miss_def discard_broken_def conditional_only_def conditional_headers_def Let_def
      split: if_splits option.splits prod.splits sum.splits wanted.splits freshness.splits)

lemma try_peers_sends: "try_peers E q started r = (r', res) \<Longrightarrow> sends E q 0 r r'"
  by (auto simp: try_peers_def Let_def sends_same split: option.splits sum.splits prod.splits)

lemma fetch_asked_sends:
  assumes "header_laws (ev_externs E)" "fetch_asked E q started k r = (r', res)"
  shows "sends E q 3 r r'"
proof -
  have none: "conditional_only []" by (simp add: conditional_only_def)
  obtain c found where l: "lookup (ev_externs E) (fq_partition q) (fq_method q) (fq_url q) (fq_headers q)
      (nt_now (ru_net r)) (nt_cache (ru_net r)) = (c, found)" by fastforce
  define r0 where "r0 = on_net (with_cache (\<lambda>_. c)) r"
  note f = assms(2) [unfolded fetch_asked_def Let_def l prod.case r0_def [symmetric]]
  have "sends E q 3 r0 r'"
  proof (cases found)
    case (Inr h)
    note hit = f [unfolded Inr sum.case]
    show ?thesis
    proof (cases h)
      case (Miss reason)
      obtain r1 x where t: "try_peers E q started r0 = (r1, x)" by fastforce
      have s0: "sends E q 0 r0 r1" by (rule try_peers_sends [OF t])
      have "sends E q 2 r1 r'" using hit Miss t fetch_from_origin_sends [OF assms(1) none]
        by (auto simp: sends_same split: option.splits)
      from sends_trans [OF s0 this] show ?thesis by (rule sends_weaken) simp
    next
      case (FreshHit x)
      show ?thesis by (rule if_satisfied_sends [OF assms(1) hit [unfolded FreshHit lookup.case]]) (auto intro: served_sends)
    next
      case (StaleHit x refresh reason)
      show ?thesis
        by (rule if_satisfied_sends [OF assms(1) hit [unfolded StaleHit lookup.case]])
          (auto simp: sends_same served_def split: if_splits)
    next
      case (RevalidateHit x conditional window reason)
      have "conditional_only conditional" by (rule lookup_conditional) (use l Inr RevalidateHit in simp)
      from revalidated_sends [OF assms(1) this] show ?thesis
        by (intro if_satisfied_sends [OF assms(1) hit [unfolded RevalidateHit lookup.case]]) simp_all
    qed
  qed (use f in \<open>simp add: sends_same\<close>)
  then show ?thesis by (rule sends_from [rotated]) (simp add: r0_def)
qed

lemma fetch_once_sends:
  assumes "header_laws (ev_externs E)" "fetch_once E q r = (r', res)"
  shows "sends E q 3 r r'"
proof -
  have none: "conditional_only []" by (simp add: conditional_only_def)
  define r0 where "r0 = waited E (on_net (settled E (Some (landing_address (ev_externs E) (fq_partition q) (fq_url q)))) r)"
  have same: "ru_sent r0 = ru_sent r" by (simp add: r0_def)
  note o = assms(2) [unfolded fetch_once_def Let_def r0_def [symmetric]]
  have "sends E q 3 r0 r'"
  proof (cases "invalidates (fq_method q)")
    case True
    let ?r = "on_net (with_cache (\<lambda>c. fst (invalidate_cache (ev_externs E) (fq_partition q) (fq_method q) (fq_url q) c))) r0"
    have "sends E q (Suc 0 + 0) ?r r'"
      by (rule and_net_sends [OF o [simplified True if_True, unfolded fetch_unsafe_def]])
        (use origin_request_sends [OF assms(1) none] in \<open>auto simp: sends_same\<close>)
    then show ?thesis by (rule sends_from [rotated, THEN sends_weaken]) simp_all
  next
    case False
    then show ?thesis using o fetch_asked_sends [OF assms(1)] by simp
  qed
  then show ?thesis by (rule sends_from [OF same])
qed

subsection \<open>What a whole fetch sends\<close>

lemma same_origin_trans: "same_origin X N a b \<Longrightarrow> same_origin X N b c \<Longrightarrow> same_origin X N a c"
  by (auto simp: same_origin_def split: option.splits)

text \<open>A request of the chain carries a credential of the first only at the first's origin.\<close>

definition trusted :: "('h, 'u) net_env \<Rightarrow> 'h fetch_request \<Rightarrow> string \<Rightarrow> 'h \<Rightarrow> bool" where
  "trusted E first_request url headers \<longleftrightarrow>
     (\<forall>n\<in>set SENSITIVE. hm_get_all (ev_externs E) headers n \<noteq> [] \<longrightarrow>
        hm_get_all (ev_externs E) (fq_headers first_request) n \<noteq> []
        \<and> (url = fq_url first_request \<or> same_origin (ev_externs E) (ev_crates E) (fq_url first_request) url))"

lemma trusted_redirected:
  assumes "header_laws (ev_externs E)" "trusted E q0 (fq_url q) (fq_headers q)"
  shows "trusted E q0 url (fq_headers (redirected (ev_externs E) (ev_crates E) q status url))"
  unfolding trusted_def
proof (intro ballI impI)
  fix n assume n: "n \<in> set SENSITIVE"
    and c: "hm_get_all (ev_externs E) (fq_headers (redirected (ev_externs E) (ev_crates E) q status url)) n \<noteq> []"
  have "same_origin (ev_externs E) (ev_crates E) (fq_url q) url" "hm_get_all (ev_externs E) (fq_headers q) n \<noteq> []"
    using c n forwardable_exact [OF assms(1) sensitive_names [OF assms(1) n]]
    by (auto simp: redirected_def Let_def split: if_splits)
  then show "hm_get_all (ev_externs E) (fq_headers q0) n \<noteq> []
      \<and> (url = fq_url q0 \<or> same_origin (ev_externs E) (ev_crates E) (fq_url q0) url)"
    using assms(2) n same_origin_trans unfolding trusted_def by metis
qed

definition sent_within :: "('h, 'u) net_env \<Rightarrow> 'h fetch_request \<Rightarrow> nat \<Rightarrow> 'h run \<Rightarrow> 'h run \<Rightarrow> bool" where
  "sent_within E q0 m r r' \<longleftrightarrow>
     (\<exists>outs. ru_sent r' = ru_sent r @ outs \<and> length outs \<le> m
        \<and> (\<forall>o'\<in>set outs. trusted E q0 (og_url o') (og_headers o')))"

lemma sends_within:
  assumes "header_laws (ev_externs E)" "sends E q m r r'" "trusted E q0 (fq_url q) (fq_headers q)"
  shows "sent_within E q0 m r r'"
proof -
  have "trusted E q0 (og_url o') (og_headers o')" if "sent_for E q o'" for o'
    using that assms(3) sent_for_sensitive [OF assms(1) that] by (auto simp: trusted_def sent_for_def)
  then show ?thesis using assms(2) unfolding sends_def sent_within_def by blast
qed

lemma sent_within_trans: "sent_within E q m r r1 \<Longrightarrow> sent_within E q k r1 r2 \<Longrightarrow> sent_within E q (m + k) r r2"
  unfolding sent_within_def by (elim exE, rule_tac x = "outs @ outsa" in exI) auto

lemma sent_within_weaken: "sent_within E q m r r1 \<Longrightarrow> m \<le> k \<Longrightarrow> sent_within E q k r r1"
  unfolding sent_within_def by (meson le_trans)

lemma fetch_loop_sends:
  assumes "header_laws (ev_externs E)" "trusted E q0 (fq_url q) (fq_headers q)"
    and "fetch_loop E q redirects visited r = (r', res)"
  shows "sent_within E q0 (3 * (nc_max_redirects (ev_config E) - redirects + 1)) r r'"
  using assms(2-)
proof (induction "nc_max_redirects (ev_config E) - redirects" arbitrary: q redirects visited r rule: less_induct)
  case less
  let ?X = "ev_externs E" and ?N = "ev_crates E" and ?max = "nc_max_redirects (ev_config E)"
  obtain r1 x where o: "fetch_once E q r = (r1, x)" by fastforce
  have once: "sent_within E q0 3 r r1"
    by (rule sends_within [OF assms(1) fetch_once_sends [OF assms(1) o] less.prems(1)])
  have stop: ?case if "ru_sent r' = ru_sent r1"
    using sent_within_weaken [OF once, of "3 * (?max - redirects + 1)"] that by (simp add: sent_within_def)
  note l = less.prems(2) [unfolded fetch_loop.simps [of E q] o prod.case Let_def]
  show ?case
  proof (cases "\<exists>resp location u. x = Inr resp \<and> fq_redirect q \<noteq> Manual
      \<and> redirect_target ?X (fr_status resp) (fr_headers resp) = Some location \<and> redirects < ?max
      \<and> Option.bind (url_parse ?X (fq_url q)) (\<lambda>base. nu_join ?N base location) = Some u
      \<and> url_scheme ?X u \<in> {''http'', ''https''} \<and> normalize_url ?X (url_to_string ?X u) \<notin> set visited")
    case False
    then show ?thesis using l by (intro stop) (auto split: sum.splits if_splits option.splits)
  next
    case True
    then obtain resp location u where u: "x = Inr resp" "fq_redirect q \<noteq> Manual"
        "redirect_target ?X (fr_status resp) (fr_headers resp) = Some location" "redirects < ?max"
        "Option.bind (url_parse ?X (fq_url q)) (\<lambda>base. nu_join ?N base location) = Some u"
        "url_scheme ?X u \<in> {''http'', ''https''}" "normalize_url ?X (url_to_string ?X u) \<notin> set visited" by blast
    let ?q = "redirected ?X ?N q (fr_status resp) (url_to_string ?X u)"
    let ?r = "on_net (drop_body (fr_body resp)) r1"
    have next_hop: "fetch_loop E ?q (redirects + 1) (visited @ [normalize_url ?X (url_to_string ?X u)]) ?r = (r', res)"
      using l u by (auto split: if_splits)
    have "?max - (redirects + 1) < ?max - redirects" using u(4) by simp
    moreover have "trusted E q0 (fq_url ?q) (fq_headers ?q)"
      using trusted_redirected [OF assms(1) less.prems(1)] by (simp add: redirected_keeps)
    ultimately have "sent_within E q0 (3 * (?max - (redirects + 1) + 1)) ?r r'"
      using less.hyps next_hop by blast
    moreover have "sent_within E q0 3 r ?r" using once by (simp add: sent_within_def)
    ultimately have "sent_within E q0 (3 + 3 * (?max - (redirects + 1) + 1)) r r'"
      using sent_within_trans by blast
    moreover have "3 + 3 * (?max - (redirects + 1) + 1) = 3 * (?max - redirects + 1)" using u(4) by simp
    ultimately show ?thesis by metis
  qed
qed

text \<open>
  C2: Credentials stay with the origin they were given for, and a fetch asks a bounded number
  of times. Every request a fetch sends, over whatever redirects, carries an \<open>Authorization\<close>,
  \<open>Cookie\<close> or \<open>Proxy-Authorization\<close> field only if the caller's request had it and only to the
  caller's own address or its origin; and it sends at most three requests a hop, over at most
  one hop more than the redirects it may follow.
\<close>

theorem credentials_stay_with_their_origin:
  assumes "header_laws (ev_externs E)" and "fetch E q r = (r', res)"
  shows "\<exists>outs. ru_sent r' = ru_sent r @ outs
    \<and> length outs \<le> 3 * (nc_max_redirects (ev_config E) + 1)
    \<and> (\<forall>o'\<in>set outs. \<forall>n\<in>set SENSITIVE. hm_get_all (ev_externs E) (og_headers o') n \<noteq> [] \<longrightarrow>
          hm_get_all (ev_externs E) (fq_headers q) n \<noteq> []
          \<and> (og_url o' = fq_url q \<or> same_origin (ev_externs E) (ev_crates E) (fq_url q) (og_url o')))"
proof (cases "refuse_unusable_integrity (ev_externs E) (ev_crates E) q")
  case (Inl e)
  then show ?thesis using assms(2) by (simp add: fetch_def)
next
  case (Inr u)
  have "trusted E q (fq_url q) (fq_headers q)" by (simp add: trusted_def)
  moreover have "fetch_loop E q 0 [normalize_url (ev_externs E) (fq_url q)] r = (r', res)"
    using assms(2) Inr by (simp add: fetch_def)
  ultimately have "sent_within E q (3 * (nc_max_redirects (ev_config E) - 0 + 1)) r r'"
    by (rule fetch_loop_sends [OF assms(1)])
  then show ?thesis by (simp add: sent_within_def trusted_def)
qed

text \<open>A request with a credential, to an origin that is not there.\<close>

definition demo_credential :: "(string \<times> bytes) list fetch_request" where
  "demo_credential = add_header demo ''authorization'' ''secret'' (fetch_get demo ''https://a.test/x'')"

theorem credentials_stay_with_their_origin_witness:
  "\<exists>r' res outs. fetch (demo_net_env []) demo_credential demo_run = (r', res) \<and> ru_sent r' = outs
    \<and> length outs \<le> 33 \<and> (\<forall>o'\<in>set outs. hm_get_all demo (og_headers o') ''authorization'' \<noteq> [] \<longrightarrow>
          og_url o' = ''https://a.test/x'' \<or> same_origin demo demo_crates ''https://a.test/x'' (og_url o'))"
proof -
  obtain r' res where f: "fetch (demo_net_env []) demo_credential demo_run = (r', res)" by fastforce
  have "fq_url demo_credential = ''https://a.test/x''"
    by (simp add: demo_credential_def add_header_def fetch_get_def split: option.splits)
  then show ?thesis
    using credentials_stay_with_their_origin [OF _ f] f
    by (simp add: demo_externs demo_header_laws demo_config_def SENSITIVE_def) (auto simp: demo_run_def)
qed

text \<open>A body that a redirect preserves travels without its type.\<close>

lemma preserved_body_loses_its_type:
  assumes "header_laws X" and "status = 307 \<or> status = 308"
  shows "fq_method (redirected X N q status url) = fq_method q \<and> fq_body (redirected X N q status url) = fq_body q
    \<and> hm_get_all X (fq_headers (redirected X N q status url)) ''content-type'' = []"
  using assms(2) forwardable_exact [OF assms(1) known_headers(4) [OF assms(1)]]
  by (auto simp: redirected_def OF_THE_TARGET_def)

end
