(* ===== verification/Net_Gate.thy ===== *)
theory Net_Gate
  imports Net_Integrity
begin

text \<open>
  What keeps an answer out of the store: a clear since it was asked for, and an address that is
  not public. Both are the same argument: an invariant of the shared state that every step of a
  fetch keeps, because a step adds an entry only where \<open>admits\<close> lets it.
\<close>

subsection \<open>The keys of the entries\<close>

definition keys_in :: "cache \<Rightarrow> string set" where
  "keys_in c = dom (map_of (entries (index_of c)))"

lemma keys_same: "entries (index_of c') = entries (index_of c) \<Longrightarrow> keys_in c' = keys_in c"
  by (simp add: keys_in_def)

lemma keys_files [simp]: "keys_in (c\<lparr>files := fs\<rparr>) = keys_in c"
  by (simp add: keys_in_def)

lemma delete_candidates_keys: "delete_candidates X cs ix fs = (ix', fs', n) \<Longrightarrow> entries ix' = entries ix"
  by (induction cs arbitrary: ix fs ix' fs' n)
    (auto simp: Let_def forget_blob_if_unreferenced_def split: prod.splits option.splits if_splits)

lemma delete_orphans_keys: "keys_in (fst (delete_orphans X cs c)) = keys_in c"
  by (auto simp: delete_orphans_def keys_in_def dest: delete_candidates_keys split: prod.splits)

lemma remove_entry_keys: "remove_entry key ix = (ix', out) \<Longrightarrow> dom (map_of (entries ix')) \<subseteq> dom (map_of (entries ix))"
  by (auto simp: remove_entry_def Let_def AList.delete_conv' split: option.splits prod.splits if_splits)

lemma drop_entry_keys:
  "drop_entry_if_unchanged key r revoke ix = (ix', out) \<Longrightarrow> dom (map_of (entries ix')) \<subseteq> dom (map_of (entries ix))"
  by (auto simp: drop_entry_if_unchanged_def Let_def dest!: remove_entry_keys split: option.splits prod.splits if_splits) blast+

lemma drop_broken_keys: "keys_in (drop_broken X key r c) \<subseteq> keys_in c"
proof -
  obtain ix out where d: "drop_broken_entry key r (index_of c) = (ix, out)" by fastforce
  then have "dom (map_of (entries ix)) \<subseteq> keys_in c"
    unfolding drop_broken_entry_def keys_in_def by (rule drop_entry_keys)
  then show ?thesis
    by (cases out) (simp_all add: drop_broken_def d delete_orphans_keys, simp_all add: keys_in_def bump_def)
qed

lemma record_in_keys: "keys_in (record_in key now tally c) = keys_in c"
  by (auto simp: record_in_def on_index_def record_access_def keys_in_def stamp_entry_def AList.update_conv'
      split: option.splits if_splits)

lemma count_keys [simp]: "keys_in (count name n c) = keys_in c"
  by (simp add: count_def on_index_def keys_in_def bump_def)

lemma with_body_keys:
  assumes "\<And>x c. keys_in (fst (serve x c)) \<subseteq> keys_in c"
  shows "keys_in (fst (with_body X key r meta age wnt tally serve c)) \<subseteq> keys_in c"
proof -
  obtain fs res where m: "materialize X key r meta age wnt (files c) = (fs, res)" by fastforce
  have "keys_in (fst (discard_broken X key r tally (c\<lparr>files := fs\<rparr>))) \<subseteq> keys_in c"
    using drop_broken_keys [of X key r "c\<lparr>files := fs\<rparr>"] by (simp add: discard_broken_def miss_def record_in_keys)
  moreover have "keys_in (fst (serve x (c\<lparr>files := fs\<rparr>))) \<subseteq> keys_in c" for x
    using assms [of x "c\<lparr>files := fs\<rparr>"] by simp
  ultimately show ?thesis by (auto simp: with_body_def m split: sum.splits)
qed

lemma lookup_keys: "lookup X part meth url req now c = (c', res) \<Longrightarrow> keys_in c' \<subseteq> keys_in c"
proof -
  have miss: "keys_in (fst (miss tally reason c)) \<subseteq> keys_in c" for tally reason c
    by (simp add: miss_def record_in_keys)
  have answer: "keys_in (fst (answer X req key r meta wnt now tally c)) \<subseteq> keys_in c" for key r meta wnt tally
    unfolding answer_def by (auto simp: miss record_in_keys split: freshness.splits intro!: with_body_keys del: subsetI)
  assume "lookup X part meth url req now c = (c', res)"
  then have "c' = fst (lookup X part meth url req now c)" by simp
  then show ?thesis using miss answer by (auto simp: lookup_def Let_def split: option.splits prod.splits wanted.splits)
qed

lemma grant_keys: "grant_peer_eligibility X cid i c = (c', res) \<Longrightarrow> keys_in c' = keys_in c"
  by (auto simp: grant_peer_eligibility_def grant_eligibility_def Let_def keys_in_def split: option.splits prod.splits sum.splits if_splits)

lemma discard_representation_keys: "keys_in (fst (discard_representation X key cid c)) \<subseteq> keys_in c"
proof -
  have "keys_in (c\<lparr>index_of := ix\<rparr>) \<subseteq> keys_in c" if "drop_entry_holding key r (index_of c) = (ix, out)" for r ix out
    using drop_entry_keys [OF that [unfolded drop_entry_holding_def]] by (simp add: keys_in_def)
  then show ?thesis
    by (auto simp: discard_representation_def delete_orphans_keys split: option.splits prod.splits del: subsetI)
qed

lemma accept_peer_keys: "accept_peer_body X p b c = (c', res) \<Longrightarrow> keys_in c' = keys_in c"
  by (auto simp: accept_peer_body_def split: if_splits)

lemma invalidate_keys_keys:
  "invalidate_keys pkey vs es bs = (es', bs', out) \<Longrightarrow> dom (map_of es') \<subseteq> dom (map_of es)"
proof (induction vs arbitrary: es bs es' bs' out)
  case (Cons v vs)
  obtain es2 bs2 out2 where "invalidate_keys pkey vs (AList.delete (pkey @ CHR 0x01 # v) es)
      (fst (case map_of es (pkey @ CHR 0x01 # v) of Some r \<Rightarrow> release_all (contents r) bs | None \<Rightarrow> (bs, []))) = (es2, bs2, out2)"
    by (metis prod_cases3)
  note ih = Cons.IH [OF this] and e = this
  show ?case using Cons.prems ih e
    by (auto simp: Let_def AList.delete_conv' split: prod.splits option.splits if_splits) (metis domI dom_fun_upd domIff fun_upd_apply in_mono)?
qed simp

lemma invalidate_one_keys: "keys_in (fst (invalidate_one X part meth url c)) \<subseteq> keys_in c"
proof -
  obtain ix out where i: "invalidate part meth url (index_of c) = (ix, out)" by fastforce
  then have "keys_in (c\<lparr>index_of := ix\<rparr>) \<subseteq> keys_in c"
    by (auto simp: invalidate_def Let_def keys_in_def dest!: invalidate_keys_keys split: prod.splits del: subsetI)
  then show ?thesis by (simp add: invalidate_one_def i delete_orphans_keys)
qed

lemma invalidate_cache_keys: "keys_in (fst (invalidate_cache X part meth url c)) \<subseteq> keys_in c"
  by (auto simp: invalidate_cache_def Let_def case_prod_beta del: subsetI intro: order_trans [OF invalidate_one_keys invalidate_one_keys])

subsection \<open>The gate\<close>

text \<open>
  An invariant of the shared state that says of the store only which keys it has: it survives
  whatever adds none, a store that \<open>admits\<close> lets through, and what the other tasks do.
\<close>

definition gated :: "('h, 'u) net_env \<Rightarrow> keep \<Rightarrow> (ip_addr option \<Rightarrow> bool) \<Rightarrow> ('h net \<Rightarrow> bool) \<Rightarrow> bool" where
  "gated E k F I \<longleftrightarrow>
     (\<forall>n n'. I n \<longrightarrow> nt_cleared n' = nt_cleared n \<longrightarrow> nt_landing n' = nt_landing n
        \<longrightarrow> keys_in (nt_cache n') \<subseteq> keys_in (nt_cache n) \<longrightarrow> I n')
     \<and> (\<forall>n c from. I n \<longrightarrow> F from \<longrightarrow> admits k (nt_cleared n) from \<longrightarrow> I (with_cache (\<lambda>_. c) n))
     \<and> (\<forall>j n. I n \<longrightarrow> I (ev_meanwhile E j n))"

definition answers_from :: "('h, 'u) net_env \<Rightarrow> (ip_addr option \<Rightarrow> bool) \<Rightarrow> bool" where
  "answers_from E F \<longleftrightarrow>
     (\<forall>out i a. ev_tcp E out i = Inr a \<longrightarrow> F (av_from a))
     \<and> (\<forall>quic out i a. ev_quic E = Some quic \<longrightarrow> quic out i = Inr a \<longrightarrow> F (av_from a))"

lemma gated_fewer:
  "gated E k F I \<Longrightarrow> I n \<Longrightarrow> nt_cleared n' = nt_cleared n \<Longrightarrow> nt_landing n' = nt_landing n \<Longrightarrow>
   keys_in (nt_cache n') \<subseteq> keys_in (nt_cache n) \<Longrightarrow> I n'"
  unfolding gated_def by blast

lemma gated_cache: "gated E k F I \<Longrightarrow> I n \<Longrightarrow> keys_in (f (nt_cache n)) \<subseteq> keys_in (nt_cache n) \<Longrightarrow> I (with_cache f n)"
  by (erule gated_fewer) (simp_all add: with_cache_def)

lemma gated_store: "gated E k F I \<Longrightarrow> I n \<Longrightarrow> F from \<Longrightarrow> admits k (nt_cleared n) from \<Longrightarrow> I (with_cache (\<lambda>_. c) n)"
  unfolding gated_def by blast

lemma gated_waited: "gated E k F I \<Longrightarrow> I (ru_net r) \<Longrightarrow> I (ru_net (waited E r))"
  unfolding gated_def by (simp add: waited_def)

lemma gated_serial:
  assumes "gated E k F I" "I n"
  shows "I (n\<lparr>nt_serial := x\<rparr>)" "I (n\<lparr>nt_announced := y\<rparr>)" "I (n\<lparr>nt_alt_svc := z\<rparr>)"
    "I (n\<lparr>nt_refreshing := u, nt_tasks := v\<rparr>)"
  using gated_fewer [OF assms, of "n\<lparr>nt_serial := x\<rparr>"] gated_fewer [OF assms, of "n\<lparr>nt_announced := y\<rparr>"]
    gated_fewer [OF assms, of "n\<lparr>nt_alt_svc := z\<rparr>"] gated_fewer [OF assms, of "n\<lparr>nt_refreshing := u, nt_tasks := v\<rparr>"]
  by simp_all

text \<open>A step that may fail: what holds of its state, and of what it gives.\<close>

lemma and_net_inv:
  assumes "and_net m f = (r', res)" and "\<And>r1 x. m = (r1, x) \<Longrightarrow> P r1 \<and> (\<forall>a. x = Inr a \<longrightarrow> Q a)"
    and "\<And>r1 a. P r1 \<Longrightarrow> Q a \<Longrightarrow> f a r1 = (r', res) \<Longrightarrow> R r' res" and "\<And>r1 e. P r1 \<Longrightarrow> R r1 (Inl e)"
  shows "R r' res"
proof -
  obtain r1 x where m: "m = (r1, x)" by fastforce
  show ?thesis using assms(1) assms(2) [OF m] assms(3,4) m by (cases x) (auto simp: and_net_def)
qed

locale store_gate =
  fixes E :: "('h, 'u) net_env" and k :: keep and F :: "ip_addr option \<Rightarrow> bool" and I :: "'h net \<Rightarrow> bool"
  assumes gate: "gated E k F I" and answers: "answers_from E F"
begin

lemma net_store_gated:
  assumes "I n" "F (an_from a)" "net_store E q a k n = (n', content)"
  shows "I n'"
proof (cases "admits k (nt_cleared n) (an_from a)")
  case True
  obtain c res where "store_with_provenance (ev_externs E) (ev_unique E (nt_serial n))
      (exchange_of q (an_status a) (an_headers a) (nt_now n) (nt_now n)) (an_body a) (nt_now n) (nt_cache n) = (c, res)" by fastforce
  then have "n' = (with_cache (\<lambda>_. c) n)\<lparr>nt_serial := Suc (nt_serial n)\<rparr>"
    using assms(3) True by (simp add: net_store_def with_cache_def)
  then show ?thesis using gated_serial(1) [OF gate] gated_store [OF gate assms(1,2) True] by simp
qed (use assms in \<open>simp add: net_store_def\<close>)

lemmas kept = gated_serial [OF gate] gated_cache [OF gate] gated_waited [OF gate]

lemma grant_and_announce_gated: "I n \<Longrightarrow> I (grant_and_announce E content i n)"
proof -
  assume n: "I n"
  obtain c res where g: "grant_peer_eligibility (ev_externs E) content i (nt_cache n) = (c, res)" by fastforce
  have "I (n\<lparr>nt_cache := c\<rparr>)" by (rule gated_fewer [OF gate n]) (simp_all add: grant_keys [OF g])
  then show ?thesis by (auto simp: grant_and_announce_def g Let_def announce_def kept split: sum.splits)
qed

lemma stored_satisfies_gated: "I n \<Longrightarrow> stored_satisfies E q s n = (n', ok) \<Longrightarrow> I n'"
  by (auto simp: stored_satisfies_def share_verified_def Let_def grant_and_announce_gated
      intro!: gated_cache [OF gate] discard_representation_keys split: option.splits if_splits)

lemma origin_headers_gated:
  "origin_headers E q extra r = (r', x) \<Longrightarrow> I (ru_net r) \<Longrightarrow> I (ru_net r') \<and> (\<forall>a. x = Inr a \<longrightarrow> F (av_from a))"
  using answers kept(6) [of "r\<lparr>ru_sent := s\<rparr>" for s]
  by (auto simp: origin_headers_def send_request_def answers_from_def Let_def split: option.splits if_splits)

lemma origin_request_gated:
  assumes "origin_request E q extra r = (r', x)" "I (ru_net r)"
  shows "I (ru_net r') \<and> (\<forall>a. x = Inr a \<longrightarrow> F (an_from a))"
  by (rule and_net_inv [OF assms(1) [unfolded origin_request_def], of "\<lambda>r. I (ru_net r)" "\<lambda>a. F (av_from a)"])
    (use origin_headers_gated assms(2) kept(6) in \<open>auto split: sum.splits\<close>)

lemma over_tcp_gated:
  assumes "over_tcp E authority q extra r = (r', x)" "I (ru_net r)"
  shows "I (ru_net r') \<and> (\<forall>a. x = Inr a \<longrightarrow> F (in_from a))"
  by (rule and_net_inv [OF assms(1) [unfolded over_tcp_def], of "\<lambda>r. I (ru_net r)" "\<lambda>a. F (av_from a)"])
    (use origin_headers_gated assms(2) kept(3) in \<open>auto simp: on_net_def split: if_splits\<close>)

lemma over_quic_gated:
  assumes "over_quic E quic q extra r = (r', x)" "I (ru_net r)" "ev_quic E = Some quic"
  shows "I (ru_net r') \<and> (\<forall>a. x = Inr a \<longrightarrow> F (in_from a))"
  using assms answers kept(6) [of "r\<lparr>ru_sent := s\<rparr>" for s]
  by (auto simp: over_quic_def send_request_def answers_from_def Let_def split: sum.splits)

lemma origin_any_gated:
  assumes "origin_any E q extra r = (r', x)" "I (ru_net r)"
  shows "I (ru_net r') \<and> (\<forall>a. x = Inr a \<longrightarrow> F (in_from a))"
proof -
  have alt: "I (ru_net (on_net (\<lambda>n. n\<lparr>nt_alt_svc := f n\<rparr>) r))" if "I (ru_net r)" for f r
    using that kept(3) by (simp add: on_net_def)
  have alt2: "I (ru_net (on_net (nt_alt_svc_update (\<lambda>_. known)) r))" if "I (ru_net r)" for known r
    using alt [OF that, of "\<lambda>_. known"] by simp
  show ?thesis
    using assms(1) over_tcp_gated assms(2) over_quic_gated alt alt2
    by (auto simp: origin_any_def Let_def split: option.splits if_splits prod.splits sum.splits bool.splits)
qed

text \<open>A body that streams into the store carries the request's own leave, and its answer's address.\<close>

definition teed_with :: "'h fetch_response \<Rightarrow> bool" where
  "teed_with resp \<longleftrightarrow> (\<forall>a t. fr_body resp = Arriving a \<longrightarrow> ar_tee a = Some t \<longrightarrow> te_keep t = k \<and> F (te_from t) \<and> (\<exists>c. admits k c (te_from t)))"

definition outcome :: "'h run \<Rightarrow> net_error + 'h fetch_response \<Rightarrow> bool" where
  "outcome r' res \<longleftrightarrow> I (ru_net r') \<and> (\<forall>resp. res = Inr resp \<longrightarrow> teed_with resp)"

lemma buffered: "teed_with (finish n status headers (Buffered b) src content started proto)"
  by (simp add: teed_with_def finish_def)

lemma served_gated: "served r s headers src started = (r', res) \<Longrightarrow> I (ru_net r) \<Longrightarrow> outcome r' res"
  by (auto simp: served_def outcome_def buffered)

lemma accept_declared_gated:
  assumes "accept_declared E q i a started proto k r = (r', res)" "I (ru_net r)" "F (an_from a)"
  shows "outcome r' res"
proof -
  obtain n content where s: "net_store E q a k (ru_net r) = (n, content)" by fastforce
  have "I n" by (rule net_store_gated [OF assms(2,3) s])
  then show ?thesis using assms(1,2) grant_and_announce_gated
    by (auto simp: accept_declared_def s outcome_def buffered Let_def split: sum.splits option.splits if_splits)
qed

lemma stream_body_gated:
  assumes "stream_body E q a k n = (n', b)" "I n" "F (in_from a)"
  shows "I n'" "teed_with (finish n' status headers b src content started proto)"
proof -
  obtain fs w where w: "writer (ev_unique E (nt_serial n)) (files (nt_cache n)) = (fs, w)" by fastforce
  have "I (with_cache (\<lambda>c. c\<lparr>files := fs\<rparr>) n)" by (rule kept(5) [OF assms(2)]) simp
  then show "I n'" using assms(1,2) kept(1) by (auto simp: stream_body_def w Let_def split: if_splits)
  show "teed_with (finish n' status headers b src content started proto)"
    using assms(1,3) by (auto simp: stream_body_def w Let_def teed_with_def finish_def split: if_splits) blast
qed

lemma fetch_from_origin_gated:
  assumes "fetch_from_origin E q extra started k r = (r', res)" "I (ru_net r)"
  shows "outcome r' res"
proof (rule and_net_inv [OF assms(1) [unfolded fetch_from_origin_def], of "\<lambda>r. I (ru_net r)" "\<lambda>a. F (in_from a)"])
  fix r1 x assume "origin_any E q extra r = (r1, x)"
  then show "I (ru_net r1) \<and> (\<forall>a. x = Inr a \<longrightarrow> F (in_from a))" using origin_any_gated assms(2) by blast
next
  fix r1 :: "'h run" and e assume "I (ru_net r1)" then show "outcome r1 (Inl e)" by (simp add: outcome_def)
next
  fix r1 :: "'h run" and a :: "'h incoming"
  assume r1: "I (ru_net r1)" "F (in_from a)" and f: "(case fq_integrity q of
         Some i \<Rightarrow>
           (let r = waited E r1
            in case collect_body (nc_max_body_bytes (ev_config E)) [] (in_chunks a) of
                 Inl e \<Rightarrow> (r, Inl e)
               | Inr body \<Rightarrow>
                   accept_declared E q i \<lparr>an_status = in_status a, an_headers = in_headers a, an_body = body,
                     an_from = in_from a\<rparr> started (in_protocol a) k r)
       | None \<Rightarrow>
           (let (n, body) = stream_body E q a k (ru_net r1)
            in (r1\<lparr>ru_net := n\<rparr>,
                Inr (finish n (in_status a) (in_headers a) body FromOrigin None started (in_protocol a))))) = (r', res)"
  show "outcome r' res"
  proof (cases "fq_integrity q")
    case None
    then show ?thesis using f stream_body_gated r1 by (auto simp: outcome_def split: prod.splits)
  next
    case (Some i)
    then show ?thesis using f r1 kept(6) [OF r1(1)]
      by (auto simp: Let_def outcome_def split: sum.splits dest: accept_declared_gated)
  qed
qed

lemma if_satisfied_gated:
  assumes "if_satisfied E q s started k serve r = (r', res)" "I (ru_net r)"
    and "\<And>r r' res. serve r = (r', res) \<Longrightarrow> I (ru_net r) \<Longrightarrow> outcome r' res"
  shows "outcome r' res"
proof -
  obtain n ok where n: "stored_satisfies E q s (ru_net r) = (n, ok)" by fastforce
  have "I n" by (rule stored_satisfies_gated [OF assms(2) n])
  then show ?thesis using assms(1,3) fetch_from_origin_gated by (simp add: if_satisfied_def n Let_def split: if_splits)
qed

lemma refetch_lost_gated:
  assumes "refetch_lost E q started k r = (r', res)" "I (ru_net r)"
  shows "outcome r' res"
proof -
  have drop: "I (drop_body b n)" if "I n" for b n
    by (auto simp: drop_body_def tee_discard_def abandoned_def that split: fetch_body.splits option.splits intro!: gated_cache [OF gate])
  show ?thesis
    by (rule and_net_inv [OF assms(1) [unfolded refetch_lost_def], of "\<lambda>r. I (ru_net r)" teed_with])
      (use fetch_from_origin_gated assms(2) drop in \<open>auto simp: outcome_def on_net_def split: if_splits\<close>)
qed

lemma confirmed_gated:
  assumes "confirmed E q s a started k r = (r', res)" "I (ru_net r)" "F (an_from a)"
  shows "outcome r' res"
proof (cases "admits k (nt_cleared (ru_net r)) (an_from a)")
  case True
  obtain c recorded where rec: "record_not_modified (ev_externs E) (r_key s) (an_headers a) (nt_now (ru_net r))
      (nt_now (ru_net r)) (nt_now (ru_net r)) (nt_cache (ru_net r)) = (c, recorded)" by fastforce
  have i: "I (ru_net (on_net (with_cache (\<lambda>_. c)) r))"
    using gated_store [OF gate assms(2,3) True] by (simp add: on_net_def)
  then show ?thesis using assms(1) True refetch_lost_gated served_gated
    by (auto simp: confirmed_def Let_def rec outcome_def split: sum.splits option.splits if_splits
        dest!: if_satisfied_gated [OF _ i])
qed (use assms served_gated in \<open>auto simp: confirmed_def Let_def\<close>)

lemma revalidated_gated:
  assumes "revalidated E q s conditional window started k r = (r', res)" "I (ru_net r)"
  shows "outcome r' res"
proof -
  obtain r1 x where o: "origin_request E q conditional r = (r1, x)" by fastforce
  have i: "I (ru_net r1)" "\<And>a. x = Inr a \<Longrightarrow> F (an_from a)" using origin_request_gated [OF o assms(2)] by blast+
  show ?thesis
  proof (cases x)
    case (Inl e)
    then show ?thesis using assms(1) o i(1) served_gated by (auto simp: revalidated_def outcome_def split: if_splits)
  next
    case (Inr a)
    obtain n content where s: "net_store E q a k (ru_net r1) = (n, content)" by fastforce
    have "I n" by (rule net_store_gated [OF i(1) i(2) [OF Inr] s])
    then show ?thesis using assms(1) o Inr i confirmed_gated accept_declared_gated
      by (auto simp: revalidated_def s outcome_def buffered split: if_splits option.splits)
  qed
qed

lemma try_peers_gated: "try_peers E q started r = (r', x) \<Longrightarrow> I (ru_net r) \<Longrightarrow> I (ru_net r') \<and> (\<forall>resp. x = Some resp \<longrightarrow> teed_with resp)"
  by (auto simp: try_peers_def Let_def on_net_def buffered kept(6) split: option.splits sum.splits prod.splits
      intro!: gated_cache [OF gate] dest!: accept_peer_keys del: subsetI)

lemma fetch_asked_gated:
  assumes "fetch_asked E q started k r = (r', res)" "I (ru_net r)"
  shows "outcome r' res"
proof -
  obtain c found where l: "lookup (ev_externs E) (fq_partition q) (fq_method q) (fq_url q) (fq_headers q)
      (nt_now (ru_net r)) (nt_cache (ru_net r)) = (c, found)" by fastforce
  define r0 where "r0 = on_net (with_cache (\<lambda>_. c)) r"
  have i: "I (ru_net r0)" unfolding r0_def on_net_def by simp (rule kept(5) [OF assms(2) lookup_keys [OF l]])
  note f = assms(1) [unfolded fetch_asked_def Let_def l prod.case r0_def [symmetric]]
  have refresh: "I (ru_net (if b then on_net (spawn_refresh key q cond k) r else r))" if "I (ru_net r)" for b key cond r
    using that kept(4) by (auto simp: on_net_def spawn_refresh_def)
  show ?thesis
  proof (cases found)
    case (Inr h)
    note hit = f [unfolded Inr sum.case]
    show ?thesis
    proof (cases h)
      case (Miss reason)
      obtain r1 x where t: "try_peers E q started r0 = (r1, x)" by fastforce
      show ?thesis using hit Miss t try_peers_gated [OF t i] fetch_from_origin_gated
        by (auto simp: outcome_def split: option.splits)
    next
      case (FreshHit x)
      show ?thesis by (rule if_satisfied_gated [OF hit [unfolded FreshHit lookup.case] i]) (rule served_gated)
    next
      case (StaleHit x b reason)
      show ?thesis by (rule if_satisfied_gated [OF hit [unfolded StaleHit lookup.case] i]) (rule served_gated, assumption, rule refresh)
    next
      case (RevalidateHit x conditional window reason)
      show ?thesis by (rule if_satisfied_gated [OF hit [unfolded RevalidateHit lookup.case] i]) (rule revalidated_gated)
    qed
  qed (use f i in \<open>auto simp: outcome_def\<close>)
qed

end

subsection \<open>A clear\<close>

text \<open>Since a request began: nothing cleared, or nothing stored.\<close>

definition emptied_since :: "keep \<Rightarrow> 'h net \<Rightarrow> bool" where
  "emptied_since k n \<longleftrightarrow> kp_since k \<le> nt_cleared n \<and> (kp_since k < nt_cleared n \<longrightarrow> keys_in (nt_cache n) = {})"

lemma cleared_empties: "nt_cleared (fst (clear_net n)) = nt_cleared n + 1 \<and> keys_in (nt_cache (fst (clear_net n))) = {}"
  by (simp add: clear_net_def clear_cache_def clear_index_def keys_in_def Let_def empty_index_def split: prod.splits)

lemma cleared_gated:
  assumes "\<forall>j n. emptied_since k n \<longrightarrow> emptied_since k (ev_meanwhile E j n)"
  shows "store_gate E k (\<lambda>_. True) (emptied_since k)"
proof
  show "gated E k (\<lambda>_. True) (emptied_since k)"
    using assms by (auto simp: gated_def emptied_since_def admits_def with_cache_def split: if_splits)
qed (simp add: answers_from_def)

text \<open>With no other task running, every fetch is such.\<close>

definition quiet :: "('h, 'u) net_env \<Rightarrow> ('h, 'u) net_env" where
  "quiet E = E\<lparr>ev_meanwhile := \<lambda>j n. n\<rparr>"

interpretation alone: store_gate "quiet E" k "\<lambda>_. True" "emptied_since k" for E k
  by (rule cleared_gated) (simp add: quiet_def)


text \<open>A clear in the middle of the fetch.\<close>

definition clearing_env :: "((string \<times> bytes) list, string) net_env" where
  "clearing_env = (demo_net_env ''body'')\<lparr>ev_meanwhile := \<lambda>j n. fst (clear_net n)\<rparr>"

definition demo_keep :: keep where
  "demo_keep = \<lparr>kp_since = 0, kp_public_only = False\<rparr>"


subsection \<open>Addresses that are not public\<close>

definition not_public :: "ip_addr option \<Rightarrow> bool" where
  "not_public from \<longleftrightarrow> \<not> (case from of Some ip \<Rightarrow> is_public ip | None \<Rightarrow> False)"

definition nothing_private :: "string set \<Rightarrow> 'h net \<Rightarrow> bool" where
  "nothing_private K n \<longleftrightarrow> keys_in (nt_cache n) \<subseteq> K
     \<and> (\<forall>l\<in>set (nt_landing n). kp_public_only (te_keep (la_tee l)) \<and> not_public (te_from (la_tee l)))"

lemma not_admitted: "kp_public_only k \<Longrightarrow> not_public from \<Longrightarrow> \<not> admits k c from"
  by (simp add: admits_def not_public_def)

lemma private_gated:
  assumes "kp_public_only k" "answers_from E not_public"
    and "\<forall>j n. nothing_private K n \<longrightarrow> nothing_private K (ev_meanwhile E j n)"
  shows "store_gate E k not_public (nothing_private K)"
proof
  have "nothing_private K n'" if "nothing_private K n" "nt_landing n' = nt_landing n"
      "keys_in (nt_cache n') \<subseteq> keys_in (nt_cache n)" for n n' :: "'a net"
    using that by (auto simp: nothing_private_def)
  moreover have "nothing_private K (with_cache (\<lambda>_. c) n)" if "not_public ip" "admits k (nt_cleared n) ip" for n :: "'a net" and c ip
    using that not_admitted [OF assms(1)] by blast
  ultimately show "gated E k not_public (nothing_private K)"
    unfolding gated_def using assms(3) by (intro conjI allI impI) simp_all
qed (rule assms(2))

lemma write_streamed_private:
  assumes "kp_public_only (te_keep (la_tee l))" "not_public (te_from (la_tee l))" "nothing_private K n"
  shows "nothing_private K (write_streamed E l n)"
proof -
  have "write_streamed E l n = abandoned (la_writer l) n"
    using not_admitted [OF assms(1,2)] by (simp add: write_streamed_def)
  then show ?thesis using assms(3) by (simp add: abandoned_def with_cache_def nothing_private_def)
qed

lemma settled_private:
  assumes "nothing_private K n"
  shows "nothing_private K (settled E address n)"
proof -
  have run: "nothing_private K (fold (write_streamed E) ls n)"
    if "\<forall>l\<in>set ls. kp_public_only (te_keep (la_tee l)) \<and> not_public (te_from (la_tee l))" "nothing_private K n" for ls n
    using that by (induction ls arbitrary: n) (auto intro: write_streamed_private)
  show ?thesis unfolding settled_def by (rule run) (use assms in \<open>auto simp: nothing_private_def\<close>)
qed

lemma drop_body_keys: "keys_in (nt_cache (drop_body b n)) = keys_in (nt_cache n) \<and> nt_landing (drop_body b n) = nt_landing n"
  by (simp add: drop_body_def tee_discard_def abandoned_def with_cache_def split: fetch_body.splits option.splits)

lemma fetch_once_private:
  assumes "nc_public_only (ev_config E)" "answers_from E not_public"
    and "\<forall>j n. nothing_private K n \<longrightarrow> nothing_private K (ev_meanwhile E j n)"
    and "nothing_private K (ru_net r)" "fetch_once E q r = (r', res)"
  shows "nothing_private K (ru_net r') \<and> (\<forall>resp a. res = Inr resp \<longrightarrow> fr_body resp = Arriving a \<longrightarrow> ar_tee a = None)"
proof -
  define r0 where "r0 = waited E (on_net (settled E (Some (landing_address (ev_externs E) (fq_partition q) (fq_url q)))) r)"
  define k where "k = keep_now (ev_config E) (ru_net r0)"
  have k: "kp_public_only k" using assms(1) by (simp add: k_def keep_now_def)
  note gate = private_gated [OF k assms(2,3)]
  have i: "nothing_private K (ru_net r0)"
    using assms(3) by (simp add: settled_private [OF assms(4)] r0_def waited_def on_net_def)
  note o = assms(5) [unfolded fetch_once_def Let_def r0_def [symmetric] k_def [symmetric]]
  show ?thesis
  proof (cases "invalidates (fq_method q)")
    case True
    let ?r = "on_net (with_cache (\<lambda>c. fst (invalidate_cache (ev_externs E) (fq_partition q) (fq_method q) (fq_url q) c))) r0"
    have "keys_in (nt_cache (ru_net ?r)) \<subseteq> keys_in (nt_cache (ru_net r0))" "nt_landing (ru_net ?r) = nt_landing (ru_net r0)"
      using invalidate_cache_keys by (simp_all add: on_net_def with_cache_def)
    then have "nothing_private K (ru_net ?r)" using i by (auto simp: nothing_private_def)
    from store_gate.origin_request_gated [OF gate _ this] show ?thesis
      using o True by (auto simp: fetch_unsafe_def and_net_def finish_def split: prod.splits sum.splits)
  next
    case False
    then have "store_gate.outcome k not_public (nothing_private K) r' res"
      using o store_gate.fetch_asked_gated [OF gate _ i] by simp
    then show ?thesis
      using not_admitted [OF k] unfolding store_gate.outcome_def [OF gate] store_gate.teed_with_def [OF gate]
      by (metis option.exhaust)
  qed
qed

lemma fetch_loop_private:
  assumes "nc_public_only (ev_config E)" "answers_from E not_public"
    and "\<forall>j n. nothing_private K n \<longrightarrow> nothing_private K (ev_meanwhile E j n)"
    and "nothing_private K (ru_net r)" "fetch_loop E q redirects visited r = (r', res)"
  shows "nothing_private K (ru_net r') \<and> (\<forall>resp a. res = Inr resp \<longrightarrow> fr_body resp = Arriving a \<longrightarrow> ar_tee a = None)"
  using assms(4-)
proof (induction "nc_max_redirects (ev_config E) - redirects" arbitrary: q redirects visited r rule: less_induct)
  case less
  obtain r1 x where o: "fetch_once E q r = (r1, x)" by fastforce
  note once = fetch_once_private [OF assms(1-3) less.prems(1) o]
  have dropped: "nothing_private K (ru_net (on_net (drop_body b) r1))" for b
    using once by (simp add: drop_body_keys on_net_def nothing_private_def)
  have ih: "?case" if "fetch_loop E q' (redirects + 1) visited' (on_net (drop_body b) r1) = (r', res)"
      "redirects < nc_max_redirects (ev_config E)" for q' visited' b
    by (rule less.hyps [OF _ dropped that(1)]) (use that(2) in simp)
  show ?case
    using less.prems(2) [unfolded fetch_loop.simps [of E q] o prod.case Let_def] once dropped ih
    by (auto simp: final_redirect_def not_le split: sum.splits if_splits option.splits)
qed

text \<open>
  C4: A proxy that keeps only what is public keeps nothing private. With
  \<open>cache_public_addresses_only\<close> set, when every answer a fetch gets comes from an address that
  is not public - this machine, the local network, or one that is not known - the fetch leaves
  no entry that was not there: not the answer, not a redirect on the way, and nothing is
  written behind a body that is still arriving. So, by the same hypothesis, do the other tasks.
\<close>

theorem private_answers_are_never_stored:
  assumes "nc_public_only (ev_config E)" and "answers_from E not_public"
    and "\<forall>j n. nothing_private K n \<longrightarrow> nothing_private K (ev_meanwhile E j n)"
    and "nothing_private K (ru_net r)" and "fetch E q r = (r', res)"
  shows "keys_in (nt_cache (ru_net r')) \<subseteq> K
    \<and> (\<forall>resp a. res = Inr resp \<longrightarrow> fr_body resp = Arriving a \<longrightarrow> ar_tee a = None)"
proof (cases "refuse_unusable_integrity (ev_externs E) (ev_crates E) q")
  case (Inl e)
  then show ?thesis using assms(4,5) by (auto simp: fetch_def nothing_private_def)
next
  case (Inr u)
  then have "fetch_loop E q 0 [normalize_url (ev_externs E) (fq_url q)] r = (r', res)" using assms(5) by (simp add: fetch_def)
  then show ?thesis using fetch_loop_private [OF assms(1-4)] by (simp add: nothing_private_def)
qed

text \<open>A server on this machine, behind a proxy that keeps only what is public.\<close>

definition local_env :: "((string \<times> bytes) list, string) net_env" where
  "local_env = (demo_net_env [])\<lparr>ev_config := demo_config\<lparr>nc_public_only := True\<rparr>, ev_peers := None,
     ev_tcp := (\<lambda>out i. Inr \<lparr>av_status = 200, av_headers = [], av_frames = [FrameData ''local''],
       av_version = HTTP_11, av_from = Some (V4 (v4_of 127 0 0 1))\<rparr>)\<rparr>"

theorem private_answers_are_never_stored_witness:
  "\<exists>r' res. fetch local_env (fetch_get demo ''https://a.test/x'') demo_run = (r', res) \<and> keys_in (nt_cache (ru_net r')) = {}"
proof -
  obtain r' res where f: "fetch local_env (fetch_get demo ''https://a.test/x'') demo_run = (r', res)" by fastforce
  have "\<not> is_public (V4 (v4_of 127 0 0 1))"
    by (simp add: is_public_v4_def NOT_PUBLIC_V4_def in_v4_prefix)
  then have "answers_from local_env not_public"
    by (simp add: answers_from_def local_env_def demo_net_env_def not_public_def)
  moreover have "nothing_private {} (ru_net demo_run)"
    by (simp add: demo_run_def empty_net_def nothing_private_def keys_in_def empty_index_def)
  moreover have "nc_public_only (ev_config local_env)" "ev_meanwhile local_env = (\<lambda>j n. n)"
    by (simp_all add: local_env_def demo_net_env_def)
  ultimately show ?thesis using private_answers_are_never_stored [of local_env "{}" demo_run] f by auto
qed

end
