(* ===== verification/Net_Stream.thy ===== *)
theory Net_Stream
  imports Net_Gate
begin

text \<open>
  A body that streams into the store on its way to the caller: the caller gets what the origin
  sent, whatever becomes of the store, and the store is given what the caller got.
\<close>

fun whole_of :: "bytes \<Rightarrow> (net_error + bytes) list \<Rightarrow> net_error + bytes" where
  "whole_of out [] = Inr out"
| "whole_of out (Inl e # rest) = Inl e"
| "whole_of out (Inr chunk # rest) = whole_of (out @ chunk) rest"

lemma collect_arriving_step:
  "collect_arriving E out a r =
     (case pull E a (ru_net (waited E r)) of
        (n, a', None) \<Rightarrow> ((waited E r)\<lparr>ru_net := n\<rparr>, Inr out)
      | (n, a', Some (Inl e)) \<Rightarrow> ((waited E r)\<lparr>ru_net := drop_body (Arriving a') n\<rparr>, Inl e)
      | (n, a', Some (Inr chunk)) \<Rightarrow> collect_arriving E (out @ chunk) a' ((waited E r)\<lparr>ru_net := n\<rparr>))"
  by (subst collect_arriving.simps) (simp add: Let_def)

lemma collect_whole: "snd (collect_arriving E out a r) = whole_of out (ar_chunks a)"
proof (induction "ar_chunks a" arbitrary: a out r)
  case Nil
  then show ?case by (subst collect_arriving_step) (simp add: pull_def split: option.splits)
next
  case (Cons x rest)
  note step = collect_arriving_step [of E out a r]
  show ?case
  proof (cases x)
    case (Inl e)
    then show ?thesis unfolding step using Cons(2) [symmetric] by (simp add: pull_def split: option.splits)
  next
    case (Inr chunk)
    have "\<exists>n' a'. pull E a (ru_net (waited E r)) = (n', a', Some (Inr chunk)) \<and> ar_chunks a' = rest"
    proof (cases "ar_tee a")
      case None
      then show ?thesis using Cons(2) [symmetric] Inr by (simp add: pull_def)
    next
      case (Some t)
      obtain n' t' where "tee_observe chunk t (ru_net (waited E r)) = (n', t')" by fastforce
      then show ?thesis using Some Cons(2) [symmetric] Inr by (simp add: pull_def)
    qed
    then obtain n' a' where p: "pull E a (ru_net (waited E r)) = (n', a', Some (Inr chunk))" and a': "ar_chunks a' = rest"
      by blast
    show ?thesis unfolding step p using Cons(1) [OF a' [symmetric]] Cons(2) [symmetric] Inr a' by simp
  qed
qed

lemma whole_of_grows: "whole_of out xs = Inr body \<Longrightarrow> length out \<le> length body"
proof (induction xs arbitrary: out)
  case Nil
  then show ?case by simp
next
  case (Cons x xs)
  then show ?case by (cases x) fastforce+
qed

text \<open>How far a tee has come: all of what was passed on is in its file, or it has been given up.\<close>

definition tee_holds :: "bytes \<Rightarrow> 'h teed \<Rightarrow> 'h net \<Rightarrow> bool" where
  "tee_holds out t n \<longleftrightarrow>
     (case te_writer t of
        Some w \<Rightarrow> bw_open w \<and> bw_hasher w = out \<and> bw_len w = length out \<and> length out \<le> te_limit t
          \<and> map_of (files (nt_cache n)) (bw_path w) = Some out
      | None \<Rightarrow> te_limit t < length out)"

text \<open>What does not change of a tee as chunks pass.\<close>

definition tee_like :: "'h teed \<Rightarrow> 'h teed \<Rightarrow> bool" where
  "tee_like t' t \<longleftrightarrow> te_limit t' = te_limit t \<and> te_request t' = te_request t \<and> te_keep t' = te_keep t
     \<and> te_from t' = te_from t"

lemma tee_observe_holds:
  assumes "tee_holds out t n" "tee_observe chunk t n = (n', t')"
  shows "tee_holds (out @ chunk) t' n'" "tee_like t' t" "nt_landing n' = nt_landing n"
proof -
  have "tee_holds (out @ chunk) t' n' \<and> tee_like t' t \<and> nt_landing n' = nt_landing n"
  proof (cases "te_writer t")
    case None
    then show ?thesis using assms by (auto simp: tee_observe_def tee_holds_def tee_like_def)
  next
    case (Some w)
    have w: "bw_open w" "bw_hasher w = out" "bw_len w = length out" "map_of (files (nt_cache n)) (bw_path w) = Some out"
      using assms(1) Some by (auto simp: tee_holds_def)
    show ?thesis
    proof (cases "te_limit t < length out + length chunk")
      case True
      then show ?thesis using assms(2) Some w
        by (auto simp: tee_observe_def tee_holds_def tee_like_def abandoned_def with_cache_def)
    next
      case False
      then show ?thesis using assms(2) Some w
        by (auto simp: tee_observe_def tee_holds_def tee_like_def writer_write_def with_cache_def AList.update_conv')
    qed
  qed
  then show "tee_holds (out @ chunk) t' n'" "tee_like t' t" "nt_landing n' = nt_landing n" by auto
qed

text \<open>What reaches the end of the body is landed: the writer holds exactly what the caller was given.\<close>

definition lands_as :: "('h, 'u) net_env \<Rightarrow> 'h teed \<Rightarrow> bytes \<Rightarrow> 'h landing \<Rightarrow> 'h net \<Rightarrow> bool" where
  "lands_as E t body l n \<longleftrightarrow>
     bw_hasher (la_writer l) = body \<and> bw_len (la_writer l) = length body
     \<and> map_of (files (nt_cache n)) (bw_path (la_writer l)) = Some body
     \<and> tee_like (la_tee l) t
     \<and> la_address l = landing_address (ev_externs E) (fq_partition (te_request t)) (fq_url (te_request t))"

lemma collect_lands:
  assumes "ev_meanwhile E = (\<lambda>_ n. n)" "ar_tee a = Some t" "tee_holds out t (ru_net r)"
    "whole_of out (ar_chunks a) = Inr body"
  shows "if length body \<le> te_limit t
    then \<exists>l. nt_landing (ru_net (fst (collect_arriving E out a r))) = nt_landing (ru_net r) @ [l]
      \<and> lands_as E t body l (ru_net (fst (collect_arriving E out a r)))
    else nt_landing (ru_net (fst (collect_arriving E out a r))) = nt_landing (ru_net r)"
  using assms(2-4)
proof (induction "ar_chunks a" arbitrary: a t out r)
  case Nil
  have net: "ru_net (waited E r) = ru_net r" by (simp add: waited_def assms(1))
  have body: "body = out" using Nil by simp
  have run: "ru_net (fst (collect_arriving E out a r)) = land (ev_externs E) t (ru_net r)"
    unfolding collect_arriving_step [of E out a r] using Nil(1) [symmetric] Nil(2) by (simp add: pull_def net)
  show ?case unfolding run body using Nil(3)
    by (auto simp: land_def tee_holds_def lands_as_def tee_like_def split: option.splits)
next
  case (Cons x rest)
  have net: "ru_net (waited E r) = ru_net r" by (simp add: waited_def assms(1))
  obtain chunk where x: "x = Inr chunk" using Cons(5) by (cases x) (auto simp: Cons(2) [symmetric])
  obtain n' t' where o: "tee_observe chunk t (ru_net r) = (n', t')" by fastforce
  note held = tee_observe_holds [OF Cons(4) o]
  let ?a = "\<lparr>ar_chunks = rest, ar_tee = Some t'\<rparr>"
  let ?r = "(waited E r)\<lparr>ru_net := n'\<rparr>"
  have step: "collect_arriving E out a r = collect_arriving E (out @ chunk) ?a ?r"
    unfolding collect_arriving_step [of E out a r] using Cons(2) [symmetric] Cons(3) x o by (simp add: pull_def net)
  have "whole_of (out @ chunk) (ar_chunks ?a) = Inr body" using Cons(2) [symmetric] Cons(5) x by simp
  then have "if length body \<le> te_limit t'
    then \<exists>l. nt_landing (ru_net (fst (collect_arriving E (out @ chunk) ?a ?r))) = nt_landing (ru_net ?r) @ [l]
      \<and> lands_as E t' body l (ru_net (fst (collect_arriving E (out @ chunk) ?a ?r)))
    else nt_landing (ru_net (fst (collect_arriving E (out @ chunk) ?a ?r))) = nt_landing (ru_net ?r)"
    using Cons(1) [of ?a t' "out @ chunk" ?r] held(1) by simp
  moreover have "lands_as E t' body l m \<Longrightarrow> lands_as E t body l m" for l m
    using held(2) by (simp add: lands_as_def tee_like_def)
  ultimately show ?case unfolding step using held(2,3) by (auto simp: tee_like_def split: if_splits)
qed

lemma tee_observe_landing [simp]: "nt_landing (fst (tee_observe c t n)) = nt_landing n"
  by (auto simp: tee_observe_def abandoned_def with_cache_def split: option.splits prod.splits sum.splits)

lemma tee_discard_landing [simp]: "nt_landing (tee_discard t n) = nt_landing n"
  by (simp add: tee_discard_def abandoned_def with_cache_def split: option.split)

lemma pull_chunk:
  assumes "ar_chunks a = Inr c # rest"
  shows "\<exists>n' a'. pull E a n = (n', a', Some (Inr c)) \<and> ar_chunks a' = rest \<and> nt_landing n' = nt_landing n
    \<and> (ar_tee a = None \<longrightarrow> ar_tee a' = None)"
proof (cases "ar_tee a")
  case None
  then show ?thesis using assms by (simp add: pull_def)
next
  case (Some t)
  obtain n' t' where o: "tee_observe c t n = (n', t')" by fastforce
  then have "nt_landing n' = nt_landing n" using tee_observe_landing [of c t n] by simp
  then show ?thesis using Some assms o by (simp add: pull_def)
qed

text \<open>A body that breaks off, or that nothing is written behind, leaves nothing to be stored.\<close>

lemma collect_lands_nothing:
  assumes "ev_meanwhile E = (\<lambda>_ n. n)" "ar_tee a = None \<or> whole_of out (ar_chunks a) = Inl e"
  shows "nt_landing (ru_net (fst (collect_arriving E out a r))) = nt_landing (ru_net r)"
  using assms(2)
proof (induction "ar_chunks a" arbitrary: a out r)
  case Nil
  have net: "ru_net (waited E r) = ru_net r" by (simp add: waited_def assms(1))
  have "ar_tee a = None" using Nil by (auto simp: Nil(1) [symmetric])
  then show ?case unfolding collect_arriving_step [of E out a r] using Nil(1) [symmetric] by (simp add: pull_def net)
next
  case (Cons x rest)
  have net: "ru_net (waited E r) = ru_net r" by (simp add: waited_def assms(1))
  show ?case
  proof (cases x)
    case (Inl b)
    then show ?thesis unfolding collect_arriving_step [of E out a r] using Cons(2) [symmetric]
      by (auto simp: pull_def net drop_body_def split: option.splits)
  next
    case (Inr c)
    obtain n' a' where p: "pull E a (ru_net r) = (n', a', Some (Inr c))" and a': "ar_chunks a' = rest"
        and n': "nt_landing n' = nt_landing (ru_net r)" and none: "ar_tee a = None \<longrightarrow> ar_tee a' = None"
      using pull_chunk Cons(2) [symmetric] Inr by metis
    have "ar_tee a' = None \<or> whole_of (out @ c) (ar_chunks a') = Inl e"
      using Cons(3) none a' Inr by (auto simp: Cons(2) [symmetric])
    then show ?thesis unfolding collect_arriving_step [of E out a r] net p
      using Cons(1) [of a' "out @ c"] a' n' by simp
  qed
qed

lemma stream_body_shape:
  assumes "stream_body E q a k n = (n', b)"
  shows "\<exists>arr. b = Arriving arr \<and> ar_chunks arr = in_chunks a \<and> nt_landing n' = nt_landing n
    \<and> (if admits k (nt_cleared n) (in_from a)
       then \<exists>t. ar_tee arr = Some t \<and> tee_holds [] t n' \<and> te_limit t = nc_max_body_bytes (ev_config E)
         \<and> te_request t = q \<and> te_keep t = k \<and> te_from t = in_from a
       else ar_tee arr = None)"
proof (cases "admits k (nt_cleared n) (in_from a)")
  case True
  then show ?thesis using assms
    by (auto simp: stream_body_def writer_def Let_def with_cache_def tee_holds_def AList.update_conv')
next
  case False
  then show ?thesis using assms by (auto simp: stream_body_def)
qed

definition entry_begun :: "('h, 'u) net_env \<Rightarrow> 'h fetch_request \<Rightarrow> 'h incoming \<Rightarrow> keep \<Rightarrow> bytes \<Rightarrow> 'h landing \<Rightarrow> 'h net \<Rightarrow> bool" where
  "entry_begun E q a k body l n \<longleftrightarrow>
     bw_hasher (la_writer l) = body \<and> bw_len (la_writer l) = length body
     \<and> map_of (files (nt_cache n)) (bw_path (la_writer l)) = Some body
     \<and> te_request (la_tee l) = q \<and> te_keep (la_tee l) = k \<and> te_from (la_tee l) = in_from a
     \<and> la_address l = landing_address (ev_externs E) (fq_partition q) (fq_url q)"

text \<open>
  C5: Streaming a body into the store is invisible to who asked for it. Whatever the store
  and the other tasks do in between, collecting the body gives exactly the bytes the
  origin sent, or its first failure. And what is stored is what was given: left alone, an
  entry is begun at the end exactly when the body arrived whole, within the limit, and its
  storing was allowed when it began; its writer then holds those bytes, all of them, under
  the address of the request. A body that broke off, or outgrew the limit, or could not be
  stored, leaves no entry.
\<close>

theorem streaming_is_transparent:
  assumes "stream_body E q a k n = (n', b)" and "ru_net r = n'"
  shows "snd (collect_fetched E b r) = whole_of [] (in_chunks a)
    \<and> (ev_meanwhile E = (\<lambda>_ n. n) \<longrightarrow>
        (case whole_of [] (in_chunks a) of
           Inr body \<Rightarrow>
             if admits k (nt_cleared n) (in_from a) \<and> length body \<le> nc_max_body_bytes (ev_config E)
             then \<exists>l. nt_landing (ru_net (fst (collect_fetched E b r))) = nt_landing n @ [l]
               \<and> entry_begun E q a k body l (ru_net (fst (collect_fetched E b r)))
             else nt_landing (ru_net (fst (collect_fetched E b r))) = nt_landing n
         | Inl e \<Rightarrow> nt_landing (ru_net (fst (collect_fetched E b r))) = nt_landing n))"
proof -
  obtain arr where b: "b = Arriving arr" and chunks: "ar_chunks arr = in_chunks a" and same: "nt_landing n' = nt_landing n"
      and tee: "if admits k (nt_cleared n) (in_from a)
        then \<exists>t. ar_tee arr = Some t \<and> tee_holds [] t n' \<and> te_limit t = nc_max_body_bytes (ev_config E)
          \<and> te_request t = q \<and> te_keep t = k \<and> te_from t = in_from a
        else ar_tee arr = None"
    using stream_body_shape [OF assms(1)] by blast
  have fetched: "collect_fetched E b r = collect_arriving E [] arr r" by (simp add: collect_fetched_def b)
  have given: "snd (collect_fetched E b r) = whole_of [] (in_chunks a)"
    unfolding fetched collect_whole chunks ..
  have begun: "\<exists>l. nt_landing (ru_net (fst (collect_fetched E b r))) = nt_landing n @ [l]
      \<and> entry_begun E q a k body l (ru_net (fst (collect_fetched E b r)))"
    if quiet: "ev_meanwhile E = (\<lambda>_ n. n)" and body: "whole_of [] (in_chunks a) = Inr body"
      and can: "admits k (nt_cleared n) (in_from a)" and fits: "length body \<le> nc_max_body_bytes (ev_config E)" for body
  proof -
    obtain t where t: "ar_tee arr = Some t" "tee_holds [] t (ru_net r)" "te_limit t = nc_max_body_bytes (ev_config E)"
        "te_request t = q" "te_keep t = k" "te_from t = in_from a"
      using tee can assms(2) by auto
    show ?thesis using collect_lands [OF quiet t(1,2), of body] body chunks t(3-6) fits same assms(2)
      unfolding fetched by (auto simp: lands_as_def entry_begun_def tee_like_def)
  qed
  have not_begun: "nt_landing (ru_net (fst (collect_fetched E b r))) = nt_landing n"
    if quiet: "ev_meanwhile E = (\<lambda>_ n. n)"
      and no: "\<not> admits k (nt_cleared n) (in_from a) \<or> (\<exists>e. whole_of [] (in_chunks a) = Inl e)
        \<or> (\<exists>body. whole_of [] (in_chunks a) = Inr body \<and> nc_max_body_bytes (ev_config E) < length body)"
  proof (cases "ar_tee arr = None \<or> (\<exists>e. whole_of [] (in_chunks a) = Inl e)")
    case True
    then show ?thesis using collect_lands_nothing [OF quiet] chunks same assms(2) unfolding fetched by metis
  next
    case False
    then obtain t body where t: "ar_tee arr = Some t" "tee_holds [] t (ru_net r)"
        "te_limit t = nc_max_body_bytes (ev_config E)"
        and body: "whole_of [] (in_chunks a) = Inr body" "nc_max_body_bytes (ev_config E) < length body"
      using no tee assms(2) by (auto split: if_splits)
    show ?thesis using collect_lands [OF quiet t(1,2), of body] body chunks t(3) same assms(2)
      unfolding fetched by simp
  qed
  show ?thesis using given begun not_begun by (auto split: sum.split simp: not_le)
qed

definition demo_incoming :: "(string \<times> bytes) list incoming" where
  "demo_incoming = \<lparr>in_status = 200, in_headers = [], in_chunks = [Inr ''on'', Inr ''e''], in_protocol = Http1,
     in_from = None\<rparr>"

definition demo_stream_keep :: keep where
  "demo_stream_keep = keep_now demo_config (empty_net :: (string \<times> bytes) list net)"

definition demo_teed :: "(string \<times> bytes) list run" where
  "demo_teed = demo_run\<lparr>ru_net := fst (stream_body (demo_net_env []) demo_declared demo_incoming
     demo_stream_keep empty_net)\<rparr>"

theorem streaming_is_transparent_witness:
  "snd (collect_fetched (demo_net_env []) (snd (stream_body (demo_net_env []) demo_declared demo_incoming
       demo_stream_keep empty_net)) demo_teed) = Inr ''one''
   \<and> length (nt_landing (ru_net (fst (collect_fetched (demo_net_env []) (snd (stream_body (demo_net_env [])
       demo_declared demo_incoming demo_stream_keep empty_net)) demo_teed)))) = 1"
proof -
  have admitted: "admits demo_stream_keep 0 None"
    by (simp add: admits_def demo_stream_keep_def keep_now_def demo_config_def empty_net_def)
  have net: "ru_net demo_teed = fst (stream_body (demo_net_env []) demo_declared demo_incoming
      demo_stream_keep empty_net)"
    by (simp add: demo_teed_def)
  show ?thesis
    using streaming_is_transparent [OF prod.collapse [symmetric] net] admitted
    by (auto simp: demo_incoming_def demo_net_env_def demo_config_def empty_net_def)
qed

end
