(* ===== verification/Stats.thy ===== *)
theory Stats
  imports Binary64 Cache_Write
begin

text \<open>
  The cache's statistics: \<open>crates/syndeo-cache/src/stats.rs\<close> and \<open>Cache::stats\<close>. A sum of two
  counters is a \<open>u64\<close> without a check; a ratio is a binary64.
\<close>

record stats =
  st_requests :: nat
  st_hits :: nat
  st_stale_hits :: nat
  st_misses :: nat
  st_revalidations :: nat
  st_not_modified :: nat
  st_stores :: nat
  st_rejects :: nat
  st_bytes_from_cache :: nat
  st_bytes_from_origin :: nat
  st_bytes_deduped :: nat
  st_peer_accepted :: nat
  st_peer_rejected :: nat
  st_range_hits :: nat
  st_partial_stores :: nat
  st_evictions :: nat
  st_corrupt_entries :: nat
  st_swept_temporaries :: nat
  st_entries :: nat
  st_blobs :: nat
  st_unique_bytes :: nat
  st_on_disk_bytes :: nat
  st_logical_bytes :: nat
  st_sri_rows :: nat

definition no_stats :: stats where
  "no_stats = \<lparr>st_requests = 0, st_hits = 0, st_stale_hits = 0, st_misses = 0, st_revalidations = 0,
     st_not_modified = 0, st_stores = 0, st_rejects = 0, st_bytes_from_cache = 0, st_bytes_from_origin = 0,
     st_bytes_deduped = 0, st_peer_accepted = 0, st_peer_rejected = 0, st_range_hits = 0, st_partial_stores = 0,
     st_evictions = 0, st_corrupt_entries = 0, st_swept_temporaries = 0, st_entries = 0, st_blobs = 0,
     st_unique_bytes = 0, st_on_disk_bytes = 0, st_logical_bytes = 0, st_sri_rows = 0\<rparr>"

definition apply_counter :: "string \<times> nat \<Rightarrow> stats \<Rightarrow> stats" where
  "apply_counter nv s =
     (let (name, value) = nv in
      if name = ''requests'' then s\<lparr>st_requests := value\<rparr>
      else if name = ''hits'' then s\<lparr>st_hits := value\<rparr>
      else if name = ''stale_hits'' then s\<lparr>st_stale_hits := value\<rparr>
      else if name = ''misses'' then s\<lparr>st_misses := value\<rparr>
      else if name = ''revalidations'' then s\<lparr>st_revalidations := value\<rparr>
      else if name = ''not_modified'' then s\<lparr>st_not_modified := value\<rparr>
      else if name = ''stores'' then s\<lparr>st_stores := value\<rparr>
      else if name = ''rejects'' then s\<lparr>st_rejects := value\<rparr>
      else if name = ''bytes_from_cache'' then s\<lparr>st_bytes_from_cache := value\<rparr>
      else if name = ''bytes_from_origin'' then s\<lparr>st_bytes_from_origin := value\<rparr>
      else if name = ''bytes_deduped'' then s\<lparr>st_bytes_deduped := value\<rparr>
      else if name = ''peer_accepted'' then s\<lparr>st_peer_accepted := value\<rparr>
      else if name = ''peer_rejected'' then s\<lparr>st_peer_rejected := value\<rparr>
      else if name = ''range_hits'' then s\<lparr>st_range_hits := value\<rparr>
      else if name = ''partial_stores'' then s\<lparr>st_partial_stores := value\<rparr>
      else if name = ''evictions'' then s\<lparr>st_evictions := value\<rparr>
      else if name = ''corrupt_entries'' then s\<lparr>st_corrupt_entries := value\<rparr>
      else if name = ''swept_temporaries'' then s\<lparr>st_swept_temporaries := value\<rparr>
      else s)"

definition cache_stats :: "cache \<Rightarrow> stats" where
  "cache_stats c =
     (let (count, unique, on_disk, logical) = blob_totals (index_of c);
          s = no_stats\<lparr>st_entries := entry_count (index_of c), st_blobs := count, st_unique_bytes := unique,
                st_on_disk_bytes := on_disk, st_logical_bytes := logical,
                st_sri_rows := length (sri_rows (index_of c))\<rparr>
      in fold apply_counter (in_key_order (counters (index_of c))) s)"

subsection \<open>Ratios\<close>

definition hit_rate :: "stats \<Rightarrow> rat" where
  "hit_rate s =
     (if st_requests s = 0 then 0
      else f64_div (f64_of_u64 (wrap64 (st_hits s + st_stale_hits s))) (f64_of_u64 (st_requests s)))"

definition dedupe_ratio :: "stats \<Rightarrow> rat" where
  "dedupe_ratio s =
     (if st_unique_bytes s = 0 then 1
      else f64_div (f64_of_u64 (st_logical_bytes s)) (f64_of_u64 (st_unique_bytes s)))"

definition compression_ratio :: "stats \<Rightarrow> rat" where
  "compression_ratio s =
     (if st_on_disk_bytes s = 0 then 1
      else f64_div (f64_of_u64 (st_unique_bytes s)) (f64_of_u64 (st_on_disk_bytes s)))"

definition byte_hit_rate :: "stats \<Rightarrow> rat" where
  "byte_hit_rate s =
     (let total = wrap64 (st_bytes_from_cache s + st_bytes_from_origin s)
      in if total = 0 then 0 else f64_div (f64_of_u64 (st_bytes_from_cache s)) (f64_of_u64 total))"

subsection \<open>As text\<close>

text \<open>A number that is not negative with \<open>d\<close> decimals, as \<open>{:.d}\<close> prints it.\<close>

definition fixed :: "nat \<Rightarrow> rat \<Rightarrow> string" where
  "fixed d x =
     (let n = nat (round_even (x * 10 ^ d)); frac = show_nat (n mod 10 ^ d)
      in show_nat (n div 10 ^ d) @ (if d = 0 then [] else ''.'' @ replicate (d - length frac) (CHR ''0'') @ frac))"

definition UNITS :: "string list" where
  "UNITS = [''B'', ''KiB'', ''MiB'', ''GiB'', ''TiB'']"

text \<open>The loop: \<open>left\<close> units are still to be tried.\<close>

fun scaled :: "nat \<Rightarrow> rat \<Rightarrow> nat \<Rightarrow> rat \<times> nat" where
  "scaled 0 value unit = (value, unit)"
| "scaled (Suc left) value unit =
     (if 1024 \<le> value then scaled left (f64_div value 1024) (Suc unit) else (value, unit))"

definition human :: "nat \<Rightarrow> string" where
  "human bytes =
     (let (value, unit) = scaled (length UNITS - 1) (f64_of_u64 bytes) 0
      in if unit = 0 then show_nat bytes @ '' B'' else fixed 1 value @ '' '' @ UNITS ! unit)"

definition render_stats :: "stats \<Rightarrow> string" where
  "render_stats s =
     ''requests '' @ show_nat (st_requests s) @ ''  hits '' @ show_nat (st_hits s)
     @ ''  stale '' @ show_nat (st_stale_hits s) @ ''  misses '' @ show_nat (st_misses s)
     @ ''  revalidations '' @ show_nat (st_revalidations s) @ '' (304: '' @ show_nat (st_not_modified s) @ '')'' @ [CHR 0x0A]
     @ ''hit rate '' @ fixed 1 (f64_mul (hit_rate s) 100)
     @ ''%  byte hit rate '' @ fixed 1 (f64_mul (byte_hit_rate s) 100) @ ''%'' @ [CHR 0x0A]
     @ ''entries '' @ show_nat (st_entries s) @ ''  blobs '' @ show_nat (st_blobs s)
     @ ''  dedupe '' @ fixed 2 (dedupe_ratio s) @ ''x  compression '' @ fixed 2 (compression_ratio s) @ ''x'' @ [CHR 0x0A]
     @ ''unique '' @ human (st_unique_bytes s) @ ''  on disk '' @ human (st_on_disk_bytes s)
     @ ''  logical '' @ human (st_logical_bytes s) @ [CHR 0x0A]
     @ ''range hits '' @ show_nat (st_range_hits s) @ ''  partial stores '' @ show_nat (st_partial_stores s)
     @ ''  evictions '' @ show_nat (st_evictions s) @ ''  lost bodies '' @ show_nat (st_corrupt_entries s) @ [CHR 0x0A]
     @ ''peer accepted '' @ show_nat (st_peer_accepted s) @ ''  peer rejected '' @ show_nat (st_peer_rejected s)"

end
