(* ===== verification/Net_Service.thy ===== *)
theory Net_Service
  imports Keystore_Demo Net_Stream Wire Stats
begin

text \<open>
  The network process answering over a socket, \<open>crates/syndeo-net/src/service.rs\<close>: a request
  arrives as a frame and is answered as a sequence of frames. The write of a frame may break off
  part way (\<open>se_broken\<close>: how many of its bytes get out, and why no more), and other tasks run
  while it is written. What the client can read is what was written, in order.
\<close>

record ('h, 'u) service_env =
  se_net :: "('h, 'u) net_env"
  se_encode :: "net_response \<Rightarrow> bytes"
  se_broken :: "nat \<Rightarrow> (nat \<times> frame_error) option"
  se_method :: "string \<Rightarrow> string option"
  se_json :: "stats \<Rightarrow> string"
  se_swarm :: "nat \<Rightarrow> string option"
  se_library_text :: string

record 'h service =
  sv_run :: "'h run"
  sv_out :: bytes
  sv_frames :: nat

abbreviation se_externs :: "('h, 'u) service_env \<Rightarrow> ('h, 'u) externs" where
  "se_externs S \<equiv> ev_externs (se_net S)"

definition error_text :: "('h, 'u) service_env \<Rightarrow> net_error \<Rightarrow> string" where
  "error_text S e = net_error_text (se_externs S) (ev_crates (se_net S)) (se_library_text S) e"

definition reply_with :: "('h, 'u) service_env \<Rightarrow> net_response \<Rightarrow> 'h service \<Rightarrow> 'h service \<times> (frame_error + unit)" where
  "reply_with S m s =
     (case send_frame (se_encode S) m of
        Inl e \<Rightarrow> (s, Inl e)
      | Inr f \<Rightarrow>
          (let s' = s\<lparr>sv_run := waited (se_net S) (sv_run s), sv_frames := Suc (sv_frames s)\<rparr>
           in case se_broken S (sv_frames s) of
                Some (k, e) \<Rightarrow> (s'\<lparr>sv_out := sv_out s @ take k f\<rparr>, Inl e)
              | None \<Rightarrow> (s'\<lparr>sv_out := sv_out s @ f\<rparr>, Inr ())))"

definition and_reply ::
    "'h service \<times> (frame_error + unit) \<Rightarrow> ('h service \<Rightarrow> 'h service \<times> (frame_error + unit)) \<Rightarrow> 'h service \<times> (frame_error + unit)" where
  "and_reply m f = (case m of (s, Inl e) \<Rightarrow> (s, Inl e) | (s, Inr _) \<Rightarrow> f s)"

definition CHUNK :: nat where
  "CHUNK = 512 * 1024"

function chunked :: "bytes \<Rightarrow> bytes list" where
  "chunked b = (if b = [] then [] else take CHUNK b # chunked (drop CHUNK b))"
  by pat_completeness auto
termination by (relation "measure length") (auto simp: CHUNK_def)

declare chunked.simps [simp del]

fun send_pieces :: "('h, 'u) service_env \<Rightarrow> bytes list \<Rightarrow> 'h service \<Rightarrow> 'h service \<times> (frame_error + unit)" where
  "send_pieces S [] s = (s, Inr ())"
| "send_pieces S (p # ps) s = and_reply (reply_with S (FetchChunk p) s) (send_pieces S ps)"

definition header_pairs :: "('h, 'u) externs \<Rightarrow> 'h \<Rightarrow> (string \<times> string) list" where
  "header_pairs X headers = List.map_filter (\<lambda>(n, v). map_option (Pair n) (to_str X v)) (hm_iter X headers)"

definition begin_of :: "('h, 'u) externs \<Rightarrow> 'h fetch_response \<Rightarrow> net_response" where
  "begin_of X resp = FetchBegin (fr_status resp) (header_pairs X (fr_headers resp))
     (source_str (fr_source resp)) (protocol_str (fr_protocol resp)) (fr_elapsed_ms resp)"

definition end_of :: "('h, 'u) externs \<Rightarrow> 'h fetch_response \<Rightarrow> net_response" where
  "end_of X resp = FetchEnd (map_option (to_hex X) (fr_content resp))"

definition on_run :: "('h run \<Rightarrow> 'h run) \<Rightarrow> 'h service \<Rightarrow> 'h service" where
  "on_run f s = s\<lparr>sv_run := f (sv_run s)\<rparr>"

text \<open>A body sent on as it arrives, each chunk in pieces, up to its end or its failure.\<close>

function send_arriving ::
    "('h, 'u) service_env \<Rightarrow> net_response \<Rightarrow> 'h arriving \<Rightarrow> 'h service \<Rightarrow> 'h service \<times> (frame_error + unit)" where
  "send_arriving S done_with a s =
     (let r = waited (se_net S) (sv_run s)
      in case pull (se_net S) a (ru_net r) of
           (n, a', None) \<Rightarrow> reply_with S done_with (s\<lparr>sv_run := r\<lparr>ru_net := n\<rparr>\<rparr>)
         | (n, a', Some (Inl e)) \<Rightarrow> reply_with S (NetError (error_text S e)) (s\<lparr>sv_run := r\<lparr>ru_net := n\<rparr>\<rparr>)
         | (n, a', Some (Inr chunk)) \<Rightarrow>
             (case send_pieces S (chunked chunk) (s\<lparr>sv_run := r\<lparr>ru_net := n\<rparr>\<rparr>) of
                (s, Inr _) \<Rightarrow> send_arriving S done_with a' s
              | (s, Inl e) \<Rightarrow> (on_run (on_net (drop_body (Arriving a'))) s, Inl e)))"
  by pat_completeness auto
termination by (relation "measure (\<lambda>(S, m, a, s). length (ar_chunks a))") (auto dest: pull_shrinks [OF sym])

declare send_arriving.simps [simp del]

definition send_body ::
    "('h, 'u) service_env \<Rightarrow> net_response \<Rightarrow> 'h fetch_body \<Rightarrow> 'h service \<Rightarrow> 'h service \<times> (frame_error + unit)" where
  "send_body S done_with b s =
     (case b of
        Buffered bs \<Rightarrow> and_reply (send_pieces S (chunked bs) s) (reply_with S done_with)
      | Arriving a \<Rightarrow> send_arriving S done_with a s)"

subsection \<open>A request\<close>

text \<open>What was declared: nothing, something usable, or why it is refused.\<close>

definition declared_of :: "('h, 'u) service_env \<Rightarrow> string option \<Rightarrow> string + integrity option" where
  "declared_of S integrity =
     (case map_option (parse_integrity (se_externs S)) integrity of
        None \<Rightarrow> Inr None
      | Some (Inr i) \<Rightarrow> if i \<noteq> [] then Inr (Some i) else Inl ''integrity: no usable hash was declared''
      | Some (Inl e) \<Rightarrow> Inl (''integrity: '' @ cache_error_text (se_library_text S) e))"

definition header_of_pairs :: "('h, 'u) externs \<Rightarrow> (string \<times> string) list \<Rightarrow> 'h" where
  "header_of_pairs X pairs =
     fold (\<lambda>(name, value) h.
         case (name_from_bytes X name, value_from_str X value) of
           (Some n, Some v) \<Rightarrow> hm_append X n v h
         | _ \<Rightarrow> h)
       pairs (hm_empty X)"

definition service_request ::
    "('h, 'u) service_env \<Rightarrow> string \<Rightarrow> string \<Rightarrow> (string \<times> string) list \<Rightarrow> bytes \<Rightarrow> integrity option \<Rightarrow> string option
      \<Rightarrow> 'h fetch_request" where
  "service_request S parsed url headers body declared part =
     \<lparr>fq_method = parsed, fq_url = url, fq_headers = header_of_pairs (se_externs S) headers, fq_body = body,
      fq_integrity = declared,
      fq_partition = (if nc_partition_cache (ev_config (se_net S)) then part else None),
      fq_redirect = Follow\<rparr>"

text \<open>A declared body is whole and checked before anything of it is sent.\<close>

definition send_response ::
    "('h, 'u) service_env \<Rightarrow> integrity option \<Rightarrow> 'h fetch_response \<Rightarrow> 'h service \<Rightarrow> 'h service \<times> (frame_error + unit)" where
  "send_response S declared resp s =
     (let X = se_externs S
      in case declared of
           Some i \<Rightarrow>
             (case collect_fetched (se_net S) (fr_body resp) (sv_run s) of
                (r, Inl e) \<Rightarrow> reply_with S (NetError (error_text S e)) (s\<lparr>sv_run := r\<rparr>)
              | (r, Inr whole) \<Rightarrow>
                  (case check_integrity X i whole of
                     Inl e \<Rightarrow> reply_with S (NetError (''integrity: '' @ cache_error_text (se_library_text S) e)) (s\<lparr>sv_run := r\<rparr>)
                   | Inr _ \<Rightarrow>
                       and_reply (reply_with S (begin_of X resp) (s\<lparr>sv_run := r\<rparr>)) (\<lambda>s.
                       and_reply (send_pieces S (chunked whole) s) (reply_with S (end_of X resp)))))
         | None \<Rightarrow>
             (case reply_with S (begin_of X resp) s of
                (s, Inl e) \<Rightarrow> (on_run (on_net (drop_body (fr_body resp))) s, Inl e)
              | (s, Inr _) \<Rightarrow> send_body S (end_of X resp) (fr_body resp) s))"

definition serve_fetch ::
    "('h, 'u) service_env \<Rightarrow> string \<Rightarrow> string \<Rightarrow> (string \<times> string) list \<Rightarrow> bytes \<Rightarrow> string option \<Rightarrow> string option
      \<Rightarrow> 'h service \<Rightarrow> 'h service \<times> (frame_error + unit)" where
  "serve_fetch S meth url headers body integrity part s =
     (case se_method S meth of
        None \<Rightarrow> reply_with S (NetError (''unknown method '' @ meth)) s
      | Some parsed \<Rightarrow>
          (case declared_of S integrity of
             Inl refusal \<Rightarrow> reply_with S (NetError refusal) s
           | Inr declared \<Rightarrow>
               (case fetch (se_net S) (service_request S parsed url headers body declared part) (sv_run s) of
                  (r, Inl e) \<Rightarrow> reply_with S (NetError (error_text S e)) (s\<lparr>sv_run := r\<rparr>)
                | (r, Inr resp) \<Rightarrow> send_response S declared resp (s\<lparr>sv_run := r\<rparr>))))"

text \<open>What is not a fetch fits in one reply.\<close>

definition net_handle :: "('h, 'u) service_env \<Rightarrow> net_request \<Rightarrow> 'h service \<Rightarrow> 'h service \<times> net_response" where
  "net_handle S request s =
     (case request of
        Fetch _ _ _ _ _ _ \<Rightarrow> (s, NetError ''a fetch is answered in frames; use `respond`'')
      | NetStats \<Rightarrow>
          (let r = waited (se_net S) (on_net (settled (se_net S) None) (sv_run s))
           in (s\<lparr>sv_run := r\<rparr>, StatsReply (se_json S (cache_stats (nt_cache (ru_net r))))))
      | NetPeerStatus \<Rightarrow>
          (on_run (waited (se_net S)) s,
           case se_swarm S (ru_waits (sv_run s)) of
             Some status \<Rightarrow> PeerStatusReply status
           | None \<Rightarrow> NetError ''this node is not in the peer swarm'')
      | NetPing \<Rightarrow> (s, Pong))"

definition respond :: "('h, 'u) service_env \<Rightarrow> net_request \<Rightarrow> 'h service \<Rightarrow> 'h service \<times> (frame_error + unit)" where
  "respond S request s =
     (case request of
        Fetch meth url headers body integrity part \<Rightarrow> serve_fetch S meth url headers body integrity part s
      | _ \<Rightarrow> (let (s, response) = net_handle S request s in reply_with S response s))"

text \<open>A connection: its requests one after the other, until it closes or a reply cannot be sent.\<close>

function serve_connection ::
    "('h, 'u) service_env \<Rightarrow> (bytes \<Rightarrow> net_request option) \<Rightarrow> bytes \<Rightarrow> 'h service \<Rightarrow> 'h service" where
  "serve_connection S D stream s =
     (case recv_frame D stream of
        (rest, Inl _) \<Rightarrow> on_run (waited (se_net S)) s
      | (rest, Inr request) \<Rightarrow>
          (case respond S request (on_run (waited (se_net S)) s) of
             (s, Inr _) \<Rightarrow> serve_connection S D rest s
           | (s, Inl _) \<Rightarrow> s))"
  by pat_completeness auto
termination by (relation "measure (\<lambda>(S, D, stream, s). length stream)") (auto dest: recv_frame_shrinks [OF sym])

declare serve_connection.simps [simp del]

subsection \<open>What the client can read\<close>

text \<open>
  Of the messages \<open>ms\<close>, the first few are written, the last of them perhaps in part; all of them
  if nothing failed.
\<close>

definition delivers :: "('h, 'u) service_env \<Rightarrow> net_response list \<Rightarrow> 'h service \<Rightarrow> 'h service \<times> (frame_error + unit) \<Rightarrow> bool" where
  "delivers S ms s out \<longleftrightarrow>
     (\<exists>n stream k. frames (se_encode S) (take n ms) = Some stream \<and> sv_out (fst out) = sv_out s @ take k stream
        \<and> (snd out = Inr () \<longrightarrow> length stream \<le> k \<and> length ms \<le> n))
     \<and> ((\<forall>n. se_broken S n = None) \<and> (\<forall>m\<in>set ms. length (se_encode S m) \<le> MAX_FRAME) \<longrightarrow> snd out = Inr ())"

lemma frames_append: "frames E (as @ bs) = (case frames E as of None \<Rightarrow> None | Some a \<Rightarrow> map_option ((@) a) (frames E bs))"
  by (induction as; cases "frames E bs") (auto split: sum.splits option.splits)

lemma send_frame_fits: "length (E m) \<le> MAX_FRAME \<Longrightarrow> \<exists>f. send_frame E m = Inr f"
  by (simp add: send_frame_def Let_def)

lemma delivers_nothing: "sv_out (fst out) = sv_out s \<Longrightarrow> snd out = Inr () \<Longrightarrow> delivers S [] s out"
  by (auto simp: delivers_def)

lemma delivers_one: "delivers S [m] s (reply_with S m s)"
proof (cases "send_frame (se_encode S) m")
  case (Inl e)
  then have "frames (se_encode S) (take 0 [m]) = Some []" "sv_out (fst (reply_with S m s)) = sv_out s @ take 0 []"
    "snd (reply_with S m s) \<noteq> Inr ()" by (simp_all add: reply_with_def)
  moreover have "\<not> length (se_encode S m) \<le> MAX_FRAME" using Inl send_frame_fits by fastforce
  ultimately show ?thesis unfolding delivers_def by (metis list.set_intros(1))
next
  case (Inr f)
  then have f: "frames (se_encode S) (take 1 [m]) = Some f" by simp
  show ?thesis
  proof (cases "se_broken S (sv_frames s)")
    case None
    then have "sv_out (fst (reply_with S m s)) = sv_out s @ take (length f) f \<and> snd (reply_with S m s) = Inr ()"
      using Inr by (simp add: reply_with_def Let_def)
    then show ?thesis using f unfolding delivers_def by (metis One_nat_def dual_order.refl length_Cons list.size(3))
  next
    case (Some ke)
    then obtain k e where "se_broken S (sv_frames s) = Some (k, e)" by (cases ke) auto
    then have "sv_out (fst (reply_with S m s)) = sv_out s @ take k f \<and> snd (reply_with S m s) = Inl e"
      using Inr by (simp add: reply_with_def Let_def)
    then show ?thesis using f Some unfolding delivers_def by (metis option.distinct(1) sum.distinct(1))
  qed
qed

lemma delivers_then:
  assumes "delivers S as s m" and "\<And>s'. m = (s', Inr ()) \<Longrightarrow> delivers S bs s' (f s')"
  shows "delivers S (as @ bs) s (and_reply m f)"
proof -
  obtain s1 r1 where m: "m = (s1, r1)" by fastforce
  obtain n stream k where d: "frames (se_encode S) (take n as) = Some stream" "sv_out s1 = sv_out s @ take k stream"
      "r1 = Inr () \<longrightarrow> length stream \<le> k \<and> length as \<le> n"
    and ok: "(\<forall>n. se_broken S n = None) \<and> (\<forall>m\<in>set as. length (se_encode S m) \<le> MAX_FRAME) \<longrightarrow> r1 = Inr ()"
    using assms(1) unfolding delivers_def m by auto
  show ?thesis
  proof (cases r1)
    case (Inl e)
    have "frames (se_encode S) (take (min n (length as)) (as @ bs)) = Some stream"
      using d(1) by (cases "n \<le> length as") simp_all
    then have ex: "\<exists>n stream k. frames (se_encode S) (take n (as @ bs)) = Some stream \<and> sv_out s1 = sv_out s @ take k stream"
      using d(2) by blast
    have bad: "\<not> ((\<forall>n. se_broken S n = None) \<and> (\<forall>m\<in>set (as @ bs). length (se_encode S m) \<le> MAX_FRAME))"
      using ok Inl by auto
    have failed: "and_reply m f = (s1, Inl e)" "(Inl e :: frame_error + unit) \<noteq> Inr ()"
      by (simp_all add: and_reply_def m Inl)
    show ?thesis unfolding delivers_def failed(1) fst_conv snd_conv using ex bad failed(2) by blast
  next
    case (Inr u)
    obtain n' stream' k' where d': "frames (se_encode S) (take n' bs) = Some stream'"
        "sv_out (fst (f s1)) = sv_out s1 @ take k' stream'"
        "snd (f s1) = Inr () \<longrightarrow> length stream' \<le> k' \<and> length bs \<le> n'"
      and ok': "(\<forall>n. se_broken S n = None) \<and> (\<forall>m\<in>set bs. length (se_encode S m) \<le> MAX_FRAME) \<longrightarrow> snd (f s1) = Inr ()"
      using assms(2) [of s1] Inr unfolding delivers_def m by auto
    have "frames (se_encode S) (take (length as + n') (as @ bs)) = Some (stream @ stream')"
      using d d' Inr by (simp add: frames_append)
    moreover have "sv_out (fst (and_reply m f)) = sv_out s @ take (length stream + k') (stream @ stream')"
      using d d' Inr by (simp add: and_reply_def m)
    moreover have "snd (and_reply m f) = snd (f s1)" by (simp add: and_reply_def m Inr)
    ultimately show ?thesis using d'(3) ok' unfolding delivers_def by (metis Un_iff add_le_cancel_left length_append set_append)
  qed
qed

lemma delivers_pieces: "delivers S (map FetchChunk ps) s (send_pieces S ps s)"
proof (induction ps arbitrary: s)
  case Nil
  then show ?case by (auto intro: delivers_nothing)
next
  case (Cons p ps)
  have "delivers S ([FetchChunk p] @ map FetchChunk ps) s (send_pieces S (p # ps) s)"
    unfolding send_pieces.simps by (rule delivers_then [OF delivers_one]) (rule Cons)
  then show ?case by simp
qed

text \<open>What differs only in the run delivers the same.\<close>

lemma delivers_out: "delivers S ms s out \<Longrightarrow> sv_out s' = sv_out s \<Longrightarrow> delivers S ms s' out"
  by (simp add: delivers_def)

lemma delivers_result: "delivers S ms s out \<Longrightarrow> sv_out (fst out') = sv_out (fst out) \<Longrightarrow> snd out' = snd out \<Longrightarrow> delivers S ms s out'"
  by (simp add: delivers_def)

fun body_messages :: "('h, 'u) service_env \<Rightarrow> net_response \<Rightarrow> (net_error + bytes) list \<Rightarrow> net_response list" where
  "body_messages S done_with [] = [done_with]"
| "body_messages S done_with (Inl e # _) = [NetError (error_text S e)]"
| "body_messages S done_with (Inr c # rest) = map FetchChunk (chunked c) @ body_messages S done_with rest"

lemma send_arriving_step:
  "send_arriving S done_with a s =
     (case pull (se_net S) a (ru_net (waited (se_net S) (sv_run s))) of
        (n, a', None) \<Rightarrow> reply_with S done_with (s\<lparr>sv_run := (waited (se_net S) (sv_run s))\<lparr>ru_net := n\<rparr>\<rparr>)
      | (n, a', Some (Inl e)) \<Rightarrow>
          reply_with S (NetError (error_text S e)) (s\<lparr>sv_run := (waited (se_net S) (sv_run s))\<lparr>ru_net := n\<rparr>\<rparr>)
      | (n, a', Some (Inr chunk)) \<Rightarrow>
          (case send_pieces S (chunked chunk) (s\<lparr>sv_run := (waited (se_net S) (sv_run s))\<lparr>ru_net := n\<rparr>\<rparr>) of
             (s, Inr _) \<Rightarrow> send_arriving S done_with a' s
           | (s, Inl e) \<Rightarrow> (on_run (on_net (drop_body (Arriving a'))) s, Inl e)))"
  by (subst send_arriving.simps) (simp add: Let_def)

lemma pull_end: "ar_chunks a = [] \<Longrightarrow> \<exists>n' a'. pull E a n = (n', a', None)"
  by (simp add: pull_def split: option.split)

lemma pull_failure: "ar_chunks a = Inl e # rest \<Longrightarrow> \<exists>n' a'. pull E a n = (n', a', Some (Inl e))"
  by (simp add: pull_def split: option.split)

lemma delivers_arriving: "delivers S (body_messages S done_with (ar_chunks a)) s (send_arriving S done_with a s)"
proof (induction "ar_chunks a" arbitrary: a s)
  case Nil
  then obtain n' a' where "pull (se_net S) a (ru_net (waited (se_net S) (sv_run s))) = (n', a', None)"
    using pull_end by metis
  then show ?case unfolding send_arriving_step [of S done_with a s] Nil [symmetric]
    by (auto intro: delivers_out [OF delivers_one])
next
  case (Cons x rest)
  show ?case
  proof (cases x)
    case (Inl e)
    then obtain n' a' where "pull (se_net S) a (ru_net (waited (se_net S) (sv_run s))) = (n', a', Some (Inl e))"
      using pull_failure Cons(2) [symmetric] by metis
    then show ?thesis unfolding send_arriving_step [of S done_with a s] Cons(2) [symmetric] Inl
      by (auto intro: delivers_out [OF delivers_one])
  next
    case (Inr c)
    obtain n' a' where p: "pull (se_net S) a (ru_net (waited (se_net S) (sv_run s))) = (n', a', Some (Inr c))"
        and a': "ar_chunks a' = rest"
      using pull_chunk Cons(2) [symmetric] Inr by metis
    let ?s = "s\<lparr>sv_run := (waited (se_net S) (sv_run s))\<lparr>ru_net := n'\<rparr>\<rparr>"
    let ?sent = "and_reply (send_pieces S (chunked c) ?s) (send_arriving S done_with a')"
    have "delivers S (map FetchChunk (chunked c) @ body_messages S done_with rest) ?s ?sent"
      using Cons(1) [of a'] a' by (intro delivers_then [OF delivers_pieces]) simp
    then have "delivers S (map FetchChunk (chunked c) @ body_messages S done_with rest) s ?sent"
      by (rule delivers_out) simp
    then show ?thesis unfolding send_arriving_step [of S done_with a s] p Cons(2) [symmetric] Inr body_messages.simps
      by (rule delivers_result)
        (auto simp: and_reply_def on_run_def split: prod.splits sum.splits)
  qed
qed


text \<open>What a body's stream gives.\<close>

definition body_chunks :: "'h fetch_body \<Rightarrow> (net_error + bytes) list" where
  "body_chunks b = (case b of Buffered bs \<Rightarrow> [Inr bs] | Arriving a \<Rightarrow> ar_chunks a)"

lemma collected_whole: "snd (collect_fetched E b r) = whole_of [] (body_chunks b)"
  by (cases b) (simp_all add: collect_fetched_def body_chunks_def collect_whole)

lemma delivers_body: "delivers S (body_messages S done_with (body_chunks b)) s (send_body S done_with b s)"
proof (cases b)
  case (Buffered bs)
  have "delivers S (map FetchChunk (chunked bs) @ [done_with]) s
      (and_reply (send_pieces S (chunked bs) s) (reply_with S done_with))"
    by (rule delivers_then [OF delivers_pieces delivers_one])
  then show ?thesis using Buffered by (simp add: send_body_def body_chunks_def)
next
  case (Arriving a)
  then show ?thesis using delivers_arriving by (simp add: send_body_def body_chunks_def)
qed

text \<open>The messages that answer a fetch, when all of them are sent.\<close>

definition response_messages :: "('h, 'u) service_env \<Rightarrow> integrity option \<Rightarrow> 'h fetch_response \<Rightarrow> net_response list" where
  "response_messages S declared resp =
     (let X = se_externs S
      in case declared of
           None \<Rightarrow> begin_of X resp # body_messages S (end_of X resp) (body_chunks (fr_body resp))
         | Some i \<Rightarrow>
             (case whole_of [] (body_chunks (fr_body resp)) of
                Inl e \<Rightarrow> [NetError (error_text S e)]
              | Inr whole \<Rightarrow>
                  (case check_integrity X i whole of
                     Inl e \<Rightarrow> [NetError (''integrity: '' @ cache_error_text (se_library_text S) e)]
                   | Inr _ \<Rightarrow> begin_of X resp # map FetchChunk (chunked whole) @ [end_of X resp])))"

lemma delivers_response: "delivers S (response_messages S declared resp) s (send_response S declared resp s)"
proof (cases declared)
  case None
  let ?b = "begin_of (se_externs S) resp" and ?e = "end_of (se_externs S) resp"
  let ?sent = "and_reply (reply_with S ?b s) (send_body S ?e (fr_body resp))"
  have "delivers S ([?b] @ body_messages S ?e (body_chunks (fr_body resp))) s ?sent"
    by (rule delivers_then [OF delivers_one delivers_body])
  then have "delivers S ([?b] @ body_messages S ?e (body_chunks (fr_body resp))) s (send_response S None resp s)"
    by (rule delivers_result)
      (auto simp: send_response_def and_reply_def on_run_def Let_def split: prod.splits sum.splits)
  then show ?thesis using None by (simp add: response_messages_def Let_def)
next
  case (Some i)
  obtain r got where g: "collect_fetched (se_net S) (fr_body resp) (sv_run s) = (r, got)" by fastforce
  then have w: "whole_of [] (body_chunks (fr_body resp)) = got"
    using collected_whole [of "se_net S" "fr_body resp" "sv_run s"] by simp
  show ?thesis
  proof (cases got)
    case (Inl e)
    then show ?thesis using Some g w
      by (auto simp: response_messages_def send_response_def Let_def intro: delivers_out [OF delivers_one])
  next
    case (Inr whole)
    let ?s = "s\<lparr>sv_run := r\<rparr>"
    let ?b = "begin_of (se_externs S) resp" and ?e = "end_of (se_externs S) resp"
    have rest: "delivers S (map FetchChunk (chunked whole) @ [?e]) s' (and_reply (send_pieces S (chunked whole) s') (reply_with S ?e))" for s'
      by (rule delivers_then [OF delivers_pieces delivers_one])
    have "delivers S ([?b] @ map FetchChunk (chunked whole) @ [?e]) ?s
        (and_reply (reply_with S ?b ?s) (\<lambda>s. and_reply (send_pieces S (chunked whole) s) (reply_with S ?e)))"
      by (rule delivers_then [OF delivers_one rest])
    then have "delivers S ([?b] @ map FetchChunk (chunked whole) @ [?e]) s
        (and_reply (reply_with S ?b ?s) (\<lambda>s. and_reply (send_pieces S (chunked whole) s) (reply_with S ?e)))"
      by (rule delivers_out) simp
    then have all: "delivers S (?b # map FetchChunk (chunked whole) @ [?e]) s
        (and_reply (reply_with S ?b ?s) (\<lambda>s. and_reply (send_pieces S (chunked whole) s) (reply_with S ?e)))"
      by simp
    show ?thesis
    proof (cases "check_integrity (se_externs S) i whole")
      case (Inl e)
      then show ?thesis using Some g w \<open>got = Inr whole\<close>
        by (auto simp: response_messages_def send_response_def Let_def intro: delivers_out [OF delivers_one])
    next
      case (Inr u)
      then show ?thesis using Some g w \<open>got = Inr whole\<close> all
        by (simp add: response_messages_def send_response_def Let_def)
    qed
  qed
qed

definition fetch_messages ::
    "('h, 'u) service_env \<Rightarrow> string \<Rightarrow> string \<Rightarrow> (string \<times> string) list \<Rightarrow> bytes \<Rightarrow> string option \<Rightarrow> string option
      \<Rightarrow> 'h run \<Rightarrow> net_response list" where
  "fetch_messages S meth url headers body integrity part r =
     (case se_method S meth of
        None \<Rightarrow> [NetError (''unknown method '' @ meth)]
      | Some parsed \<Rightarrow>
          (case declared_of S integrity of
             Inl refusal \<Rightarrow> [NetError refusal]
           | Inr declared \<Rightarrow>
               (case snd (fetch (se_net S) (service_request S parsed url headers body declared part) r) of
                  Inl e \<Rightarrow> [NetError (error_text S e)]
                | Inr resp \<Rightarrow> response_messages S declared resp)))"

lemma delivers_fetch:
  "delivers S (fetch_messages S meth url headers body integrity part (sv_run s)) s
     (serve_fetch S meth url headers body integrity part s)"
proof (cases "\<exists>parsed declared. se_method S meth = Some parsed \<and> declared_of S integrity = Inr declared")
  case True
  then obtain parsed declared where p: "se_method S meth = Some parsed" "declared_of S integrity = Inr declared" by blast
  obtain r got where g: "fetch (se_net S) (service_request S parsed url headers body declared part) (sv_run s) = (r, got)"
    by fastforce
  show ?thesis
  proof (cases got)
    case (Inl e)
    then show ?thesis using p g
      by (auto simp: fetch_messages_def serve_fetch_def intro: delivers_out [OF delivers_one])
  next
    case (Inr resp)
    have "delivers S (response_messages S declared resp) s (send_response S declared resp (s\<lparr>sv_run := r\<rparr>))"
      by (rule delivers_out [OF delivers_response]) simp
    then show ?thesis using p g Inr by (simp add: fetch_messages_def serve_fetch_def)
  qed
next
  case False
  then show ?thesis
    by (auto simp: fetch_messages_def serve_fetch_def delivers_one split: option.split sum.split)
qed

subsection \<open>What the client makes of it\<close>

lemma received_delivered:
  assumes "\<forall>m. D (se_encode S m) = Some m" and "delivers S ms s out" and "sv_out (fst out) = sv_out s @ stream"
  shows "\<exists>n. received D stream = take n ms" and "snd out = Inr () \<Longrightarrow> received D stream = ms"
proof -
  obtain n whole k where d: "frames (se_encode S) (take n ms) = Some whole" "stream = take k whole"
      "snd out = Inr () \<longrightarrow> length whole \<le> k \<and> length ms \<le> n"
    using assms(2,3) unfolding delivers_def by auto
  have "received D whole = take n ms \<and> (\<exists>m. received D (take k whole) = take m (take n ms))"
    using assms(1) by (intro frames_round_trip [OF _ d(1)]) simp
  then show "\<exists>n. received D stream = take n ms" "snd out = Inr () \<Longrightarrow> received D stream = ms"
    using d(2,3) by (auto simp: take_take)
qed

lemma chunked_step: "b \<noteq> [] \<Longrightarrow> chunked b = take CHUNK b # chunked (drop CHUNK b)"
  by (subst chunked.simps) simp

lemma concat_chunked: "concat (chunked b) = b"
  by (induction b rule: chunked.induct) (metis append_take_drop_id chunked.simps concat.simps)

lemma chunked_small: "p \<in> set (chunked b) \<Longrightarrow> length p \<le> CHUNK"
proof (induction b rule: chunked.induct)
  case (1 b)
  then show ?case by (subst (asm) (2) chunked.simps) (auto split: if_splits)
qed

lemma whole_of_from: "whole_of out xs = (case whole_of [] xs of Inl e \<Rightarrow> Inl e | Inr b \<Rightarrow> Inr (out @ b))"
proof (induction xs arbitrary: out)
  case Nil
  then show ?case by simp
next
  case (Cons x xs)
  show ?case
  proof (cases x)
    case (Inr c)
    then show ?thesis using Cons [of "out @ c"] Cons [of c] by (auto split: sum.splits)
  qed simp
qed

text \<open>A body's messages are its pieces and then one last: the end if it is whole, and else an error.\<close>

lemma body_messages_shape:
  "\<exists>ps. body_messages S done_with xs = map FetchChunk ps @
       [case whole_of [] xs of Inr _ \<Rightarrow> done_with | Inl e \<Rightarrow> NetError (error_text S e)]
     \<and> (\<forall>b. whole_of [] xs = Inr b \<longrightarrow> b = concat ps) \<and> (\<forall>p\<in>set ps. length p \<le> CHUNK)"
proof (induction xs)
  case Nil
  then show ?case by (auto intro: exI [of _ "[]"])
next
  case (Cons x xs)
  show ?case
  proof (cases x)
    case (Inl e)
    then show ?thesis by (auto intro: exI [of _ "[]"])
  next
    case (Inr c)
    obtain ps where ps: "body_messages S done_with xs = map FetchChunk ps @
       [case whole_of [] xs of Inr _ \<Rightarrow> done_with | Inl e \<Rightarrow> NetError (error_text S e)]"
       "\<forall>b. whole_of [] xs = Inr b \<longrightarrow> b = concat ps" "\<forall>p\<in>set ps. length p \<le> CHUNK"
      using Cons by blast
    show ?thesis
      using ps Inr whole_of_from [of c xs] concat_chunked [of c] chunked_small [of _ c]
      by (intro exI [of _ "chunked c @ ps"]) (auto split: sum.splits)
  qed
qed


subsection \<open>The fetch, over the socket\<close>

text \<open>What a fetch asked of the service comes to: nothing unless it is whole and what was declared.\<close>

definition fetch_answer ::
    "('h, 'u) service_env \<Rightarrow> string \<Rightarrow> string \<Rightarrow> (string \<times> string) list \<Rightarrow> bytes \<Rightarrow> string option \<Rightarrow> string option
      \<Rightarrow> 'h run \<Rightarrow> fetched option" where
  "fetch_answer S meth url headers body integrity part r =
     (case (se_method S meth, declared_of S integrity) of
        (Some parsed, Inr declared) \<Rightarrow>
          (case snd (fetch (se_net S) (service_request S parsed url headers body declared part) r) of
             Inr resp \<Rightarrow>
               (case whole_of [] (body_chunks (fr_body resp)) of
                  Inr b \<Rightarrow>
                    if (case declared of Some i \<Rightarrow> verify (se_externs S) i b | None \<Rightarrow> True)
                    then Some \<lparr>fd_status = fr_status resp, fd_headers = header_pairs (se_externs S) (fr_headers resp),
                           fd_body = b, fd_source = source_str (fr_source resp),
                           fd_protocol = protocol_str (fr_protocol resp), fd_elapsed = fr_elapsed_ms resp,
                           fd_content = map_option (to_hex (se_externs S)) (fr_content resp)\<rparr>
                    else None
                | Inl _ \<Rightarrow> None)
           | Inl _ \<Rightarrow> None)
      | _ \<Rightarrow> None)"

definition begun_as :: "fetched \<Rightarrow> net_response" where
  "begun_as f = FetchBegin (fd_status f) (fd_headers f) (fd_source f) (fd_protocol f) (fd_elapsed f)"

lemma response_messages_shape:
  "case whole_of [] (body_chunks (fr_body resp)) of
     Inr b \<Rightarrow>
       if (case declared of Some i \<Rightarrow> verify (se_externs S) i b | None \<Rightarrow> True)
       then \<exists>ps. response_messages S declared resp = begin_of (se_externs S) resp # map FetchChunk ps @ [end_of (se_externs S) resp]
         \<and> b = concat ps \<and> (\<forall>p\<in>set ps. length p \<le> CHUNK)
       else \<forall>c. FetchEnd c \<notin> set (response_messages S declared resp)
   | Inl _ \<Rightarrow> \<forall>c. FetchEnd c \<notin> set (response_messages S declared resp)"
proof (cases declared)
  case None
  then show ?thesis
    using body_messages_shape [of S "end_of (se_externs S) resp" "body_chunks (fr_body resp)"]
    by (auto simp: response_messages_def Let_def begin_of_def split: sum.split)
next
  case (Some i)
  show ?thesis
  proof (cases "whole_of [] (body_chunks (fr_body resp))")
    case (Inl e)
    then show ?thesis using Some by (simp add: response_messages_def Let_def)
  next
    case (Inr b)
    then show ?thesis using Some concat_chunked [of b] chunked_small [of _ b]
      by (auto simp: response_messages_def Let_def check_integrity_def)
  qed
qed

lemma fetch_messages_shape:
  "case fetch_answer S meth url headers body integrity part r of
     Some f \<Rightarrow> \<exists>ps. fetch_messages S meth url headers body integrity part r = begun_as f # map FetchChunk ps @ [FetchEnd (fd_content f)]
         \<and> fd_body f = concat ps \<and> (\<forall>p\<in>set ps. length p \<le> CHUNK)
   | None \<Rightarrow> \<forall>c. FetchEnd c \<notin> set (fetch_messages S meth url headers body integrity part r)"
proof (cases "\<exists>parsed declared. se_method S meth = Some parsed \<and> declared_of S integrity = Inr declared")
  case True
  then obtain parsed declared where p: "se_method S meth = Some parsed" "declared_of S integrity = Inr declared" by blast
  show ?thesis
  proof (cases "snd (fetch (se_net S) (service_request S parsed url headers body declared part) r)")
    case (Inl e)
    then show ?thesis using p by (simp add: fetch_messages_def fetch_answer_def)
  next
    case (Inr resp)
    then show ?thesis using p response_messages_shape [where S = S and declared = declared and resp = resp]
      by (auto simp: fetch_messages_def fetch_answer_def begun_as_def begin_of_def end_of_def split: sum.splits if_splits)
  qed
next
  case False
  then show ?thesis
    by (cases "se_method S meth"; cases "declared_of S integrity") (auto simp: fetch_messages_def fetch_answer_def)
qed

lemma taken_pieces:
  "take n (map FetchChunk ps @ [FetchEnd c]) = map FetchChunk bs @ FetchEnd c' # rest \<Longrightarrow> ps = bs \<and> c = c'"
proof (induction ps arbitrary: n bs)
  case Nil
  then show ?case by (cases n; cases bs) auto
next
  case (Cons p ps)
  then show ?case by (cases n; cases bs) auto
qed

lemma client_gets_the_answer:
  assumes "received D stream = take n (fetch_messages S meth url headers body integrity part r)"
    and "fetch_within E D request limit stream = Inr f"
  shows "fetch_answer S meth url headers body integrity part r = Some f \<and> length (fd_body f) \<le> limit"
proof -
  let ?ms = "fetch_messages S meth url headers body integrity part r"
  obtain bs rest where f: "received D stream = begun_as f # map FetchChunk bs @ FetchEnd (fd_content f) # rest"
      "fd_body f = concat bs" "length (fd_body f) \<le> limit"
    using assms(2) unfolding fetch_gives_the_whole_body begun_as_def by auto
  have "FetchEnd (fd_content f) \<in> set (take n ?ms)" using f(1) assms(1) by simp
  then have "FetchEnd (fd_content f) \<in> set ?ms" by (rule in_set_takeD)
  then obtain g where g: "fetch_answer S meth url headers body integrity part r = Some g"
    using fetch_messages_shape [of S meth url headers body integrity part r] by (auto split: option.splits)
  then obtain ps where ps: "?ms = begun_as g # map FetchChunk ps @ [FetchEnd (fd_content g)]" "fd_body g = concat ps"
    using fetch_messages_shape [of S meth url headers body integrity part r] by auto
  obtain n' where n': "n = Suc n'" using f(1) assms(1) by (cases n) auto
  have "begun_as g = begun_as f"
    "take n' (map FetchChunk ps @ [FetchEnd (fd_content g)]) = map FetchChunk bs @ FetchEnd (fd_content f) # rest"
    using f(1) assms(1) unfolding ps(1) n' take_Suc_Cons by simp_all
  then have "begun_as g = begun_as f" "ps = bs" "fd_content g = fd_content f" using taken_pieces by blast+
  then have "g = f" using ps(2) f(2) by (cases f; cases g) (simp add: begun_as_def)
  then show ?thesis using g f(3) by simp
qed


text \<open>
  C12: What a page declares is what it gets. A client that asks for a body under an integrity
  declaration, over a socket that may break anywhere, from a network process whose store, peers,
  origins and other tasks do as they like, gets bytes that satisfy the declaration, or an error.
  A declaration that names no usable hash is refused before anything is asked of anyone.
\<close>

theorem declared_bytes_cross_the_socket:
  assumes "\<forall>m. D (se_encode S m) = Some m" and "request = Fetch meth url headers body (Some declared) part"
    and "respond S request s = (s', res)" and "sv_out s' = sv_out s @ stream"
  shows "(fetch_within E D request limit stream = Inr f \<longrightarrow>
      (\<exists>i. parse_integrity (se_externs S) declared = Inr i \<and> i \<noteq> [] \<and> verify (se_externs S) i (fd_body f)))
    \<and> ((\<nexists>i. parse_integrity (se_externs S) declared = Inr i \<and> i \<noteq> []) \<longrightarrow>
        ru_sent (sv_run s') = ru_sent (sv_run s) \<and> fetch_within E D request limit stream \<noteq> Inr f)"
proof -
  have r: "respond S request s = serve_fetch S meth url headers body (Some declared) part s"
    by (simp add: assms(2) respond_def)
  then have d: "delivers S (fetch_messages S meth url headers body (Some declared) part (sv_run s)) s (s', res)"
    using delivers_fetch [of S meth url headers body "Some declared" part s] assms(3) by simp
  have out: "sv_out (fst (s', res)) = sv_out s @ stream" using assms(4) by simp
  obtain n where n: "received D stream = take n (fetch_messages S meth url headers body (Some declared) part (sv_run s))"
    using received_delivered(1) [OF assms(1) d out] by blast
  have got: "\<exists>i. parse_integrity (se_externs S) declared = Inr i \<and> i \<noteq> [] \<and> verify (se_externs S) i (fd_body f)"
    if "fetch_within E D request limit stream = Inr f"
  proof -
    have "fetch_answer S meth url headers body (Some declared) part (sv_run s) = Some f"
      using client_gets_the_answer [OF n that] ..
    then show ?thesis
      by (auto simp: fetch_answer_def declared_of_def split: option.splits sum.splits if_splits)
  qed
  have "ru_sent (sv_run s') = ru_sent (sv_run s)"
    if unusable: "\<nexists>i. parse_integrity (se_externs S) declared = Inr i \<and> i \<noteq> []"
  proof -
    obtain refusal where "declared_of S (Some declared) = Inl refusal"
      using unusable by (cases "parse_integrity (se_externs S) declared") (auto simp: declared_of_def)
    then have "\<exists>m. serve_fetch S meth url headers body (Some declared) part s = reply_with S m s"
      by (auto simp: serve_fetch_def split: option.split)
    then obtain m where "(s', res) = reply_with S m s" using r assms(3) by auto
    then show ?thesis by (auto simp: reply_with_def waited_def Let_def split: sum.splits option.splits)
  qed
  then show ?thesis using got by blast
qed

subsection \<open>An instance\<close>

text \<open>Messages written as their fields, each preceded by its length.\<close>

fun demo_reply :: "net_response \<Rightarrow> bytes" where
  "demo_reply (FetchBegin status headers source protocol elapsed) =
     CHR ''B'' # ser_nat status @ ser_nat elapsed @ ser_str source @ ser_str protocol @ ser_nat (length headers)
       @ concat (map (\<lambda>(n, v). ser_str n @ ser_str v) headers)"
| "demo_reply (FetchChunk b) = CHR ''C'' # b"
| "demo_reply (FetchEnd None) = ''E''"
| "demo_reply (FetchEnd (Some c)) = CHR ''F'' # c"
| "demo_reply (StatsReply t) = CHR ''S'' # t"
| "demo_reply (PeerStatusReply t) = CHR ''P'' # t"
| "demo_reply Pong = ''O''"
| "demo_reply (NetError t) = CHR ''X'' # t"

fun de_pairs :: "nat \<Rightarrow> bytes \<Rightarrow> (string \<times> string) list" where
  "de_pairs 0 b = []"
| "de_pairs (Suc n) b = (let (k, b) = de_str b; (v, b) = de_str b in (k, v) # de_pairs n b)"

fun demo_read :: "bytes \<Rightarrow> net_response option" where
  "demo_read [] = None"
| "demo_read (c # b) =
     (if c = CHR ''B''
      then (let (status, b) = de_nat b; (elapsed, b) = de_nat b; (source, b) = de_str b; (protocol, b) = de_str b;
                (n, b) = de_nat b
            in Some (FetchBegin status (de_pairs n b) source protocol elapsed))
      else if c = CHR ''C'' then Some (FetchChunk b)
      else if c = CHR ''E'' then Some (FetchEnd None)
      else if c = CHR ''F'' then Some (FetchEnd (Some b))
      else if c = CHR ''S'' then Some (StatsReply b)
      else if c = CHR ''P'' then Some (PeerStatusReply b)
      else if c = CHR ''O'' then Some Pong
      else Some (NetError b))"

lemma de_pairs_ser: "de_pairs (length hs) (concat (map (\<lambda>(n, v). ser_str n @ ser_str v) hs)) = hs"
  by (induction hs) auto

lemma demo_read_reply: "\<forall>m. demo_read (demo_reply m) = Some m"
proof
  fix m
  show "demo_read (demo_reply m) = Some m"
    by (cases m rule: demo_reply.cases) (simp_all add: de_pairs_ser)
qed

definition demo_service :: "((string \<times> bytes) list, string) service_env" where
  "demo_service = \<lparr>se_net = demo_net_env ''body'', se_encode = demo_reply, se_broken = (\<lambda>n. None),
     se_method = Some, se_json = (\<lambda>s. []), se_swarm = (\<lambda>n. None), se_library_text = []\<rparr>"

definition demo_serving :: "(string \<times> bytes) list service" where
  "demo_serving = \<lparr>sv_run = demo_run, sv_out = [], sv_frames = 0\<rparr>"

definition demo_integrity :: string where
  "demo_integrity = join '' '' (map (to_token demo) [compute_hash demo Sha256 ''body''])"

definition demo_asked :: net_request where
  "demo_asked = Fetch ''GET'' ''https://a.test/x'' [] [] (Some demo_integrity) None"

definition demo_fetch :: fetched where
  "demo_fetch = \<lparr>fd_status = 200, fd_headers = [(''content-length'', ''4'')], fd_body = ''body'', fd_source = ''peer'',
     fd_protocol = ''-'', fd_elapsed = 0, fd_content = Some (to_hex demo (content_of demo ''body''))\<rparr>"

lemma demo_fetched_exactly:
  "\<exists>r'. fetch (demo_net_env ''body'') demo_declared demo_run = (r', Inr
     \<lparr>fr_status = 200, fr_headers = [(''content-length'', ''4'')], fr_body = Buffered ''body'', fr_source = FromPeer,
      fr_elapsed_ms = 0, fr_content = Some (content_of demo ''body''), fr_final_url = ''https://a.test/x'',
      fr_redirects = 0, fr_protocol = NoProtocol\<rparr>)"
proof -
  let ?E = "demo_net_env ''body''"
  have q: "fq_method demo_declared = ''GET''" "fq_url demo_declared = ''https://a.test/x''" "fq_headers demo_declared = []"
    "fq_integrity demo_declared = Some [compute_hash demo Sha256 ''body'']" "fq_redirect demo_declared = Follow"
    by (simp_all add: demo_declared_def fetch_get_def demo_def)
  have u: "refuse_unusable_integrity demo demo_crates demo_declared = Inr ()"
    by (simp add: refuse_unusable_integrity_def q demo_def)
  obtain c where l: "lookup demo (fq_partition demo_declared) ''GET'' ''https://a.test/x'' [] 0 (nt_cache empty_net)
      = (c, Inr (Miss ''no stored variant''))" using empty_lookup by blast
  have s: "strongest_hash [compute_hash demo Sha256 ''body''] = Some (compute_hash demo Sha256 ''body'')"
    by (simp add: strongest_hash_def strongest_def compute_hash_def)
  have inv: "\<not> invalidates ''GET''" by (simp add: invalidates_def to_upper_def upper_char_def is_lower_def)
  have four: "show_nat 4 = ''4''" by (subst show_nat.simps) (simp, simp add: char_of_def bit_iff_odd)
  then have four': "show_nat (Suc (Suc (Suc (Suc 0)))) = ''4''" by (simp add: eval_nat_numeral)
  have h: "peer_headers demo ''https://a.test/x'' ''body'' = [(''content-length'', ''4'')]"
    by (simp add: peer_headers_def infer_content_type_def rsplit_once_def extension_type_def to_lower_def
        lower_char_def is_upper_def Let_def four' demo_def)
  have once: "\<exists>r1. fetch_once ?E demo_declared demo_run = (r1, Inr
     \<lparr>fr_status = 200, fr_headers = [(''content-length'', ''4'')], fr_body = Buffered ''body'', fr_source = FromPeer,
      fr_elapsed_ms = 0, fr_content = Some (content_of demo ''body''), fr_final_url = [],
      fr_redirects = 0, fr_protocol = NoProtocol\<rparr>)"
    using l h by (simp add: fetch_once_def Let_def q inv fetch_asked_def demo_externs settled_def demo_run_def empty_net_def
        waited_def demo_net_env_def on_net_def with_cache_def try_peers_def s accept_peer_body_def demo_verifies finish_def)
  then show ?thesis
    by (auto simp: fetch_def demo_externs u fetch_loop.simps redirect_target_def REDIRECTS_def q)
qed

lemma demo_declared_text: "parse_integrity demo demo_integrity = Inr [compute_hash demo Sha256 ''body'']"
  using integrity_round_trip [OF demo_b64_ok, of "[compute_hash demo Sha256 ''body'']"] demo_sha2_ok
  by (simp add: demo_integrity_def compute_hash_def sha2_ok_def)

lemma demo_service_parts:
  "se_net demo_service = demo_net_env ''body''" "se_encode demo_service = demo_reply" "se_broken demo_service = (\<lambda>n. None)"
  "se_method demo_service = Some" "sv_run demo_serving = demo_run" "sv_out demo_serving = []"
  by (simp_all add: demo_service_def demo_serving_def)

lemma demo_fetch_answer:
  "fetch_answer demo_service ''GET'' ''https://a.test/x'' [] [] (Some demo_integrity) None demo_run = Some demo_fetch"
proof -
  have q: "service_request demo_service ''GET'' ''https://a.test/x'' [] [] (Some [compute_hash demo Sha256 ''body'']) None = demo_declared"
    by (simp add: service_request_def demo_declared_def fetch_get_def header_of_pairs_def demo_service_parts demo_externs)
  have p: "header_pairs demo [(''content-length'', ''4'')] = [(''content-length'', ''4'')]"
    by (simp add: header_pairs_def demo_def List.map_filter_def) code_simp
  have d: "declared_of demo_service (Some demo_integrity) = Inr (Some [compute_hash demo Sha256 ''body''])"
    by (simp add: declared_of_def demo_service_parts demo_externs demo_declared_text)
  show ?thesis using demo_fetched_exactly q p d demo_verifies [of "''body''"]
    by (auto simp: fetch_answer_def demo_service_parts demo_externs body_chunks_def demo_fetch_def)
qed

lemma demo_fetch_fits:
  "length (demo_reply (begun_as demo_fetch)) \<le> MAX_FRAME" "length (demo_reply (FetchEnd (fd_content demo_fetch))) \<le> MAX_FRAME"
  "\<not> refuse_declared demo_asked (fd_headers demo_fetch) 100"
proof -
  show "length (demo_reply (begun_as demo_fetch)) \<le> MAX_FRAME"
    by (simp add: begun_as_def demo_fetch_def ser_nat_def ser_str_def MAX_FRAME_def)
  show "length (demo_reply (FetchEnd (fd_content demo_fetch))) \<le> MAX_FRAME"
  proof -
    have "length (to_hex demo (content_of demo ''body'')) = 8" by code_simp
    then show ?thesis by (simp add: demo_fetch_def MAX_FRAME_def)
  qed
  show "\<not> refuse_declared demo_asked (fd_headers demo_fetch) 100"
  proof -
    have "show_nat 4 = ''4''" by (subst show_nat.simps) (simp, simp add: char_of_def bit_iff_odd)
    then have "parse_u64 ''4'' = Some 4" using parse_u64_show_nat [of 4] by (simp add: u64_max_def)
    moreover have "trim ''4'' = ''4''" by code_simp
    ultimately show ?thesis
      by (simp add: refuse_declared_def declared_length_def demo_fetch_def eq_ic_def)
  qed
qed


theorem declared_bytes_cross_the_socket_witness:
  "\<exists>s' res. respond demo_service demo_asked demo_serving = (s', res)
     \<and> (\<exists>f. fetch_within (\<lambda>m. []) demo_read demo_asked 100 (sv_out s') = Inr f
          \<and> verify demo [compute_hash demo Sha256 ''body''] (fd_body f))
     \<and> (\<exists>s' res. respond demo_service (Fetch ''GET'' ''https://a.test/x'' [] [] (Some ''md5-x'') None) demo_serving = (s', res)
          \<and> ru_sent (sv_run s') = [])"
proof -
  obtain s' res where r: "respond demo_service demo_asked demo_serving = (s', res)" by fastforce
  obtain t' out where t: "respond demo_service (Fetch ''GET'' ''https://a.test/x'' [] [] (Some ''md5-x'') None) demo_serving = (t', out)"
    by fastforce
  have j: "\<forall>m. demo_read (se_encode demo_service m) = Some m" using demo_read_reply by (simp add: demo_service_parts)
  have got: "delivers demo_service (fetch_messages demo_service ''GET'' ''https://a.test/x'' [] [] (Some demo_integrity) None demo_run)
      demo_serving (s', res)"
    using delivers_fetch [of demo_service "''GET''" "''https://a.test/x''" "[]" "[]" "Some demo_integrity" None demo_serving] r
    by (simp add: demo_asked_def respond_def demo_service_parts)
  obtain ps where ps: "fetch_messages demo_service ''GET'' ''https://a.test/x'' [] [] (Some demo_integrity) None demo_run
        = begun_as demo_fetch # map FetchChunk ps @ [FetchEnd (fd_content demo_fetch)]" "fd_body demo_fetch = concat ps"
        "\<forall>p\<in>set ps. length p \<le> CHUNK"
    using fetch_messages_shape [of demo_service "''GET''" "''https://a.test/x''" "[]" "[]" "Some demo_integrity" None demo_run]
      demo_fetch_answer by auto
  have "res = Inr ()"
    using got ps demo_fetch_fits(1,2) unfolding delivers_def by (auto simp: demo_service_parts CHUNK_def MAX_FRAME_def)
  then have "received demo_read (sv_out s') = begun_as demo_fetch # map FetchChunk ps @ [FetchEnd (fd_content demo_fetch)]"
    using received_delivered(2) [OF j got] ps(1) by (simp add: demo_service_parts)
  moreover have "length (concat ps) \<le> 100" unfolding ps(2) [symmetric] by (simp add: demo_fetch_def)
  ultimately have f: "fetch_within (\<lambda>m. []) demo_read demo_asked 100 (sv_out s') = Inr demo_fetch"
    unfolding fetch_gives_the_whole_body using ps(2) demo_fetch_fits(3)
    by (intro conjI exI [of _ ps] exI [of _ "[]"]) (simp_all add: begun_as_def demo_fetch_def MAX_FRAME_def)
  have none: "parse_integrity demo ''md5-x'' = Inr []" by code_simp
  show ?thesis
    using declared_bytes_cross_the_socket [OF j demo_asked_def r, of "sv_out s'" "\<lambda>m. []" 100 demo_fetch] f r t
      declared_bytes_cross_the_socket [OF j refl t, of "sv_out t'" "\<lambda>m. []" 100 demo_fetch] none
    by (auto simp: demo_service_parts demo_externs demo_declared_text demo_run_def)
qed

end
