(* ===== verification/Std_Net.thy ===== *)
theory Std_Net
  imports Reach
begin

text \<open>
  How \<open>std::net\<close> reads an address from text, for the sources that parse one: a decimal number
  with no needless zero for each octet, groups of up to four hexadecimal digits, one run of zero
  groups left out as \<open>::\<close>, an IPv4 address in the last two groups; and what it says of
  loopback and unspecified addresses. An address is a value of \<open>Reach.ip_addr\<close>.
\<close>

definition to_digit :: "nat \<Rightarrow> char \<Rightarrow> nat option" where
  "to_digit radix c =
     (let n = (of_char c :: nat);
          d = (if 48 \<le> n \<and> n \<le> 57 then n - 48 else if 97 \<le> n \<and> n \<le> 122 then n - 87
               else if 65 \<le> n \<and> n \<le> 90 then n - 55 else radix)
      in if d < radix then Some d else None)"

text \<open>The digits at the front: their value, how many they are, and what follows.\<close>

fun read_digits :: "nat \<Rightarrow> nat \<Rightarrow> nat \<Rightarrow> string \<Rightarrow> nat \<times> nat \<times> string" where
  "read_digits radix n count [] = (n, count, [])"
| "read_digits radix n count (c # s) =
     (case to_digit radix c of
        None \<Rightarrow> (n, count, c # s)
      | Some d \<Rightarrow> read_digits radix (n * radix + d) (Suc count) s)"

definition read_number :: "nat \<Rightarrow> nat \<Rightarrow> bool \<Rightarrow> nat \<Rightarrow> string \<Rightarrow> (nat \<times> string) option" where
  "read_number radix max_digits zero_prefix greatest s =
     (let (n, count, rest) = read_digits radix 0 0 s
      in if count = 0 \<or> max_digits < count \<or> greatest < n then None
         else if \<not> zero_prefix \<and> hd s = CHR ''0'' \<and> 1 < count then None
         else Some (n, rest))"

definition read_separator :: "char \<Rightarrow> nat \<Rightarrow> string \<Rightarrow> string option" where
  "read_separator sep i s =
     (if i = 0 then Some s else case s of c # r \<Rightarrow> if c = sep then Some r else None | [] \<Rightarrow> None)"

fun read_octets :: "nat \<Rightarrow> nat \<Rightarrow> string \<Rightarrow> (nat list \<times> string) option" where
  "read_octets i 0 s = Some ([], s)"
| "read_octets i (Suc k) s =
     (case read_separator (CHR ''.'') i s of
        None \<Rightarrow> None
      | Some s \<Rightarrow>
          (case read_number 10 3 False 255 s of
             None \<Rightarrow> None
           | Some (n, r) \<Rightarrow> map_option (\<lambda>(ns, r). (n # ns, r)) (read_octets (Suc i) k r)))"

definition read_ipv4 :: "string \<Rightarrow> (nat list \<times> string) option" where
  "read_ipv4 s = read_octets 0 4 s"

text \<open>Up to \<open>k\<close> groups, whether the last two were an IPv4 address, and what follows.\<close>

fun read_groups :: "nat \<Rightarrow> nat \<Rightarrow> string \<Rightarrow> nat list \<times> bool \<times> string" where
  "read_groups i 0 s = ([], False, s)"
| "read_groups i (Suc k) s =
     (case (if 0 < k then Option.bind (read_separator (CHR '':'') i s) read_ipv4 else None) of
        Some (os, r) \<Rightarrow> ([os ! 0 * 256 + os ! 1, os ! 2 * 256 + os ! 3], True, r)
      | None \<Rightarrow>
          (case Option.bind (read_separator (CHR '':'') i s) (read_number 16 4 True 65535) of
             None \<Rightarrow> ([], False, s)
           | Some (g, r) \<Rightarrow> (let (gs, v4, r) = read_groups (Suc i) k r in (g # gs, v4, r))))"

definition read_ipv6 :: "string \<Rightarrow> (nat list \<times> string) option" where
  "read_ipv6 s =
     (let (front, v4, r) = read_groups 0 8 s
      in if length front = 8 then Some (front, r)
         else if v4 \<or> \<not> starts_with ''::'' r then None
         else let (back, _, r) = read_groups 0 (8 - (length front + 1)) (drop 2 r)
              in Some (front @ replicate (8 - length front - length back) 0 @ back, r))"

definition parse_ip :: "string \<Rightarrow> ip_addr option" where
  "parse_ip s =
     (case read_ipv4 s of
        Some (os, r) \<Rightarrow> if r = [] then Some (V4 (v4_of (os ! 0) (os ! 1) (os ! 2) (os ! 3))) else None
      | None \<Rightarrow>
          (case read_ipv6 s of
             Some (gs, r) \<Rightarrow> if r = [] then Some (V6 (v6_of gs)) else None
           | None \<Rightarrow> None))"

fun is_loopback :: "ip_addr \<Rightarrow> bool" where
  "is_loopback (V4 ip) \<longleftrightarrow> unat (drop_bit 24 ip) = 127"
| "is_loopback (V6 ip) \<longleftrightarrow> ip = 1"

fun is_unspecified :: "ip_addr \<Rightarrow> bool" where
  "is_unspecified (V4 ip) \<longleftrightarrow> ip = 0"
| "is_unspecified (V6 ip) \<longleftrightarrow> ip = 0"

subsection \<open>A dotted address is read back\<close>

lemma to_digit_decimal: "to_digit 10 c = (if is_digit c then Some (digit_val c) else None)"
  by (auto simp: to_digit_def is_digit_def digit_val_def Let_def)

lemma read_digits_all:
  assumes "list_all is_digit ds" "s = [] \<or> \<not> is_digit (hd s)"
  shows "read_digits 10 n count (ds @ s) = (foldl (\<lambda>n c. 10 * n + digit_val c) n ds, count + length ds, s)"
  using assms
proof (induction ds arbitrary: n count)
  case Nil
  then show ?case by (cases s) (auto simp: to_digit_decimal)
next
  case (Cons c ds)
  then show ?case by (simp add: to_digit_decimal mult.commute)
qed

lemma show_nat_front: "hd (show_nat n) = CHR ''0'' \<Longrightarrow> n = 0"
proof (induction n rule: show_nat.induct)
  case (1 n)
  show ?case
  proof (cases "n < 10")
    case True
    then have "n \<in> {0, 1, 2, 3, 4, 5, 6, 7, 8, 9}" by auto
    then show ?thesis using "1.prems" True by (subst (asm) show_nat.simps) (auto simp: char_of_def)
  next
    case False
    then have "hd (show_nat n) = hd (show_nat (n div 10))" by (subst show_nat.simps) simp
    then show ?thesis using 1 False by simp
  qed
qed

lemma show_nat_length: "n < 256 \<Longrightarrow> length (show_nat n) \<le> 3"
  by (subst show_nat.simps, subst show_nat.simps, subst show_nat.simps) auto

lemma read_shown:
  assumes "n < 256" "s = [] \<or> \<not> is_digit (hd s)"
  shows "read_number 10 3 False 255 (show_nat n @ s) = Some (n, s)"
proof -
  have "length (show_nat n) \<le> 1" if "hd (show_nat n) = CHR ''0''"
    using show_nat_front [OF that] by (subst show_nat.simps) simp
  moreover have "foldl (\<lambda>n c. 10 * n + digit_val c) 0 (show_nat n) = n"
    using num_of_digits_show_nat [of n] by (simp add: num_of_digits_def)
  moreover have "length (show_nat n) \<le> 3" by (rule show_nat_length) (rule assms(1))
  ultimately show ?thesis
    using assms show_nat_digits [of n] by (auto simp: read_number_def read_digits_all not_less)
qed

lemma dotted_address_is_read:
  assumes "a < 256" "b < 256" "c < 256" "d < 256"
  shows "parse_ip (show_nat a @ ''.'' @ show_nat b @ ''.'' @ show_nat c @ ''.'' @ show_nat d) = Some (V4 (v4_of a b c d))"
proof -
  have dot: "\<not> is_digit (CHR ''.'')" by (simp add: is_digit_def)
  have "read_number 10 3 False 255 (show_nat d) = Some (d, [])" using read_shown [OF assms(4), of "[]"] by simp
  moreover have "read_ipv4 s = read_octets 0 (Suc (Suc (Suc (Suc 0)))) s" for s
    by (simp add: read_ipv4_def eval_nat_numeral)
  ultimately show ?thesis using assms dot by (simp add: parse_ip_def read_separator_def read_shown)
qed

end
