(* ===== verification/Proxy.thy ===== *)
theory Proxy
  imports Net Stats Std_Net
begin

text \<open>
  The intercepting proxy, \<open>crates/syndeo-proxy/src\<close>: the credential it asks for (\<open>auth.rs\<close>), the
  commands of its owner, loops, tunnels and requests (\<open>main.rs\<close>), its statistics page
  (\<open>stats.rs\<close>), hosts whose certificate was refused (\<open>refusals.rs\<close>) and WebSockets
  (\<open>websocket.rs\<close>). A request arrives parsed by \<open>hyper\<close>, its URI a value of \<open>'v\<close>; what parsing a
  URI gives, the resolver, connecting, TLS and the answer of an origin to a handshake are
  parameters. The state is the fetcher's, the WebSockets asked for and joined, and the hosts
  said to the owner.
\<close>

record 'v proxy_crates =
  px_parse :: "string \<Rightarrow> 'v option"
  px_scheme :: "'v \<Rightarrow> string option"
  px_authority :: "'v \<Rightarrow> string option"
  px_host :: "'v \<Rightarrow> string option"
  px_port :: "'v \<Rightarrow> nat option"
  px_path :: "'v \<Rightarrow> string option"
  px_text :: "'v \<Rightarrow> string"
  px_value :: "bytes \<Rightarrow> bytes option"
  px_sha1 :: "bytes \<Rightarrow> bytes"
  px_json :: "stats \<Rightarrow> string"

text \<open>A body is its frames: bytes, or why the connection failed.\<close>

record ('h, 'v) client_request =
  cq_method :: string
  cq_uri :: 'v
  cq_version :: http_version
  cq_headers :: 'h
  cq_body :: "(string + bytes) list"

datatype 'h reply_body = Whole bytes | Streamed "'h fetch_body" | Relayed "(string + bytes) list"

record 'h reply =
  rp_status :: nat
  rp_headers :: 'h
  rp_body :: "'h reply_body"

text \<open>What is asked of the origin of a WebSocket, over a connection of its own, and its answer.\<close>

record 'h handshake =
  ha_address :: ip_addr
  ha_port :: nat
  ha_secure :: bool
  ha_name :: string
  ha_target :: string
  ha_headers :: 'h

datatype 'h handshake_answer =
    HandshakeFailed string
  | HandshakeLate
  | HandshakeAnswered nat 'h "(string + bytes) list"

record 'h proxy_state =
  ps_run :: "'h run"
  ps_asked :: "'h handshake list"
  ps_joined :: nat
  ps_said :: "string list"

datatype tls_outcome = NoLeaf | TlsFailed bool | TlsAccepted

record ('h, 'u, 'v) proxy_env =
  pe_net :: "('h, 'u) net_env"
  pe_crates :: "'v proxy_crates"
  pe_max_request_body :: nat
  pe_auth :: "bytes option"
  pe_saying :: bool
  pe_local :: "ip_addr \<times> nat"
  pe_library_text :: string
  pe_lookup :: "string \<Rightarrow> string + ip_addr list"
  pe_reach_late :: "string \<Rightarrow> bool"
  pe_connect :: "ip_addr \<Rightarrow> nat \<Rightarrow> string option"
  pe_tls :: "string \<Rightarrow> string option"
  pe_origin :: "'h handshake \<Rightarrow> nat \<Rightarrow> 'h handshake_answer"
  pe_accept :: "string \<Rightarrow> nat \<Rightarrow> tls_outcome"

abbreviation pe_externs :: "('h, 'u, 'v) proxy_env \<Rightarrow> ('h, 'u) externs" where
  "pe_externs P \<equiv> ev_externs (pe_net P)"

definition text_reply :: "('h, 'u) externs \<Rightarrow> nat \<Rightarrow> string \<Rightarrow> 'h reply" where
  "text_reply X status message =
     \<lparr>rp_status = status,
      rp_headers = hm_append X ''content-type'' ''text/plain; charset=utf-8'' (hm_empty X),
      rp_body = Whole message\<rparr>"

definition loop_detected :: "('h, 'u) externs \<Rightarrow> 'h reply" where
  "loop_detected X = text_reply X 508 ''this request has already been through this proxy''"

definition and_closed :: "('h, 'u) externs \<Rightarrow> 'h reply \<Rightarrow> 'h reply" where
  "and_closed X p = p\<lparr>rp_headers := hm_insert X ''connection'' ''close'' (rp_headers p)\<rparr>"

definition too_large :: "('h, 'u) externs \<Rightarrow> nat \<Rightarrow> 'h reply" where
  "too_large X limit =
     and_closed X (text_reply X 413
       (''request bodies through this proxy are limited to '' @ show_nat limit @ '' bytes (--max-request-body)''))"

subsection \<open>The credential\<close>

definition AUTH_MAGIC :: bytes where
  "AUTH_MAGIC = ''SYA1''"

definition AUTH_FRAME :: nat where
  "AUTH_FRAME = 4 + 32 + 1"

definition AUTH_USER :: string where
  "AUTH_USER = ''syndeo''"

datatype frame_refusal = Short | BadMagic | NoNewline

definition hex_digit02 :: "nat \<Rightarrow> char" where
  "hex_digit02 n = char_of (if n < 10 then 48 + n else 87 + n)"

text \<open>\<open>{:02x}\<close> of a byte.\<close>

definition hex02 :: "char \<Rightarrow> string" where
  "hex02 b = [hex_digit02 ((of_char b :: nat) div 16), hex_digit02 ((of_char b :: nat) mod 16)]"

definition for_token :: "('h, 'u) externs \<Rightarrow> bytes \<Rightarrow> bytes" where
  "for_token X token = ''Basic '' @ b64_encode X (AUTH_USER @ '':'' @ concat (map hex02 token))"

definition read_auth_frame :: "('h, 'u) externs \<Rightarrow> bytes \<Rightarrow> frame_refusal + bytes" where
  "read_auth_frame X stdin =
     (let frame = take AUTH_FRAME stdin
      in if length frame < AUTH_FRAME then Inl Short
         else if take 4 frame \<noteq> AUTH_MAGIC then Inl BadMagic
         else if frame ! (AUTH_FRAME - 1) \<noteq> CHR 0x0A then Inl NoNewline
         else Inr (for_token X (take 32 (drop 4 frame))))"

definition auth_admits :: "('h, 'u) externs \<Rightarrow> bytes \<Rightarrow> 'h \<Rightarrow> bool" where
  "auth_admits X expected headers \<longleftrightarrow>
     (case hm_get_all X headers ''proxy-authorization'' of
        [value] \<Rightarrow> constant_time_eq value expected
      | _ \<Rightarrow> False)"

definition carries_body :: "('h, 'u) externs \<Rightarrow> 'h \<Rightarrow> bool" where
  "carries_body X headers \<longleftrightarrow>
     hm_contains X headers ''transfer-encoding''
     \<or> (case Option.bind (hm_get X headers ''content-length'') (to_str X) of
          Some v \<Rightarrow> trim v \<noteq> ''0'' | None \<Rightarrow> False)"

definition auth_required :: "('h, 'u) externs \<Rightarrow> 'h \<Rightarrow> 'h reply" where
  "auth_required X headers =
     (let h = hm_append X ''content-length'' ''0''
                (hm_append X ''proxy-authenticate'' (''Basic realm='' @ [CHR 0x22] @ ''syndeo'' @ [CHR 0x22]) (hm_empty X))
      in \<lparr>rp_status = 407,
          rp_headers = (if carries_body X headers then hm_append X ''connection'' ''close'' h else h),
          rp_body = Whole []\<rparr>)"

subsection \<open>Loops\<close>

definition VIA_PSEUDONYM :: string where
  "VIA_PSEUDONYM = ''syndeo''"

text \<open>The entries of a field: the one being read, comments left out, then the rest.\<close>

fun via_entries_from :: "nat \<Rightarrow> string \<Rightarrow> string \<Rightarrow> string list" where
  "via_entries_from depth entry [] = [entry]"
| "via_entries_from depth entry (c # s) =
     (if c = CHR ''('' then via_entries_from (Suc depth) entry s
      else if c = CHR '')'' \<and> 0 < depth then via_entries_from (depth - 1) entry s
      else if c = CHR 0x5C \<and> 0 < depth then via_entries_from depth entry (tl s)
      else if c = CHR '','' \<and> depth = 0 then entry # via_entries_from depth [] s
      else if depth = 0 then via_entries_from depth (entry @ [c]) s
      else via_entries_from depth entry s)"

definition via_entries :: "string \<Rightarrow> string list" where
  "via_entries field = via_entries_from 0 [] field"

definition entry_names_us :: "string \<Rightarrow> bool" where
  "entry_names_us entry \<longleftrightarrow>
     (case split_whitespace entry of _ # received_by # _ \<Rightarrow> eq_ic received_by VIA_PSEUDONYM | _ \<Rightarrow> False)"

definition via_names_us :: "('h, 'u) externs \<Rightarrow> 'h \<Rightarrow> bool" where
  "via_names_us X headers \<longleftrightarrow>
     (\<exists>field\<in>set (text_values X headers ''via''). \<exists>entry\<in>set (via_entries field). entry_names_us entry)"

definition via_chain :: "bytes list \<Rightarrow> bytes" where
  "via_chain values =
     (let chain = fold (\<lambda>v chain. (if chain = [] then [] else chain @ '', '') @ v) values []
      in (if chain = [] then [] else chain @ '', '') @ ''1.1 '' @ VIA_PSEUDONYM)"

definition append_our_via :: "('h, 'u) externs \<Rightarrow> 'v proxy_crates \<Rightarrow> 'h \<Rightarrow> 'h" where
  "append_our_via X V headers =
     hm_insert X ''via''
       (case px_value V (via_chain (hm_get_all X headers ''via'')) of Some v \<Rightarrow> v | None \<Rightarrow> ''1.1 syndeo'') headers"

text \<open>\<open>trim_start_matches('[').trim_end_matches(']')\<close>.\<close>

definition bare_host :: "string \<Rightarrow> string" where
  "bare_host host = rev (dropWhile (\<lambda>c. c = CHR '']'') (rev (dropWhile (\<lambda>c. c = CHR ''['') host)))"

definition targets_this_proxy :: "string \<Rightarrow> nat \<Rightarrow> ip_addr \<times> nat \<Rightarrow> bool" where
  "targets_this_proxy host port here =
     (case parse_ip (bare_host host) of
        None \<Rightarrow> False
      | Some ip \<Rightarrow> port = snd here \<and> (ip = fst here \<or> is_loopback ip \<or> is_unspecified ip))"

definition url_targets_this_proxy :: "'v proxy_crates \<Rightarrow> string \<Rightarrow> ip_addr \<times> nat \<Rightarrow> bool" where
  "url_targets_this_proxy V url here =
     (case px_parse V url of
        None \<Rightarrow> False
      | Some u \<Rightarrow>
          (case (px_host V u, px_scheme V u) of
             (Some host, Some scheme) \<Rightarrow>
               targets_this_proxy host
                 (case px_port V u of Some p \<Rightarrow> p | None \<Rightarrow> if scheme = ''https'' then 443 else 80) here
           | _ \<Rightarrow> False))"

subsection \<open>What a request is for\<close>

definition uri_port :: "'v proxy_crates \<Rightarrow> 'v \<Rightarrow> nat option" where
  "uri_port V u =
     (case px_port V u of
        Some p \<Rightarrow> Some p
      | None \<Rightarrow>
          (case px_scheme V u of
             Some s \<Rightarrow> if eq_ic s ''https'' then Some 443 else if eq_ic s ''http'' then Some 80 else None
           | None \<Rightarrow> None))"

definition same_text :: "string option \<Rightarrow> string option \<Rightarrow> bool" where
  "same_text a b \<longleftrightarrow> (case (a, b) of (Some a, Some b) \<Rightarrow> eq_ic a b | _ \<Rightarrow> False)"

definition tunnel_same_origin :: "'v proxy_crates \<Rightarrow> 'v \<Rightarrow> string \<Rightarrow> bool" where
  "tunnel_same_origin V uri origin =
     (case px_parse V origin of
        None \<Rightarrow> False
      | Some origin \<Rightarrow>
          same_text (px_scheme V uri) (px_scheme V origin)
          \<and> same_text (px_host V uri) (px_host V origin)
          \<and> uri_port V uri \<noteq> None
          \<and> uri_port V uri = uri_port V origin)"

definition path_of :: "'v proxy_crates \<Rightarrow> 'v \<Rightarrow> string" where
  "path_of V u = (case px_path V u of Some p \<Rightarrow> p | None \<Rightarrow> ''/'')"

definition target_url :: "('h, 'u) externs \<Rightarrow> 'v proxy_crates \<Rightarrow> ('h, 'v) client_request \<Rightarrow> string option \<Rightarrow> string + string" where
  "target_url X V q origin =
     (let uri = cq_uri q
      in case origin of
           Some origin \<Rightarrow>
             if px_authority V uri \<noteq> None \<and> \<not> tunnel_same_origin V uri origin
             then Inl ''a request inside a tunnel may only be for the tunnel's own origin''
             else Inr (origin @ path_of V uri)
         | None \<Rightarrow>
             if px_scheme V uri \<noteq> None \<and> px_authority V uri \<noteq> None then Inr (px_text V uri)
             else (case Option.bind (hm_get X (cq_headers q) ''host'') (to_str X) of
                     None \<Rightarrow> Inl ''could not determine the target url''
                   | Some host \<Rightarrow> Inr (''http://'' @ host @ path_of V uri)))"

definition tunnel_origin :: "string \<Rightarrow> string \<Rightarrow> nat \<Rightarrow> string" where
  "tunnel_origin scheme host port =
     (let default = (if scheme = ''https'' then 443 else 80)
      in if port = default then scheme @ ''://'' @ host else scheme @ ''://'' @ host @ '':'' @ show_nat port)"

definition forwardable :: "('h, 'u) externs \<Rightarrow> 'h \<Rightarrow> 'h" where
  "forwardable X incoming =
     (let tokens = connection_tokens X incoming
      in fold (\<lambda>(name, value) out.
             if name = ''host'' \<or> is_hop_by_hop name tokens then out else hm_append X name value out)
           (hm_iter X incoming) (hm_empty X))"

text \<open>The end-to-end headers of an answer, without a length.\<close>

definition end_to_end :: "('h, 'u) externs \<Rightarrow> 'h \<Rightarrow> 'h" where
  "end_to_end X headers =
     (let tokens = connection_tokens X headers
      in fold (\<lambda>(name, value) out.
             if is_hop_by_hop name tokens \<or> name = ''content-length'' then out else hm_append X name value out)
           (hm_iter X headers) (hm_empty X))"

subsection \<open>The statistics page\<close>

definition STATS_HOSTS :: "string list" where
  "STATS_HOSTS = [''http://syndeo.local/'', ''https://syndeo.local/'']"

definition stats_reply :: "('h, 'u) externs \<Rightarrow> nat \<Rightarrow> string \<Rightarrow> string \<Rightarrow> 'h reply" where
  "stats_reply X status content_type body =
     \<lparr>rp_status = status,
      rp_headers = hm_append X ''cache-control'' ''no-store'' (hm_append X ''content-type'' content_type (hm_empty X)),
      rp_body = Whole body\<rparr>"

definition stats_path :: "string \<Rightarrow> string option" where
  "stats_path url = List.find (\<lambda>_. True) (List.map_filter (\<lambda>prefix. strip_prefix prefix url) STATS_HOSTS)"

definition intercept ::
    "('h, 'u, 'v) proxy_env \<Rightarrow> string \<Rightarrow> 'h proxy_state \<Rightarrow> 'h proxy_state \<times> 'h reply option" where
  "intercept P url s =
     (case stats_path url of
        None \<Rightarrow> (s, None)
      | Some path \<Rightarrow>
          (let X = pe_externs P;
               path = (case split_once (CHR ''?'') path of Some (p, _) \<Rightarrow> p | None \<Rightarrow> path);
               r = waited (pe_net P) (on_net (settled (pe_net P) None) (ps_run s));
               stats = cache_stats (nt_cache (ru_net r))
           in (s\<lparr>ps_run := r\<rparr>,
               Some (if path = ''stats.json'' then stats_reply X 200 ''application/json'' (px_json (pe_crates P) stats)
                     else if path = ''stats'' \<or> path = []
                     then stats_reply X 200 ''text/plain; charset=utf-8'' (render_stats stats @ [CHR 0x0A])
                     else stats_reply X 404 ''text/plain'' (''no such endpoint'' @ [CHR 0x0A])))))"

subsection \<open>WebSockets\<close>

definition WEBSOCKET_GUID :: string where
  "WEBSOCKET_GUID = ''258EAFA5-E914-47DA-95CA-C5AB0DC85B11''"

datatype upgrading = NoUpgrade | WebSocket string | UpgradeRefused string

definition says_websocket :: "('h, 'u) externs \<Rightarrow> bytes \<Rightarrow> bool" where
  "says_websocket X value \<longleftrightarrow> (case to_str X value of Some v \<Rightarrow> eq_ic (trim v) ''websocket'' | None \<Rightarrow> False)"

definition names_websocket :: "('h, 'u) externs \<Rightarrow> bytes \<Rightarrow> bool" where
  "names_websocket X value \<longleftrightarrow>
     (case to_str X value of
        Some v \<Rightarrow> list_ex (\<lambda>token. eq_ic (trim token) ''websocket'') (split_on (CHR '','') v)
      | None \<Rightarrow> False)"

definition handshake_key :: "('h, 'u) externs \<Rightarrow> 'h \<Rightarrow> string option" where
  "handshake_key X headers =
     (case hm_get_all X headers ''sec-websocket-key'' of
        [one] \<Rightarrow>
          (case map_option trim (to_str X one) of
             Some key \<Rightarrow>
               (case b64_decode X key of Some bytes \<Rightarrow> if length bytes = 16 then Some key else None | None \<Rightarrow> None)
           | None \<Rightarrow> None)
      | _ \<Rightarrow> None)"

definition upgrade_of :: "('h, 'u) externs \<Rightarrow> string \<Rightarrow> http_version \<Rightarrow> 'h \<Rightarrow> upgrading" where
  "upgrade_of X meth version headers =
     (let upgrades = hm_get_all X headers ''upgrade''
      in if \<not> list_ex (names_websocket X) upgrades then NoUpgrade
         else if length upgrades \<noteq> 1 then UpgradeRefused ''more than one Upgrade field''
         else if \<not> says_websocket X (hd upgrades) then UpgradeRefused ''an Upgrade that names more than WebSocket''
         else if meth \<noteq> ''GET'' then UpgradeRefused ''a WebSocket handshake is a GET''
         else if version \<noteq> HTTP_11 then UpgradeRefused ''a WebSocket handshake is HTTP/1.1''
         else if ''upgrade'' \<notin> set (connection_tokens X headers)
         then UpgradeRefused ''a Connection that does not name Upgrade''
         else (case handshake_key X headers of
             None \<Rightarrow> UpgradeRefused ''not exactly one Sec-WebSocket-Key of 16 bytes''
           | Some key \<Rightarrow>
               if \<not> (case hm_get_all X headers ''sec-websocket-version'' of
                        [one] \<Rightarrow> (case to_str X one of Some v \<Rightarrow> trim v = ''13'' | None \<Rightarrow> False) | _ \<Rightarrow> False)
               then UpgradeRefused ''not exactly Sec-WebSocket-Version 13''
               else if hm_contains X headers ''transfer-encoding''
                 \<or> list_ex (\<lambda>v. case to_str X v of Some len \<Rightarrow> trim len \<noteq> ''0'' | None \<Rightarrow> True)
                     (hm_get_all X headers ''content-length'')
               then UpgradeRefused ''a WebSocket handshake with a body''
               else WebSocket key))"

definition accept_value :: "('h, 'u) externs \<Rightarrow> 'v proxy_crates \<Rightarrow> string \<Rightarrow> string" where
  "accept_value X V key = b64_encode X (px_sha1 V (key @ WEBSOCKET_GUID))"

text \<open>Why a 101 is not the switch that was asked for; none when it is.\<close>

definition switched :: "('h, 'u) externs \<Rightarrow> 'v proxy_crates \<Rightarrow> 'h \<Rightarrow> string \<Rightarrow> string option" where
  "switched X V headers key =
     (if \<not> (case hm_get_all X headers ''upgrade'' of [one] \<Rightarrow> says_websocket X one | _ \<Rightarrow> False)
      then Some ''its 101 does not say Upgrade: websocket''
      else if ''upgrade'' \<notin> set (connection_tokens X headers)
      then Some ''its 101 does not say Connection: Upgrade''
      else if \<not> (case hm_get_all X headers ''sec-websocket-accept'' of
                   [one] \<Rightarrow> (case to_str X one of Some v \<Rightarrow> trim v = accept_value X V key | None \<Rightarrow> False)
                 | _ \<Rightarrow> False)
      then Some ''its 101 does not accept this handshake's key''
      else None)"

definition websocket_refused :: "('h, 'u) externs \<Rightarrow> string \<Rightarrow> 'h reply" where
  "websocket_refused X why =
     and_closed X (text_reply X 400 (''not a WebSocket handshake this proxy can carry: '' @ why))"

text \<open>The first address that accepts a connection, or why none did.\<close>

fun connect_first ::
    "('h, 'u, 'v) proxy_env \<Rightarrow> string \<Rightarrow> nat \<Rightarrow> string \<Rightarrow> ip_addr list \<Rightarrow> string + ip_addr" where
  "connect_first P bare port why [] = Inl why"
| "connect_first P bare port why (ip # ips) =
     (case pe_connect P ip port of
        None \<Rightarrow> Inr ip
      | Some err \<Rightarrow> connect_first P bare port (''connecting to '' @ bare @ '': '' @ err) ips)"

definition reach_host :: "('h, 'u, 'v) proxy_env \<Rightarrow> string \<Rightarrow> nat \<Rightarrow> bool \<Rightarrow> string + ip_addr" where
  "reach_host P host port secure =
     (let bare = bare_host host;
          addresses = (case parse_ip bare of
              Some ip \<Rightarrow> Inr [ip]
            | None \<Rightarrow> (case pe_lookup P bare of Inl err \<Rightarrow> Inl (''resolving '' @ bare @ '': '' @ err) | Inr ips \<Rightarrow> Inr ips))
      in case addresses of
           Inl err \<Rightarrow> Inl err
         | Inr ips \<Rightarrow>
             (case connect_first P bare port (bare @ '' has no address'') ips of
                Inl err \<Rightarrow> Inl err
              | Inr ip \<Rightarrow>
                  if \<not> secure then Inr ip
                  else (case pe_tls P bare of None \<Rightarrow> Inr ip | Some err \<Rightarrow> Inl (''TLS with '' @ bare @ '': '' @ err))))"

definition handshake_headers :: "('h, 'u) externs \<Rightarrow> 'v proxy_crates \<Rightarrow> 'h \<Rightarrow> bytes \<Rightarrow> 'h" where
  "handshake_headers X V headers host =
     hm_insert X ''connection'' ''Upgrade'' (hm_insert X ''upgrade'' ''websocket''
       (hm_insert X ''host'' host (append_our_via X V (forwardable X headers))))"

definition socket_secure :: "'v proxy_crates \<Rightarrow> 'v \<Rightarrow> bool option" where
  "socket_secure V u =
     (case map_option to_lower (px_scheme V u) of
        Some s \<Rightarrow> if s = ''https'' \<or> s = ''wss'' then Some True
                  else if s = ''http'' \<or> s = ''ws'' then Some False else None
      | None \<Rightarrow> None)"

text \<open>What the client is told of the origin's answer, and whether the two are joined.\<close>

definition relay_handshake ::
    "('h, 'u) externs \<Rightarrow> 'v proxy_crates \<Rightarrow> string \<Rightarrow> 'h handshake_answer \<Rightarrow> bool \<times> 'h reply" where
  "relay_handshake X V key a =
     (case a of
        HandshakeFailed err \<Rightarrow>
          (False, text_reply X 502 (''this WebSocket's origin could not be reached: '' @ err))
      | HandshakeLate \<Rightarrow> (False, text_reply X 504 ''this WebSocket's origin did not answer in time'')
      | HandshakeAnswered status headers body \<Rightarrow>
          if status \<noteq> 101
          then (False, \<lparr>rp_status = status, rp_headers = end_to_end X headers, rp_body = Relayed body\<rparr>)
          else (case switched X V headers key of
              Some why \<Rightarrow>
                (False, text_reply X 502 (''this WebSocket's origin did not complete the handshake: '' @ why))
            | None \<Rightarrow>
                (True, \<lparr>rp_status = 101,
                   rp_headers = hm_insert X ''connection'' ''Upgrade''
                     (hm_insert X ''upgrade'' ''websocket'' (end_to_end X headers)),
                   rp_body = Whole []\<rparr>)))"

definition open_websocket ::
    "('h, 'u, 'v) proxy_env \<Rightarrow> 'h \<Rightarrow> string \<Rightarrow> string \<Rightarrow> 'h proxy_state \<Rightarrow> 'h proxy_state \<times> 'h reply" where
  "open_websocket P headers url key s =
     (let X = pe_externs P; V = pe_crates P
      in case px_parse V url of
           None \<Rightarrow> (s, text_reply X 400 ''a WebSocket address that cannot be read'')
         | Some u \<Rightarrow>
             (case socket_secure V u of
                None \<Rightarrow> (s, text_reply X 400 ''a WebSocket address under a scheme this proxy does not carry'')
              | Some secure \<Rightarrow>
                  (case (px_host V u, Option.bind (px_authority V u) (value_from_str X)) of
                     (Some host, Some host_header) \<Rightarrow>
                       (let port = (case px_port V u of Some p \<Rightarrow> p | None \<Rightarrow> if secure then 443 else 80)
                        in if pe_reach_late P host then (s, snd (relay_handshake X V key HandshakeLate))
                           else case reach_host P host port secure of
                             Inl err \<Rightarrow> (s, snd (relay_handshake X V key (HandshakeFailed err)))
                           | Inr ip \<Rightarrow>
                               (let ask = \<lparr>ha_address = ip, ha_port = port, ha_secure = secure, ha_name = bare_host host,
                                      ha_target = path_of V u, ha_headers = handshake_headers X V headers host_header\<rparr>;
                                    (joined, reply) = relay_handshake X V key (pe_origin P ask (length (ps_asked s)))
                                in (s\<lparr>ps_asked := ps_asked s @ [ask],
                                      ps_joined := (if joined then Suc (ps_joined s) else ps_joined s)\<rparr>, reply)))
                   | _ \<Rightarrow> (s, text_reply X 400 ''a WebSocket address with no host''))))"

subsection \<open>Requests\<close>

datatype body_read = BodyTooLong | BodyBroken string | BodyRead bytes

text \<open>\<open>Limited\<close>: a frame past what is left of the limit ends the body.\<close>

fun read_request_body :: "nat \<Rightarrow> bytes \<Rightarrow> (string + bytes) list \<Rightarrow> body_read" where
  "read_request_body limit out [] = BodyRead out"
| "read_request_body limit out (Inl err # _) = BodyBroken err"
| "read_request_body limit out (Inr chunk # rest) =
     (if limit < length out + length chunk then BodyTooLong
      else read_request_body limit (out @ chunk) rest)"

definition declared_too_long :: "('h, 'u) externs \<Rightarrow> nat \<Rightarrow> 'h \<Rightarrow> bool" where
  "declared_too_long X limit headers \<longleftrightarrow>
     (case Option.bind (Option.bind (hm_get X headers ''content-length'') (to_str X)) (\<lambda>v. parse_u64 (trim v)) of
        Some len \<Rightarrow> limit < len | None \<Rightarrow> False)"

definition reply_headers :: "('h, 'u) externs \<Rightarrow> 'h fetch_response \<Rightarrow> 'h" where
  "reply_headers X resp =
     hm_insert X ''x-syndeo-protocol'' (protocol_str (fr_protocol resp))
       (hm_insert X ''x-syndeo-source'' (source_str (fr_source resp)) (end_to_end X (fr_headers resp)))"

text \<open>The fetch a request becomes, and the fetch back into a reply.\<close>

definition proxied_fetch ::
    "('h, 'u, 'v) proxy_env \<Rightarrow> ('h, 'v) client_request \<Rightarrow> string \<Rightarrow> bytes \<Rightarrow> 'h fetch_request" where
  "proxied_fetch P q url body =
     \<lparr>fq_method = cq_method q, fq_url = url,
      fq_headers = append_our_via (pe_externs P) (pe_crates P) (forwardable (pe_externs P) (cq_headers q)),
      fq_body = body, fq_integrity = None, fq_partition = None, fq_redirect = Manual\<rparr>"

definition fetch_proxied ::
    "('h, 'u, 'v) proxy_env \<Rightarrow> 'h fetch_request \<Rightarrow> 'h proxy_state \<Rightarrow> 'h proxy_state \<times> 'h reply" where
  "fetch_proxied P fq s =
     (case fetch (pe_net P) fq (ps_run s) of
        (r, Inr resp) \<Rightarrow>
          (s\<lparr>ps_run := r\<rparr>,
           \<lparr>rp_status = fr_status resp, rp_headers = reply_headers (pe_externs P) resp, rp_body = Streamed (fr_body resp)\<rparr>)
      | (r, Inl e) \<Rightarrow>
          (s\<lparr>ps_run := r\<rparr>,
           text_reply (pe_externs P) 502 (net_error_text (pe_externs P) (ev_crates (pe_net P)) (pe_library_text P) e)))"

definition forward_body ::
    "('h, 'u, 'v) proxy_env \<Rightarrow> ('h, 'v) client_request \<Rightarrow> string \<Rightarrow> 'h proxy_state \<Rightarrow> 'h proxy_state \<times> 'h reply" where
  "forward_body P q url s =
     (let X = pe_externs P; limit = pe_max_request_body P
      in if declared_too_long X limit (cq_headers q) then (s, too_large X limit)
         else (case read_request_body limit [] (cq_body q) of
             BodyTooLong \<Rightarrow> (s, too_large X limit)
           | BodyBroken err \<Rightarrow> (s, text_reply X 400 (''reading the request body: '' @ err))
           | BodyRead body \<Rightarrow> fetch_proxied P (proxied_fetch P q url body) s))"

definition forward ::
    "('h, 'u, 'v) proxy_env \<Rightarrow> ('h, 'v) client_request \<Rightarrow> string option \<Rightarrow> 'h proxy_state \<Rightarrow> 'h proxy_state \<times> 'h reply" where
  "forward P q origin s =
     (let X = pe_externs P; V = pe_crates P
      in if via_names_us X (cq_headers q) then (s, loop_detected X)
         else (case target_url X V q origin of
             Inl refusal \<Rightarrow> (s, text_reply X 400 refusal)
           | Inr url \<Rightarrow>
               (case intercept P url s of
                  (s, Some reply) \<Rightarrow> (s, reply)
                | (s, None) \<Rightarrow>
                    if origin = None \<and> px_authority V (cq_uri q) = None
                    then (s, text_reply X 400 ''this is a proxy: configure it as one rather than requesting from it directly'')
                    else if url_targets_this_proxy V url (pe_local P) then (s, loop_detected X)
                    else (case upgrade_of X (cq_method q) (cq_version q) (cq_headers q) of
                        WebSocket key \<Rightarrow> open_websocket P (cq_headers q) url key s
                      | UpgradeRefused why \<Rightarrow> (s, websocket_refused X why)
                      | NoUpgrade \<Rightarrow> forward_body P q url s))))"

subsection \<open>Tunnels\<close>

text \<open>What a CONNECT is answered, and the host and port it opens a tunnel to.\<close>

definition connect ::
    "('h, 'u, 'v) proxy_env \<Rightarrow> ('h, 'v) client_request \<Rightarrow> 'h reply \<times> (string \<times> nat) option" where
  "connect P q =
     (let X = pe_externs P; V = pe_crates P
      in case (px_authority V (cq_uri q), px_host V (cq_uri q)) of
           (Some _, Some host) \<Rightarrow>
             (case px_port V (cq_uri q) of
                None \<Rightarrow> (text_reply X 400 ''CONNECT needs a port'', None)
              | Some port \<Rightarrow>
                  if via_names_us X (cq_headers q) \<or> targets_this_proxy host port (pe_local P)
                  then (loop_detected X, None)
                  else (\<lparr>rp_status = 200, rp_headers = hm_empty X, rp_body = Whole []\<rparr>, Some (host, port)))
         | _ \<Rightarrow> (text_reply X 400 ''CONNECT needs an authority'', None))"

definition proxy_handle ::
    "('h, 'u, 'v) proxy_env \<Rightarrow> ('h, 'v) client_request \<Rightarrow> 'h proxy_state
      \<Rightarrow> 'h proxy_state \<times> 'h reply \<times> (string \<times> nat) option" where
  "proxy_handle P q s =
     (if (case pe_auth P of Some expected \<Rightarrow> \<not> auth_admits (pe_externs P) expected (cq_headers q) | None \<Rightarrow> False)
      then (s, auth_required (pe_externs P) (cq_headers q), None)
      else if cq_method q = ''CONNECT'' then (s, connect P q)
      else (let (s, reply) = forward P q None s in (s, reply, None)))"

definition TLS_HANDSHAKE_RECORD :: char where
  "TLS_HANDSHAKE_RECORD = CHR 0x16"

datatype first_byte = FirstByte char | TunnelClosed | TunnelFailed | TunnelSilent

definition REFUSALS_CAPACITY :: nat where
  "REFUSALS_CAPACITY = 4096"

text \<open>A host that can be said on a line: a name, and nothing that could break it.\<close>

definition sayable :: "string \<Rightarrow> bool" where
  "sayable host \<longleftrightarrow> host \<noteq> [] \<and> length host \<le> 253
     \<and> list_all (\<lambda>b. is_alpha b \<or> is_digit b \<or> b = CHR ''.'' \<or> b = CHR ''-'') host"

definition handshake_failed :: "('h, 'u, 'v) proxy_env \<Rightarrow> string \<Rightarrow> bool \<Rightarrow> 'h proxy_state \<Rightarrow> 'h proxy_state \<times> bool" where
  "handshake_failed P host is_refusal s =
     (if \<not> is_refusal then (s, False)
      else let host = to_lower host
           in (if sayable host \<and> pe_saying P \<and> length (ps_said s) < REFUSALS_CAPACITY \<and> host \<notin> set (ps_said s)
               then s\<lparr>ps_said := ps_said s @ [host]\<rparr> else s, True))"

definition REFUSED_LINE :: string where
  "REFUSED_LINE = ''SYNDEO-PROXY-REFUSED 1''"

definition refusal_line :: "string \<Rightarrow> string" where
  "refusal_line host = REFUSED_LINE @ '' '' @ host @ [CHR 0x0A]"

text \<open>
  What a tunnel turns out to carry, once its first byte has arrived: the origin every request in
  it goes to, if any can.
\<close>

definition tunnel_opened ::
    "('h, 'u, 'v) proxy_env \<Rightarrow> string \<Rightarrow> nat \<Rightarrow> first_byte \<Rightarrow> 'h proxy_state \<Rightarrow> 'h proxy_state \<times> string option" where
  "tunnel_opened P host port first s =
     (case first of
        FirstByte b \<Rightarrow>
          if b = TLS_HANDSHAKE_RECORD
          then (case pe_accept P host port of
              NoLeaf \<Rightarrow> (s, None)
            | TlsFailed is_refusal \<Rightarrow> (fst (handshake_failed P host is_refusal s), None)
            | TlsAccepted \<Rightarrow> (s, Some (tunnel_origin ''https'' host port)))
          else (s, Some (tunnel_origin ''http'' host port))
      | _ \<Rightarrow> (s, None))"

text \<open>The requests of a tunnel, one after the other, and their replies.\<close>

fun tunnelled ::
    "('h, 'u, 'v) proxy_env \<Rightarrow> string \<Rightarrow> ('h, 'v) client_request list \<Rightarrow> 'h proxy_state \<Rightarrow> 'h proxy_state \<times> 'h reply list" where
  "tunnelled P origin [] s = (s, [])"
| "tunnelled P origin (q # qs) s =
     (let (s, reply) = forward P q (Some origin) s; (s, replies) = tunnelled P origin qs s
      in (s, reply # replies))"

subsection \<open>Commands\<close>

definition CLEARED :: string where
  "CLEARED = ''SYNDEO-PROXY-CLEARED 1''"

definition FAILED :: string where
  "FAILED = ''SYNDEO-PROXY-FAILED 1''"

definition UNKNOWN :: string where
  "UNKNOWN = ''SYNDEO-PROXY-UNKNOWN 1''"

definition MAX_COMMAND :: nat where
  "MAX_COMMAND = 64"

text \<open>\<open>read_until\<close> a newline, of at most \<open>n\<close> bytes.\<close>

fun read_until :: "nat \<Rightarrow> bytes \<Rightarrow> bytes \<times> bytes" where
  "read_until 0 input = ([], input)"
| "read_until (Suc n) [] = ([], [])"
| "read_until (Suc n) (c # input) =
     (if c = CHR 0x0A then ([c], input) else (let (a, b) = read_until n input in (c # a, b)))"

definition is_whole :: "bytes \<Rightarrow> bool" where
  "is_whole line \<longleftrightarrow> line \<noteq> [] \<and> last line = CHR 0x0A"

lemma read_until_split: "read_until n input = (a, b) \<Longrightarrow> input = a @ b"
  by (induction n input arbitrary: a b rule: read_until.induct) (auto split: if_splits prod.splits)

lemma read_until_shrinks: "read_until n input = (a, b) \<Longrightarrow> a \<noteq> [] \<Longrightarrow> length b < length input"
  using read_until_split by fastforce

text \<open>The rest of a line that is too long; none if the input ends first.\<close>

function skip_line :: "bytes \<Rightarrow> bytes option" where
  "skip_line input =
     (case read_until (MAX_COMMAND + 1) input of
        (a, rest) \<Rightarrow> if a = [] then None else if is_whole a then Some rest else skip_line rest)"
  by pat_completeness auto
termination by (relation "measure length") (auto dest: read_until_shrinks [OF sym])

declare skip_line.simps [simp del]

lemma skip_line_shrinks: "skip_line input = Some rest \<Longrightarrow> length rest < length input"
proof (induction input rule: skip_line.induct)
  case (1 input)
  then show ?case
    by (subst (asm) (2) skip_line.simps)
      (auto split: prod.splits if_splits dest: read_until_shrinks intro: less_trans)
qed

definition command_answer :: "('s \<Rightarrow> 's \<times> (string + nat)) \<Rightarrow> bool \<Rightarrow> bytes \<Rightarrow> 's \<Rightarrow> 's \<times> string" where
  "command_answer clear too_long line s =
     (if \<not> too_long \<and> line = ''clear-cache'' @ [CHR 0x0A]
      then (case clear s of
          (s, Inr n) \<Rightarrow> (s, CLEARED @ '' '' @ show_nat n)
        | (s, Inl _) \<Rightarrow> (s, FAILED))
      else (s, UNKNOWN))"

function answer_commands :: "('s \<Rightarrow> 's \<times> (string + nat)) \<Rightarrow> bytes \<Rightarrow> 's \<Rightarrow> 's \<times> string" where
  "answer_commands clear input s =
     (case read_until (MAX_COMMAND + 1) input of
        (line, rest) \<Rightarrow>
          if line = [] then (s, [])
          else (case (if is_whole line then Some rest else skip_line rest) of
              None \<Rightarrow> (s, [])
            | Some rest' \<Rightarrow>
                (let too_long = (MAX_COMMAND < length line \<or> \<not> is_whole line);
                     (s, answer) = command_answer clear too_long line s;
                     (s, out) = answer_commands clear rest' s
                 in (s, answer @ [CHR 0x0A] @ out))))"
  by pat_completeness auto
termination
  by (relation "measure (\<lambda>(clear, input, s). length input)")
    (auto split: if_splits dest: read_until_shrinks [OF sym] skip_line_shrinks intro: less_trans)

declare answer_commands.simps [simp del]

end
