(* ===== verification/Proxy_Commands.thy ===== *)
theory Proxy_Commands
  imports Proxy Net_Integrity
begin

text \<open>
  Who may use the proxy and what its owner may tell it: the credential is the only key, and the
  commands are answered line by line, however long the lines are.
\<close>

subsection \<open>The credential\<close>

lemma char_nibbles: "(of_char c :: nat) = 16 * ((of_char c :: nat) div 16) + (of_char c :: nat) mod 16"
  by simp

lemma hex_digit02_inject: "i < 16 \<Longrightarrow> j < 16 \<Longrightarrow> hex_digit02 i = hex_digit02 j \<Longrightarrow> i = j"
  by (auto simp: hex_digit02_def char_of_eq_iff take_bit_eq_mod split: if_splits)

lemma hex02_inject: "hex02 a = hex02 b \<Longrightarrow> a = b"
proof -
  assume "hex02 a = hex02 b"
  then have "(of_char a :: nat) div 16 = of_char b div 16" "(of_char a :: nat) mod 16 = of_char b mod 16"
    using hex_digit02_inject [OF char_div_16 char_div_16] hex_digit02_inject [of "of_char a mod 16" "of_char b mod 16"]
    by (auto simp: hex02_def)
  then have "(of_char a :: nat) = of_char b" using char_nibbles [of a] char_nibbles [of b] by simp
  then show ?thesis by simp
qed

lemma hex02_length: "length (hex02 c) = 2"
  by (simp add: hex02_def)

lemma concat_hex02_inject: "concat (map hex02 a) = concat (map hex02 b) \<Longrightarrow> a = b"
proof (induction a arbitrary: b)
  case Nil
  then show ?case by (cases b) (auto simp: hex02_def)
next
  case (Cons x a)
  then obtain y b' where b: "b = y # b'" by (cases b) (auto simp: hex02_def)
  then show ?case using Cons hex02_inject [of x y] by (simp add: hex02_length)
qed

lemma for_token_inject: "b64_ok X \<Longrightarrow> for_token X a = for_token X b \<Longrightarrow> a = b"
  unfolding for_token_def b64_ok_def by (metis append_same_eq concat_hex02_inject option.inject same_append_eq)

text \<open>
  C6: A client without this launch's credential gets nothing. Unless a request carries exactly
  one \<open>Proxy-Authorization\<close> field, the one made from the token the owner handed over, it is
  answered 407 and nothing else happens: nothing is fetched, stored or looked up, no tunnel is
  opened and no command of the proxy is reached; and no other token makes that field.
\<close>

theorem uncredentialed_clients_get_nothing:
  assumes "b64_ok (pe_externs P)" and "read_auth_frame (pe_externs P) stdin = Inr expected"
    and "pe_auth P = Some expected"
    and "hm_get_all (pe_externs P) (cq_headers q) ''proxy-authorization'' \<noteq> [expected]"
  shows "proxy_handle P q s = (s, auth_required (pe_externs P) (cq_headers q), None)
    \<and> (\<forall>stdin'. read_auth_frame (pe_externs P) stdin' = Inr expected \<longrightarrow> take AUTH_FRAME stdin' = take AUTH_FRAME stdin)"
proof -
  have no: "\<not> auth_admits (pe_externs P) expected (cq_headers q)"
    using assms(4) by (auto simp: auth_admits_def constant_time_eq_iff split: list.splits)
  have frame: "take AUTH_FRAME t = AUTH_MAGIC @ token @ [CHR 0x0A] \<and> expected = for_token (pe_externs P) token"
    if t: "read_auth_frame (pe_externs P) t = Inr expected" and token: "token = take 32 (drop 4 (take AUTH_FRAME t))" for t token
  proof -
    let ?f = "take AUTH_FRAME t"
    have f: "length ?f = 37" "take 4 ?f = AUTH_MAGIC" "?f ! 36 = CHR 0x0A"
      using t by (auto simp: read_auth_frame_def Let_def AUTH_FRAME_def not_less split: if_splits)
    have "?f = take 4 ?f @ take 32 (drop 4 ?f) @ drop 32 (drop 4 ?f)" by (simp only: append_take_drop_id)
    then have "?f = take 4 ?f @ take 32 (drop 4 ?f) @ drop 36 ?f" by (simp del: take_take drop_take)
    moreover have "drop 36 ?f = [CHR 0x0A]"
      using f(1,3) Cons_nth_drop_Suc [of 36 ?f] by (simp del: drop_take)
    ultimately show ?thesis using t f(2) token
      by (auto simp: read_auth_frame_def Let_def split: if_splits)
  qed
  have "take AUTH_FRAME stdin' = take AUTH_FRAME stdin" if "read_auth_frame (pe_externs P) stdin' = Inr expected" for stdin'
    using frame [OF that refl] frame [OF assms(2) refl] for_token_inject [OF assms(1)] by metis
  then show ?thesis using assms(3) no by (simp add: proxy_handle_def)
qed

subsection \<open>The commands\<close>

text \<open>One line after the other, each one command.\<close>

fun obey :: "('s \<Rightarrow> 's \<times> (string + nat)) \<Rightarrow> bytes list \<Rightarrow> 's \<Rightarrow> 's \<times> string" where
  "obey clear [] s = (s, [])"
| "obey clear (line # lines) s =
     (let (s, answer) = (if line = ''clear-cache''
            then (case clear s of (s, Inr n) \<Rightarrow> (s, CLEARED @ '' '' @ show_nat n) | (s, Inl _) \<Rightarrow> (s, FAILED))
            else (s, UNKNOWN));
          (s, out) = obey clear lines s
      in (s, answer @ [CHR 0x0A] @ out))"

lemma read_until_line:
  assumes "CHR 0x0A \<notin> set l" "length l < n"
  shows "read_until n (l @ CHR 0x0A # rest) = (l @ [CHR 0x0A], rest)"
  using assms
proof (induction l arbitrary: n)
  case Nil
  then show ?case by (cases n) auto
next
  case (Cons c l)
  then show ?case by (cases n) auto
qed

lemma read_until_long:
  assumes "CHR 0x0A \<notin> set l" "n \<le> length l"
  shows "read_until n (l @ rest) = (take n l, drop n l @ rest)"
  using assms
proof (induction l arbitrary: n)
  case Nil
  then show ?case by (cases n) auto
next
  case (Cons c l)
  then show ?case by (cases n) auto
qed

lemma read_until_end:
  assumes "CHR 0x0A \<notin> set l" "length l \<le> n"
  shows "read_until n l = (l, [])"
  using assms
proof (induction l arbitrary: n)
  case Nil
  then show ?case by (cases n) auto
next
  case (Cons c l)
  then show ?case by (cases n) auto
qed

lemma not_whole: "CHR 0x0A \<notin> set l \<Longrightarrow> \<not> is_whole l"
  by (metis is_whole_def last_in_set)

lemma not_whole_take: "CHR 0x0A \<notin> set l \<Longrightarrow> \<not> is_whole (take n l)"
  by (metis not_whole in_set_takeD)

lemma skip_line_line: "CHR 0x0A \<notin> set l \<Longrightarrow> skip_line (l @ CHR 0x0A # rest) = Some rest"
proof (induction "length l" arbitrary: l rule: less_induct)
  case less
  show ?case
  proof (cases "length l < MAX_COMMAND + 1")
    case True
    show ?thesis using read_until_line [OF less.prems True, of rest] by (subst skip_line.simps) (simp add: is_whole_def)
  next
    case False
    let ?n = "MAX_COMMAND + 1"
    have front: "take ?n l \<noteq> []" "\<not> is_whole (take ?n l)"
      using False not_whole_take [OF less.prems] by (auto simp: MAX_COMMAND_def)
    have "skip_line (drop ?n l @ CHR 0x0A # rest) = Some rest"
      using less.prems False by (intro less.hyps) (auto dest: in_set_dropD)
    then show ?thesis using read_until_long [OF less.prems, of ?n "CHR 0x0A # rest"] False front
      by (subst skip_line.simps) simp
  qed
qed

lemma skip_line_end: "CHR 0x0A \<notin> set l \<Longrightarrow> skip_line l = None"
proof (induction "length l" arbitrary: l rule: less_induct)
  case less
  let ?n = "MAX_COMMAND + 1"
  show ?case
  proof (cases "length l \<le> ?n")
    case True
    note not_whole [OF less.prems]
    moreover have "skip_line [] = None" by (subst skip_line.simps) (simp add: MAX_COMMAND_def numeral_eq_Suc)
    ultimately show ?thesis using read_until_end [OF less.prems True] by (subst skip_line.simps) simp
  next
    case False
    have ne: "take ?n l \<noteq> []" using False by (auto simp: MAX_COMMAND_def)
    note front = not_whole_take [OF less.prems, of ?n]
    have "skip_line (drop ?n l) = None" using less.prems False by (intro less.hyps) (auto dest: in_set_dropD)
    then show ?thesis using read_until_long [OF less.prems, of ?n "[]"] False ne front
      by (subst skip_line.simps) simp
  qed
qed

lemma answer_line:
  assumes "CHR 0x0A \<notin> set l"
  shows "answer_commands clear (l @ CHR 0x0A # rest) s =
     (let (s, answer) = command_answer clear (MAX_COMMAND < Suc (length l)) (l @ [CHR 0x0A]) s;
          (s, out) = answer_commands clear rest s
      in (s, answer @ [CHR 0x0A] @ out))"
proof (cases "length l < MAX_COMMAND + 1")
  case True
  show ?thesis using read_until_line [OF assms True, of rest]
    by (subst answer_commands.simps) (simp add: is_whole_def)
next
  case False
  let ?n = "MAX_COMMAND + 1"
  have ne: "take ?n l \<noteq> []" using False by (auto simp: MAX_COMMAND_def)
  note front = not_whole_take [OF assms, of ?n]
  have skip: "skip_line (drop ?n l @ CHR 0x0A # rest) = Some rest"
    using assms by (intro skip_line_line) (auto dest: in_set_dropD)
  have "command_answer clear True x s = (s, UNKNOWN)" for x by (simp add: command_answer_def)
  then show ?thesis using read_until_long [OF assms, of ?n "CHR 0x0A # rest"] False ne front skip
    by (subst answer_commands.simps) simp
qed

lemma answer_end:
  assumes "CHR 0x0A \<notin> set l"
  shows "answer_commands clear l s = (s, [])"
proof (cases "length l \<le> MAX_COMMAND + 1")
  case True
  show ?thesis using read_until_end [OF assms True] skip_line_end [of "[]"] not_whole [OF assms]
    by (subst answer_commands.simps) simp
next
  case False
  let ?n = "MAX_COMMAND + 1"
  have ne: "take ?n l \<noteq> []" using False by (auto simp: MAX_COMMAND_def)
  note not_whole_take [OF assms, of ?n]
  moreover have "skip_line (drop ?n l) = None"
    using assms by (intro skip_line_end) (auto dest: in_set_dropD)
  ultimately show ?thesis using read_until_long [OF assms, of ?n "[]"] False ne
    by (subst answer_commands.simps) simp
qed

lemma split_on_line: "CHR 0x0A \<notin> set l \<Longrightarrow> split_on (CHR 0x0A) (l @ CHR 0x0A # rest) = l # split_on (CHR 0x0A) rest"
  by (induction l) auto

lemma split_on_nonempty: "split_on c s \<noteq> []"
  by (cases s) (auto split: list.splits)

text \<open>
  C11: The owner's pipe is read as lines. Reading it in bounded pieces, which skips what is past
  the longest command, answers exactly as splitting the whole input at its newlines would:
  every complete line is answered with one line, in order, \<open>clear-cache\<close> clears, every other
  line is unknown and does nothing, and an end in the middle of a line is no command. It always
  returns.
\<close>

theorem commands_are_whole_lines:
  "answer_commands clear input s = obey clear (butlast (split_on (CHR 0x0A) input)) s"
proof (induction "length input" arbitrary: input s rule: less_induct)
  case less
  show ?case
  proof (cases "CHR 0x0A \<in> set input")
    case False
    then have "split_on (CHR 0x0A) input = [input]" by (rule split_on_absent)
    then show ?thesis using answer_end [OF False] by simp
  next
    case True
    then obtain l rest where i: "input = l @ CHR 0x0A # rest" and l: "CHR 0x0A \<notin> set l"
      by (meson split_list_first)
    have rest: "answer_commands clear rest s = obey clear (butlast (split_on (CHR 0x0A) rest)) s" for s
      by (rule less.hyps) (simp add: i)
    have "MAX_COMMAND < Suc (length ''clear-cache'') \<longleftrightarrow> False" by (simp add: MAX_COMMAND_def)
    then have "command_answer clear (MAX_COMMAND < Suc (length l)) (l @ [CHR 0x0A]) s =
        (if l = ''clear-cache''
         then (case clear s of (s, Inr n) \<Rightarrow> (s, CLEARED @ '' '' @ show_nat n) | (s, Inl _) \<Rightarrow> (s, FAILED))
         else (s, UNKNOWN))"
      by (auto simp: command_answer_def MAX_COMMAND_def)
    then show ?thesis unfolding i answer_line [OF l] split_on_line [OF l] rest
      by (simp add: split_on_nonempty)
  qed
qed

subsection \<open>An instance\<close>

text \<open>URIs as text; the fetcher of theory Net_Integrity, with nothing behind it; a token of 32 letters.\<close>

definition demo_proxy_crates :: "string proxy_crates" where
  "demo_proxy_crates =
     (let named = (\<lambda>u. if starts_with ''http://'' u then Some (takeWhile (\<lambda>c. c \<noteq> CHR ''/'') (drop 7 u)) else None)
      in \<lparr>px_parse = Some, px_scheme = (\<lambda>u. if starts_with ''http://'' u then Some ''http'' else None),
          px_authority = named, px_host = named, px_port = (\<lambda>u. None),
          px_path = (\<lambda>u. Some (if starts_with ''http://'' u then dropWhile (\<lambda>c. c \<noteq> CHR ''/'') (drop 7 u) else u)),
          px_text = (\<lambda>u. u), px_value = Some, px_sha1 = (\<lambda>b. take 20 (b @ replicate 20 (CHR 0x00))),
          px_json = (\<lambda>s. ''{}'')\<rparr>)"

definition demo_token :: bytes where
  "demo_token = replicate 32 (CHR ''k'')"

definition demo_proxy :: "((string \<times> bytes) list, string, string) proxy_env" where
  "demo_proxy = \<lparr>pe_net = demo_net_env [], pe_crates = demo_proxy_crates, pe_max_request_body = 64,
     pe_auth = Some (for_token demo demo_token), pe_saying = True, pe_local = (V4 (v4_of 127 0 0 1), 8899),
     pe_library_text = [], pe_lookup = (\<lambda>h. Inr [V4 (v4_of 93 184 216 34)]), pe_reach_late = (\<lambda>h. False),
     pe_connect = (\<lambda>ip p. None), pe_tls = (\<lambda>h. None), pe_origin = (\<lambda>ask n. HandshakeFailed ''refused''),
     pe_accept = (\<lambda>h p. TlsAccepted)\<rparr>"

definition demo_client :: "string \<Rightarrow> ((string \<times> bytes) list, string) client_request" where
  "demo_client target = \<lparr>cq_method = ''GET'', cq_uri = target, cq_version = HTTP_11, cq_headers = [], cq_body = []\<rparr>"

definition demo_proxy_state :: "(string \<times> bytes) list proxy_state" where
  "demo_proxy_state = \<lparr>ps_run = demo_run, ps_asked = [], ps_joined = 0, ps_said = []\<rparr>"

theorem uncredentialed_clients_get_nothing_witness:
  "\<exists>reply. proxy_handle demo_proxy (demo_client ''http://a.test/x'') demo_proxy_state = (demo_proxy_state, reply, None)
     \<and> rp_status reply = 407"
proof -
  have frame: "read_auth_frame demo (AUTH_MAGIC @ demo_token @ [CHR 0x0A]) = Inr (for_token demo demo_token)"
    by (simp add: read_auth_frame_def AUTH_MAGIC_def AUTH_FRAME_def demo_token_def Let_def nth_append)
  have "pe_externs demo_proxy = demo" by (simp add: demo_proxy_def demo_externs)
  then show ?thesis
    using uncredentialed_clients_get_nothing [of demo_proxy "AUTH_MAGIC @ demo_token @ [CHR 0x0A]" "for_token demo demo_token"
        "demo_client ''http://a.test/x''" demo_proxy_state] frame demo_b64_ok
    by (simp add: demo_proxy_def demo_client_def demo_def auth_required_def Let_def)
qed

end
