(* ===== verification/Proxy_Loops.thy ===== *)
theory Proxy_Loops
  imports Proxy_Commands Net_Redirects
begin

text \<open>
  What leaves the proxy because of one request: to which address, with which headers and body;
  that it does not come back unseen, and that a tunnel is a way to one origin only.
\<close>

subsection \<open>What one request sends\<close>

definition relayed :: "('h, 'u, 'v) proxy_env \<Rightarrow> ('h, 'v) client_request \<Rightarrow> string \<Rightarrow> 'h outgoing \<Rightarrow> bool" where
  "relayed P q url o' \<longleftrightarrow>
     (\<exists>body. read_request_body (pe_max_request_body P) [] (cq_body q) = BodyRead body
        \<and> sent_for (pe_net P) (proxied_fetch P q url body) o')"

definition asked_for :: "('h, 'u, 'v) proxy_env \<Rightarrow> ('h, 'v) client_request \<Rightarrow> string \<Rightarrow> 'h handshake \<Rightarrow> bool" where
  "asked_for P q url a \<longleftrightarrow>
     (\<exists>key u host authority value.
        upgrade_of (pe_externs P) (cq_method q) (cq_version q) (cq_headers q) = WebSocket key
        \<and> px_parse (pe_crates P) url = Some u \<and> px_host (pe_crates P) u = Some host
        \<and> px_authority (pe_crates P) u = Some authority \<and> value_from_str (pe_externs P) authority = Some value
        \<and> socket_secure (pe_crates P) u = Some (ha_secure a)
        \<and> ha_name a = bare_host host
        \<and> ha_port a = (case px_port (pe_crates P) u of Some p \<Rightarrow> p | None \<Rightarrow> if ha_secure a then 443 else 80)
        \<and> ha_target a = path_of (pe_crates P) u
        \<and> ha_headers a = handshake_headers (pe_externs P) (pe_crates P) (cq_headers q) value)"

definition sends_for :: "('h, 'u, 'v) proxy_env \<Rightarrow> ('h, 'v) client_request \<Rightarrow> string option
    \<Rightarrow> 'h proxy_state \<Rightarrow> 'h proxy_state \<Rightarrow> bool" where
  "sends_for P q origin s s' \<longleftrightarrow>
     (\<exists>outs asks. ru_sent (ps_run s') = ru_sent (ps_run s) @ outs \<and> ps_asked s' = ps_asked s @ asks
        \<and> (\<forall>o'\<in>set outs. \<exists>url. target_url (pe_externs P) (pe_crates P) q origin = Inr url \<and> relayed P q url o')
        \<and> (\<forall>a\<in>set asks. \<exists>url. target_url (pe_externs P) (pe_crates P) q origin = Inr url \<and> asked_for P q url a))"

lemma sends_for_nothing: "ru_sent (ps_run s') = ru_sent (ps_run s) \<Longrightarrow> ps_asked s' = ps_asked s \<Longrightarrow> sends_for P q origin s s'"
  by (simp add: sends_for_def)

lemma intercept_sends: "intercept P url s = (s', reply) \<Longrightarrow> ru_sent (ps_run s') = ru_sent (ps_run s) \<and> ps_asked s' = ps_asked s"
  by (auto simp: intercept_def Let_def split: option.splits)

lemma fetch_manual:
  assumes "header_laws (ev_externs E)" "fq_redirect q = Manual" "fetch E q r = (r', res)"
  shows "sends E q 3 r r'"
proof (cases "refuse_unusable_integrity (ev_externs E) (ev_crates E) q")
  case (Inl e)
  then show ?thesis using assms(3) by (simp add: fetch_def sends_same)
next
  case (Inr u)
  obtain r1 x where o: "fetch_once E q r = (r1, x)" by fastforce
  have "r' = r1" using assms(2,3) Inr o
    by (cases x) (auto simp: fetch_def fetch_loop.simps Let_def)
  then show ?thesis using fetch_once_sends [OF assms(1) o] by simp
qed

lemma forward_body_sends:
  assumes "header_laws (pe_externs P)" "target_url (pe_externs P) (pe_crates P) q origin = Inr url"
    and "forward_body P q url s = (s', reply)"
  shows "sends_for P q origin s s'"
proof (cases "\<exists>body. read_request_body (pe_max_request_body P) [] (cq_body q) = BodyRead body
    \<and> \<not> declared_too_long (pe_externs P) (pe_max_request_body P) (cq_headers q)")
  case True
  then obtain body where b: "read_request_body (pe_max_request_body P) [] (cq_body q) = BodyRead body"
    "\<not> declared_too_long (pe_externs P) (pe_max_request_body P) (cq_headers q)" by blast
  obtain r x where f: "fetch (pe_net P) (proxied_fetch P q url body) (ps_run s) = (r, x)" by fastforce
  have "sends (pe_net P) (proxied_fetch P q url body) 3 (ps_run s) r"
    by (rule fetch_manual [OF assms(1) _ f]) (simp add: proxied_fetch_def)
  moreover have "ps_run s' = r \<and> ps_asked s' = ps_asked s"
    using assms(3) b f by (cases x) (auto simp: forward_body_def Let_def fetch_proxied_def)
  ultimately show ?thesis using assms(2) b(1) by (auto simp: sends_for_def sends_def relayed_def)
next
  case False
  then have "s' = s" using assms(3)
    by (auto simp: forward_body_def Let_def split: if_splits body_read.splits)
  then show ?thesis by (simp add: sends_for_nothing)
qed

lemma open_websocket_cases:
  assumes "upgrade_of (pe_externs P) (cq_method q) (cq_version q) (cq_headers q) = WebSocket key"
    and "open_websocket P (cq_headers q) url key s = (s', reply)"
  shows "s' = s \<and> rp_status reply \<noteq> 101
    \<or> (\<exists>a joined. asked_for P q url a
        \<and> relay_handshake (pe_externs P) (pe_crates P) key (pe_origin P a (length (ps_asked s))) = (joined, reply)
        \<and> s' = s\<lparr>ps_asked := ps_asked s @ [a], ps_joined := (if joined then Suc (ps_joined s) else ps_joined s)\<rparr>)"
proof (cases "s' = s")
  case True
  show ?thesis using assms(2) True
    by (auto simp: open_websocket_def Let_def bind_eq_Some_conv text_reply_def relay_handshake_def
        split: option.splits sum.splits prod.splits if_splits dest: arg_cong [of _ _ ps_asked])
next
  case False
  obtain u secure host authority hv where
    o: "px_parse (pe_crates P) url = Some u" "socket_secure (pe_crates P) u = Some secure"
      "px_host (pe_crates P) u = Some host" "px_authority (pe_crates P) u = Some authority"
      "value_from_str (pe_externs P) authority = Some hv"
    using assms(2) False
    by (auto simp: open_websocket_def Let_def bind_eq_Some_conv split: option.splits)
  let ?port = "case px_port (pe_crates P) u of Some p \<Rightarrow> p | None \<Rightarrow> if secure then 443 else 80"
  obtain ip where r: "reach_host P host ?port secure = Inr ip" "\<not> pe_reach_late P host"
    using assms(2) False o by (cases "reach_host P host ?port secure") (auto simp: open_websocket_def Let_def split: if_splits)
  let ?a = "\<lparr>ha_address = ip, ha_port = ?port, ha_secure = secure, ha_name = bare_host host,
      ha_target = path_of (pe_crates P) u,
      ha_headers = handshake_headers (pe_externs P) (pe_crates P) (cq_headers q) hv\<rparr>"
  obtain joined told where relay: "relay_handshake (pe_externs P) (pe_crates P) key (pe_origin P ?a (length (ps_asked s))) = (joined, told)"
    by fastforce
  have "s' = s\<lparr>ps_asked := ps_asked s @ [?a], ps_joined := (if joined then Suc (ps_joined s) else ps_joined s)\<rparr> \<and> reply = told"
    using assms(2) o r relay by (simp add: open_websocket_def Let_def split: prod.splits)
  moreover have "asked_for P q url ?a" unfolding asked_for_def using assms(1) o by simp
  ultimately show ?thesis using relay by blast
qed

lemma open_websocket_sends:
  assumes "target_url (pe_externs P) (pe_crates P) q origin = Inr url"
    and "upgrade_of (pe_externs P) (cq_method q) (cq_version q) (cq_headers q) = WebSocket key"
    and "open_websocket P (cq_headers q) url key s = (s', reply)"
  shows "sends_for P q origin s s'"
  using open_websocket_cases [OF assms(2,3)] assms(1) by (auto simp: sends_for_def)

lemma forward_sends:
  assumes "header_laws (pe_externs P)" "forward P q origin s = (s', reply)"
  shows "sends_for P q origin s s'"
proof (cases "via_names_us (pe_externs P) (cq_headers q)")
  case True
  then show ?thesis using assms(2) by (simp add: forward_def sends_for_nothing)
next
  case seen: False
  show ?thesis
  proof (cases "target_url (pe_externs P) (pe_crates P) q origin")
    case (Inl e)
    then show ?thesis using assms(2) seen by (simp add: forward_def Let_def sends_for_nothing)
  next
    case (Inr url)
    obtain s1 shown where i: "intercept P url s = (s1, shown)" by fastforce
    note kept = intercept_sends [OF i]
    have later: "sends_for P q origin s s'" if "sends_for P q origin s1 s'"
      using that kept by (auto simp: sends_for_def)
    show ?thesis
    proof (cases "shown \<noteq> None \<or> origin = None \<and> px_authority (pe_crates P) (cq_uri q) = None
        \<or> url_targets_this_proxy (pe_crates P) url (pe_local P)")
      case True
      then have "s' = s1" using assms(2) seen Inr i by (auto simp: forward_def Let_def split: option.splits if_splits)
      then show ?thesis using kept by (simp add: sends_for_nothing)
    next
      case False
      then have f: "(case upgrade_of (pe_externs P) (cq_method q) (cq_version q) (cq_headers q) of
            WebSocket key \<Rightarrow> open_websocket P (cq_headers q) url key s1
          | UpgradeRefused why \<Rightarrow> (s1, websocket_refused (pe_externs P) why)
          | NoUpgrade \<Rightarrow> forward_body P q url s1) = (s', reply)"
        using assms(2) seen Inr i by (auto simp: forward_def Let_def)
      show ?thesis
      proof (cases "upgrade_of (pe_externs P) (cq_method q) (cq_version q) (cq_headers q)")
        case NoUpgrade
        then show ?thesis using f by (intro later forward_body_sends [OF assms(1) Inr]) simp
      next
        case (WebSocket key)
        then show ?thesis using f open_websocket_sends [OF Inr WebSocket] by (intro later) simp
      next
        case (UpgradeRefused why)
        then show ?thesis using f kept by (simp add: sends_for_nothing)
      qed
    qed
  qed
qed

subsection \<open>Headers, from the client to the origin\<close>

text \<open>What a fetch sets for itself, or HTTP/3 does not carry.\<close>

definition SET_BY_THE_FETCH :: "string list" where
  "SET_BY_THE_FETCH = [''user-agent'', ''accept-encoding'', ''if-none-match'', ''if-modified-since'', ''host'']"

lemma forwardable_fields:
  assumes "header_laws X" "is_name X n"
  shows "hm_get_all X (forwardable X h) n =
     (if n = ''host'' \<or> is_hop_by_hop n (connection_tokens X h) then [] else hm_get_all X h n)"
  unfolding forwardable_def Let_def
  using copied [OF assms, of "\<lambda>n. n = ''host'' \<or> is_hop_by_hop n (connection_tokens X h)" h] by simp

lemma end_to_end_fields:
  assumes "header_laws X" "is_name X n"
  shows "hm_get_all X (end_to_end X h) n =
     (if is_hop_by_hop n (connection_tokens X h) \<or> n = ''content-length'' then [] else hm_get_all X h n)"
  unfolding end_to_end_def Let_def
  using copied [OF assms, of "\<lambda>n. is_hop_by_hop n (connection_tokens X h) \<or> n = ''content-length''" h] by simp

lemma proxy_names:
  assumes "header_laws X"
  shows "is_name X ''via''" "is_name X ''connection''" "is_name X ''upgrade''" "is_name X ''host''"
    "is_name X ''x-syndeo-source''" "is_name X ''x-syndeo-protocol''" "is_name X ''transfer-encoding''"
  by (rule known_header [OF assms]; simp add: name_char_def is_alpha_def is_lower_def is_upper_def is_digit_def
      to_lower_def lower_char_def)+

lemma via_plain: "\<not> is_hop_by_hop ''via'' []" "is_hop_by_hop ''connection'' tokens" "is_hop_by_hop ''upgrade'' tokens"
  by (simp_all add: is_hop_by_hop_def HOP_BY_HOP_def to_lower_def lower_char_def is_upper_def)

lemma hop_tokens: "is_hop_by_hop n [] \<Longrightarrow> is_hop_by_hop n tokens"
  by (auto simp: is_hop_by_hop_def)

lemma no_tokens: "hm_get_all X h ''connection'' = [] \<Longrightarrow> connection_tokens X h = []"
  by (simp add: connection_tokens_def text_values_def map_filter_def)

text \<open>What the proxy sends on has no connection of its own to speak of.\<close>

lemma proxied_fields:
  assumes "header_laws (pe_externs P)" "is_name (pe_externs P) n" "n \<noteq> ''via''"
  shows "hm_get_all (pe_externs P) (fq_headers (proxied_fetch P q url body)) n =
     (if n = ''host'' \<or> is_hop_by_hop n (connection_tokens (pe_externs P) (cq_headers q)) then []
      else hm_get_all (pe_externs P) (cq_headers q) n)"
  using assms(3) proxy_names(1) [OF assms(1)]
  by (simp add: proxied_fetch_def append_our_via_def get_all_laws [OF assms(1,2)] forwardable_fields [OF assms(1,2)])

lemma proxied_tokens:
  assumes "header_laws (pe_externs P)"
  shows "connection_tokens (pe_externs P) (fq_headers (proxied_fetch P q url body)) = []"
  by (rule no_tokens) (simp add: proxied_fields [OF assms proxy_names(2) [OF assms]] via_plain)

lemma with_conditional:
  assumes "header_laws X" "conditional_only extra" "is_name X n" "n \<notin> set SET_BY_THE_FETCH"
  shows "hm_get_all X (with_extra X extra h) n = hm_get_all X h n"
proof (rule with_extra_other [OF assms(1,3)])
  show "\<forall>p\<in>set extra. is_name X (fst p) \<and> fst p \<noteq> n"
    using assms(2,4) known_headers(10,11) [OF assms(1)] by (force simp: conditional_only_def SET_BY_THE_FETCH_def)
qed

lemma sent_fields:
  assumes "header_laws (ev_externs E)" "sent_for E q o'" "is_name (ev_externs E) n" "n \<notin> set SET_BY_THE_FETCH"
    and "connection_tokens (ev_externs E) (fq_headers q) = []"
  shows "hm_get_all (ev_externs E) (og_headers o') n =
     (if is_hop_by_hop n [] then [] else hm_get_all (ev_externs E) (fq_headers q) n)"
proof -
  let ?X = "ev_externs E"
  obtain extra where extra: "conditional_only extra"
    and h: "og_headers o' = (case og_transport o' of OverTcp \<Rightarrow> tcp_headers ?X (ev_config E) q extra
      | OverQuic \<Rightarrow> quic_headers ?X (ev_config E) q extra)"
    using assms(2) unfolding sent_for_def by blast
  have n: "n \<noteq> ''user-agent''" "n \<noteq> ''accept-encoding''" "n \<noteq> ''host''" using assms(4) by (auto simp: SET_BY_THE_FETCH_def)
  note laws = get_all_laws [OF assms(1,3)] and names = known_headers(8,9) [OF assms(1)]
    and w = with_conditional [OF assms(1) extra assms(3,4)]
  show ?thesis
  proof (cases "og_transport o'")
    case OverTcp
    have "hm_get_all ?X (og_headers o') n = hm_get_all ?X (with_extra ?X extra (forwarded ?X [] (fq_headers q))) n"
      using OverTcp h n names laws assms(5) by (auto simp: tcp_headers_def Let_def split: option.splits)
    then show ?thesis
      using copied [OF assms(1,3), of "\<lambda>n. is_hop_by_hop n []" "fq_headers q"] by (simp add: w forwarded_def)
  next
    case OverQuic
    let ?skip = "\<lambda>name. is_hop_by_hop name [] \<or> name = ''host''"
    have "fold (\<lambda>(name, value) h. if is_hop_by_hop name [] then h else if name = ''host'' then h
        else hm_append ?X name value h) (hm_iter ?X k) (hm_empty ?X)
      = fold (\<lambda>(name, value) out. if ?skip name then out else hm_append ?X name value out) (hm_iter ?X k) (hm_empty ?X)" for k
      by (intro fold_cong refl) (auto split: prod.splits)
    then have "hm_get_all ?X (og_headers o') n = (if is_hop_by_hop n [] then []
        else hm_get_all ?X (if \<not> asks_for_encoding (ev_config E) q then hm_remove ?X ''accept-encoding'' (with_extra ?X extra (fq_headers q))
          else with_extra ?X extra (fq_headers q)) n)"
      using OverQuic h n copied [OF assms(1,3), of ?skip] by (simp add: quic_headers_def Let_def)
    then show ?thesis using n names laws by (simp add: w)
  qed
qed

lemma read_request_body_whole:
  "read_request_body limit out frames = BodyRead body \<Longrightarrow>
     (length out \<le> limit \<longrightarrow> length body \<le> limit) \<and> (\<exists>chunks. frames = map Inr chunks \<and> body = out @ concat chunks)"
proof (induction limit out frames rule: read_request_body.induct)
  case (1 limit out)
  then show ?case by simp
next
  case (2 limit out err rest)
  then show ?case by simp
next
  case (3 limit out chunk rest)
  then obtain chunks where "length body \<le> limit" "rest = map Inr chunks" "body = (out @ chunk) @ concat chunks"
    by (auto simp: not_less split: if_splits)
  then show ?case by (intro conjI impI exI [of _ "chunk # chunks"]) simp_all
qed


subsection \<open>A tunnel\<close>

text \<open>An address a request of the tunnel may have, and where a WebSocket at an address connects to.\<close>

definition of_tunnel :: "'v proxy_crates \<Rightarrow> string \<Rightarrow> ('h, 'v) client_request \<Rightarrow> string \<Rightarrow> bool" where
  "of_tunnel V origin q url \<longleftrightarrow> url = origin @ path_of V (cq_uri q)
     \<and> (px_authority V (cq_uri q) = None \<or> tunnel_same_origin V (cq_uri q) origin)"

definition connects_to :: "'v proxy_crates \<Rightarrow> string \<Rightarrow> 'h handshake \<Rightarrow> bool" where
  "connects_to V url a \<longleftrightarrow>
     (\<exists>u. px_parse V url = Some u \<and> map_option bare_host (px_host V u) = Some (ha_name a)
        \<and> ha_port a = (case px_port V u of Some p \<Rightarrow> p | None \<Rightarrow> if ha_secure a then 443 else 80)
        \<and> ha_target a = path_of V u)"

lemma target_of_tunnel: "target_url X V q (Some origin) = Inr url \<Longrightarrow> of_tunnel V origin q url"
  by (auto simp: target_url_def of_tunnel_def Let_def split: if_splits)

lemma relayed_url: "relayed P q url o' \<Longrightarrow> og_url o' = url"
  by (auto simp: relayed_def sent_for_def proxied_fetch_def)

lemma asked_connects: "asked_for P q url a \<Longrightarrow> connects_to (pe_crates P) url a"
  unfolding asked_for_def connects_to_def by auto


subsection \<open>Loops\<close>

text \<open>How deep in comments a field ends.\<close>

fun comment_depth :: "nat \<Rightarrow> string \<Rightarrow> nat" where
  "comment_depth depth [] = depth"
| "comment_depth depth (c # s) =
     (if c = CHR ''('' then comment_depth (Suc depth) s
      else if c = CHR '')'' \<and> 0 < depth then comment_depth (depth - 1) s
      else if c = CHR 0x5C \<and> 0 < depth then comment_depth depth (tl s)
      else comment_depth depth s)"

lemma via_entries_append:
  "comment_depth depth s = 0 \<Longrightarrow> \<exists>es e. via_entries_from depth entry (s @ t) = es @ via_entries_from 0 e t"
proof (induction depth entry s rule: via_entries_from.induct)
  case (1 depth entry)
  then show ?case by (intro exI [of _ "[]"] exI [of _ entry]) simp
next
  case (2 depth entry c s)
  show ?case
  proof (cases "c = CHR '','' \<and> depth = 0")
    case True
    then obtain es e where "via_entries_from depth [] (s @ t) = es @ via_entries_from 0 e t" using 2 by auto
    then show ?thesis using True by (intro exI [of _ "entry # es"] exI [of _ e]) simp
  next
    case False
    have "c = CHR 0x5C \<and> 0 < depth \<Longrightarrow> s \<noteq> []" using 2(7) by auto
    then show ?thesis using 2 False by (auto split: if_splits)
  qed
qed

lemma comment_depth_append: "comment_depth depth s = 0 \<Longrightarrow> comment_depth depth (s @ t) = comment_depth 0 t"
proof (induction depth s rule: comment_depth.induct)
  case (2 depth c s)
  have "c = CHR 0x5C \<and> 0 < depth \<Longrightarrow> s \<noteq> []" using 2(5) by auto
  then show ?case using 2 by (auto split: if_splits)
qed simp

lemma our_entry: "entry_names_us ''1.1 syndeo''" "entry_names_us '' 1.1 syndeo''"
  by code_simp+

lemma chain_closed:
  assumes "\<forall>v\<in>set vs. comment_depth 0 v = 0" "comment_depth 0 chain = 0"
  shows "comment_depth 0 (fold (\<lambda>v chain. (if chain = [] then [] else chain @ '', '') @ v) vs chain) = 0"
  using assms by (induction vs arbitrary: chain) (simp_all add: comment_depth_append)

lemma chain_names_us:
  assumes "\<forall>v\<in>set vs. comment_depth 0 v = 0"
  shows "\<exists>entry\<in>set (via_entries (via_chain vs)). entry_names_us entry"
proof -
  define chain where "chain = fold (\<lambda>v chain. (if chain = [] then [] else chain @ '', '') @ v) vs []"
  show ?thesis
  proof (cases "chain = []")
    case True
    then have "via_entries (via_chain vs) = [''1.1 syndeo'']"
      by (simp add: via_chain_def chain_def [symmetric] via_entries_def VIA_PSEUDONYM_def)
    then show ?thesis using our_entry(1) by simp
  next
    case False
    have "comment_depth 0 chain = 0" unfolding chain_def using chain_closed [OF assms, of "[]"] by simp
    from via_entries_append [OF this, of "[]" "'', 1.1 syndeo''"]
    obtain es e where "via_entries (chain @ '', 1.1 syndeo'') = es @ via_entries_from 0 e '', 1.1 syndeo''"
      unfolding via_entries_def by blast
    then have "'' 1.1 syndeo'' \<in> set (via_entries (via_chain vs))"
      using False by (simp add: via_chain_def chain_def [symmetric] VIA_PSEUDONYM_def)
    then show ?thesis using our_entry(2) by blast
  qed
qed

text \<open>
  \<open>HeaderValue\<close>: text reads as itself, and visible ASCII is text and makes a value.
\<close>

definition visible :: "char \<Rightarrow> bool" where
  "visible c \<longleftrightarrow> 32 \<le> (of_char c :: nat) \<and> (of_char c :: nat) \<le> 126 \<or> c = CHR 0x09"

definition header_text_ok :: "('h, 'u) externs \<Rightarrow> 'v proxy_crates \<Rightarrow> bool" where
  "header_text_ok X V \<longleftrightarrow> (\<forall>b. list_all visible b \<longrightarrow> to_str X b = Some b \<and> px_value V b = Some b)"

text \<open>A field another proxy wrote well: text whose comments are closed.\<close>

definition via_sound :: "bytes \<Rightarrow> bool" where
  "via_sound v \<longleftrightarrow> list_all visible v \<and> comment_depth 0 v = 0"

lemma our_via_is_seen:
  assumes "header_laws X" "header_text_ok X V" "\<forall>v\<in>set (hm_get_all X h ''via''). via_sound v"
    and "hm_get_all X h' ''via'' = hm_get_all X (append_our_via X V h) ''via''"
  shows "via_names_us X h'"
proof -
  let ?vias = "hm_get_all X h ''via''"
  have vis: "list_all visible chain \<Longrightarrow> \<forall>v\<in>set vs. list_all visible v \<Longrightarrow>
      list_all visible (fold (\<lambda>v chain. (if chain = [] then [] else chain @ '', '') @ v) vs chain)" for vs chain
    by (induction vs arbitrary: chain) (simp_all add: visible_def)
  have "list_all visible (via_chain ?vias)"
    using vis [of "[]" ?vias] assms(3)
    by (simp add: via_chain_def Let_def via_sound_def VIA_PSEUDONYM_def) (simp add: visible_def)
  then have v: "px_value V (via_chain ?vias) = Some (via_chain ?vias)" "to_str X (via_chain ?vias) = Some (via_chain ?vias)"
    using assms(2) by (auto simp: header_text_ok_def)
  have "hm_get_all X h' ''via'' = [via_chain ?vias]"
    using assms(4) proxy_names(1) [OF assms(1)] v(1)
    by (simp add: append_our_via_def get_all_laws [OF assms(1) proxy_names(1) [OF assms(1)]])
  then have "text_values X h' ''via'' = [via_chain ?vias]"
    using v(2) by (simp add: text_values_def List.map_filter_def)
  then show ?thesis using chain_names_us [of ?vias] assms(3) by (simp add: via_names_us_def via_sound_def)
qed

lemma handshake_fields:
  assumes "header_laws X" "is_name X n"
  shows "hm_get_all X (handshake_headers X V h host) n =
     (if n = ''connection'' then [''Upgrade''] else if n = ''upgrade'' then [''websocket'']
      else if n = ''host'' then [host]
      else if n = ''via'' then hm_get_all X (append_our_via X V (forwardable X h)) n
      else if is_hop_by_hop n (connection_tokens X h) then [] else hm_get_all X h n)"
proof -
  let ?h = "append_our_via X V (forwardable X h)"
  have "hm_get_all X ?h n = hm_get_all X (forwardable X h) n" if "n \<noteq> ''via''"
    using that proxy_names(1) [OF assms(1)] by (simp add: append_our_via_def get_all_laws [OF assms])
  moreover have "hm_get_all X (handshake_headers X V h host) n =
      (if n = ''connection'' then [''Upgrade''] else if n = ''upgrade'' then [''websocket'']
       else if n = ''host'' then [host] else hm_get_all X ?h n)"
    using proxy_names(2,3,4) [OF assms(1)] by (simp add: handshake_headers_def get_all_laws [OF assms])
  ultimately show ?thesis by (simp add: forwardable_fields [OF assms])
qed

text \<open>
  C8: No request goes round. Whatever the proxy sends because of a request, over either
  transport or to open a WebSocket, says so in its \<open>Via\<close>: if it comes back, by whatever name,
  it is answered as a loop, nothing is sent because of it, and it opens no tunnel. The fields
  other proxies wrote are to be text whose comments are closed.
\<close>

theorem loops_are_caught:
  assumes "header_laws (pe_externs P)" and "header_text_ok (pe_externs P) (pe_crates P)"
    and "\<forall>v\<in>set (hm_get_all (pe_externs P) (cq_headers q) ''via''). via_sound v"
    and "forward P q origin s = (s', reply)"
  shows "\<exists>outs asks. ru_sent (ps_run s') = ru_sent (ps_run s) @ outs \<and> ps_asked s' = ps_asked s @ asks
    \<and> (\<forall>q'. cq_headers q' \<in> og_headers ` set outs \<union> ha_headers ` set asks \<longrightarrow>
          forward P q' origin' s2 = (s2, loop_detected (pe_externs P)) \<and> snd (connect P q') = None)"
proof -
  let ?X = "pe_externs P" and ?V = "pe_crates P"
  note via = proxy_names(1) [OF assms(1)]
  obtain outs asks where sent: "ru_sent (ps_run s') = ru_sent (ps_run s) @ outs" "ps_asked s' = ps_asked s @ asks"
    and outs: "\<forall>o'\<in>set outs. \<exists>url. relayed P q url o'" and asks: "\<forall>a\<in>set asks. \<exists>url. asked_for P q url a"
    using forward_sends [OF assms(1,4)] unfolding sends_for_def by blast
  have sound: "\<forall>v\<in>set (hm_get_all ?X (forwardable ?X (cq_headers q)) ''via''). via_sound v"
    using assms(3) by (simp add: forwardable_fields [OF assms(1) via])
  note seen = our_via_is_seen [OF assms(1,2) sound]
  have outs_seen: "via_names_us ?X (og_headers o')" if o': "o' \<in> set outs" for o'
  proof (rule seen)
    obtain url body where f: "sent_for (pe_net P) (proxied_fetch P q url body) o'"
      using outs o' unfolding relayed_def by blast
    have "''via'' \<notin> set SET_BY_THE_FETCH" by (simp add: SET_BY_THE_FETCH_def)
    then show "hm_get_all ?X (og_headers o') ''via'' = hm_get_all ?X (append_our_via ?X ?V (forwardable ?X (cq_headers q))) ''via''"
      using sent_fields [OF assms(1) f via _ proxied_tokens [OF assms(1)]] via_plain(1) by (simp add: proxied_fetch_def)
  qed
  have asks_seen: "via_names_us ?X (ha_headers a)" if a: "a \<in> set asks" for a
  proof (rule seen)
    obtain hv where "ha_headers a = handshake_headers ?X ?V (cq_headers q) hv"
      using asks a unfolding asked_for_def by blast
    then show "hm_get_all ?X (ha_headers a) ''via'' = hm_get_all ?X (append_our_via ?X ?V (forwardable ?X (cq_headers q))) ''via''"
      by (simp add: handshake_fields [OF assms(1) via])
  qed
  have caught: "forward P q' origin' s2 = (s2, loop_detected ?X) \<and> snd (connect P q') = None"
    if "via_names_us ?X (cq_headers q')" for q'
    using that by (auto simp: forward_def connect_def Let_def split: option.splits)
  show ?thesis
    by (intro exI [of _ outs] exI [of _ asks] conjI [OF sent(1)] conjI [OF sent(2)] allI impI caught)
      (use outs_seen asks_seen in auto)
qed

text \<open>A field with an open comment hides the entry after it: such a request is not seen again.\<close>

lemma open_comment_hides_us:
  "\<not> via_names_us demo (append_our_via demo demo_proxy_crates [(''via'', ''1.0 x (y'')])"
proof -
  have chain: "via_chain [''1.0 x (y''] = ''1.0 x (y, 1.1 syndeo''" by (simp add: via_chain_def VIA_PSEUDONYM_def)
  have "\<not> (\<exists>entry\<in>set (via_entries ''1.0 x (y, 1.1 syndeo''). entry_names_us entry)" by code_simp
  then show ?thesis
    by (simp add: via_names_us_def text_values_def append_our_via_def demo_def demo_proxy_crates_def chain
        List.map_filter_def Let_def)
qed

text \<open>The target \<open>*\<close> is no path: what it is put after names another host.\<close>

lemma star_leaves_the_tunnel:
  "target_url demo demo_proxy_crates (demo_client ''*'') (Some ''http://a.test'') = Inr ''http://a.test*''
   \<and> px_host demo_proxy_crates ''http://a.test*'' = Some ''a.test*''"
  by (simp add: target_url_def demo_client_def demo_proxy_crates_def Let_def path_of_def starts_with_def)

subsection \<open>WebSockets\<close>


subsection \<open>Instances\<close>

lemma demo_proxy_parts:
  "pe_externs demo_proxy = demo" "pe_crates demo_proxy = demo_proxy_crates" "header_laws (pe_externs demo_proxy)"
  by (simp_all add: demo_proxy_def demo_externs demo_header_laws)

lemma demo_text_ok: "header_text_ok demo demo_proxy_crates"
  by (simp add: header_text_ok_def demo_def demo_proxy_crates_def Let_def)



theorem loops_are_caught_witness:
  "\<exists>s' reply outs. forward demo_proxy ((demo_client ''http://a.test/x'')\<lparr>cq_headers := [(''via'', ''1.1 other (a, b)'')]\<rparr>)
       None demo_proxy_state = (s', reply)
     \<and> ru_sent (ps_run s') = outs
     \<and> (\<forall>o'\<in>set outs. forward demo_proxy ((demo_client ''/x'')\<lparr>cq_headers := og_headers o'\<rparr>) (Some ''http://b.test'') s'
          = (s', loop_detected demo))"
proof -
  let ?q = "(demo_client ''http://a.test/x'')\<lparr>cq_headers := [(''via'', ''1.1 other (a, b)'')]\<rparr>"
  obtain s' reply where f: "forward demo_proxy ?q None demo_proxy_state = (s', reply)" by fastforce
  have "via_sound ''1.1 other (a, b)''" by code_simp
  then have sound: "\<forall>v\<in>set (hm_get_all (pe_externs demo_proxy) (cq_headers ?q) ''via''). via_sound v"
    by (simp add: demo_proxy_parts(1) demo_def)
  have "header_text_ok (pe_externs demo_proxy) (pe_crates demo_proxy)" using demo_text_ok by (simp add: demo_proxy_parts(1,2))
  from loops_are_caught [OF demo_proxy_parts(3) this sound f, of "Some ''http://b.test''" s']
  show ?thesis using f by (auto simp: demo_proxy_parts(1) demo_proxy_state_def demo_run_def)
qed

text \<open>A handshake whose key is 16 bytes of the instance's base64, to an origin that refuses it.\<close>

definition demo_key :: string where
  "demo_key = b64_encode demo (replicate 16 (CHR ''k''))"

definition demo_socket :: "((string \<times> bytes) list, string) client_request" where
  "demo_socket = (demo_client ''http://a.test/x'')\<lparr>cq_headers :=
     [(''upgrade'', ''websocket''), (''connection'', ''Upgrade''), (''sec-websocket-key'', demo_key),
      (''sec-websocket-version'', ''13'')]\<rparr>"

lemma demo_key_hex: "demo_key = concat (replicate 16 ''6b'')"
  by code_simp

lemma demo_upgrade: "upgrade_of demo (cq_method demo_socket) (cq_version demo_socket) (cq_headers demo_socket) = WebSocket demo_key"
proof -
  have key: "handshake_key demo (cq_headers demo_socket) = Some demo_key"
    unfolding demo_socket_def demo_key_hex by code_simp
  have "list_ex (names_websocket demo) [''websocket'']" "says_websocket demo ''websocket''"
    "''upgrade'' \<in> set (comma_fields ''Upgrade'')" "trim ''13'' = ''13''" by code_simp+
  then show ?thesis using key
    by (simp add: upgrade_of_def Let_def) (simp add: demo_socket_def demo_client_def demo_def connection_tokens_def
      text_values_def List.map_filter_def)
qed


end
