(* ===== verification/Spec2Isabelle.thy ===== *)
theory Spec2Isabelle
  imports Prelude Externals Headers Errors Vary Range Sri Binary64 Policy Blob Index
    Cache_Read Cache_Write Serving Storing Store_Lookup Budget Partial
    Lookahead Scanning Tags Page_Budget Page_Work Keystore_Safety Prompt Shell Reach Wire
    Net_Redirects Net_Gate Net_Service Proxy_Loops
begin

text \<open>
  Syndeo is a browser split into processes that do not trust each other. This development models
  the parts that decide something: the HTTP cache, the fetcher that fills it, the proxy a browser
  reaches it through, the budget on parsing a page, and the keystore with the shell that stands
  between it and the agent. It says what each promises, and proves it of definitions translated
  from the Rust sources.

  The parts and how they meet. The network process fetches for the others: a request comes in
  over a socket as a frame (\<open>syndeo-ipc\<close>), or from a browser through the proxy
  (\<open>syndeo-proxy\<close>); the fetcher (\<open>syndeo-net\<close>) asks the cache (\<open>syndeo-cache\<close>), and revalidates or
  asks a peer or the origin when the cache cannot answer; what arrives streams into the cache
  while it streams out. A page is parsed by html5ever under a budget (\<open>syndeo-dom\<close>). An agent
  asks the shell (\<open>syndeo-shell\<close>) for an identity or a signature; the shell asks the person at
  the terminal, mints a confirmation, and calls the keystore (\<open>syndeo-keystore\<close>), which holds
  the seed and signs only what a confirmation covers.

  Theories and the files they model.

  \<^item> \<open>Prelude\<close>: bytes, strings and the operations of Rust's standard library the sources
    use, 64-bit arithmetic, tables as association lists, and the locale \<open>machine\<close> of operations
    that keep an invariant. \<open>Utf8\<close>: \<open>str\<close> as scalar values. \<open>Binary64\<close>: \<open>f64\<close> as rationals
    rounded to even. \<open>Std_Net\<close>: how \<open>std::net\<close> reads an address.
  \<^item> \<open>Externals\<close>: the crates the cache calls (\<open>http\<close>, \<open>url\<close>, \<open>httpdate\<close>, \<open>blake3\<close>, \<open>sha2\<close>,
    \<open>base64\<close>, \<open>zstd\<close>, \<open>bincode\<close>) as one record of functions, the behaviour the code relies on
    as named predicates (\<open>header_laws\<close>, \<open>b64_ok\<close>, \<open>zstd_ok\<close> and others), and an instance of the
    record, \<open>demo\<close>, on which those predicates are proved and the witnesses are evaluated.
  \<^item> \<open>Headers\<close>, \<open>Errors\<close>, \<open>Vary\<close>, \<open>Range\<close>, \<open>Sri\<close>, \<open>Policy\<close>, \<open>Blob\<close>, \<open>Index\<close>, \<open>Stats\<close>: the
    files of \<open>crates/syndeo-cache/src\<close> with those names. \<open>Cache_Read\<close> and \<open>Cache_Write\<close>:
    \<open>cache.rs\<close>, a cache being its index, its file system and its settings. \<open>Blob\<close> gives a write
    also as its sequence of file operations, so that one cut short can be stated; the locale
    \<open>body_store\<close> is the contract the cache relies on, interpreted on it, as \<open>coverage\<close> is on
    \<open>Range\<close>.
  \<^item> \<open>Storing\<close>, \<open>Serving\<close>, \<open>Store_Lookup\<close>, \<open>Budget\<close>, \<open>Partial\<close>: what the cache promises. Its
    invariant (exact reference counts, files that decode to their address, a file for every body
    an entry names) is kept by every operation, the operations being one \<open>machine\<close>; what a
    request is answered with is its own entry's and byte for byte the stored representation;
    ranges accumulate as a set of bytes; the budget is enforced in the order of eviction.
  \<^item> \<open>Lookahead\<close>, \<open>Scanning\<close>, \<open>Tags\<close>, \<open>Page_Budget\<close>, \<open>Page_Work\<close>: \<open>budget.rs\<close> of
    \<open>crates/syndeo-dom/src\<close>. The lookahead is a tokenizer of its own, one function per state;
    html5ever is a parameter, an interpreter of what it is fed that calls the sink.
  \<^item> \<open>Confirm\<close>, \<open>Wire\<close>: \<open>confirm.rs\<close>, and \<open>frame.rs\<close> with \<open>protocol.rs\<close>, of
    \<open>crates/syndeo-ipc/src\<close>: confirmations, frames, base64 and the reassembly of a fetch.
  \<^item> \<open>Derive\<close>, \<open>Seal\<close>, \<open>Keystore\<close>, \<open>Keystore_Demo\<close>, \<open>Keystore_Safety\<close>: \<open>derive.rs\<close>, \<open>address.rs\<close>,
    \<open>seal.rs\<close>, \<open>idle.rs\<close>, \<open>presence.rs\<close>, \<open>keystore.rs\<close> and \<open>service.rs\<close> of
    \<open>crates/syndeo-keystore/src\<close>. The state is the session, the files, the stored wrapping key
    and the confirmations used.
  \<^item> \<open>Prompt\<close>, \<open>Shell\<close>: \<open>prompt.rs\<close>, \<open>service.rs\<close> and \<open>signing.rs\<close> of \<open>crates/syndeo-shell/src\<close>:
    what is shown to the person, and every request of the agent, run against the model of the
    keystore itself.
  \<^item> \<open>Reach\<close>, \<open>Fetch\<close>, \<open>Http3\<close>, \<open>Net\<close>: \<open>reach.rs\<close>, \<open>fetch.rs\<close>, \<open>h3.rs\<close>, \<open>body.rs\<close>, \<open>error.rs\<close>
    and \<open>config.rs\<close> of \<open>crates/syndeo-net/src\<close>. A fetch takes and returns the state all tasks
    share, and a log of what it sent. The environment gives what the network answers each
    request, and at each wait changes the shared state as it likes, so that what holds in every
    environment holds in every interleaving of tasks. \<open>Net_Integrity\<close>, \<open>Net_Redirects\<close>,
    \<open>Net_Gate\<close>, \<open>Net_Stream\<close> hold its properties; the locale \<open>store_gate\<close> is the one argument
    for everything that keeps an answer out of the store. \<open>Net_Service\<close>: \<open>service.rs\<close>, the fetch
    answered in frames over a socket that may break anywhere, joined with what \<open>Wire\<close> reads.
  \<^item> \<open>Proxy\<close>: \<open>main.rs\<close>, \<open>auth.rs\<close>, \<open>refusals.rs\<close>, \<open>stats.rs\<close> and \<open>websocket.rs\<close> of
    \<open>crates/syndeo-proxy/src\<close>. \<open>Proxy_Commands\<close> and \<open>Proxy_Loops\<close> hold its properties.

  Conventions. A fallible function returns a sum, \<open>Inl\<close> its error. A byte is a \<open>char\<close>, a body a
  list of them, and a \<open>&str\<close> its UTF-8 bytes; \<open>u64\<close> arithmetic is on \<open>nat\<close> with the wrap-around or
  saturation of the source written out (\<open>wrap64\<close>, \<open>sat_add\<close>). A clock, a random number and what
  the operating system answers are arguments. A transaction of the index is one function; every
  other interleaving the code allows is explicit: file operations one by one in \<open>Blob\<close>, waits in
  \<open>Net\<close>, requests in any order in \<open>Keystore_Safety\<close> and \<open>Storing\<close>.

  Termination and bounds. A loop is a total function, but for three of the page parser, which may
  not end for every html5ever and every tree: they are partial functions, and \<open>Page_Work\<close> shows
  that they return. \<open>next_tag_returns\<close> bounds the turns of the scanner by three for each
  character left and three more; the redirect loop is bounded by the limit in the configuration;
  the reader of commands consumes input at every turn. The limits the code sets (frames, bodies,
  prompts, the page budget, lines of commands, hosts said) are its own constants.

  Witnesses. A property with a hypothesis is followed by a theorem that applies it at a concrete
  input, built on the \<open>demo\<close> instances.

  Not modelled. Rendering and windows (\<open>syndeo-app\<close>, \<open>syndeo-ui\<close>, \<open>syndeo-servo\<close>,
  \<open>syndeo-webkit\<close>), the peer swarm over libp2p, the hosting of WebAssembly agents, process
  supervision, command lines, certificates, key custody in the operating system and resolver
  configuration: they are calls to libraries and to the system with little of their own to
  decide. The bincode rows, the database file, fsync and directory permissions have no state in
  the model; logging is left out throughout. Within the cache, the lock between a store and a
  delete is taken to make each operation whole; panics of libraries are not modelled, and
  arithmetic that would overflow in a debug build wraps as in a release build.
\<close>

end
